(* ===== verification/C_Prelude.thy ===== *)
theory C_Prelude
  imports Main "HOL-Library.Word" "HOL-Library.Monad_Syntax"
begin

text \<open>
  Shared ground of the development: how C values, C arrays and C's undefined behaviour
  appear in the model.

  \<^item> An operation that can run into undefined behaviour (a dereference of a pointer that is
    not allocated, an index outside an array, a signed overflow, a division by zero) has a
    result of type \<open>'a option\<close>; \<^const>\<open>None\<close> is that undefined behaviour. An error the C code
    reports itself is an ordinary value, usually the int \<open>-1\<close>.
  \<^item> A C \<open>int\<close> is an \<^typ>\<open>int\<close> kept in range by \<open>cint\<close>, or a \<^typ>\<open>32 word\<close> read by
    \<^const>\<open>sint\<close> where the code converts between signed and unsigned.
  \<^item> An address is a natural number and \<open>NULL\<close> is 0.
\<close>

unbundle bit_operations_syntax

named_theorems cint_simps
named_theorems mem_simps

type_synonym addr = nat
type_synonym u8 = "8 word"
type_synonym u32 = "32 word"
type_synonym u64 = "64 word"

abbreviation NULL :: addr where
  "NULL \<equiv> 0"


section \<open>Signed integers\<close>

definition INT_MAX :: int where
  "INT_MAX = 2147483647"

definition INT_MIN :: int where
  "INT_MIN = - 2147483648"

definition int_ok :: "int \<Rightarrow> bool" where
  "int_ok x \<longleftrightarrow> INT_MIN \<le> x \<and> x \<le> INT_MAX"

definition cint :: "int \<Rightarrow> int option" where
  "cint x = (if int_ok x then Some x else None)"

lemmas int_limits = INT_MAX_def INT_MIN_def

lemma cint_eq_Some [cint_simps]: "cint x = Some y \<longleftrightarrow> int_ok x \<and> y = x"
  by (auto simp: cint_def)

lemma cint_eq_None [cint_simps]: "cint x = None \<longleftrightarrow> \<not> int_ok x"
  by (simp add: cint_def)

lemma cint_ok [simp]: "int_ok x \<Longrightarrow> cint x = Some x"
  by (simp add: cint_def)

lemma int_ok_iff [cint_simps]: "int_ok x \<longleftrightarrow> - 2147483648 \<le> x \<and> x \<le> 2147483647"
  by (simp add: int_ok_def int_limits)

lemma int_ok_mono: "int_ok a \<Longrightarrow> int_ok b \<Longrightarrow> a \<le> x \<Longrightarrow> x \<le> b \<Longrightarrow> int_ok x"
  by (simp add: cint_simps)


section \<open>Arrays\<close>

definition array_get :: "'a list \<Rightarrow> int \<Rightarrow> 'a option" where
  "array_get xs i = (if 0 \<le> i \<and> i < int (length xs) then Some (xs ! nat i) else None)"

definition array_set :: "'a list \<Rightarrow> int \<Rightarrow> 'a \<Rightarrow> 'a list option" where
  "array_set xs i v = (if 0 \<le> i \<and> i < int (length xs) then Some (xs[nat i := v]) else None)"

lemma array_get_eq_Some [mem_simps]:
  "array_get xs i = Some v \<longleftrightarrow> 0 \<le> i \<and> i < int (length xs) \<and> v = xs ! nat i"
  by (auto simp: array_get_def)

lemma array_get_eq_None [mem_simps]:
  "array_get xs i = None \<longleftrightarrow> i < 0 \<or> int (length xs) \<le> i"
  by (auto simp: array_get_def)

lemma array_set_eq_Some [mem_simps]:
  "array_set xs i v = Some ys \<longleftrightarrow> 0 \<le> i \<and> i < int (length xs) \<and> ys = xs[nat i := v]"
  by (auto simp: array_set_def)

lemma array_set_eq_None [mem_simps]:
  "array_set xs i v = None \<longleftrightarrow> i < 0 \<or> int (length xs) \<le> i"
  by (auto simp: array_set_def)

lemma array_get_nat [simp]: "i < length xs \<Longrightarrow> array_get xs (int i) = Some (xs ! i)"
  by (simp add: array_get_def)

lemma array_set_nat [simp]: "i < length xs \<Longrightarrow> array_set xs (int i) v = Some (xs[i := v])"
  by (simp add: array_set_def)

lemma array_set_length: "array_set xs i v = Some ys \<Longrightarrow> length ys = length xs"
  by (auto simp: mem_simps)


section \<open>Words as natural numbers\<close>

lemma unat_of_nat_u32: "x < 2 ^ 32 \<Longrightarrow> unat (of_nat x :: u32) = x"
  by (simp add: unsigned_of_nat take_bit_nat_eq_self)

lemma unat_mult_u32: "unat a * unat b < 2 ^ 32 \<Longrightarrow> unat (a * b :: u32) = unat a * unat b"
  by (simp add: unat_word_ariths)

lemma unat_u32_less: "unat (a :: u32) < 2 ^ 32"
  using unsigned_less [of a] by simp

lemma of_nat_unat_u32: "(of_nat (unat (a :: u32)) :: u64) = ucast a"
  by simp

lemma mask_byte: "(x :: u32) AND 0xff = take_bit 8 x"
  by (simp add: take_bit_eq_mask mask_eq_exp_minus_1)


section \<open>Descriptors\<close>

text \<open>How the kernel chooses a new descriptor when those of a set are open, and a kernel that takes the one after the highest.\<close>

definition fd_choice :: "(int set \<Rightarrow> int) \<Rightarrow> bool" where
  "fd_choice alloc \<longleftrightarrow> (\<forall>S. finite S \<longrightarrow> 0 \<le> alloc S \<and> alloc S \<notin> S)"

definition demo_alloc :: "int set \<Rightarrow> int" where
  "demo_alloc S = (if finite S then Max (insert 0 S) + 1 else 0)"

lemma demo_alloc_choice: "fd_choice demo_alloc"
  unfolding fd_choice_def
proof (intro allI impI)
  fix S :: "int set" assume fin: "finite S"
  then have "x < demo_alloc S" if "x \<in> insert 0 S" for x
    using Max_ge [of "insert 0 S" x] that by (simp add: demo_alloc_def)
  then show "0 \<le> demo_alloc S \<and> demo_alloc S \<notin> S" by (meson insertCI less_imp_le less_irrefl)
qed

end
