(* ===== verification/List_Heap.thy ===== *)
theory List_Heap
  imports C_Prelude
begin

text \<open>
  The memory under the two intrusive list headers, \<^verbatim>\<open>linux/utils/include/list.h\<close> and
  \<^verbatim>\<open>list/klist.h\<close>: a partial map from addresses to \<open>struct list_head\<close>. Reading or writing a
  field of an address that holds no \<open>list_head\<close> is undefined behaviour. A circular list with
  sentinel \<open>hp\<close> and nodes \<open>xs\<close> is the ring \<open>hp # xs @ [hp]\<close>; \<open>links\<close> says that consecutive
  nodes of a path point at each other, and the lemmas below say what one pointer update keeps
  of a path.
\<close>

section \<open>Memory\<close>

record list_head =
  lh_next :: addr
  lh_prev :: addr

type_synonym lheap = "addr \<Rightarrow> list_head option"

definition get_next :: "addr \<Rightarrow> lheap \<Rightarrow> addr option" where
  "get_next p h = map_option lh_next (h p)"

definition get_prev :: "addr \<Rightarrow> lheap \<Rightarrow> addr option" where
  "get_prev p h = map_option lh_prev (h p)"

definition upd_next :: "addr \<Rightarrow> addr \<Rightarrow> lheap \<Rightarrow> lheap" where
  "upd_next p v h = h(p := map_option (\<lambda>n. n\<lparr>lh_next := v\<rparr>) (h p))"

definition upd_prev :: "addr \<Rightarrow> addr \<Rightarrow> lheap \<Rightarrow> lheap" where
  "upd_prev p v h = h(p := map_option (\<lambda>n. n\<lparr>lh_prev := v\<rparr>) (h p))"

definition set_next :: "addr \<Rightarrow> addr \<Rightarrow> lheap \<Rightarrow> lheap option" where
  "set_next p v h = (if h p = None then None else Some (upd_next p v h))"

definition set_prev :: "addr \<Rightarrow> addr \<Rightarrow> lheap \<Rightarrow> lheap option" where
  "set_prev p v h = (if h p = None then None else Some (upd_prev p v h))"

definition same_outside :: "addr set \<Rightarrow> lheap \<Rightarrow> lheap \<Rightarrow> bool" where
  "same_outside A h h' \<longleftrightarrow> dom h' = dom h \<and> (\<forall>p. p \<notin> A \<longrightarrow> h' p = h p)"


section \<open>Paths and rings\<close>

fun links :: "lheap \<Rightarrow> addr list \<Rightarrow> bool" where
  "links h (x # y # zs) \<longleftrightarrow> get_next x h = Some y \<and> get_prev y h = Some x \<and> links h (y # zs)"
| "links h _ \<longleftrightarrow> True"

definition dlist :: "lheap \<Rightarrow> addr \<Rightarrow> addr list \<Rightarrow> bool" where
  "dlist h hp xs \<longleftrightarrow> links h (hp # xs @ [hp]) \<and> distinct (hp # xs)"

definition ring_path :: "addr list \<Rightarrow> bool" where
  "ring_path zs \<longleftrightarrow> distinct (butlast zs) \<and> distinct (tl zs)"


section \<open>Reads and updates\<close>

lemma upd_None [mem_simps]: "upd_next p v h q = None \<longleftrightarrow> h q = None" "upd_prev p v h q = None \<longleftrightarrow> h q = None"
  by (auto simp: upd_next_def upd_prev_def)

lemma upd_dom [mem_simps]: "dom (upd_next p v h) = dom h" "dom (upd_prev p v h) = dom h"
  by (auto simp: upd_next_def upd_prev_def split: if_splits)

lemma get_next_upd [mem_simps]:
  "get_next q (upd_next p v h) = (if q = p \<and> h p \<noteq> None then Some v else get_next q h)"
  "get_next q (upd_prev p v h) = get_next q h"
  by (auto simp: get_next_def upd_next_def upd_prev_def option.map_comp o_def)

lemma get_prev_upd [mem_simps]:
  "get_prev q (upd_prev p v h) = (if q = p \<and> h p \<noteq> None then Some v else get_prev q h)"
  "get_prev q (upd_next p v h) = get_prev q h"
  by (auto simp: get_prev_def upd_next_def upd_prev_def option.map_comp o_def)

lemma upd_other [mem_simps]: "q \<noteq> p \<Longrightarrow> upd_next p v h q = h q" "q \<noteq> p \<Longrightarrow> upd_prev p v h q = h q"
  by (auto simp: upd_next_def upd_prev_def)

lemma get_next_alloc: "get_next p h = Some v \<Longrightarrow> h p \<noteq> None"
  by (auto simp: get_next_def)

lemma get_prev_alloc: "get_prev p h = Some v \<Longrightarrow> h p \<noteq> None"
  by (auto simp: get_prev_def)

lemma get_eq_None [mem_simps]: "get_next p h = None \<longleftrightarrow> h p = None" "get_prev p h = None \<longleftrightarrow> h p = None"
  by (auto simp: get_next_def get_prev_def)

lemma same_outside_refl [simp, intro]: "same_outside A h h"
  by (simp add: same_outside_def)

lemma same_outside_trans:
  "same_outside A h h' \<Longrightarrow> same_outside B h' h'' \<Longrightarrow> same_outside (A \<union> B) h h''"
  by (auto simp: same_outside_def)

lemma same_outside_mono: "same_outside A h h' \<Longrightarrow> A \<subseteq> B \<Longrightarrow> same_outside B h h'"
  by (auto simp: same_outside_def)

lemma same_outside_upd:
  "same_outside A h h' \<Longrightarrow> p \<in> A \<Longrightarrow> same_outside A h (upd_next p v h')"
  "same_outside A h h' \<Longrightarrow> p \<in> A \<Longrightarrow> same_outside A h (upd_prev p v h')"
  unfolding same_outside_def by (metis upd_dom upd_other)+

lemma same_outside_get:
  "same_outside A h h' \<Longrightarrow> p \<notin> A \<Longrightarrow> get_next p h' = get_next p h \<and> get_prev p h' = get_prev p h"
  by (simp add: same_outside_def get_next_def get_prev_def)


section \<open>Paths under updates\<close>

lemma links_cong:
  assumes "\<forall>p \<in> set (butlast zs). get_next p h' = get_next p h"
    and "\<forall>p \<in> set (tl zs). get_prev p h' = get_prev p h"
  shows "links h' zs = links h zs"
  using assms by (induction h zs rule: links.induct) auto

lemma links_append:
  "links h (us @ p # vs) \<longleftrightarrow> links h (us @ [p]) \<and> links h (p # vs)"
proof (induction us)
  case (Cons u us)
  then show ?case by (cases us) auto
qed simp

lemma links_append2:
  "links h (us @ p # n # vs) \<longleftrightarrow>
     links h (us @ [p]) \<and> get_next p h = Some n \<and> get_prev n h = Some p \<and> links h (n # vs)"
  by (subst links_append) simp

lemma links_join:
  assumes "xs \<noteq> []" "zs \<noteq> []"
  shows "links h (xs @ zs) \<longleftrightarrow>
     links h xs \<and> get_next (last xs) h = Some (hd zs) \<and> get_prev (hd zs) h = Some (last xs) \<and> links h zs"
proof -
  have "links h (butlast xs @ last xs # hd zs # tl zs) \<longleftrightarrow>
      links h (butlast xs @ [last xs]) \<and> get_next (last xs) h = Some (hd zs) \<and>
      get_prev (hd zs) h = Some (last xs) \<and> links h (hd zs # tl zs)"
    by (rule links_append2)
  moreover have "butlast xs @ last xs # hd zs # tl zs = xs @ zs" "butlast xs @ [last xs] = xs" "hd zs # tl zs = zs"
    using assms by (metis append.assoc append_Cons append_Nil append_butlast_last_id list.collapse)+
  ultimately show ?thesis by (simp only:)
qed

lemma links_alloc: "links h zs \<Longrightarrow> 2 \<le> length zs \<Longrightarrow> p \<in> set zs \<Longrightarrow> h p \<noteq> None"
proof (induction h zs rule: links.induct)
  case (1 h x y zs)
  then show ?case by (cases zs) (auto dest: get_next_alloc get_prev_alloc)
qed auto

lemma dlist_alloc: "dlist h hp xs \<Longrightarrow> p \<in> set (hp # xs) \<Longrightarrow> h p \<noteq> None"
  unfolding dlist_def by (auto dest!: links_alloc [where p = p])

lemma dlist_ring_path: "dlist h hp xs \<Longrightarrow> ring_path (hp # xs @ [hp])"
  by (auto simp: dlist_def ring_path_def butlast_append)

lemma dlist_cong:
  assumes "\<forall>p \<in> set (hp # xs). h' p = h p"
  shows "dlist h' hp xs = dlist h hp xs"
proof -
  have "links h' (hp # xs @ [hp]) = links h (hp # xs @ [hp])"
    using assms by (intro links_cong) (auto simp: butlast_append get_next_def get_prev_def)
  then show ?thesis by (simp add: dlist_def)
qed

lemma dlist_frame:
  assumes "dlist h hp xs" "same_outside A h h'" "A \<inter> set (hp # xs) = {}"
  shows "dlist h' hp xs"
  using assms dlist_cong [of hp xs h' h] unfolding same_outside_def by blast

lemma dlist_Nil [simp]: "dlist h hp [] \<longleftrightarrow> get_next hp h = Some hp \<and> get_prev hp h = Some hp"
  by (simp add: dlist_def)

lemma dlist_first: "dlist h hp xs \<Longrightarrow> get_next hp h = Some (case xs of [] \<Rightarrow> hp | x # _ \<Rightarrow> x)"
  by (cases xs) (auto simp: dlist_def)

lemma dlist_last: "dlist h hp xs \<Longrightarrow> get_prev hp h = Some (last (hp # xs))"
  using links_append2 [of h "hp # butlast xs" "last xs" hp "[]"]
  by (cases xs rule: rev_cases) (auto simp: dlist_def)

text \<open>Linking a new node between two neighbours of a ring, and unlinking one.\<close>

definition link_between :: "addr \<Rightarrow> addr \<Rightarrow> addr \<Rightarrow> lheap \<Rightarrow> lheap" where
  "link_between x p n h = upd_next p x (upd_prev x p (upd_next x n (upd_prev n x h)))"

definition unlink_between :: "addr \<Rightarrow> addr \<Rightarrow> lheap \<Rightarrow> lheap" where
  "unlink_between p n h = upd_next p n (upd_prev n p h)"

lemma link_between_outside: "same_outside {x, p, n} h (link_between x p n h)"
  unfolding link_between_def by (intro same_outside_upd same_outside_refl) auto

lemma unlink_between_outside: "same_outside {p, n} h (unlink_between p n h)"
  unfolding unlink_between_def by (intro same_outside_upd same_outside_refl) auto

lemma links_link_between:
  assumes "links h (us @ p # n # vs)" and "ring_path (us @ p # n # vs)"
    and "x \<notin> set (us @ p # n # vs)" and "h x \<noteq> None"
  shows "links (link_between x p n h) (us @ p # x # n # vs)"
proof -
  let ?h = "link_between x p n h"
  have l: "links h (us @ [p])" "links h (n # vs)" and pn: "h p \<noteq> None" "h n \<noteq> None"
    using assms(1) by (auto simp: links_append2 dest: get_next_alloc get_prev_alloc)
  have d: "p \<notin> set us" "p \<notin> set (butlast (n # vs))" "n \<notin> set (tl (us @ [p]))" "n \<notin> set vs"
    using assms(2) by (cases us; auto simp: ring_path_def butlast_append)+
  have "links ?h (us @ [p]) = links h (us @ [p])"
    using d assms(3) by (intro links_cong)
      (auto simp: link_between_def mem_simps dest: in_set_butlastD list.set_sel(2) [rotated])
  moreover have "links ?h (n # vs) = links h (n # vs)"
    using d assms(3) by (intro links_cong)
      (auto simp: link_between_def mem_simps dest: in_set_butlastD)
  moreover have "get_next p ?h = Some x" "get_next x ?h = Some n" "get_prev x ?h = Some p" "get_prev n ?h = Some x"
    using assms(3,4) pn by (auto simp: link_between_def mem_simps)
  ultimately show ?thesis using l by (simp add: links_append2)
qed

lemma links_unlink_between:
  assumes "links h (us @ p # x # n # vs)" and "ring_path (us @ p # x # n # vs)"
  shows "links (unlink_between p n h) (us @ p # n # vs)"
proof -
  let ?h = "unlink_between p n h"
  have l: "links h (us @ [p])" "links h (n # vs)" and pn: "h p \<noteq> None" "h n \<noteq> None"
    using assms(1) by (auto simp: links_append2 dest: get_next_alloc get_prev_alloc)
  have d: "p \<notin> set us" "p \<notin> set (butlast (n # vs))" "n \<notin> set (tl (us @ [p]))" "n \<notin> set vs"
    using assms(2) by (cases us; auto simp: ring_path_def butlast_append)+
  have "links ?h (us @ [p]) = links h (us @ [p])"
    using d by (intro links_cong) (auto simp: unlink_between_def mem_simps dest: in_set_butlastD)
  moreover have "links ?h (n # vs) = links h (n # vs)"
    using d by (intro links_cong) (auto simp: unlink_between_def mem_simps dest: in_set_butlastD)
  ultimately show ?thesis using l pn by (simp add: links_append2 unlink_between_def mem_simps)
qed

lemma ring_split:
  "butlast (hp # xs) @ last (hp # xs) # ws @ hd (ys @ [hp]) # tl (ys @ [hp]) = hp # xs @ ws @ ys @ [hp]"
proof -
  have "hd (ys @ [hp]) # tl (ys @ [hp]) = ys @ [hp]" by simp
  moreover have "butlast (hp # xs) @ last (hp # xs) # zs = hp # xs @ zs" for zs
    by (metis append.assoc append_Cons append_Nil append_butlast_last_id list.distinct(1))
  ultimately show ?thesis by simp
qed

lemma dlist_neighbours:
  assumes "dlist h hp (xs @ x # ys)"
  shows "get_prev x h = Some (last (hp # xs))" and "get_next x h = Some (hd (ys @ [hp]))"
proof -
  let ?ring = "butlast (hp # xs) @ last (hp # xs) # x # hd (ys @ [hp]) # tl (ys @ [hp])"
  have "?ring = hp # (xs @ x # ys) @ [hp]"
    using ring_split [of hp xs "[x]" ys] by simp
  then have "links h ?ring"
    using assms by (simp only: dlist_def)
  then show "get_prev x h = Some (last (hp # xs))" and "get_next x h = Some (hd (ys @ [hp]))"
    by (simp_all only: links_append2 links.simps)
qed

lemma dlist_link_between:
  assumes "dlist h hp (xs @ ys)" and "x \<notin> set (hp # xs @ ys)" and "h x \<noteq> None"
  shows "dlist (link_between x (last (hp # xs)) (hd (ys @ [hp])) h) hp (xs @ x # ys)"
proof -
  let ?us = "butlast (hp # xs)" and ?p = "last (hp # xs)" and ?n = "hd (ys @ [hp])" and ?vs = "tl (ys @ [hp])"
  have split: "?us @ ?p # ?n # ?vs = hp # (xs @ ys) @ [hp]"
    and split': "?us @ ?p # x # ?n # ?vs = hp # (xs @ x # ys) @ [hp]"
    using ring_split [of hp xs "[]" ys] ring_split [of hp xs "[x]" ys] by simp_all
  have "links (link_between x ?p ?n h) (?us @ ?p # x # ?n # ?vs)"
    using assms dlist_ring_path [OF assms(1)]
    by (intro links_link_between) (simp_all only: split dlist_def, auto)
  then show ?thesis using assms(1,2) by (simp only: split' dlist_def) auto
qed

lemma dlist_unlink_between:
  assumes "dlist h hp (xs @ x # ys)"
  shows "dlist (unlink_between (last (hp # xs)) (hd (ys @ [hp])) h) hp (xs @ ys)"
proof -
  let ?us = "butlast (hp # xs)" and ?p = "last (hp # xs)" and ?n = "hd (ys @ [hp])" and ?vs = "tl (ys @ [hp])"
  have split: "?us @ ?p # ?n # ?vs = hp # (xs @ ys) @ [hp]"
    and split': "?us @ ?p # x # ?n # ?vs = hp # (xs @ x # ys) @ [hp]"
    using ring_split [of hp xs "[]" ys] ring_split [of hp xs "[x]" ys] by simp_all
  have "links (unlink_between ?p ?n h) (?us @ ?p # ?n # ?vs)"
    using assms dlist_ring_path [OF assms]
    by (intro links_unlink_between [where x = x]) (simp_all only: split' dlist_def)
  then show ?thesis using assms by (simp only: split dlist_def) auto
qed

end
