(* ===== verification/Utils_List.thy ===== *)
theory Utils_List
  imports List_Heap
begin

text \<open>
  \<^verbatim>\<open>linux/utils/include/list.h\<close>: the intrusive circular list of the utils library, operation by
  operation, on the memory of \<open>List_Heap\<close>. The names with two leading underscores in C end in
  \<open>_between\<close> here. The interface its clients rely on is the locale \<open>intrusive_list\<close>: what a
  list holds after each operation and which nodes the operation may have touched.
\<close>

section \<open>The operations of list.h\<close>

definition INIT_LIST_HEAD :: "addr \<Rightarrow> lheap \<Rightarrow> lheap option" where
  "INIT_LIST_HEAD p h = do { h \<leftarrow> set_next p p h; set_prev p p h }"

definition list_add_between :: "addr \<Rightarrow> addr \<Rightarrow> addr \<Rightarrow> lheap \<Rightarrow> lheap option" where
  "list_add_between new prev next h = do {
     h \<leftarrow> set_prev next new h;
     h \<leftarrow> set_next new next h;
     h \<leftarrow> set_prev new prev h;
     set_next prev new h }"

definition list_add :: "addr \<Rightarrow> addr \<Rightarrow> lheap \<Rightarrow> lheap option" where
  "list_add new head h = do { n \<leftarrow> get_next head h; list_add_between new head n h }"

definition list_add_tail :: "addr \<Rightarrow> addr \<Rightarrow> lheap \<Rightarrow> lheap option" where
  "list_add_tail new head h = do { p \<leftarrow> get_prev head h; list_add_between new p head h }"

definition list_del_between :: "addr \<Rightarrow> addr \<Rightarrow> lheap \<Rightarrow> lheap option" where
  "list_del_between prev next h = do { h \<leftarrow> set_prev next prev h; set_next prev next h }"

definition list_del :: "addr \<Rightarrow> lheap \<Rightarrow> lheap option" where
  "list_del entry h = do {
     p \<leftarrow> get_prev entry h;
     n \<leftarrow> get_next entry h;
     list_del_between p n h }"

definition list_del_init :: "addr \<Rightarrow> lheap \<Rightarrow> lheap option" where
  "list_del_init entry h = do {
     p \<leftarrow> get_prev entry h;
     n \<leftarrow> get_next entry h;
     h \<leftarrow> list_del_between p n h;
     INIT_LIST_HEAD entry h }"

definition list_move :: "addr \<Rightarrow> addr \<Rightarrow> lheap \<Rightarrow> lheap option" where
  "list_move entry head h = do {
     p \<leftarrow> get_prev entry h;
     n \<leftarrow> get_next entry h;
     h \<leftarrow> list_del_between p n h;
     list_add entry head h }"

definition list_move_tail :: "addr \<Rightarrow> addr \<Rightarrow> lheap \<Rightarrow> lheap option" where
  "list_move_tail entry head h = do {
     p \<leftarrow> get_prev entry h;
     n \<leftarrow> get_next entry h;
     h \<leftarrow> list_del_between p n h;
     list_add_tail entry head h }"

definition list_empty :: "addr \<Rightarrow> lheap \<Rightarrow> bool option" where
  "list_empty head h = do { n \<leftarrow> get_next head h; Some (n = head) }"

definition list_splice_between :: "addr \<Rightarrow> addr \<Rightarrow> lheap \<Rightarrow> lheap option" where
  "list_splice_between list head h = do {
     first \<leftarrow> get_next list h;
     last \<leftarrow> get_prev list h;
     at \<leftarrow> get_next head h;
     h \<leftarrow> set_prev first head h;
     h \<leftarrow> set_next head first h;
     h \<leftarrow> set_next last at h;
     set_prev at last h }"

definition list_splice :: "addr \<Rightarrow> addr \<Rightarrow> lheap \<Rightarrow> lheap option" where
  "list_splice list head h = do {
     e \<leftarrow> list_empty list h;
     if e then Some h else list_splice_between list head h }"

definition list_splice_init :: "addr \<Rightarrow> addr \<Rightarrow> lheap \<Rightarrow> lheap option" where
  "list_splice_init list head h = do {
     e \<leftarrow> list_empty list h;
     if e then Some h else do { h \<leftarrow> list_splice_between list head h; INIT_LIST_HEAD list h } }"

text \<open>
  The iteration macros. \<open>list_for_each\<close> runs a body that reads the list, so its model is the
  sequence of nodes it visits; the body of \<open>list_for_each_safe\<close> may unlink or free the node it is
  given, so it is a function on the memory and on the caller's own state. A loop that never comes
  back to the head is \<^const>\<open>None\<close>.
\<close>

partial_function (option) list_walk :: "lheap \<Rightarrow> addr \<Rightarrow> addr \<Rightarrow> addr list option" where
  "list_walk h pos head =
     (if pos = head then Some []
      else Option.bind (get_next pos h) (\<lambda>n. Option.bind (list_walk h n head) (\<lambda>xs. Some (pos # xs))))"

definition list_for_each :: "addr \<Rightarrow> lheap \<Rightarrow> addr list option" where
  "list_for_each head h = do { pos \<leftarrow> get_next head h; list_walk h pos head }"

partial_function (option) list_safe_walk ::
  "(addr \<Rightarrow> lheap \<Rightarrow> 's \<Rightarrow> (lheap \<times> 's) option) \<Rightarrow> addr \<Rightarrow> addr \<Rightarrow> addr \<Rightarrow> lheap \<Rightarrow> 's \<Rightarrow> (lheap \<times> 's) option" where
  "list_safe_walk body pos n head h s =
     (if pos = head then Some (h, s)
      else Option.bind (body pos h s) (\<lambda>(h', s').
             Option.bind (get_next n h') (\<lambda>n'. list_safe_walk body n n' head h' s')))"

definition list_for_each_safe ::
  "(addr \<Rightarrow> lheap \<Rightarrow> 's \<Rightarrow> (lheap \<times> 's) option) \<Rightarrow> addr \<Rightarrow> lheap \<Rightarrow> 's \<Rightarrow> (lheap \<times> 's) option" where
  "list_for_each_safe body head h s = do {
     pos \<leftarrow> get_next head h;
     n \<leftarrow> get_next pos h;
     list_safe_walk body pos n head h s }"


section \<open>What each operation does to a list\<close>

lemma list_add_between_eq:
  "h new \<noteq> None \<Longrightarrow> h prev \<noteq> None \<Longrightarrow> h next \<noteq> None \<Longrightarrow>
     list_add_between new prev next h = Some (link_between new prev next h)"
  by (simp add: list_add_between_def link_between_def set_next_def set_prev_def mem_simps)

lemma list_del_between_eq:
  "h prev \<noteq> None \<Longrightarrow> h next \<noteq> None \<Longrightarrow> list_del_between prev next h = Some (unlink_between prev next h)"
  by (simp add: list_del_between_def unlink_between_def set_next_def set_prev_def mem_simps)

lemma last_in_ring: "last (hp # xs) \<in> set (hp # xs)"
  by (rule last_in_set) simp

lemma hd_in_ring: "hd (ys @ [hp]) \<in> set (hp # ys)"
  by (cases ys) auto

lemma INIT_LIST_HEAD_spec:
  assumes "h p \<noteq> None"
  shows "\<exists>h'. INIT_LIST_HEAD p h = Some h' \<and> dlist h' p [] \<and> same_outside {p} h h'"
  using assms
  by (auto simp: INIT_LIST_HEAD_def set_next_def set_prev_def mem_simps intro: same_outside_upd)

text \<open>Insertion anywhere in a ring and deletion of any node, with the nodes they may write.\<close>

lemma insert_spec:
  assumes "dlist h hp (xs @ ys)" "x \<notin> set (hp # xs @ ys)" "h x \<noteq> None"
  shows "\<exists>h'. list_add_between x (last (hp # xs)) (hd (ys @ [hp])) h = Some h' \<and>
           dlist h' hp (xs @ x # ys) \<and> same_outside (set (x # hp # xs @ ys)) h h'"
proof -
  have "h (last (hp # xs)) \<noteq> None" "h (hd (ys @ [hp])) \<noteq> None"
    using dlist_alloc [OF assms(1)] last_in_ring [of hp xs] hd_in_ring [of ys hp] by auto
  moreover have "same_outside (set (x # hp # xs @ ys)) h (link_between x (last (hp # xs)) (hd (ys @ [hp])) h)"
    using last_in_ring [of hp xs] hd_in_ring [of ys hp] by (intro same_outside_mono [OF link_between_outside]) auto
  ultimately show ?thesis
    using assms dlist_link_between [OF assms] by (simp add: list_add_between_eq)
qed

lemma delete_spec:
  assumes "dlist h hp (xs @ x # ys)"
  shows "\<exists>h'. list_del_between (last (hp # xs)) (hd (ys @ [hp])) h = Some h' \<and>
           dlist h' hp (xs @ ys) \<and> same_outside (set (hp # xs @ ys)) h h'"
proof -
  have "h (last (hp # xs)) \<noteq> None" "h (hd (ys @ [hp])) \<noteq> None"
    using dlist_alloc [OF assms(1)] last_in_ring [of hp xs] hd_in_ring [of ys hp] by auto
  moreover have "same_outside (set (hp # xs @ ys)) h (unlink_between (last (hp # xs)) (hd (ys @ [hp])) h)"
    using last_in_ring [of hp xs] hd_in_ring [of ys hp] by (intro same_outside_mono [OF unlink_between_outside]) auto
  ultimately show ?thesis
    using dlist_unlink_between [OF assms] by (simp add: list_del_between_eq)
qed

lemma list_add_spec:
  assumes "dlist h hp xs" "x \<notin> set (hp # xs)" "h x \<noteq> None"
  shows "\<exists>h'. list_add x hp h = Some h' \<and> dlist h' hp (x # xs) \<and> same_outside (set (x # hp # xs)) h h'"
proof -
  have "get_next hp h = Some (hd (xs @ [hp]))"
    using dlist_first [OF assms(1)] by (cases xs) simp_all
  then show ?thesis
    using insert_spec [of h hp "[]" xs x] assms by (simp add: list_add_def)
qed

lemma list_add_tail_spec:
  assumes "dlist h hp xs" "x \<notin> set (hp # xs)" "h x \<noteq> None"
  shows "\<exists>h'. list_add_tail x hp h = Some h' \<and> dlist h' hp (xs @ [x]) \<and> same_outside (set (x # hp # xs)) h h'"
  using insert_spec [of h hp xs "[]" x] assms dlist_last [OF assms(1)] by (simp add: list_add_tail_def)

lemma list_del_spec:
  assumes "dlist h hp (xs @ x # ys)"
  shows "\<exists>h'. list_del x h = Some h' \<and> dlist h' hp (xs @ ys) \<and> same_outside (set (hp # xs @ ys)) h h'"
  using delete_spec [OF assms] dlist_neighbours [OF assms] by (simp add: list_del_def)

lemma list_empty_spec: "dlist h hp xs \<Longrightarrow> list_empty hp h = Some (xs = [])"
  using dlist_first [of h hp xs] by (cases xs) (auto simp: list_empty_def dlist_def)

lemma list_for_each_spec:
  assumes "dlist h hp xs"
  shows "list_for_each hp h = Some xs"
proof -
  have "list_walk h (hd (ys @ [hp])) hp = Some ys" if "xs = us @ ys" for us ys
    using that
  proof (induction ys arbitrary: us)
    case Nil
    then show ?case by (simp add: list_walk.simps)
  next
    case (Cons y ys)
    have "list_walk h (hd (ys @ [hp])) hp = Some ys"
      using Cons.prems by (intro Cons.IH [of "us @ [y]"]) simp
    then show ?case
      using assms dlist_neighbours(2) [of h hp us y ys] Cons.prems
      by (subst list_walk.simps) (auto simp: dlist_def)
  qed
  from this [of "[]" xs] show ?thesis
    using dlist_first [OF assms] by (cases xs) (simp_all add: list_for_each_def)
qed

text \<open>A \<open>list_for_each_safe\<close> loop whose body unlinks the node it is given empties the list.\<close>

lemma list_for_each_safe_drain:
  assumes step: "\<And>x ys h s. I h s \<Longrightarrow> dlist h hp (x # ys) \<Longrightarrow>
             \<exists>h'. body x h s = Some (h', g x s) \<and> dlist h' hp ys \<and> I h' (g x s)"
    and "dlist h hp xs" and "I h s"
  shows "\<exists>h'. list_for_each_safe body hp h s = Some (h', fold g xs s) \<and> dlist h' hp [] \<and> I h' (fold g xs s)"
proof -
  have walk: "\<exists>h'. list_safe_walk body (hd (xs @ [hp])) n hp h s = Some (h', fold g xs s) \<and> dlist h' hp [] \<and> I h' (fold g xs s)"
    if "dlist h hp xs" and "get_next (hd (xs @ [hp])) h = Some n" and "I h s" for xs n h s
    using that
  proof (induction xs arbitrary: n h s)
    case Nil
    then show ?case by (subst list_safe_walk.simps) simp
  next
    case (Cons x ys)
    obtain h1 where h1: "body x h s = Some (h1, g x s)" "dlist h1 hp ys" "I h1 (g x s)"
      using step [OF Cons.prems(3,1)] by blast
    have n: "n = hd (ys @ [hp])"
      using dlist_neighbours(2) [of h hp "[]" x ys] Cons.prems(1,2) by simp
    obtain n' where n': "get_next n h1 = Some n'"
      using dlist_alloc [OF h1(2), of n] n hd_in_ring [of ys hp] by (cases "get_next n h1") (auto simp: mem_simps)
    from Cons.IH [OF h1(2) _ h1(3)] n n' obtain h' where
      "list_safe_walk body n n' hp h1 (g x s) = Some (h', fold g ys (g x s))" "dlist h' hp []" "I h' (fold g ys (g x s))"
      by blast
    moreover have "x \<noteq> hp" using Cons.prems(1) by (auto simp: dlist_def)
    ultimately show ?case
      using h1(1) n' by (subst list_safe_walk.simps) simp
  qed
  have f: "get_next hp h = Some (hd (xs @ [hp]))"
    using dlist_first [OF assms(2)] by (cases xs) simp_all
  obtain n where n: "get_next (hd (xs @ [hp])) h = Some n"
    using dlist_alloc [OF assms(2), of "hd (xs @ [hp])"] hd_in_ring [of xs hp]
    by (cases "get_next (hd (xs @ [hp])) h") (auto simp: mem_simps)
  show ?thesis
    using walk [OF assms(2) n assms(3)] f n by (simp add: list_for_each_safe_def)
qed

lemma list_del_init_spec:
  assumes "dlist h hp (xs @ x # ys)"
  shows "\<exists>h'. list_del_init x h = Some h' \<and> dlist h' hp (xs @ ys) \<and> dlist h' x [] \<and>
           same_outside (set (hp # xs @ x # ys)) h h'"
proof -
  obtain h1 where h1: "list_del_between (last (hp # xs)) (hd (ys @ [hp])) h = Some h1"
      "dlist h1 hp (xs @ ys)" "same_outside (set (hp # xs @ ys)) h h1"
    using delete_spec [OF assms] by blast
  have x: "h1 x \<noteq> None" "x \<notin> set (hp # xs @ ys)"
    using dlist_alloc [OF assms, of x] h1(3) assms by (auto simp: same_outside_def dlist_def)
  obtain h2 where h2: "INIT_LIST_HEAD x h1 = Some h2" "dlist h2 x []" "same_outside {x} h1 h2"
    using INIT_LIST_HEAD_spec [of h1 x] x(1) by blast
  have "dlist h2 hp (xs @ ys)"
    using x(2) by (intro dlist_frame [OF h1(2) h2(3)]) auto
  moreover have "same_outside (set (hp # xs @ x # ys)) h h2"
    by (rule same_outside_mono [OF same_outside_trans [OF h1(3) h2(3)]]) auto
  ultimately show ?thesis
    using h1(1) h2 dlist_neighbours [OF assms] by (simp add: list_del_init_def)
qed

text \<open>
  Moving a node to another list, or within its own list: the deletion leaves the node in
  memory and out of every list, so the insertion applies.
\<close>

lemma delete_for_move:
  assumes "dlist h hp (xs @ x # ys)"
  obtains h1 where "get_prev x h = Some (last (hp # xs))" "get_next x h = Some (hd (ys @ [hp]))"
    "list_del_between (last (hp # xs)) (hd (ys @ [hp])) h = Some h1" "dlist h1 hp (xs @ ys)"
    "same_outside (set (hp # xs @ ys)) h h1" "h1 x \<noteq> None" "x \<notin> set (hp # xs @ ys)"
proof -
  obtain h1 where h1: "list_del_between (last (hp # xs)) (hd (ys @ [hp])) h = Some h1"
      "dlist h1 hp (xs @ ys)" "same_outside (set (hp # xs @ ys)) h h1"
    using delete_spec [OF assms] by blast
  moreover have "h1 x \<noteq> None" "x \<notin> set (hp # xs @ ys)"
    using dlist_alloc [OF assms, of x] h1(3) assms by (auto simp: same_outside_def dlist_def)
  ultimately show ?thesis using that dlist_neighbours [OF assms] by blast
qed

lemma list_move_spec:
  assumes "dlist h hp (xs @ x # ys)" and "dlist h hq zs"
    and "set (hp # xs @ x # ys) \<inter> set (hq # zs) = {}"
  shows "\<exists>h'. list_move x hq h = Some h' \<and> dlist h' hp (xs @ ys) \<and> dlist h' hq (x # zs) \<and>
           same_outside (set (hp # xs @ x # ys) \<union> set (hq # zs)) h h'"
proof -
  from assms(1) obtain h1 where n: "get_prev x h = Some (last (hp # xs))" "get_next x h = Some (hd (ys @ [hp]))"
    and h1: "list_del_between (last (hp # xs)) (hd (ys @ [hp])) h = Some h1" "dlist h1 hp (xs @ ys)"
      "same_outside (set (hp # xs @ ys)) h h1" "h1 x \<noteq> None" "x \<notin> set (hp # xs @ ys)"
    by (rule delete_for_move)
  have q: "dlist h1 hq zs" using assms(3) by (intro dlist_frame [OF assms(2) h1(3)]) auto
  obtain h2 where h2: "list_add x hq h1 = Some h2" "dlist h2 hq (x # zs)" "same_outside (set (x # hq # zs)) h1 h2"
    using list_add_spec [OF q, of x] h1(4) assms(3) by auto
  have "dlist h2 hp (xs @ ys)"
    using h1(5) assms(3) by (intro dlist_frame [OF h1(2) h2(3)]) auto
  moreover have "same_outside (set (hp # xs @ x # ys) \<union> set (hq # zs)) h h2"
    by (rule same_outside_mono [OF same_outside_trans [OF h1(3) h2(3)]]) auto
  ultimately show ?thesis using n h1(1) h2 by (simp add: list_move_def)
qed

lemma list_move_same_spec:
  assumes "dlist h hp (xs @ x # ys)"
  shows "\<exists>h'. list_move x hp h = Some h' \<and> dlist h' hp (x # xs @ ys)"
proof -
  from assms(1) obtain h1 where n: "get_prev x h = Some (last (hp # xs))" "get_next x h = Some (hd (ys @ [hp]))"
    and h1: "list_del_between (last (hp # xs)) (hd (ys @ [hp])) h = Some h1" "dlist h1 hp (xs @ ys)"
      "h1 x \<noteq> None" "x \<notin> set (hp # xs @ ys)"
    by (rule delete_for_move)
  then show ?thesis using list_add_spec [OF h1(2,4,3)] by (auto simp: list_move_def)
qed

lemma list_move_tail_same_spec:
  assumes "dlist h hp (xs @ x # ys)"
  shows "\<exists>h'. list_move_tail x hp h = Some h' \<and> dlist h' hp (xs @ ys @ [x])"
proof -
  from assms(1) obtain h1 where n: "get_prev x h = Some (last (hp # xs))" "get_next x h = Some (hd (ys @ [hp]))"
    and h1: "list_del_between (last (hp # xs)) (hd (ys @ [hp])) h = Some h1" "dlist h1 hp (xs @ ys)"
      "h1 x \<noteq> None" "x \<notin> set (hp # xs @ ys)"
    by (rule delete_for_move)
  then show ?thesis using list_add_tail_spec [OF h1(2,4,3)] by (auto simp: list_move_tail_def)
qed

text \<open>Splicing one list in front of another.\<close>

definition splice_between :: "addr \<Rightarrow> addr list \<Rightarrow> addr \<Rightarrow> lheap \<Rightarrow> lheap" where
  "splice_between head xs at h =
     upd_prev at (last xs) (upd_next (last xs) at (upd_next head (hd xs) (upd_prev (hd xs) head h)))"

lemma dlist_splice_between:
  assumes "dlist h l xs" "dlist h hp ys" "set (l # xs) \<inter> set (hp # ys) = {}" "xs \<noteq> []"
  shows "dlist (splice_between hp xs (hd (ys @ [hp])) h) hp (xs @ ys)"
proof -
  let ?at = "hd (ys @ [hp])"
  let ?h = "splice_between hp xs ?at h"
  have lx: "links h xs" and ly: "links h (ys @ [hp])"
    using assms links_join [of "[l]" "xs @ [l]" h] links_join [of xs "[l]" h] links_join [of "[hp]" "ys @ [hp]" h]
    by (auto simp: dlist_def)
  have alloc: "h (hd xs) \<noteq> None" "h (last xs) \<noteq> None" "h hp \<noteq> None" "h ?at \<noteq> None"
    using dlist_alloc [OF assms(1)] dlist_alloc [OF assms(2)] assms(4) hd_in_ring [of ys hp] by auto
  have "distinct xs" using assms(1) by (simp add: dlist_def)
  then have "distinct (hd xs # tl xs)" "distinct (butlast xs @ [last xs])"
    using assms(4) by simp_all
  then have ends: "hd xs \<notin> set (tl xs)" "last xs \<notin> set (butlast xs)"
    by auto
  have dy: "distinct (ys @ [hp])" using assms(2) by (auto simp: dlist_def)
  have apart: "p \<notin> set (hp # ys)" if "p \<in> set xs" for p using assms(3) that by auto
  have d: "hd xs \<notin> set (hp # ys)" "last xs \<notin> set (hp # ys)"
    using assms(4) by (simp_all only: apart hd_in_set last_in_set not_False_eq_True)
  have d': "?at \<notin> set xs" "?at \<notin> set (tl xs)" "hp \<notin> set xs"
    using apart hd_in_ring [of ys hp] list.set_sel(2) [OF assms(4)] by (blast, blast, force)
  have at: "?at \<notin> set (tl (ys @ [hp]))" "hd xs \<notin> set (tl (ys @ [hp]))" "hd xs \<noteq> ?at"
    using dy d by (cases ys; auto)+
  have "links ?h xs = links h xs"
    using d d' ends by (intro links_cong) (auto simp: splice_between_def mem_simps dest: in_set_butlastD list.set_sel(2) [rotated])
  moreover have "links ?h (ys @ [hp]) = links h (ys @ [hp])"
    using d dy at by (intro links_cong) (auto simp: splice_between_def mem_simps butlast_append)
  moreover have "get_next hp ?h = Some (hd xs)" "get_prev (hd xs) ?h = Some hp"
      "get_next (last xs) ?h = Some ?at" "get_prev ?at ?h = Some (last xs)"
    using alloc d d' at(3) assms(4) hd_in_set [OF assms(4)] last_in_set [OF assms(4)]
    by (auto simp: splice_between_def mem_simps)
  ultimately have "links ?h ([hp] @ xs @ ys @ [hp])"
    using lx ly assms(4) by (subst links_join; (subst links_join)?) auto
  then show ?thesis
    using assms by (auto simp: dlist_def)
qed

lemma list_splice_between_eq:
  assumes "dlist h l xs" "dlist h hp ys" "set (l # xs) \<inter> set (hp # ys) = {}" "xs \<noteq> []"
  shows "list_splice_between l hp h = Some (splice_between hp xs (hd (ys @ [hp])) h)"
proof -
  have "get_next l h = Some (hd xs)" "get_prev l h = Some (last xs)"
    using dlist_first [OF assms(1)] dlist_last [OF assms(1)] assms(4) by (simp_all split: list.splits)
  moreover have "get_next hp h = Some (hd (ys @ [hp]))"
    using dlist_first [OF assms(2)] by (cases ys) simp_all
  moreover have "h (hd xs) \<noteq> None" "h (last xs) \<noteq> None" "h hp \<noteq> None" "h (hd (ys @ [hp])) \<noteq> None"
    using dlist_alloc [OF assms(1)] dlist_alloc [OF assms(2)] assms(4) hd_in_ring [of ys hp] by auto
  ultimately show ?thesis
    by (simp add: list_splice_between_def splice_between_def set_next_def set_prev_def mem_simps)
qed

lemma splice_between_outside:
  assumes "xs \<noteq> []"
  shows "same_outside (set xs \<union> set (hp # ys)) h (splice_between hp xs (hd (ys @ [hp])) h)"
  unfolding splice_between_def using assms hd_in_ring [of ys hp]
  by (intro same_outside_upd same_outside_refl) auto

lemma list_splice_spec:
  assumes "dlist h l xs" "dlist h hp ys" "set (l # xs) \<inter> set (hp # ys) = {}"
  shows "\<exists>h'. list_splice l hp h = Some h' \<and> dlist h' hp (xs @ ys)"
  using list_splice_between_eq [OF assms] dlist_splice_between [OF assms] list_empty_spec [OF assms(1)] assms(2)
  by (cases "xs = []") (simp_all add: list_splice_def)

lemma list_splice_init_spec:
  assumes "dlist h l xs" "dlist h hp ys" "set (l # xs) \<inter> set (hp # ys) = {}"
  shows "\<exists>h'. list_splice_init l hp h = Some h' \<and> dlist h' hp (xs @ ys) \<and> dlist h' l []"
proof (cases "xs = []")
  case True
  then show ?thesis using assms list_empty_spec [OF assms(1)] by (simp add: list_splice_init_def)
next
  case False
  let ?h = "splice_between hp xs (hd (ys @ [hp])) h"
  have d: "dlist ?h hp (xs @ ys)" by (rule dlist_splice_between [OF assms False])
  have "?h l \<noteq> None"
    using dlist_alloc [OF assms(1), of l] by (simp add: splice_between_def mem_simps)
  then obtain h' where h': "INIT_LIST_HEAD l ?h = Some h'" "dlist h' l []" "same_outside {l} ?h h'"
    using INIT_LIST_HEAD_spec [of ?h l] by blast
  have "dlist h' hp (xs @ ys)"
    using assms(1,3) by (intro dlist_frame [OF d h'(3)]) (auto simp: dlist_def)
  then show ?thesis
    using h' False list_splice_between_eq [OF assms False] list_empty_spec [OF assms(1)]
    by (simp add: list_splice_init_def)
qed


section \<open>The interface of an intrusive list\<close>

text \<open>
  What a client of either header relies on. The laws name the operations only by what they do to
  a ring and to the memory outside it, so they hold both for \<^verbatim>\<open>list.h\<close> and for \<^verbatim>\<open>klist.h\<close>,
  whose \<open>list_del\<close> also clears the pointers of the node it removed.
\<close>

locale intrusive_list =
  fixes init :: "addr \<Rightarrow> lheap \<Rightarrow> lheap option"
    and add :: "addr \<Rightarrow> addr \<Rightarrow> lheap \<Rightarrow> lheap option"
    and add_tail :: "addr \<Rightarrow> addr \<Rightarrow> lheap \<Rightarrow> lheap option"
    and del :: "addr \<Rightarrow> lheap \<Rightarrow> lheap option"
    and is_empty :: "addr \<Rightarrow> lheap \<Rightarrow> bool option"
  assumes init_law: "h p \<noteq> None \<Longrightarrow> \<exists>h'. init p h = Some h' \<and> dlist h' p [] \<and> same_outside {p} h h'"
    and add_law: "dlist h hp xs \<Longrightarrow> x \<notin> set (hp # xs) \<Longrightarrow> h x \<noteq> None \<Longrightarrow>
      \<exists>h'. add x hp h = Some h' \<and> dlist h' hp (x # xs) \<and> same_outside (set (x # hp # xs)) h h'"
    and add_tail_law: "dlist h hp xs \<Longrightarrow> x \<notin> set (hp # xs) \<Longrightarrow> h x \<noteq> None \<Longrightarrow>
      \<exists>h'. add_tail x hp h = Some h' \<and> dlist h' hp (xs @ [x]) \<and> same_outside (set (x # hp # xs)) h h'"
    and del_law: "dlist h hp (xs @ x # ys) \<Longrightarrow>
      \<exists>h'. del x h = Some h' \<and> dlist h' hp (xs @ ys) \<and> same_outside (set (hp # xs @ x # ys)) h h'"
    and is_empty_law: "dlist h hp xs \<Longrightarrow> is_empty hp h = Some (xs = [])"
begin

lemma del_first:
  assumes "dlist h hp (x # xs)"
  obtains h' where "del x h = Some h'" "dlist h' hp xs" "same_outside (set (hp # x # xs)) h h'"
  using del_law [of h hp "[]" x xs] assms by auto

lemma add_other:
  assumes "dlist h hp xs" "x \<notin> set (hp # xs)" "h x \<noteq> None" "dlist h hq ys"
    and "set (hq # ys) \<inter> set (x # hp # xs) = {}"
  shows "\<exists>h'. add x hp h = Some h' \<and> dlist h' hp (x # xs) \<and> dlist h' hq ys"
proof -
  obtain h' where h': "add x hp h = Some h'" "dlist h' hp (x # xs)" "same_outside (set (x # hp # xs)) h h'"
    using add_law [OF assms(1-3)] by blast
  then show ?thesis using dlist_frame [OF assms(4) h'(3)] assms(5) by (simp add: Int_commute)
qed

lemma del_other:
  assumes "dlist h hp (xs @ x # ys)" "dlist h hq zs" "set (hq # zs) \<inter> set (hp # xs @ x # ys) = {}"
  shows "\<exists>h'. del x h = Some h' \<and> dlist h' hp (xs @ ys) \<and> dlist h' hq zs"
proof -
  obtain h' where h': "del x h = Some h'" "dlist h' hp (xs @ ys)" "same_outside (set (hp # xs @ x # ys)) h h'"
    using del_law [OF assms(1)] by blast
  then show ?thesis using dlist_frame [OF assms(2) h'(3)] assms(3) by (simp add: Int_commute)
qed

text \<open>A node taken out can be put back in: insertion at the head then deletion is the identity on the list.\<close>

lemma add_del_id:
  assumes "dlist h hp xs" "x \<notin> set (hp # xs)" "h x \<noteq> None"
  shows "\<exists>h1 h2. add x hp h = Some h1 \<and> del x h1 = Some h2 \<and> dlist h2 hp xs"
proof -
  obtain h1 where h1: "add x hp h = Some h1" "dlist h1 hp (x # xs)"
    using add_law [OF assms] by blast
  from h1(2) obtain h2 where "del x h1 = Some h2" "dlist h2 hp xs" by (rule del_first)
  with h1 show ?thesis by blast
qed

end

interpretation ulist: intrusive_list INIT_LIST_HEAD list_add list_add_tail list_del list_empty
proof unfold_locales
  fix h hp xs x ys
  assume "dlist h hp (xs @ x # ys)"
  then show "\<exists>h'. list_del x h = Some h' \<and> dlist h' hp (xs @ ys) \<and> same_outside (set (hp # xs @ x # ys)) h h'"
    using list_del_spec [of h hp xs x ys] by (auto intro: same_outside_mono)
qed (fact INIT_LIST_HEAD_spec list_add_spec list_add_tail_spec list_empty_spec)+


section \<open>Properties\<close>

text \<open>
  Insertion and iteration agree: after \<open>list_add\<close> (\<open>list_add_tail\<close>) of a node that is in no list,
  \<open>list_for_each\<close> visits the new node first (last) and every other node in its old order, and ends.
\<close>

theorem list_add_for_each:
  assumes "dlist h hp xs" and "x \<notin> set (hp # xs)" and "h x \<noteq> None"
  shows "\<exists>h1 h2. list_add x hp h = Some h1 \<and> list_for_each hp h1 = Some (x # xs) \<and>
    list_add_tail x hp h = Some h2 \<and> list_for_each hp h2 = Some (xs @ [x])"
proof -
  obtain h1 h2 where "list_add x hp h = Some h1" "dlist h1 hp (x # xs)"
    "list_add_tail x hp h = Some h2" "dlist h2 hp (xs @ [x])"
    using ulist.add_law [OF assms] ulist.add_tail_law [OF assms] by auto
  then show ?thesis by (simp add: list_for_each_spec)
qed

text \<open>Two rings: node 1 heads the list of 2 and 3, node 4 the empty list; node 5 is in no list.\<close>

definition demo_rings :: lheap where
  "demo_rings = [1 \<mapsto> \<lparr>lh_next = 2, lh_prev = 3\<rparr>, 2 \<mapsto> \<lparr>lh_next = 3, lh_prev = 1\<rparr>, 3 \<mapsto> \<lparr>lh_next = 1, lh_prev = 2\<rparr>,
     4 \<mapsto> \<lparr>lh_next = 4, lh_prev = 4\<rparr>, 5 \<mapsto> \<lparr>lh_next = 0, lh_prev = 0\<rparr>]"

lemma demo_rings_ok: "dlist demo_rings 1 [2, 3]" "dlist demo_rings 4 []" "demo_rings 5 \<noteq> None"
  by (simp_all add: demo_rings_def dlist_def get_next_def get_prev_def)

theorem list_add_for_each_witness:
  "\<exists>h1 h2. list_add 5 1 demo_rings = Some h1 \<and> list_for_each 1 h1 = Some [5, 2, 3] \<and>
    list_add_tail 5 1 demo_rings = Some h2 \<and> list_for_each 1 h2 = Some ([2, 3] @ [5])"
  by (rule list_add_for_each) (use demo_rings_ok in simp_all)

text \<open>
  C13: \<open>list_move\<close> takes a node out of one list and puts it at the front of another; the rest of the
  first list stays in order, and no memory outside the two lists changes.
\<close>

theorem list_move_between_lists:
  assumes "dlist h hp (xs @ x # ys)" and "dlist h hq zs"
    and "set (hp # xs @ x # ys) \<inter> set (hq # zs) = {}"
  shows "\<exists>h'. list_move x hq h = Some h' \<and> list_for_each hp h' = Some (xs @ ys) \<and> list_for_each hq h' = Some (x # zs) \<and>
    same_outside (set (hp # xs @ x # ys) \<union> set (hq # zs)) h h'"
proof -
  obtain h' where "list_move x hq h = Some h'" "dlist h' hp (xs @ ys)" "dlist h' hq (x # zs)"
    "same_outside (set (hp # xs @ x # ys) \<union> set (hq # zs)) h h'"
    using list_move_spec [OF assms] by auto
  then show ?thesis by (simp add: list_for_each_spec)
qed

theorem list_move_between_lists_witness:
  "\<exists>h'. list_move 3 4 demo_rings = Some h' \<and> list_for_each 1 h' = Some ([2] @ []) \<and> list_for_each 4 h' = Some [3] \<and>
    same_outside (set (1 # [2] @ 3 # []) \<union> set [4]) demo_rings h'"
  by (rule list_move_between_lists) (use demo_rings_ok in simp_all)

text \<open>
  \<open>list_splice_init\<close> moves a whole list in front of another one, in order, and leaves the first one
  empty and usable.
\<close>

theorem list_splice_init_joins:
  assumes "dlist h l xs" and "dlist h hp ys" and "set (l # xs) \<inter> set (hp # ys) = {}"
  shows "\<exists>h'. list_splice_init l hp h = Some h' \<and> list_for_each hp h' = Some (xs @ ys) \<and>
    list_for_each l h' = Some [] \<and> list_empty l h' = Some True"
proof -
  obtain h' where h': "list_splice_init l hp h = Some h'" "dlist h' hp (xs @ ys)" "dlist h' l []"
    using list_splice_init_spec [OF assms] by auto
  show ?thesis using h' list_for_each_spec [OF h'(2)] list_for_each_spec [OF h'(3)] list_empty_spec [OF h'(3)] by simp
qed

theorem list_splice_init_joins_witness:
  "\<exists>h'. list_splice_init 1 4 demo_rings = Some h' \<and> list_for_each 4 h' = Some ([2, 3] @ []) \<and>
    list_for_each 1 h' = Some [] \<and> list_empty 1 h' = Some True"
  by (rule list_splice_init_joins) (use demo_rings_ok in simp_all)

end
