(* ===== verification/Klist.thy ===== *)
theory Klist
  imports Utils_List
begin

text \<open>
  \<^verbatim>\<open>list/klist.h\<close>: the list header of the \<open>list\<close> and \<open>socket\<close> directories, taken from the Linux
  kernel. Its operations carry the prefix \<open>k\<close> here. All but \<open>list_del\<close> behave as those of
  \<^verbatim>\<open>list.h\<close>; \<open>list_del\<close> also stores NULL in both pointers of the node it removes. Both headers
  satisfy the interface \<open>intrusive_list\<close>.
\<close>

section \<open>The operations of klist.h\<close>

definition kINIT_LIST_HEAD :: "addr \<Rightarrow> lheap \<Rightarrow> lheap option" where
  "kINIT_LIST_HEAD p h = do { h \<leftarrow> set_next p p h; set_prev p p h }"

definition klist_add_between :: "addr \<Rightarrow> addr \<Rightarrow> addr \<Rightarrow> lheap \<Rightarrow> lheap option" where
  "klist_add_between new prev next h = do {
     h \<leftarrow> set_prev next new h;
     h \<leftarrow> set_next new next h;
     h \<leftarrow> set_prev new prev h;
     set_next prev new h }"

definition klist_add :: "addr \<Rightarrow> addr \<Rightarrow> lheap \<Rightarrow> lheap option" where
  "klist_add new head h = do { n \<leftarrow> get_next head h; klist_add_between new head n h }"

definition klist_add_tail :: "addr \<Rightarrow> addr \<Rightarrow> lheap \<Rightarrow> lheap option" where
  "klist_add_tail new head h = do { p \<leftarrow> get_prev head h; klist_add_between new p head h }"

definition klist_del_between :: "addr \<Rightarrow> addr \<Rightarrow> lheap \<Rightarrow> lheap option" where
  "klist_del_between prev next h = do { h \<leftarrow> set_prev next prev h; set_next prev next h }"

definition klist_del :: "addr \<Rightarrow> lheap \<Rightarrow> lheap option" where
  "klist_del entry h = do {
     p \<leftarrow> get_prev entry h;
     n \<leftarrow> get_next entry h;
     h \<leftarrow> klist_del_between p n h;
     h \<leftarrow> set_next entry NULL h;
     set_prev entry NULL h }"

definition klist_del_init :: "addr \<Rightarrow> lheap \<Rightarrow> lheap option" where
  "klist_del_init entry h = do {
     p \<leftarrow> get_prev entry h;
     n \<leftarrow> get_next entry h;
     h \<leftarrow> klist_del_between p n h;
     kINIT_LIST_HEAD entry h }"

definition klist_move :: "addr \<Rightarrow> addr \<Rightarrow> lheap \<Rightarrow> lheap option" where
  "klist_move entry head h = do {
     p \<leftarrow> get_prev entry h;
     n \<leftarrow> get_next entry h;
     h \<leftarrow> klist_del_between p n h;
     klist_add entry head h }"

definition klist_move_tail :: "addr \<Rightarrow> addr \<Rightarrow> lheap \<Rightarrow> lheap option" where
  "klist_move_tail entry head h = do {
     p \<leftarrow> get_prev entry h;
     n \<leftarrow> get_next entry h;
     h \<leftarrow> klist_del_between p n h;
     klist_add_tail entry head h }"

definition klist_empty :: "addr \<Rightarrow> lheap \<Rightarrow> bool option" where
  "klist_empty head h = do { n \<leftarrow> get_next head h; Some (n = head) }"

definition klist_splice_between :: "addr \<Rightarrow> addr \<Rightarrow> lheap \<Rightarrow> lheap option" where
  "klist_splice_between list head h = do {
     first \<leftarrow> get_next list h;
     last \<leftarrow> get_prev list h;
     at \<leftarrow> get_next head h;
     h \<leftarrow> set_prev first head h;
     h \<leftarrow> set_next head first h;
     h \<leftarrow> set_next last at h;
     set_prev at last h }"

definition klist_splice :: "addr \<Rightarrow> addr \<Rightarrow> lheap \<Rightarrow> lheap option" where
  "klist_splice list head h = do {
     e \<leftarrow> klist_empty list h;
     if e then Some h else klist_splice_between list head h }"

definition klist_splice_init :: "addr \<Rightarrow> addr \<Rightarrow> lheap \<Rightarrow> lheap option" where
  "klist_splice_init list head h = do {
     e \<leftarrow> klist_empty list h;
     if e then Some h else do { h \<leftarrow> klist_splice_between list head h; kINIT_LIST_HEAD list h } }"

text \<open>
  Forward iteration (\<open>list_for_each\<close>, and \<open>list_for_each_entry\<close> for which the address of the node
  stands for the address of the struct around it) and backward iteration
  (\<open>list_for_each_prev\<close>), as the sequence of nodes visited.
\<close>

partial_function (option) klist_walk :: "(addr \<Rightarrow> addr option) \<Rightarrow> addr \<Rightarrow> addr \<Rightarrow> addr list option" where
  "klist_walk step pos head =
     (if pos = head then Some []
      else Option.bind (step pos) (\<lambda>n. Option.bind (klist_walk step n head) (\<lambda>xs. Some (pos # xs))))"

definition klist_for_each :: "addr \<Rightarrow> lheap \<Rightarrow> addr list option" where
  "klist_for_each head h = do { pos \<leftarrow> get_next head h; klist_walk (\<lambda>p. get_next p h) pos head }"

definition klist_for_each_prev :: "addr \<Rightarrow> lheap \<Rightarrow> addr list option" where
  "klist_for_each_prev head h = do { pos \<leftarrow> get_prev head h; klist_walk (\<lambda>p. get_prev p h) pos head }"


section \<open>Comparison with list.h\<close>

lemma klist_between_eq [simp]:
  "kINIT_LIST_HEAD = INIT_LIST_HEAD"
  "klist_add_between = list_add_between"
  "klist_del_between = list_del_between"
  "klist_splice_between = list_splice_between"
  "klist_empty = list_empty"
  by (simp_all add: fun_eq_iff kINIT_LIST_HEAD_def INIT_LIST_HEAD_def klist_add_between_def
      list_add_between_def klist_del_between_def list_del_between_def klist_splice_between_def
      list_splice_between_def klist_empty_def list_empty_def)

lemma klist_ops_eq:
  "klist_add = list_add" "klist_add_tail = list_add_tail" "klist_del_init = list_del_init"
  "klist_move = list_move" "klist_move_tail = list_move_tail"
  "klist_splice = list_splice" "klist_splice_init = list_splice_init"
  by (intro ext; unfold klist_add_def list_add_def klist_add_tail_def list_add_tail_def
      klist_del_init_def list_del_init_def klist_move_def list_move_def klist_move_tail_def
      list_move_tail_def klist_splice_def list_splice_def klist_splice_init_def list_splice_init_def
      klist_between_eq; rule refl)+

lemma klist_del_spec:
  assumes "dlist h hp (xs @ x # ys)"
  shows "\<exists>h'. klist_del x h = Some h' \<and> dlist h' hp (xs @ ys) \<and>
           get_next x h' = Some NULL \<and> get_prev x h' = Some NULL \<and>
           same_outside (set (hp # xs @ x # ys)) h h'"
proof -
  from assms obtain h1 where n: "get_prev x h = Some (last (hp # xs))" "get_next x h = Some (hd (ys @ [hp]))"
    and h1: "list_del_between (last (hp # xs)) (hd (ys @ [hp])) h = Some h1" "dlist h1 hp (xs @ ys)"
      "same_outside (set (hp # xs @ ys)) h h1" "h1 x \<noteq> None" "x \<notin> set (hp # xs @ ys)"
    by (rule delete_for_move)
  let ?h = "upd_prev x NULL (upd_next x NULL h1)"
  have o: "same_outside {x} h1 ?h" by (intro same_outside_upd same_outside_refl) auto
  have "klist_del x h = Some ?h"
    using n h1(1,4) by (simp add: klist_del_def set_next_def set_prev_def mem_simps)
  moreover have "dlist ?h hp (xs @ ys)"
    using h1(5) by (intro dlist_frame [OF h1(2) o]) auto
  moreover have "same_outside (set (hp # xs @ x # ys)) h ?h"
    by (rule same_outside_mono [OF same_outside_trans [OF h1(3) o]]) auto
  ultimately show ?thesis using h1(4) by (simp add: mem_simps)
qed

interpretation klist: intrusive_list kINIT_LIST_HEAD klist_add klist_add_tail klist_del klist_empty
proof unfold_locales
  fix h hp xs x ys
  assume "dlist h hp (xs @ x # ys)"
  then show "\<exists>h'. klist_del x h = Some h' \<and> dlist h' hp (xs @ ys) \<and> same_outside (set (hp # xs @ x # ys)) h h'"
    using klist_del_spec [of h hp xs x ys] by auto
next
  fix h :: lheap and p
  assume "h p \<noteq> None"
  then show "\<exists>h'. kINIT_LIST_HEAD p h = Some h' \<and> dlist h' p [] \<and> same_outside {p} h h'"
    using ulist.init_law [of h p] by simp
next
  fix h hp xs x
  assume "dlist h hp xs" "x \<notin> set (hp # xs)" "h x \<noteq> None"
  then show "\<exists>h'. klist_add x hp h = Some h' \<and> dlist h' hp (x # xs) \<and> same_outside (set (x # hp # xs)) h h'"
    and "\<exists>h'. klist_add_tail x hp h = Some h' \<and> dlist h' hp (xs @ [x]) \<and> same_outside (set (x # hp # xs)) h h'"
    unfolding klist_ops_eq by (rule ulist.add_law ulist.add_tail_law; assumption)+
next
  fix h hp xs
  assume "dlist h hp xs"
  then show "klist_empty hp h = Some (xs = [])"
    using ulist.is_empty_law by simp
qed


section \<open>Iteration\<close>

text \<open>Following \<open>next\<close> visits the nodes in list order, following \<open>prev\<close> in reverse order, and both loops end.\<close>

lemma klist_walk_next:
  assumes "dlist h hp (us @ xs)"
  shows "klist_walk (\<lambda>p. get_next p h) (hd (xs @ [hp])) hp = Some xs"
  using assms
proof (induction xs arbitrary: us)
  case Nil
  then show ?case by (simp add: klist_walk.simps)
next
  case (Cons x xs)
  have "klist_walk (\<lambda>p. get_next p h) (hd (xs @ [hp])) hp = Some xs"
    using Cons.prems by (intro Cons.IH [of "us @ [x]"]) simp
  moreover have "x \<noteq> hp" using Cons.prems by (auto simp: dlist_def)
  ultimately show ?case
    using dlist_neighbours(2) [OF Cons.prems] by (subst klist_walk.simps) simp
qed

lemma klist_walk_prev:
  assumes "dlist h hp (xs @ us)"
  shows "klist_walk (\<lambda>p. get_prev p h) (last (hp # xs)) hp = Some (rev xs)"
  using assms
proof (induction xs arbitrary: us rule: rev_induct)
  case Nil
  then show ?case by (simp add: klist_walk.simps)
next
  case (snoc x xs)
  have d: "dlist h hp (xs @ x # us)" using snoc.prems by simp
  then have "klist_walk (\<lambda>p. get_prev p h) (last (hp # xs)) hp = Some (rev xs)"
    by (rule snoc.IH)
  moreover have "x \<noteq> hp" using d by (auto simp: dlist_def)
  ultimately show ?case
    using dlist_neighbours(1) [OF d] by (subst klist_walk.simps) simp
qed

lemma klist_for_each_spec: "dlist h hp xs \<Longrightarrow> klist_for_each hp h = Some xs"
  using klist_walk_next [of h hp "[]" xs] dlist_first [of h hp xs]
  by (cases xs) (simp_all add: klist_for_each_def)

lemma klist_for_each_prev_spec: "dlist h hp xs \<Longrightarrow> klist_for_each_prev hp h = Some (rev xs)"
  using klist_walk_prev [of h hp xs "[]"] dlist_last [of h hp xs]
  by (simp add: klist_for_each_prev_def)


section \<open>Properties\<close>

text \<open>
  The two list headers agree on every operation but \<open>list_del\<close>, and \<open>list_del\<close> of \<^verbatim>\<open>klist.h\<close> is the
  one of \<^verbatim>\<open>list.h\<close> followed by storing NULL in both pointers of the removed node.
\<close>

theorem klist_agrees_with_list:
  "kINIT_LIST_HEAD p h = INIT_LIST_HEAD p h \<and> klist_add x p h = list_add x p h \<and>
   klist_add_tail x p h = list_add_tail x p h \<and> klist_del_init x h = list_del_init x h \<and>
   klist_move x p h = list_move x p h \<and> klist_move_tail x p h = list_move_tail x p h \<and>
   klist_empty p h = list_empty p h \<and> klist_splice q p h = list_splice q p h \<and>
   klist_splice_init q p h = list_splice_init q p h \<and>
   klist_del x h = do { h \<leftarrow> list_del x h; h \<leftarrow> set_next x NULL h; set_prev x NULL h }"
  by (simp add: klist_ops_eq klist_del_def list_del_def)

text \<open>
  \<open>list_del\<close> of \<^verbatim>\<open>klist.h\<close>: the list reads the same forwards and backwards without the node, and a
  second deletion of the node is caught as an access through NULL instead of corrupting the list.
\<close>

theorem klist_del_twice:
  assumes "dlist h hp (xs @ x # ys)" and "h NULL = None"
  shows "\<exists>h'. klist_del x h = Some h' \<and> klist_for_each hp h' = Some (xs @ ys) \<and>
    klist_for_each_prev hp h' = Some (rev (xs @ ys)) \<and> klist_del x h' = None"
proof -
  obtain h' where h': "klist_del x h = Some h'" "dlist h' hp (xs @ ys)" "get_next x h' = Some NULL" "get_prev x h' = Some NULL"
    "same_outside (set (hp # xs @ x # ys)) h h'"
    using klist_del_spec [OF assms(1)] by blast
  have "NULL \<notin> set (hp # xs @ x # ys)" using dlist_alloc [OF assms(1)] assms(2) by blast
  then have "h' NULL = None" using h'(5) assms(2) by (simp add: same_outside_def)
  then have "klist_del x h' = None"
    using h'(3,4) by (simp add: klist_del_def list_del_between_def set_prev_def)
  then show ?thesis using h'(1,2) klist_for_each_spec klist_for_each_prev_spec by blast
qed

theorem klist_del_twice_witness:
  "\<exists>h'. klist_del 2 demo_rings = Some h' \<and> klist_for_each 1 h' = Some ([] @ [3]) \<and>
    klist_for_each_prev 1 h' = Some (rev ([] @ [3])) \<and> klist_del 2 h' = None"
  by (rule klist_del_twice) (use demo_rings_ok in \<open>simp_all add: demo_rings_def\<close>)

end
