(* ===== verification/Klist_Entry.thy ===== *)
theory Klist_Entry
  imports Klist
begin

text \<open>
  The loops of \<^verbatim>\<open>list/klist.h\<close> over the structs that have the nodes in them, and the loops that allow the current entry
  to be removed. A node is a member of its struct at some offset \<open>off\<close>; the cursor of these loops is
  the address of the struct, computed from the address of the node. At the end of a loop the cursor is computed from the
  head, which is in no such struct: cursors are integers, of which only the member is ever looked at.
\<close>

section \<open>The macros\<close>

definition list_entry :: "addr \<Rightarrow> nat \<Rightarrow> int" where
  "list_entry ptr off = int ptr - int off"

definition member_ptr :: "int \<Rightarrow> nat \<Rightarrow> addr" where
  "member_ptr pos off = nat (pos + int off)"

definition list_first_entry :: "addr \<Rightarrow> nat \<Rightarrow> lheap \<Rightarrow> int option" where
  "list_first_entry ptr off h = do { n \<leftarrow> get_next ptr h; Some (list_entry n off) }"

partial_function (option) klist_safe_walk ::
  "(addr \<Rightarrow> lheap \<Rightarrow> 's \<Rightarrow> (lheap \<times> 's) option) \<Rightarrow> addr \<Rightarrow> addr \<Rightarrow> addr \<Rightarrow> lheap \<Rightarrow> 's \<Rightarrow> (lheap \<times> 's) option" where
  "klist_safe_walk body pos n head h s =
     (if pos \<noteq> head
      then do { (h', s') \<leftarrow> body pos h s; n' \<leftarrow> get_next n h'; klist_safe_walk body n n' head h' s' }
      else Some (h, s))"

definition klist_for_each_safe ::
  "(addr \<Rightarrow> lheap \<Rightarrow> 's \<Rightarrow> (lheap \<times> 's) option) \<Rightarrow> addr \<Rightarrow> lheap \<Rightarrow> 's \<Rightarrow> (lheap \<times> 's) option" where
  "klist_for_each_safe body head h s = do {
     pos \<leftarrow> get_next head h;
     n \<leftarrow> get_next pos h;
     klist_safe_walk body pos n head h s }"

partial_function (option) klist_entry_walk :: "nat \<Rightarrow> int \<Rightarrow> addr \<Rightarrow> lheap \<Rightarrow> int list option" where
  "klist_entry_walk off pos head h =
     (if member_ptr pos off \<noteq> head
      then do { n \<leftarrow> get_next (member_ptr pos off) h; xs \<leftarrow> klist_entry_walk off (list_entry n off) head h; Some (pos # xs) }
      else Some [])"

definition klist_for_each_entry :: "addr \<Rightarrow> nat \<Rightarrow> lheap \<Rightarrow> int list option" where
  "klist_for_each_entry head off h = do { pos \<leftarrow> list_first_entry head off h; klist_entry_walk off pos head h }"

partial_function (option) klist_entry_safe_walk ::
  "(int \<Rightarrow> lheap \<Rightarrow> 's \<Rightarrow> (lheap \<times> 's) option) \<Rightarrow> nat \<Rightarrow> int \<Rightarrow> int \<Rightarrow> addr \<Rightarrow> lheap \<Rightarrow> 's \<Rightarrow> (lheap \<times> 's) option" where
  "klist_entry_safe_walk body off pos n head h s =
     (if member_ptr pos off \<noteq> head
      then do {
        (h', s') \<leftarrow> body pos h s;
        n' \<leftarrow> get_next (member_ptr n off) h';
        klist_entry_safe_walk body off n (list_entry n' off) head h' s' }
      else Some (h, s))"

definition klist_for_each_entry_safe ::
  "(int \<Rightarrow> lheap \<Rightarrow> 's \<Rightarrow> (lheap \<times> 's) option) \<Rightarrow> addr \<Rightarrow> nat \<Rightarrow> lheap \<Rightarrow> 's \<Rightarrow> (lheap \<times> 's) option" where
  "klist_for_each_entry_safe body head off h s = do {
     pos \<leftarrow> list_first_entry head off h;
     n \<leftarrow> get_next (member_ptr pos off) h;
     klist_entry_safe_walk body off pos (list_entry n off) head h s }"


section \<open>Properties\<close>

lemma member_list_entry [simp]: "member_ptr (list_entry p off) off = p"
  by (simp add: member_ptr_def list_entry_def)

text \<open>Forwards, the loop visits the structs of the nodes in the order of the list.\<close>

lemma klist_entry_walk_next:
  assumes "dlist h hp (us @ xs)"
  shows "klist_entry_walk off (list_entry (hd (xs @ [hp])) off) hp h = Some (map (\<lambda>p. list_entry p off) xs)"
  using assms
proof (induction xs arbitrary: us)
  case Nil
  then show ?case by (simp add: klist_entry_walk.simps)
next
  case (Cons x xs)
  have "klist_entry_walk off (list_entry (hd (xs @ [hp])) off) hp h = Some (map (\<lambda>p. list_entry p off) xs)"
    using Cons.prems by (intro Cons.IH [of "us @ [x]"]) simp
  moreover have "x \<noteq> hp" using Cons.prems by (auto simp: dlist_def)
  ultimately show ?case
    using dlist_neighbours(2) [OF Cons.prems] by (subst klist_entry_walk.simps) simp
qed

lemma klist_for_each_entry_spec:
  "dlist h hp xs \<Longrightarrow> klist_for_each_entry hp off h = Some (map (\<lambda>p. list_entry p off) xs)"
  using klist_entry_walk_next [of h hp "[]" xs] dlist_first [of h hp xs]
  by (cases xs) (simp_all add: klist_for_each_entry_def list_first_entry_def)

text \<open>The safe loops do what the safe loop of \<^verbatim>\<open>list.h\<close> does, on the structs of its nodes.\<close>

lemma klist_safe_walk_eq:
  assumes "list_safe_walk body pos n head h s = Some y"
  shows "klist_safe_walk body pos n head h s = Some y"
  using assms
proof (rule list_safe_walk.raw_induct [where P = "\<lambda>body pos n head h s y. klist_safe_walk body pos n head h s = Some y", rotated])
  fix walk :: "(addr \<Rightarrow> lheap \<Rightarrow> 's \<Rightarrow> (lheap \<times> 's) option) \<Rightarrow> addr \<Rightarrow> addr \<Rightarrow> addr \<Rightarrow> lheap \<Rightarrow> 's \<Rightarrow> (lheap \<times> 's) option"
  fix body pos n head h s y
  assume IH: "\<And>body pos n head h s y. walk body pos n head h s = Some y \<Longrightarrow> klist_safe_walk body pos n head h s = Some y"
    and st: "(if pos = head then Some (h, s)
      else Option.bind (body pos h s) (\<lambda>(h', s'). Option.bind (get_next n h') (\<lambda>n'. walk body n n' head h' s'))) = Some y"
  then show "klist_safe_walk body pos n head h s = Some y"
    by (subst klist_safe_walk.simps) (auto dest: IH split: if_splits Option.bind_splits)
qed

lemma klist_entry_safe_walk_eq:
  fixes body :: "int \<Rightarrow> lheap \<Rightarrow> 's \<Rightarrow> (lheap \<times> 's) option"
  assumes "list_safe_walk (\<lambda>p. body (list_entry p off)) pos n head h s = Some y"
  shows "klist_entry_safe_walk body off (list_entry pos off) (list_entry n off) head h s = Some y"
proof -
  have "(\<forall>p. body' p = body (list_entry p off)) \<longrightarrow> klist_entry_safe_walk body off (list_entry pos off) (list_entry n off) head h s = Some y"
    if "list_safe_walk body' pos n head h s = Some y" for body' pos n head h s y
    using that
  proof (rule list_safe_walk.raw_induct [where P = "\<lambda>body' pos n head h s y. (\<forall>p. body' p = body (list_entry p off)) \<longrightarrow>
        klist_entry_safe_walk body off (list_entry pos off) (list_entry n off) head h s = Some y", rotated])
    fix walk :: "(addr \<Rightarrow> lheap \<Rightarrow> 's \<Rightarrow> (lheap \<times> 's) option) \<Rightarrow> addr \<Rightarrow> addr \<Rightarrow> addr \<Rightarrow> lheap \<Rightarrow> 's \<Rightarrow> (lheap \<times> 's) option"
    fix body' pos n head h s y
    assume IH: "\<And>body' pos n head h s y. walk body' pos n head h s = Some y \<Longrightarrow> (\<forall>p. body' p = body (list_entry p off)) \<longrightarrow>
        klist_entry_safe_walk body off (list_entry pos off) (list_entry n off) head h s = Some y"
      and st: "(if pos = head then Some (h, s)
        else Option.bind (body' pos h s) (\<lambda>(h', s'). Option.bind (get_next n h') (\<lambda>n'. walk body' n n' head h' s'))) = Some y"
    show "(\<forall>p. body' p = body (list_entry p off)) \<longrightarrow>
        klist_entry_safe_walk body off (list_entry pos off) (list_entry n off) head h s = Some y"
    proof
      assume b: "\<forall>p. body' p = body (list_entry p off)"
      then have "body' pos = body (list_entry pos off)" by simp
      then show "klist_entry_safe_walk body off (list_entry pos off) (list_entry n off) head h s = Some y"
        using st by (subst klist_entry_safe_walk.simps) (auto intro: IH [rule_format, OF _ b [rule_format]] split: if_splits Option.bind_splits)
    qed
  qed
  from this [OF assms] show ?thesis by simp
qed

lemma klist_for_each_safe_eq:
  "list_for_each_safe body hp h s = Some y \<Longrightarrow> klist_for_each_safe body hp h s = Some y"
  by (auto simp: list_for_each_safe_def klist_for_each_safe_def intro: klist_safe_walk_eq split: Option.bind_splits)

lemma klist_for_each_entry_safe_eq:
  assumes "list_for_each_safe (\<lambda>p. body (list_entry p off)) hp h s = Some y"
  shows "klist_for_each_entry_safe body hp off h s = Some y"
  using assms by (auto simp: list_for_each_safe_def klist_for_each_entry_safe_def list_first_entry_def
      intro: klist_entry_safe_walk_eq split: Option.bind_splits)

text \<open>
  C14: Emptying a list of structs. A loop of \<open>list_for_each_entry_safe\<close> whose body deletes the entry it is given, with
  \<open>list_del\<close>, which makes the pointers of the node useless, visits the structs of all nodes in the order of the list and
  leaves an empty list; so does \<open>list_for_each_safe\<close> with the nodes. The plain loops visit the
  same sequence when nothing is deleted.
\<close>

theorem klist_entry_safe_drains:
  assumes "dlist h hp xs"
  shows "klist_for_each_entry hp off h = Some (map (\<lambda>p. list_entry p off) xs) \<and>
    (\<exists>h'. klist_for_each_entry_safe (\<lambda>pos h seen. map_option (\<lambda>h'. (h', seen @ [pos])) (klist_del (member_ptr pos off) h)) hp off h [] =
        Some (h', map (\<lambda>p. list_entry p off) xs) \<and> klist_empty hp h' = Some True) \<and>
    (\<exists>h'. klist_for_each_safe (\<lambda>pos h seen. map_option (\<lambda>h'. (h', seen @ [pos])) (klist_del pos h)) hp h [] = Some (h', xs) \<and>
      klist_empty hp h' = Some True)"
proof -
  have del: "\<exists>h'. klist_del x h = Some h' \<and> dlist h' hp ys" if "dlist h hp (x # ys)" for x ys h
    using klist_del_spec [of h hp "[]" x ys] that by auto
  have fold: "fold (\<lambda>x seen. seen @ [f x]) xs acc = acc @ map f xs" for f :: "addr \<Rightarrow> 'b" and acc
    by (induction xs arbitrary: acc) simp_all
  obtain h1 where h1: "list_for_each_safe (\<lambda>p h seen. map_option (\<lambda>h'. (h', seen @ [list_entry p off])) (klist_del p h)) hp h [] =
      Some (h1, fold (\<lambda>x seen. seen @ [list_entry x off]) xs [])" "dlist h1 hp []"
    using list_for_each_safe_drain [where I = "\<lambda>_ _. True" and g = "\<lambda>x seen. seen @ [list_entry x off]" and hp = hp and h = h and xs = xs
        and body = "\<lambda>p h seen. map_option (\<lambda>h'. (h', seen @ [list_entry p off])) (klist_del p h)" and s = "[]"] del assms by fastforce
  obtain h2 where h2: "list_for_each_safe (\<lambda>p h seen. map_option (\<lambda>h'. (h', seen @ [p])) (klist_del p h)) hp h [] =
      Some (h2, fold (\<lambda>x seen. seen @ [x]) xs [])" "dlist h2 hp []"
    using list_for_each_safe_drain [where I = "\<lambda>_ _. True" and g = "\<lambda>x seen. seen @ [x]" and hp = hp and h = h and xs = xs
        and body = "\<lambda>p h seen. map_option (\<lambda>h'. (h', seen @ [p])) (klist_del p h)" and s = "[]"] del assms by fastforce
  have "klist_for_each_entry_safe (\<lambda>pos h seen. map_option (\<lambda>h'. (h', seen @ [pos])) (klist_del (member_ptr pos off) h)) hp off h [] =
      Some (h1, map (\<lambda>p. list_entry p off) xs)"
    using h1(1) fold [of "\<lambda>x. list_entry x off" "[]"] by (intro klist_for_each_entry_safe_eq) simp
  moreover have "klist_for_each_safe (\<lambda>pos h seen. map_option (\<lambda>h'. (h', seen @ [pos])) (klist_del pos h)) hp h [] = Some (h2, xs)"
    using h2(1) fold [of "\<lambda>x. x" "[]"] by (intro klist_for_each_safe_eq) simp
  ultimately show ?thesis
    using klist_for_each_entry_spec [OF assms] klist.is_empty_law [OF h1(2)] klist.is_empty_law [OF h2(2)] by auto
qed

theorem klist_entry_safe_drains_witness:
  "klist_for_each_entry 1 16 demo_rings = Some [- 14, - 13] \<and>
   (\<exists>h'. klist_for_each_safe (\<lambda>pos h seen. map_option (\<lambda>h'. (h', seen @ [pos])) (klist_del pos h)) 1 demo_rings [] = Some (h', [2, 3]) \<and>
      klist_empty 1 h' = Some True)"
  using klist_entry_safe_drains [OF demo_rings_ok(1), of 16] by (simp add: list_entry_def)

end
