(* ===== verification/Pool_List.thy ===== *)
theory Pool_List
  imports Klist
begin

text \<open>
  \<^verbatim>\<open>list/pool_list.c\<close>: a pool of equally sized elements, allocated in slabs and handed out from a list of
  free elements; elements in use wait in a second list. The file leaves out some declarations: the
  variable \<open>elem\<close> of \<open>expand_pool_list\<close>, which is called as \<open>expand_pool\<close>, and the parameters \<open>pool\<close> of \<open>pool_list_set_limit\<close> and \<open>elem\<close> of the two
  functions that put an element; they are supplied here. Nodes are those of \<^verbatim>\<open>klist.h\<close>; \<open>list\<close> is the first member of an
  element, so an element and its node have the same address. The sizes are those of a machine with
  8-byte pointers.
\<close>

section \<open>The code\<close>

definition sizeof_list_head :: nat where
  "sizeof_list_head = 16"

definition sizeof_pool_elem :: nat where
  "sizeof_pool_elem = 24"

definition PREALLOC_NUM :: int where
  "PREALLOC_NUM = 16"

record pool_list =
  pl_slub :: addr
  pl_free :: addr
  pl_available :: addr
  pl_free_num :: int
  pl_cur_slub :: int
  pl_max_slub :: u32
  pl_elem_size :: int
  pl_prealloc_num :: int

text \<open>The memory: nodes, the member \<open>addr\<close> of elements, and the blocks that \<open>calloc\<close> has given out.\<close>

record pool_mem =
  p_links :: lheap
  p_addr :: "addr \<Rightarrow> addr option"
  p_blocks :: "(addr \<times> nat) list"

text \<open>The size that \<open>calloc\<close> is asked for, in unsigned 64-bit arithmetic.\<close>

definition slab_size :: "int \<Rightarrow> int \<Rightarrow> nat" where
  "slab_size num sz = unat (of_nat sizeof_list_head + of_int num * (of_int sz + of_nat sizeof_pool_elem) :: u64)"

text \<open>A new block \<open>mem\<close> of zeros holds a node at its start and the elements at \<open>elem\<close>, as far as they fit.\<close>

definition carve :: "addr \<Rightarrow> nat \<Rightarrow> addr \<Rightarrow> nat \<Rightarrow> pool_mem \<Rightarrow> pool_mem" where
  "carve mem len elem n w = w\<lparr>p_blocks := (mem, len) # p_blocks w,
     p_links := (\<lambda>a. if a = mem \<or> a \<in> set (map (\<lambda>i. elem + sizeof_pool_elem * i) [0..<n]) \<and> a + sizeof_pool_elem \<le> mem + len
       then Some \<lparr>lh_next = NULL, lh_prev = NULL\<rparr> else p_links w a)\<rparr>"

fun expand_loop :: "nat \<Rightarrow> nat \<Rightarrow> addr \<Rightarrow> addr \<Rightarrow> nat \<Rightarrow> addr \<Rightarrow> pool_mem \<Rightarrow> pool_mem option" where
  "expand_loop 0 i elem ptr sz free_list w = Some w"
| "expand_loop (Suc n) i elem ptr sz free_list w = do {
     let e = elem + sizeof_pool_elem * i;
     let w = w\<lparr>p_addr := (p_addr w)(e \<mapsto> ptr)\<rparr>;
     h \<leftarrow> klist_add e free_list (p_links w);
     expand_loop n (i + 1) elem (ptr + sz) sz free_list (w\<lparr>p_links := h\<rparr>) }"

text \<open>
  \<open>mem\<close> is the result of \<open>calloc\<close>. The elements lie behind the data, at an address that must be a multiple of 8.
\<close>

definition expand_pool_list :: "addr \<Rightarrow> pool_list \<Rightarrow> int \<Rightarrow> int \<Rightarrow> pool_mem \<Rightarrow> (int \<times> pool_list \<times> pool_mem) option" where
  "expand_pool_list mem pool num sz w =
     (if mem = NULL then Some (- 1, pool, w)
      else do {
        off \<leftarrow> cint (num * sz);
        (if off < 0 \<or> off mod 8 \<noteq> 0 then None
         else do {
           let elem = mem + sizeof_list_head + nat off;
           let w = carve mem (slab_size num sz) elem (nat num) w;
           h \<leftarrow> klist_add mem (pl_slub pool) (p_links w);
           w \<leftarrow> expand_loop (nat num) 0 elem (mem + sizeof_list_head) (nat sz) (pl_free pool) (w\<lparr>p_links := h\<rparr>);
           f \<leftarrow> cint (pl_free_num pool + num);
           Some (0, pool\<lparr>pl_free_num := f\<rparr>, w) }) })"

definition pool_list_init :: "pool_list \<Rightarrow> int \<Rightarrow> pool_mem \<Rightarrow> (int \<times> pool_list \<times> pool_mem) option" where
  "pool_list_init pool elem_size w = do {
     h \<leftarrow> kINIT_LIST_HEAD (pl_available pool) (p_links w);
     h \<leftarrow> kINIT_LIST_HEAD (pl_free pool) h;
     h \<leftarrow> kINIT_LIST_HEAD (pl_slub pool) h;
     Some (0, pool\<lparr>pl_max_slub := - 1, pl_elem_size := elem_size, pl_free_num := 0, pl_prealloc_num := PREALLOC_NUM\<rparr>,
       w\<lparr>p_links := h\<rparr>) }"

definition pool_list_set_limit :: "pool_list \<Rightarrow> int \<Rightarrow> int \<Rightarrow> int \<times> pool_list" where
  "pool_list_set_limit pool max_slub prealloc_num =
     (0, pool\<lparr>pl_max_slub := of_int max_slub, pl_prealloc_num := prealloc_num\<rparr>)"

text \<open>Whether a further slab is allowed; the signed count is converted to unsigned for the comparison.\<close>

definition may_expand :: "pool_list \<Rightarrow> bool" where
  "may_expand pool \<longleftrightarrow> - 1 = pl_max_slub pool \<or> of_int (pl_cur_slub pool) < pl_max_slub pool"

definition pool_list_get_free_elem :: "addr \<Rightarrow> pool_list \<Rightarrow> pool_mem \<Rightarrow> (addr \<times> pool_list \<times> pool_mem) option" where
  "pool_list_get_free_elem mem pool w = do {
     e \<leftarrow> klist_empty (pl_free pool) (p_links w);
     (pool, w) \<leftarrow> (if e \<and> may_expand pool
       then do {
         (ret, pool, w) \<leftarrow> expand_pool_list mem pool (pl_prealloc_num pool) (pl_elem_size pool) w;
         (if 0 = ret then do { c \<leftarrow> cint (pl_cur_slub pool + 1); Some (pool\<lparr>pl_cur_slub := c\<rparr>, w) }
          else Some (pool, w)) }
       else Some (pool, w));
     e \<leftarrow> klist_empty (pl_free pool) (p_links w);
     (if e then Some (NULL, pool, w)
      else do {
        elem \<leftarrow> get_next (pl_free pool) (p_links w);
        h \<leftarrow> klist_del elem (p_links w);
        f \<leftarrow> cint (pl_free_num pool - 1);
        Some (elem, pool\<lparr>pl_free_num := f\<rparr>, w\<lparr>p_links := h\<rparr>) }) }"

definition pool_list_put_available_elem :: "pool_list \<Rightarrow> addr \<Rightarrow> pool_mem \<Rightarrow> (int \<times> pool_mem) option" where
  "pool_list_put_available_elem pool elem w = do {
     h \<leftarrow> klist_add_tail elem (pl_available pool) (p_links w);
     Some (0, w\<lparr>p_links := h\<rparr>) }"

definition pool_list_get_available_elem :: "pool_list \<Rightarrow> pool_mem \<Rightarrow> addr option" where
  "pool_list_get_available_elem pool w = do {
     e \<leftarrow> klist_empty (pl_available pool) (p_links w);
     (if e then Some NULL else get_next (pl_available pool) (p_links w)) }"

definition pool_list_put_free_elem :: "pool_list \<Rightarrow> addr \<Rightarrow> pool_mem \<Rightarrow> (int \<times> pool_list \<times> pool_mem) option" where
  "pool_list_put_free_elem pool elem w = do {
     h \<leftarrow> klist_move elem (pl_free pool) (p_links w);
     f \<leftarrow> cint (pl_free_num pool + 1);
     Some (0, pool\<lparr>pl_free_num := f\<rparr>, w\<lparr>p_links := h\<rparr>) }"


section \<open>The invariant\<close>

text \<open>An element of the pool: its node and its data lie in one of the blocks.\<close>

definition elem_in :: "(addr \<times> nat) list \<Rightarrow> nat \<Rightarrow> addr \<Rightarrow> addr \<Rightarrow> bool" where
  "elem_in bs sz x a \<longleftrightarrow> (\<exists>(b, l)\<in>set bs. b \<le> x \<and> x < b + l \<and> b \<le> a \<and> a + sz \<le> b + l)"

definition apart :: "nat \<Rightarrow> addr \<Rightarrow> addr \<Rightarrow> bool" where
  "apart sz a b \<longleftrightarrow> a + sz \<le> b \<or> b + sz \<le> a"

definition heads :: "pool_list \<Rightarrow> addr list" where
  "heads p = [pl_slub p, pl_free p, pl_available p]"

text \<open>
  \<open>fs\<close> are the free elements, \<open>avs\<close> the available ones, \<open>outs\<close> those a client has, and \<open>ss\<close> the slabs. Nothing is
  in two places, the counter is right, and the data of different elements do not overlap.
\<close>

definition lists_ok :: "pool_list \<Rightarrow> lheap \<Rightarrow> addr list \<Rightarrow> addr list \<Rightarrow> addr list \<Rightarrow> addr list \<Rightarrow> bool" where
  "lists_ok p h fs avs outs ss \<longleftrightarrow> dlist h (pl_free p) fs \<and> dlist h (pl_available p) avs \<and> dlist h (pl_slub p) ss \<and>
     distinct (heads p @ fs @ avs @ outs @ ss) \<and> h NULL = None \<and>
     (\<forall>x\<in>set outs. get_next x h = Some NULL \<and> get_prev x h = Some NULL)"

definition elems_ok :: "nat \<Rightarrow> (addr \<Rightarrow> addr option) \<Rightarrow> (addr \<times> nat) list \<Rightarrow> addr set \<Rightarrow> bool" where
  "elems_ok sz ad bs xs \<longleftrightarrow> (\<forall>x\<in>xs. \<exists>a. ad x = Some a \<and> elem_in bs sz x a) \<and>
     (\<forall>x\<in>xs. \<forall>y\<in>xs. x \<noteq> y \<longrightarrow> (\<forall>a b. ad x = Some a \<longrightarrow> ad y = Some b \<longrightarrow> apart sz a b))"

definition pool_inv :: "pool_list \<Rightarrow> pool_mem \<Rightarrow> addr list \<Rightarrow> addr list \<Rightarrow> addr list \<Rightarrow> addr list \<Rightarrow> bool" where
  "pool_inv p w fs avs outs ss \<longleftrightarrow> lists_ok p (p_links w) fs avs outs ss \<and> pl_free_num p = int (length fs) \<and>
     elems_ok (nat (pl_elem_size p)) (p_addr w) (p_blocks w) (set (fs @ avs @ outs)) \<and>
     (\<forall>s\<in>set ss. \<exists>l. (s, l) \<in> set (p_blocks w) \<and> 0 < l)"

text \<open>Sizes with which the pool works: no overflow, and elements at aligned addresses.\<close>

definition sizes_ok :: "pool_list \<Rightarrow> bool" where
  "sizes_ok p \<longleftrightarrow> 0 \<le> pl_elem_size p \<and> 0 < pl_prealloc_num p \<and> (pl_prealloc_num p * pl_elem_size p) mod 8 = 0 \<and>
     16 + pl_prealloc_num p * (pl_elem_size p + 24) \<le> INT_MAX"

text \<open>What \<open>calloc\<close> promises of a block it returns.\<close>

definition fresh_block :: "pool_list \<Rightarrow> pool_mem \<Rightarrow> addr \<Rightarrow> bool" where
  "fresh_block p w mem \<longleftrightarrow> (let len = slab_size (pl_prealloc_num p) (pl_elem_size p) in
     mem \<noteq> NULL \<and> (\<forall>(b, l)\<in>set (p_blocks w). mem + len \<le> b \<or> b + l \<le> mem) \<and> (\<forall>q\<in>set (heads p). q < mem \<or> mem + len \<le> q))"

lemma slab_size_eq:
  assumes "sizes_ok p"
  shows "slab_size (pl_prealloc_num p) (pl_elem_size p) =
    16 + nat (pl_prealloc_num p) * nat (pl_elem_size p) + 24 * nat (pl_prealloc_num p)"
proof -
  define n where "n = nat (pl_prealloc_num p)"
  define s where "s = nat (pl_elem_size p)"
  have i: "pl_prealloc_num p = int n" "pl_elem_size p = int s" using assms by (simp_all add: sizes_ok_def n_def s_def)
  define t where "t = 16 + n * (s + 24)"
  have "int t \<le> INT_MAX" using assms i by (simp add: sizes_ok_def t_def)
  then have "t < 2 ^ 64" by (simp add: int_limits)
  then have "unat (of_nat t :: u64) = t" by (simp add: unsigned_of_nat take_bit_nat_eq_self)
  moreover have "(of_nat 16 + of_int (int n) * (of_int (int s) + of_nat 24) :: u64) = of_nat t" by (simp add: t_def)
  ultimately show ?thesis unfolding slab_size_def i sizeof_list_head_def sizeof_pool_elem_def by (simp add: t_def algebra_simps)
qed


section \<open>The lists\<close>

text \<open>An operation that changes nodes of \<open>A\<close> only leaves the other lists and the handed-out elements alone.\<close>

lemma outs_frame:
  assumes "\<forall>x\<in>set outs. get_next x h = Some NULL \<and> get_prev x h = Some NULL" "same_outside A h h'" "A \<inter> set outs = {}"
  shows "\<forall>x\<in>set outs. get_next x h' = Some NULL \<and> get_prev x h' = Some NULL"
proof
  fix x assume "x \<in> set outs"
  then have "h' x = h x" using assms(2,3) by (auto simp: same_outside_def)
  then show "get_next x h' = Some NULL \<and> get_prev x h' = Some NULL"
    using assms(1) \<open>x \<in> set outs\<close> by (simp add: get_next_def get_prev_def)
qed

lemma same_outside_None: "same_outside A h h' \<Longrightarrow> h' p = None \<longleftrightarrow> h p = None"
  unfolding same_outside_def by (metis domIff)

lemma lists_add_free:
  assumes "lists_ok p h fs avs outs ss" "h x \<noteq> None" "x \<notin> set (heads p @ fs @ avs @ outs @ ss)"
  shows "\<exists>h'. klist_add x (pl_free p) h = Some h' \<and> lists_ok p h' (x # fs) avs outs ss \<and> (\<forall>a. h' a = None \<longleftrightarrow> h a = None)"
proof -
  have d: "dlist h (pl_free p) fs" "dlist h (pl_available p) avs" "dlist h (pl_slub p) ss" using assms(1) by (auto simp: lists_ok_def)
  obtain h' where h': "klist_add x (pl_free p) h = Some h'" "dlist h' (pl_free p) (x # fs)" "same_outside (set (x # pl_free p # fs)) h h'"
    using klist.add_law [OF d(1), of x] assms(2,3) by (auto simp: heads_def)
  have dis: "distinct (heads p @ fs @ avs @ outs @ ss)" using assms(1) by (simp add: lists_ok_def)
  have "dlist h' (pl_available p) avs" "dlist h' (pl_slub p) ss"
    using dis assms(3) by (intro dlist_frame [OF d(2) h'(3)] dlist_frame [OF d(3) h'(3)]; auto simp: heads_def)+
  moreover have "\<forall>y\<in>set outs. get_next y h' = Some NULL \<and> get_prev y h' = Some NULL"
    using assms(1) dis assms(3) by (intro outs_frame [OF _ h'(3)]) (auto simp: lists_ok_def heads_def)
  ultimately show ?thesis using h' assms same_outside_None [OF h'(3)] by (auto simp: lists_ok_def)
qed

lemma lists_add_slub:
  assumes "lists_ok p h fs avs outs ss" "h x \<noteq> None" "x \<notin> set (heads p @ fs @ avs @ outs @ ss)"
  shows "\<exists>h'. klist_add x (pl_slub p) h = Some h' \<and> lists_ok p h' fs avs outs (x # ss) \<and> (\<forall>a. h' a = None \<longleftrightarrow> h a = None)"
proof -
  have d: "dlist h (pl_free p) fs" "dlist h (pl_available p) avs" "dlist h (pl_slub p) ss" using assms(1) by (auto simp: lists_ok_def)
  obtain h' where h': "klist_add x (pl_slub p) h = Some h'" "dlist h' (pl_slub p) (x # ss)" "same_outside (set (x # pl_slub p # ss)) h h'"
    using klist.add_law [OF d(3), of x] assms(2,3) by (auto simp: heads_def)
  have dis: "distinct (heads p @ fs @ avs @ outs @ ss)" using assms(1) by (simp add: lists_ok_def)
  have "dlist h' (pl_available p) avs" "dlist h' (pl_free p) fs"
    using dis assms(3) by (intro dlist_frame [OF d(2) h'(3)] dlist_frame [OF d(1) h'(3)]; auto simp: heads_def)+
  moreover have "\<forall>y\<in>set outs. get_next y h' = Some NULL \<and> get_prev y h' = Some NULL"
    using assms(1) dis assms(3) by (intro outs_frame [OF _ h'(3)]) (auto simp: lists_ok_def heads_def)
  ultimately show ?thesis using h' assms same_outside_None [OF h'(3)] by (auto simp: lists_ok_def)
qed

lemma lists_take_free:
  assumes "lists_ok p h (x # fs) avs outs ss"
  shows "\<exists>h'. klist_del x h = Some h' \<and> lists_ok p h' fs avs (x # outs) ss \<and> get_next (pl_free p) h = Some x \<and> x \<noteq> NULL"
proof -
  have d: "dlist h (pl_free p) (x # fs)" "dlist h (pl_available p) avs" "dlist h (pl_slub p) ss" using assms by (auto simp: lists_ok_def)
  obtain h' where h': "klist_del x h = Some h'" "dlist h' (pl_free p) fs" "get_next x h' = Some NULL" "get_prev x h' = Some NULL"
      "same_outside (set (pl_free p # x # fs)) h h'"
    using klist_del_spec [of h "pl_free p" "[]" x fs] d(1) by auto
  have dis: "distinct (heads p @ (x # fs) @ avs @ outs @ ss)" using assms by (simp add: lists_ok_def)
  have "dlist h' (pl_available p) avs" "dlist h' (pl_slub p) ss"
    using dis by (intro dlist_frame [OF d(2) h'(5)] dlist_frame [OF d(3) h'(5)]; auto simp: heads_def)+
  moreover have "\<forall>y\<in>set outs. get_next y h' = Some NULL \<and> get_prev y h' = Some NULL"
    using assms dis by (intro outs_frame [OF _ h'(5)]) (auto simp: lists_ok_def heads_def)
  moreover have "x \<noteq> NULL" using dlist_alloc [OF d(1), of x] assms by (auto simp: lists_ok_def)
  moreover have "distinct (heads p @ fs @ avs @ (x # outs) @ ss)" using dis by auto
  ultimately show ?thesis
    using h' assms same_outside_None [OF h'(5)] dlist_first [OF d(1)] by (auto simp: lists_ok_def)
qed

lemma lists_put_available:
  assumes "lists_ok p h fs avs (us @ x # vs) ss"
  shows "\<exists>h'. klist_add_tail x (pl_available p) h = Some h' \<and> lists_ok p h' fs (avs @ [x]) (us @ vs) ss"
proof -
  have d: "dlist h (pl_free p) fs" "dlist h (pl_available p) avs" "dlist h (pl_slub p) ss" using assms by (auto simp: lists_ok_def)
  have dis: "distinct (heads p @ fs @ avs @ (us @ x # vs) @ ss)" using assms by (simp add: lists_ok_def)
  have "h x \<noteq> None" using assms get_next_alloc [of x h] by (auto simp: lists_ok_def)
  then obtain h' where h': "klist_add_tail x (pl_available p) h = Some h'" "dlist h' (pl_available p) (avs @ [x])"
      "same_outside (set (x # pl_available p # avs)) h h'"
    using klist.add_tail_law [OF d(2), of x] dis by (auto simp: heads_def)
  have "dlist h' (pl_free p) fs" "dlist h' (pl_slub p) ss"
    using dis by (intro dlist_frame [OF d(1) h'(3)] dlist_frame [OF d(3) h'(3)]; auto simp: heads_def)+
  moreover have "\<forall>y\<in>set (us @ vs). get_next y h' = Some NULL \<and> get_prev y h' = Some NULL"
    using assms dis by (intro outs_frame [OF _ h'(3)]) (auto simp: lists_ok_def heads_def)
  moreover have "distinct (heads p @ fs @ (avs @ [x]) @ (us @ vs) @ ss)" using dis by auto
  ultimately show ?thesis using h' assms same_outside_None [OF h'(3)] by (auto simp: lists_ok_def)
qed

lemma lists_put_free:
  assumes "lists_ok p h fs (us @ x # vs) outs ss"
  shows "\<exists>h'. klist_move x (pl_free p) h = Some h' \<and> lists_ok p h' (x # fs) (us @ vs) outs ss"
proof -
  have d: "dlist h (pl_free p) fs" "dlist h (pl_available p) (us @ x # vs)" "dlist h (pl_slub p) ss" using assms by (auto simp: lists_ok_def)
  have dis: "distinct (heads p @ fs @ (us @ x # vs) @ outs @ ss)" using assms by (simp add: lists_ok_def)
  then have "set (pl_available p # us @ x # vs) \<inter> set (pl_free p # fs) = {}" by (auto simp: heads_def)
  then obtain h' where h': "klist_move x (pl_free p) h = Some h'" "dlist h' (pl_available p) (us @ vs)" "dlist h' (pl_free p) (x # fs)"
      "same_outside (set (pl_available p # us @ x # vs) \<union> set (pl_free p # fs)) h h'"
    using list_move_spec [OF d(2,1)] by (auto simp: klist_ops_eq)
  have "dlist h' (pl_slub p) ss" using dis by (intro dlist_frame [OF d(3) h'(4)]) (auto simp: heads_def)
  moreover have "\<forall>y\<in>set outs. get_next y h' = Some NULL \<and> get_prev y h' = Some NULL"
    using assms dis by (intro outs_frame [OF _ h'(4)]) (auto simp: lists_ok_def heads_def)
  moreover have "distinct (heads p @ (x # fs) @ (us @ vs) @ outs @ ss)" using dis by auto
  ultimately show ?thesis using h' assms same_outside_None [OF h'(4)] by (auto simp: lists_ok_def)
qed


section \<open>A new slab\<close>

definition elem_nodes :: "addr \<Rightarrow> nat \<Rightarrow> nat \<Rightarrow> addr list" where
  "elem_nodes elem i n = map (\<lambda>j. elem + 24 * j) [i..<i + n]"

lemma elem_nodes_Suc: "elem_nodes elem i (Suc n) = (elem + 24 * i) # elem_nodes elem (Suc i) n"
  by (simp add: elem_nodes_def upt_rec [of i])

lemma elem_nodes_iff: "a \<in> set (elem_nodes elem i n) \<longleftrightarrow> (\<exists>j. i \<le> j \<and> j < i + n \<and> a = elem + 24 * j)"
  by (auto simp: elem_nodes_def)

lemma elem_nodes_distinct: "distinct (elem_nodes elem i n)"
  by (auto simp: elem_nodes_def distinct_map inj_on_def)

lemma expand_loop_adds:
  assumes "lists_ok p (p_links w) fs avs outs ss"
    and "\<forall>e\<in>set (elem_nodes elem i n). p_links w e \<noteq> None \<and> e \<notin> set (heads p @ fs @ avs @ outs @ ss)"
  shows "\<exists>w'. expand_loop n i elem ptr sz (pl_free p) w = Some w' \<and>
    lists_ok p (p_links w') (rev (elem_nodes elem i n) @ fs) avs outs ss \<and> p_blocks w' = p_blocks w \<and>
    (\<forall>j. j < n \<longrightarrow> p_addr w' (elem + 24 * (i + j)) = Some (ptr + sz * j)) \<and>
    (\<forall>a. a \<notin> set (elem_nodes elem i n) \<longrightarrow> p_addr w' a = p_addr w a)"
  using assms
proof (induction n arbitrary: i ptr w fs)
  case 0
  then show ?case by (simp add: elem_nodes_def)
next
  case (Suc n)
  let ?e = "elem + 24 * i"
  have e: "p_links w ?e \<noteq> None" "?e \<notin> set (heads p @ fs @ avs @ outs @ ss)" using Suc.prems(2) by (simp_all add: elem_nodes_Suc)
  obtain h where h: "klist_add ?e (pl_free p) (p_links w) = Some h" "lists_ok p h (?e # fs) avs outs ss"
      "\<forall>a. h a = None \<longleftrightarrow> p_links w a = None"
    using lists_add_free [OF Suc.prems(1) e] by blast
  let ?w = "w\<lparr>p_addr := (p_addr w)(?e \<mapsto> ptr), p_links := h\<rparr>"
  have other: "?e \<notin> set (elem_nodes elem (Suc i) n)" using elem_nodes_distinct [of elem i "Suc n"] by (simp add: elem_nodes_Suc)
  then have "\<forall>e\<in>set (elem_nodes elem (Suc i) n). p_links ?w e \<noteq> None \<and> e \<notin> set (heads p @ (?e # fs) @ avs @ outs @ ss)"
    using Suc.prems(2) h(3) by (auto simp: elem_nodes_Suc)
  then obtain w' where w': "expand_loop n (Suc i) elem (ptr + sz) sz (pl_free p) ?w = Some w'"
      "lists_ok p (p_links w') (rev (elem_nodes elem (Suc i) n) @ ?e # fs) avs outs ss" "p_blocks w' = p_blocks w"
      "\<forall>j. j < n \<longrightarrow> p_addr w' (elem + 24 * (Suc i + j)) = Some (ptr + sz + sz * j)"
      "\<forall>a. a \<notin> set (elem_nodes elem (Suc i) n) \<longrightarrow> p_addr w' a = p_addr ?w a"
    using Suc.IH [of ?w "?e # fs" "Suc i" "ptr + sz"] h(2) by auto
  have "p_addr w' (elem + 24 * (i + j)) = Some (ptr + sz * j)" if "j < Suc n" for j
  proof (cases j)
    case 0
    then show ?thesis using w'(5) other by simp
  next
    case (Suc k)
    then show ?thesis using w'(4) [rule_format, of k] that by (simp add: algebra_simps)
  qed
  moreover have "\<forall>a. a \<notin> set (elem_nodes elem i (Suc n)) \<longrightarrow> p_addr w' a = p_addr w a" using w'(5) by (simp add: elem_nodes_Suc)
  ultimately show ?case using h(1) w'(1-3) by (simp add: elem_nodes_Suc sizeof_pool_elem_def)
qed

text \<open>Old elements and slabs are outside a fresh block.\<close>

lemma outside_fresh:
  assumes "fresh_block p w mem" "elem_in (p_blocks w) sz x a" "len = slab_size (pl_prealloc_num p) (pl_elem_size p)"
  shows "x < mem \<or> mem + len \<le> x" "a + sz \<le> mem \<or> mem + len \<le> a"
  using assms by (fastforce simp: fresh_block_def elem_in_def Let_def)+

lemma carve_lists:
  assumes "lists_ok p (p_links w) fs avs outs ss" "mem \<noteq> NULL"
    and "\<forall>a\<in>set (heads p @ fs @ avs @ outs @ ss). a < mem \<or> mem + len \<le> a"
    and "mem < elem" "elem + 24 * n = mem + len" "mem < mem + len"
  shows "lists_ok p (p_links (carve mem len elem n w)) fs avs outs ss"
    and "\<forall>a\<in>set (mem # elem_nodes elem 0 n). p_links (carve mem len elem n w) a \<noteq> None \<and> a \<notin> set (heads p @ fs @ avs @ outs @ ss)"
proof -
  let ?h = "p_links (carve mem len elem n w)"
  have new: "mem \<le> a \<and> a < mem + len" if "a = mem \<or> a \<in> set (map (\<lambda>i. elem + sizeof_pool_elem * i) [0..<n])" for a
    using that assms(4-6) by (auto simp: sizeof_pool_elem_def)
  have same: "?h a = p_links w a" if "a < mem \<or> mem + len \<le> a" for a
  proof -
    have "\<not> (a = mem \<or> a \<in> set (map (\<lambda>i. elem + sizeof_pool_elem * i) [0..<n]))" using new [of a] that by linarith
    then show ?thesis by (simp add: carve_def)
  qed
  have old: "?h a = p_links w a" if "a \<in> set (heads p @ fs @ avs @ outs @ ss)" for a
    using that assms(3) same by blast
  have "dlist ?h (pl_free p) fs" "dlist ?h (pl_available p) avs" "dlist ?h (pl_slub p) ss"
    using assms(1) old dlist_cong [of "pl_free p" fs ?h "p_links w"] dlist_cong [of "pl_available p" avs ?h "p_links w"]
      dlist_cong [of "pl_slub p" ss ?h "p_links w"] by (auto simp: lists_ok_def heads_def)
  moreover have "?h NULL = None" using assms(1,2) same [of NULL] by (simp add: lists_ok_def)
  moreover have "\<forall>x\<in>set outs. get_next x ?h = Some NULL \<and> get_prev x ?h = Some NULL"
    using assms(1) old by (auto simp: lists_ok_def get_next_def get_prev_def)
  ultimately show "lists_ok p ?h fs avs outs ss" using assms(1) by (simp add: lists_ok_def)
  have "?h a \<noteq> None" if "a \<in> set (mem # elem_nodes elem 0 n)" for a
  proof -
    have "a + 24 \<le> mem + len" if "a \<in> set (elem_nodes elem 0 n)" using that assms(5) by (auto simp: elem_nodes_def)
    then show ?thesis using that by (auto simp: carve_def sizeof_pool_elem_def elem_nodes_def)
  qed
  moreover have "a \<notin> set (heads p @ fs @ avs @ outs @ ss)" if "a \<in> set (mem # elem_nodes elem 0 n)" for a
  proof
    assume "a \<in> set (heads p @ fs @ avs @ outs @ ss)"
    then have "a < mem \<or> mem + len \<le> a" using assms(3) by blast
    moreover have "mem \<le> a \<and> a < mem + len" using that by (intro new) (auto simp: elem_nodes_def sizeof_pool_elem_def)
    ultimately show False by linarith
  qed
  ultimately show "\<forall>a\<in>set (mem # elem_nodes elem 0 n). ?h a \<noteq> None \<and> a \<notin> set (heads p @ fs @ avs @ outs @ ss)" by blast
qed

lemma apart_multiples: "i \<noteq> j \<Longrightarrow> apart sz (b + sz * i) (b + sz * j)"
proof (cases i j rule: linorder_cases)
  case less
  then have "sz * Suc i \<le> sz * j" by (intro mult_le_mono2) simp
  then show ?thesis by (simp add: apart_def)
next
  case greater
  then have "sz * Suc j \<le> sz * i" by (intro mult_le_mono2) simp
  then show ?thesis by (simp add: apart_def)
qed simp

lemma elems_expand:
  assumes "elems_ok sz ad bs xs"
    and old: "\<forall>x\<in>xs. ad' x = ad x" "\<forall>x\<in>xs. \<forall>a. ad x = Some a \<longrightarrow> a + sz \<le> mem \<or> mem + len \<le> a"
    and new: "\<forall>j<n. ad' (elem + 24 * j) = Some (mem + 16 + sz * j)"
    and len: "len = 16 + sz * n + 24 * n" "elem = mem + 16 + sz * n"
  shows "elems_ok sz ad' ((mem, len) # bs) (set (elem_nodes elem 0 n) \<union> xs)"
proof -
  have within: "mem \<le> mem + 16 + sz * j \<and> mem + 16 + sz * j + sz \<le> mem + 16 + sz * n" if "j < n" for j
    using mult_le_mono2 [of "Suc j" n sz] that by simp
  have node: "\<exists>j<n. x = elem + 24 * j" if "x \<in> set (elem_nodes elem 0 n)" for x using that by (auto simp: elem_nodes_iff)
  have "\<exists>a. ad' x = Some a \<and> elem_in ((mem, len) # bs) sz x a" if x: "x \<in> set (elem_nodes elem 0 n) \<union> xs" for x
  proof (cases "x \<in> xs")
    case True
    then obtain a where "ad x = Some a" "elem_in bs sz x a" using assms(1) unfolding elems_ok_def by blast
    then show ?thesis using True old(1) by (auto simp: elem_in_def)
  next
    case False
    then obtain j where "j < n" "x = elem + 24 * j" using node x by blast
    then show ?thesis using new within [of j] len by (auto simp: elem_in_def)
  qed
  moreover have "apart sz a b" if xy: "x \<in> set (elem_nodes elem 0 n) \<union> xs" "y \<in> set (elem_nodes elem 0 n) \<union> xs" "x \<noteq> y" "ad' x = Some a" "ad' y = Some b" for x y a b
  proof -
    have mixed: "apart sz c d" if q: "x' \<in> xs" "ad' x' = Some c" "y' \<notin> xs" "y' \<in> set (elem_nodes elem 0 n)" "ad' y' = Some d" for x' y' c d
    proof -
      obtain j where "j < n" "d = mem + 16 + sz * j" using node [OF q(4)] new q(5) by auto
      then have "mem \<le> d" "d + sz \<le> mem + len" using within [of j] len by auto
      moreover have "c + sz \<le> mem \<or> mem + len \<le> c" using old q(1,2) by auto
      ultimately show ?thesis by (auto simp: apart_def)
    qed
    consider "x \<in> xs" "y \<in> xs" | "x \<in> xs" "y \<notin> xs" | "x \<notin> xs" "y \<in> xs" | "x \<notin> xs" "y \<notin> xs" by blast
    then show ?thesis
    proof cases
      case 1
      then show ?thesis using assms(1) old(1) xy by (auto simp: elems_ok_def)
    next
      case 2
      then show ?thesis using mixed [of x a y b] xy by auto
    next
      case 3
      then show ?thesis using mixed [of y b x a] xy by (auto simp: apart_def)
    next
      case 4
      then obtain i j where "i < n" "x = elem + 24 * i" "j < n" "y = elem + 24 * j" using node xy(1,2) by blast
      then show ?thesis using apart_multiples [of i j sz "mem + 16"] new xy(3-5) by auto
    qed
  qed
  ultimately show ?thesis unfolding elems_ok_def by blast
qed

lemma pool_outside_fresh:
  assumes "pool_inv p w fs avs outs ss" "fresh_block p w mem" "len = slab_size (pl_prealloc_num p) (pl_elem_size p)"
    and "a \<in> set (heads p @ fs @ avs @ outs @ ss)"
  shows "a < mem \<or> mem + len \<le> a"
proof -
  consider "a \<in> set (heads p)" | "a \<in> set (fs @ avs @ outs)" | "a \<in> set ss" using assms(4) by auto
  then show ?thesis
  proof cases
    case 2
    then obtain b where "elem_in (p_blocks w) (nat (pl_elem_size p)) a b"
      using assms(1) unfolding pool_inv_def elems_ok_def by blast
    then show ?thesis using outside_fresh(1) [OF assms(2) _ assms(3)] by blast
  next
    case 3
    then obtain k where "(a, k) \<in> set (p_blocks w)" "0 < k" using assms(1) by (auto simp: pool_inv_def)
    then show ?thesis using assms(2,3) by (auto simp: fresh_block_def Let_def)
  qed (use assms(2,3) in \<open>auto simp: fresh_block_def Let_def\<close>)
qed

lemma slab_nodes:
  assumes l: "lists_ok p (p_links w) fs avs outs ss" and m: "mem \<noteq> NULL" and len: "len = 16 + s * n + 24 * n"
    and out: "\<forall>a\<in>set (heads p @ fs @ avs @ outs @ ss). a < mem \<or> mem + len \<le> a" and elem_def: "elem = mem + 16 + s * n"
  shows "\<exists>h w'. klist_add mem (pl_slub p) (p_links (carve mem len elem n w)) = Some h \<and>
    expand_loop n 0 elem (mem + 16) s (pl_free p) ((carve mem len elem n w)\<lparr>p_links := h\<rparr>) = Some w' \<and>
    lists_ok p (p_links w') (rev (elem_nodes elem 0 n) @ fs) avs outs (mem # ss) \<and> p_blocks w' = (mem, len) # p_blocks w \<and>
    (\<forall>j<n. p_addr w' (elem + 24 * j) = Some (mem + 16 + s * j)) \<and>
    (\<forall>a. a \<notin> set (elem_nodes elem 0 n) \<longrightarrow> p_addr w' a = p_addr w a) \<and>
    set (elem_nodes elem 0 n) \<inter> set (fs @ avs @ outs) = {}"
proof -
  have c: "lists_ok p (p_links (carve mem len elem n w)) fs avs outs ss"
      "\<forall>a\<in>set (mem # elem_nodes elem 0 n). p_links (carve mem len elem n w) a \<noteq> None \<and> a \<notin> set (heads p @ fs @ avs @ outs @ ss)"
    using carve_lists [OF l m out, of elem n] len by (simp_all add: elem_def)
  obtain h where h: "klist_add mem (pl_slub p) (p_links (carve mem len elem n w)) = Some h" "lists_ok p h fs avs outs (mem # ss)"
      "\<forall>a. h a = None \<longleftrightarrow> p_links (carve mem len elem n w) a = None"
    using lists_add_slub [OF c(1), of mem] c(2) by auto
  let ?w = "(carve mem len elem n w)\<lparr>p_links := h\<rparr>"
  have "mem \<notin> set (elem_nodes elem 0 n)" by (auto simp: elem_nodes_def elem_def)
  then have "\<forall>e\<in>set (elem_nodes elem 0 n). p_links ?w e \<noteq> None \<and> e \<notin> set (heads p @ fs @ avs @ outs @ mem # ss)"
    using c(2) h(3) by auto
  from expand_loop_adds [of p ?w fs avs outs "mem # ss" elem 0 n "mem + 16" s, OF _ this] h(2)
  obtain w' where w': "expand_loop n 0 elem (mem + 16) s (pl_free p) ?w = Some w'"
      "lists_ok p (p_links w') (rev (elem_nodes elem 0 n) @ fs) avs outs (mem # ss)" "p_blocks w' = (mem, len) # p_blocks w"
      "\<forall>j<n. p_addr w' (elem + 24 * j) = Some (mem + 16 + s * j)"
      "\<forall>a. a \<notin> set (elem_nodes elem 0 n) \<longrightarrow> p_addr w' a = p_addr w a"
    by (auto simp: carve_def)
  moreover have "set (elem_nodes elem 0 n) \<inter> set (fs @ avs @ outs) = {}" using c(2) by auto
  ultimately show ?thesis using h(1) by blast
qed

lemma expand_pool_list_ok:
  assumes inv: "pool_inv p w fs avs outs ss" and sz: "sizes_ok p" and mem: "fresh_block p w mem"
    and room: "pl_free_num p + pl_prealloc_num p \<le> INT_MAX"
  shows "\<exists>w' es. expand_pool_list mem p (pl_prealloc_num p) (pl_elem_size p) w =
      Some (0, p\<lparr>pl_free_num := pl_free_num p + pl_prealloc_num p\<rparr>, w') \<and>
    pool_inv (p\<lparr>pl_free_num := pl_free_num p + pl_prealloc_num p\<rparr>) w' (es @ fs) avs outs (mem # ss) \<and> int (length es) = pl_prealloc_num p"
proof -
  define n where "n = nat (pl_prealloc_num p)"
  define s where "s = nat (pl_elem_size p)"
  define elem where "elem = mem + 16 + s * n"
  define len where "len = slab_size (pl_prealloc_num p) (pl_elem_size p)"
  have i: "pl_prealloc_num p = int n" "pl_elem_size p = int s" "0 < n" using sz by (auto simp: sizes_ok_def n_def s_def)
  have len: "len = 16 + s * n + 24 * n" using slab_size_eq [OF sz] by (simp add: len_def n_def s_def)
  have fits: "16 + int n * (int s + 24) \<le> INT_MAX" using sz i(1,2) by (simp add: sizes_ok_def)
  have "- 2147483648 \<le> int n * int s" using mult_nonneg_nonneg [of "int n" "int s"] by linarith
  then have off: "cint (int n * int s) = Some (int (n * s))" "int (n * s) mod 8 = 0"
    using sz i fits by (auto simp: sizes_ok_def cint_def int_ok_def int_limits distrib_left)
  have l: "lists_ok p (p_links w) fs avs outs ss" and el: "elems_ok s (p_addr w) (p_blocks w) (set (fs @ avs @ outs))"
    using inv by (simp_all add: pool_inv_def s_def)
  have "\<forall>a\<in>set (heads p @ fs @ avs @ outs @ ss). a < mem \<or> mem + len \<le> a"
    using pool_outside_fresh [OF inv mem len_def] by blast
  then obtain h w' where h: "klist_add mem (pl_slub p) (p_links (carve mem len elem n w)) = Some h" and
      w': "expand_loop n 0 elem (mem + 16) s (pl_free p) ((carve mem len elem n w)\<lparr>p_links := h\<rparr>) = Some w'"
      "lists_ok p (p_links w') (rev (elem_nodes elem 0 n) @ fs) avs outs (mem # ss)" "p_blocks w' = (mem, len) # p_blocks w"
      "\<forall>j<n. p_addr w' (elem + 24 * j) = Some (mem + 16 + s * j)"
      "\<forall>a. a \<notin> set (elem_nodes elem 0 n) \<longrightarrow> p_addr w' a = p_addr w a" "set (elem_nodes elem 0 n) \<inter> set (fs @ avs @ outs) = {}"
    using slab_nodes [OF l _ len _ elem_def] mem by (auto simp: fresh_block_def Let_def)
  have el': "elems_ok s (p_addr w') (p_blocks w') (set (elem_nodes elem 0 n) \<union> set (fs @ avs @ outs))"
    unfolding w'(3)
  proof (rule elems_expand [OF el _ _ w'(4) len elem_def])
    show "\<forall>x\<in>set (fs @ avs @ outs). p_addr w' x = p_addr w x" using w'(5,6) by blast
    show "\<forall>x\<in>set (fs @ avs @ outs). \<forall>a. p_addr w x = Some a \<longrightarrow> a + s \<le> mem \<or> mem + len \<le> a"
    proof (intro ballI allI impI)
      fix x a assume "x \<in> set (fs @ avs @ outs)" "p_addr w x = Some a"
      then obtain b where "p_addr w x = Some b" "elem_in (p_blocks w) s x b" using el unfolding elems_ok_def by blast
      with \<open>p_addr w x = Some a\<close> have "elem_in (p_blocks w) s x a" by simp
      then show "a + s \<le> mem \<or> mem + len \<le> a" by (rule outside_fresh(2) [OF mem _ len_def])
    qed
  qed
  have "cint (pl_free_num p + int n) = Some (pl_free_num p + int n)"
    using inv room i(1) by (auto simp: cint_def int_ok_def int_limits pool_inv_def)
  moreover have "elem = mem + sizeof_list_head + nat (int (n * s))" by (simp add: elem_def sizeof_list_head_def mult.commute del: of_nat_mult)
  moreover have "mem \<noteq> NULL" using mem by (simp add: fresh_block_def Let_def)
  ultimately have "expand_pool_list mem p (int n) (int s) w = Some (0, p\<lparr>pl_free_num := pl_free_num p + int n\<rparr>, w')"
    using off h w'(1) len_def [symmetric] i
    unfolding expand_pool_list_def by (simp add: sizeof_list_head_def del: of_nat_mult)
  moreover have "pool_inv (p\<lparr>pl_free_num := pl_free_num p + int n\<rparr>) w' (rev (elem_nodes elem 0 n) @ fs) avs outs (mem # ss)"
  proof -
    have "\<forall>x\<in>set (mem # ss). \<exists>l. (x, l) \<in> set (p_blocks w') \<and> 0 < l" using inv w'(3) len i(3) by (auto simp: pool_inv_def)
    moreover have "set (rev (elem_nodes elem 0 n) @ fs @ avs @ outs) = set (elem_nodes elem 0 n) \<union> set (fs @ avs @ outs)" by simp
    ultimately show ?thesis
      using el' w'(2) inv unfolding pool_inv_def
      by (simp add: lists_ok_def heads_def elem_nodes_def s_def)
  qed
  moreover have "int (length (rev (elem_nodes elem 0 n))) = int n" by (simp add: elem_nodes_def)
  ultimately show ?thesis unfolding i(1,2) by blast
qed


section \<open>The operations\<close>

definition counters_ok :: "pool_list \<Rightarrow> bool" where
  "counters_ok p \<longleftrightarrow> pl_free_num p + pl_prealloc_num p \<le> INT_MAX \<and> int_ok (pl_cur_slub p + 1)"

lemma elems_ok_mono: "elems_ok sz ad bs xs \<Longrightarrow> ys \<subseteq> xs \<Longrightarrow> elems_ok sz ad bs ys"
  unfolding elems_ok_def by (meson subsetD)

lemma take_first:
  assumes "pool_inv p w (x # fs) avs outs ss" "pl_free_num p \<le> INT_MAX"
  shows "klist_empty (pl_free p) (p_links w) = Some False \<and> get_next (pl_free p) (p_links w) = Some x \<and> x \<noteq> NULL \<and>
    cint (pl_free_num p - 1) = Some (int (length fs)) \<and>
    (\<exists>h. klist_del x (p_links w) = Some h \<and> pool_inv (p\<lparr>pl_free_num := int (length fs)\<rparr>) (w\<lparr>p_links := h\<rparr>) fs avs (x # outs) ss)"
proof -
  have l: "lists_ok p (p_links w) (x # fs) avs outs ss" and n: "pl_free_num p = int (length fs) + 1" using assms(1) by (simp_all add: pool_inv_def)
  obtain h where h: "klist_del x (p_links w) = Some h" "lists_ok p h fs avs (x # outs) ss" "get_next (pl_free p) (p_links w) = Some x" "x \<noteq> NULL"
    using lists_take_free [OF l] by blast
  have "klist_empty (pl_free p) (p_links w) = Some False" using klist.is_empty_law [of "p_links w" "pl_free p" "x # fs"] l by (simp add: lists_ok_def)
  moreover have "cint (pl_free_num p - 1) = Some (int (length fs))" using n assms(2) by (simp add: cint_def int_ok_def int_limits)
  moreover have "pool_inv (p\<lparr>pl_free_num := int (length fs)\<rparr>) (w\<lparr>p_links := h\<rparr>) fs avs (x # outs) ss"
    using assms(1) h(2) by (auto simp: pool_inv_def lists_ok_def heads_def elems_ok_def)
  ultimately show ?thesis using h by blast
qed

text \<open>What getting a free element leaves in the pool and in the client's hands.\<close>

definition got :: "addr \<Rightarrow> addr \<Rightarrow> pool_list \<Rightarrow> pool_list \<Rightarrow> addr list \<Rightarrow> addr list \<Rightarrow> addr list \<Rightarrow> bool" where
  "got mem x p p' fs outs outs' \<longleftrightarrow> heads p' = heads p \<and> pl_elem_size p' = pl_elem_size p \<and> pl_prealloc_num p' = pl_prealloc_num p \<and>
     pl_max_slub p' = pl_max_slub p \<and>
     (if x = NULL then fs = [] \<and> outs' = outs \<and> (mem = NULL \<or> \<not> may_expand p) else outs' = x # outs)"

text \<open>At most one slab is added, only if that is allowed, and the elements of that slab are the only new ones.\<close>

definition grown :: "pool_list \<Rightarrow> addr list \<Rightarrow> addr list \<Rightarrow> addr list \<Rightarrow> addr list \<Rightarrow> addr list \<Rightarrow> addr list \<Rightarrow> bool" where
  "grown p fs outs ss fs' outs' ss' \<longleftrightarrow> (\<exists>k. length ss' = length ss + k \<and> (k = 0 \<or> k = 1 \<and> may_expand p) \<and>
     int (length fs' + length outs') = int (length fs + length outs) + int k * pl_prealloc_num p)"

lemma get_free_ok:
  assumes inv: "pool_inv p w fs avs outs ss" and sz: "sizes_ok p" and c: "counters_ok p" and mem: "mem = NULL \<or> fresh_block p w mem"
  shows "\<exists>x p' w' fs' outs' ss'. pool_list_get_free_elem mem p w = Some (x, p', w') \<and> pool_inv p' w' fs' avs outs' ss' \<and> got mem x p p' fs outs outs' \<and>
    pl_cur_slub p' = pl_cur_slub p + int (length ss') - int (length ss) \<and> grown p fs outs ss fs' outs' ss'"
proof (cases fs)
  case (Cons x fs')
  have f: "pl_free_num p \<le> INT_MAX" using c sz by (simp add: counters_ok_def sizes_ok_def)
  obtain h where h: "klist_del x (p_links w) = Some h"
      "pool_inv (p\<lparr>pl_free_num := int (length fs')\<rparr>) (w\<lparr>p_links := h\<rparr>) fs' avs (x # outs) ss"
    using take_first [of p w x fs' avs outs ss] inv f Cons by blast
  then show ?thesis
    using take_first [of p w x fs' avs outs ss] inv f Cons
    by (intro exI [of _ x] exI [of _ "p\<lparr>pl_free_num := int (length fs')\<rparr>"] exI [of _ "w\<lparr>p_links := h\<rparr>"] exI [of _ fs'] exI [of _ "x # outs"] exI [of _ ss])
      (simp add: pool_list_get_free_elem_def got_def heads_def grown_def)
next
  case Nil
  have e: "klist_empty (pl_free p) (p_links w) = Some True"
    using klist.is_empty_law [of "p_links w" "pl_free p" "[]"] inv Nil by (simp add: pool_inv_def lists_ok_def)
  show ?thesis
  proof (cases "may_expand p \<and> mem \<noteq> NULL")
    case False
    then have "pool_list_get_free_elem mem p w = Some (NULL, p, w)"
      using e by (auto simp: pool_list_get_free_elem_def expand_pool_list_def)
    then show ?thesis using inv Nil False
      by (intro exI [of _ NULL] exI [of _ p] exI [of _ w] exI [of _ fs] exI [of _ outs] exI [of _ ss]) (auto simp: got_def grown_def)
  next
    case True
    let ?p = "p\<lparr>pl_free_num := pl_free_num p + pl_prealloc_num p\<rparr>"
    obtain w1 es where w1: "expand_pool_list mem p (pl_prealloc_num p) (pl_elem_size p) w = Some (0, ?p, w1)"
        "pool_inv ?p w1 es avs outs (mem # ss)" "int (length es) = pl_prealloc_num p"
      using expand_pool_list_ok [OF inv sz, of mem] mem True c Nil by (simp add: counters_ok_def) blast
    let ?p1 = "?p\<lparr>pl_cur_slub := pl_cur_slub p + 1\<rparr>"
    obtain x es' where es: "es = x # es'" using w1(3) sz by (cases es) (auto simp: sizes_ok_def)
    have "pool_inv ?p1 w1 (x # es') avs outs (mem # ss)" using w1(2) es by (simp add: pool_inv_def lists_ok_def heads_def)
    moreover have "pl_free_num ?p1 \<le> INT_MAX" using c by (simp add: counters_ok_def)
    ultimately have t: "klist_empty (pl_free ?p1) (p_links w1) = Some False" "get_next (pl_free ?p1) (p_links w1) = Some x" "x \<noteq> NULL"
        "cint (pl_free_num ?p1 - 1) = Some (int (length es'))"
        "\<exists>h. klist_del x (p_links w1) = Some h \<and> pool_inv (?p1\<lparr>pl_free_num := int (length es')\<rparr>) (w1\<lparr>p_links := h\<rparr>) es' avs (x # outs) (mem # ss)"
      using take_first by blast+
    from t(5) obtain h where h: "klist_del x (p_links w1) = Some h"
        "pool_inv (?p1\<lparr>pl_free_num := int (length es')\<rparr>) (w1\<lparr>p_links := h\<rparr>) es' avs (x # outs) (mem # ss)" by blast
    have "pool_list_get_free_elem mem p w = Some (x, ?p1\<lparr>pl_free_num := int (length es')\<rparr>, w1\<lparr>p_links := h\<rparr>)"
      using e True w1(1) t(1-4) h(1) c by (simp add: pool_list_get_free_elem_def counters_ok_def)
    moreover have "grown p fs outs ss es' (x # outs) (mem # ss)"
      using True w1(3) es Nil unfolding grown_def by (intro exI [of _ 1]) simp
    ultimately show ?thesis using h(2) t(3)
      by (intro exI [of _ x] exI [of _ "?p1\<lparr>pl_free_num := int (length es')\<rparr>"] exI [of _ "w1\<lparr>p_links := h\<rparr>"] exI [of _ es'] exI [of _ "x # outs"]
          exI [of _ "mem # ss"]) (simp add: got_def heads_def)
  qed
qed

lemma put_available_ok:
  assumes "pool_inv p w fs avs (us @ x # vs) ss"
  shows "\<exists>w'. pool_list_put_available_elem p x w = Some (0, w') \<and> pool_inv p w' fs (avs @ [x]) (us @ vs) ss"
proof -
  obtain h where "klist_add_tail x (pl_available p) (p_links w) = Some h" "lists_ok p h fs (avs @ [x]) (us @ vs) ss"
    using lists_put_available assms unfolding pool_inv_def by blast
  moreover have "set (fs @ (avs @ [x]) @ us @ vs) \<subseteq> set (fs @ avs @ us @ x # vs)" by auto
  ultimately show ?thesis using assms
    by (auto simp: pool_list_put_available_elem_def pool_inv_def intro: elems_ok_mono)
qed

lemma get_available_ok:
  assumes "pool_inv p w fs avs outs ss"
  shows "pool_list_get_available_elem p w = Some (case avs of [] \<Rightarrow> NULL | x # _ \<Rightarrow> x) \<and> NULL \<notin> set avs"
proof -
  have d: "dlist (p_links w) (pl_available p) avs" "p_links w NULL = None" using assms by (auto simp: pool_inv_def lists_ok_def)
  have "NULL \<notin> set avs" using dlist_alloc [OF d(1), of NULL] d(2) by auto
  then show ?thesis
    using dlist_first [OF d(1)] klist.is_empty_law [OF d(1)] by (cases avs) (auto simp: pool_list_get_available_elem_def)
qed

lemma put_free_ok:
  assumes "pool_inv p w fs (us @ x # vs) outs ss" "pl_free_num p < INT_MAX"
  shows "\<exists>w'. pool_list_put_free_elem p x w = Some (0, p\<lparr>pl_free_num := pl_free_num p + 1\<rparr>, w') \<and>
    pool_inv (p\<lparr>pl_free_num := pl_free_num p + 1\<rparr>) w' (x # fs) (us @ vs) outs ss"
proof -
  obtain h where "klist_move x (pl_free p) (p_links w) = Some h" "lists_ok p h (x # fs) (us @ vs) outs ss"
    using lists_put_free assms(1) unfolding pool_inv_def by blast
  moreover have "set ((x # fs) @ (us @ vs) @ outs) \<subseteq> set (fs @ (us @ x # vs) @ outs)" by auto
  moreover have "cint (pl_free_num p + 1) = Some (pl_free_num p + 1)"
    using assms by (auto simp: pool_inv_def cint_def int_ok_def int_limits)
  ultimately show ?thesis using assms(1)
    by (auto simp: pool_list_put_free_elem_def pool_inv_def lists_ok_def heads_def intro: elems_ok_mono)
qed

text \<open>An element a client has is in no list: giving it back without having queued it goes through NULL.\<close>

lemma put_free_unqueued:
  assumes "pool_inv p w fs avs outs ss" "x \<in> set outs"
  shows "pool_list_put_free_elem p x w = None"
  using assms by (simp add: pool_inv_def lists_ok_def pool_list_put_free_elem_def klist_move_def list_del_between_def set_prev_def)

end
