(* ===== verification/Pool_List_Client.thy ===== *)
theory Pool_List_Client
  imports Pool_List
begin

text \<open>
  Clients of the pool of \<^verbatim>\<open>list/pool_list.c\<close>: the runs of taking, queueing and recycling elements, that the elements
  a client has do not overlap, and the limit on slabs.
\<close>

section \<open>Runs of a client\<close>

text \<open>
  A client takes free elements, queues those it has, and recycles the first one of the queue; the set is
  what it has. \<open>calloc\<close> fails or returns a fresh block, and the counters do not overflow.
\<close>

inductive pool_run :: "pool_list \<Rightarrow> pool_mem \<Rightarrow> pool_list \<Rightarrow> pool_mem \<Rightarrow> addr set \<Rightarrow> bool" for p0 w0 where
  start: "pool_run p0 w0 p0 w0 {}"
| get: "pool_run p0 w0 p w outs \<Longrightarrow> mem = NULL \<or> fresh_block p w mem \<Longrightarrow> counters_ok p \<Longrightarrow>
    pool_list_get_free_elem mem p w = Some (x, p', w') \<Longrightarrow> pool_run p0 w0 p' w' (if x = NULL then outs else insert x outs)"
| put: "pool_run p0 w0 p w outs \<Longrightarrow> x \<in> outs \<Longrightarrow> pool_list_put_available_elem p x w = Some (r, w') \<Longrightarrow> pool_run p0 w0 p w' (outs - {x})"
| recycle: "pool_run p0 w0 p w outs \<Longrightarrow> pool_list_get_available_elem p w = Some x \<Longrightarrow> x \<noteq> NULL \<Longrightarrow> counters_ok p \<Longrightarrow>
    pool_list_put_free_elem p x w = Some (r, p', w') \<Longrightarrow> pool_run p0 w0 p' w' outs"

lemma sizes_ok_got: "got mem x p p' fs outs outs' \<Longrightarrow> sizes_ok p \<Longrightarrow> sizes_ok p'"
  by (simp add: got_def sizes_ok_def)

lemma pool_run_inv:
  assumes "pool_run p0 w0 p w outs" "pool_inv p0 w0 [] [] [] []" "sizes_ok p0"
  shows "\<exists>fs avs os ss. pool_inv p w fs avs os ss \<and> outs = set os \<and> sizes_ok p \<and> pl_cur_slub p = pl_cur_slub p0 + int (length ss)"
  using assms
proof (induction rule: pool_run.induct)
  case start
  then show ?case by force
next
  case (get p w outs mem x p' w')
  then obtain fs avs os ss where i: "pool_inv p w fs avs os ss" "outs = set os" "sizes_ok p" "pl_cur_slub p = pl_cur_slub p0 + int (length ss)" by blast
  obtain fs' os' ss' where "pool_inv p' w' fs' avs os' ss'" "got mem x p p' fs os os'" "pl_cur_slub p' = pl_cur_slub p + int (length ss') - int (length ss)"
    using get_free_ok [OF i(1,3) get.hyps(3,2)] get.hyps(4) by auto
  then show ?case using i sizes_ok_got [of mem x p p' fs os os']
    by (intro exI [of _ fs'] exI [of _ avs] exI [of _ os'] exI [of _ ss']) (auto simp: got_def)
next
  case (put p w outs x r w')
  then obtain fs avs os ss where i: "pool_inv p w fs avs os ss" "outs = set os" "sizes_ok p" "pl_cur_slub p = pl_cur_slub p0 + int (length ss)" by blast
  then obtain us vs where os: "os = us @ x # vs" using put.hyps(2) by (meson split_list)
  then have "pool_inv p w' fs (avs @ [x]) (us @ vs) ss" using put_available_ok [of p w fs avs us x vs ss] i(1) put.hyps(3) by auto
  moreover have "distinct os" using i(1) by (simp add: pool_inv_def lists_ok_def)
  then have "outs - {x} = set (us @ vs)" using i(2) os by auto
  ultimately show ?case using i(3,4) by blast
next
  case (recycle p w outs x r p' w')
  then obtain fs avs os ss where i: "pool_inv p w fs avs os ss" "outs = set os" "sizes_ok p" "pl_cur_slub p = pl_cur_slub p0 + int (length ss)" by blast
  obtain vs where avs: "avs = x # vs" using get_available_ok [OF i(1)] recycle.hyps(2,3) by (cases avs) auto
  have "pl_free_num p < INT_MAX" using recycle.hyps(4) i(3) by (simp add: counters_ok_def sizes_ok_def)
  then have "pool_inv p' w' (x # fs) vs os ss" "p' = p\<lparr>pl_free_num := pl_free_num p + 1\<rparr>"
    using put_free_ok [of p w fs "[]" x vs os ss] i(1) avs recycle.hyps(5) by auto
  then show ?case using i by (intro exI [of _ "x # fs"] exI [of _ vs] exI [of _ os] exI [of _ ss]) (simp add: sizes_ok_def)
qed

text \<open>A pool as \<open>pool_list_init\<close> and \<open>pool_list_set_limit\<close> make it, in any memory with room for its three heads.\<close>

definition new_pool :: "pool_list \<Rightarrow> pool_mem \<Rightarrow> int \<Rightarrow> int \<Rightarrow> int \<Rightarrow> pool_list \<Rightarrow> pool_mem \<Rightarrow> bool" where
  "new_pool q m sz max_slub num p w \<longleftrightarrow> distinct (heads q) \<and> (\<forall>a\<in>set (heads q). p_links m a \<noteq> None) \<and> p_links m NULL = None \<and>
     (\<exists>p1. pool_list_init q sz m = Some (0, p1, w) \<and> pool_list_set_limit p1 max_slub num = (0, p))"

lemma new_pool_exists:
  assumes "distinct (heads q)" "\<forall>a\<in>set (heads q). p_links m a \<noteq> None" "p_links m NULL = None"
  shows "\<exists>w. new_pool q m sz max_slub num
    (q\<lparr>pl_max_slub := of_int max_slub, pl_elem_size := sz, pl_free_num := 0, pl_prealloc_num := num\<rparr>) w \<and>
    lists_ok q (p_links w) [] [] [] [] \<and> p_blocks w = p_blocks m"
proof -
  have d: "pl_slub q \<noteq> pl_free q" "pl_slub q \<noteq> pl_available q" "pl_free q \<noteq> pl_available q" using assms(1) by (auto simp: heads_def)
  obtain h1 where 1: "kINIT_LIST_HEAD (pl_available q) (p_links m) = Some h1" "dlist h1 (pl_available q) []" "same_outside {pl_available q} (p_links m) h1"
    using klist.init_law [of "p_links m" "pl_available q"] assms(2) by (auto simp: heads_def)
  obtain h2 where 2: "kINIT_LIST_HEAD (pl_free q) h1 = Some h2" "dlist h2 (pl_free q) []" "same_outside {pl_free q} h1 h2"
    using klist.init_law [of h1 "pl_free q"] assms(2) same_outside_None [OF 1(3)] by (auto simp: heads_def)
  obtain h3 where 3: "kINIT_LIST_HEAD (pl_slub q) h2 = Some h3" "dlist h3 (pl_slub q) []" "same_outside {pl_slub q} h2 h3"
    using klist.init_law [of h2 "pl_slub q"] assms(2) same_outside_None [OF 1(3)] same_outside_None [OF 2(3)] by (auto simp: heads_def)
  have "dlist h2 (pl_available q) []" using d by (intro dlist_frame [OF 1(2) 2(3)]) auto
  then have "dlist h3 (pl_available q) []" using d by (intro dlist_frame [OF _ 3(3)]) auto
  moreover have "dlist h3 (pl_free q) []" using d by (intro dlist_frame [OF 2(2) 3(3)]) auto
  moreover have "h3 NULL = None" using assms(3) same_outside_None [OF 1(3)] same_outside_None [OF 2(3)] same_outside_None [OF 3(3)] by simp
  ultimately show ?thesis
    using assms 1(1) 2(1) 3 by (intro exI [of _ "m\<lparr>p_links := h3\<rparr>"])
      (simp add: new_pool_def pool_list_init_def pool_list_set_limit_def lists_ok_def)
qed

lemma new_pool_inv:
  assumes "new_pool q m sz max_slub num p w"
  shows "pool_inv p w [] [] [] [] \<and> pl_elem_size p = sz \<and> pl_prealloc_num p = num \<and> pl_max_slub p = of_int max_slub \<and> pl_cur_slub p = pl_cur_slub q \<and> heads p = heads q"
proof -
  let ?p = "q\<lparr>pl_max_slub := of_int max_slub, pl_elem_size := sz, pl_free_num := 0, pl_prealloc_num := num\<rparr>"
  obtain v where v: "new_pool q m sz max_slub num ?p v" "lists_ok q (p_links v) [] [] [] []"
    using new_pool_exists [of q m sz max_slub num] assms by (auto simp: new_pool_def)
  have "p = ?p" "w = v" using assms v(1) by (auto simp: new_pool_def pool_list_init_def pool_list_set_limit_def split: Option.bind_splits)
  then show ?thesis using v(2) by (auto simp: pool_inv_def lists_ok_def elems_ok_def heads_def)
qed


section \<open>Properties\<close>

definition demo_pool :: pool_list where
  "demo_pool = \<lparr>pl_slub = 8, pl_free = 24, pl_available = 40, pl_free_num = 77, pl_cur_slub = 0, pl_max_slub = 3, pl_elem_size = 0, pl_prealloc_num = 0\<rparr>"

definition demo_mem :: pool_mem where
  "demo_mem = \<lparr>p_links = (\<lambda>a. if a \<in> {8, 24, 40} then Some \<lparr>lh_next = 5, lh_prev = 5\<rparr> else None), p_addr = Map.empty, p_blocks = []\<rparr>"

definition demo_new :: "pool_list" where
  "demo_new = demo_pool\<lparr>pl_max_slub := 2, pl_elem_size := 100, pl_free_num := 0, pl_prealloc_num := 4\<rparr>"

lemma demo_new_pool: "\<exists>w. new_pool demo_pool demo_mem 100 2 4 demo_new w \<and> p_blocks w = []" "sizes_ok demo_new" "counters_ok demo_new"
  using new_pool_exists [of demo_pool demo_mem 100 2 4]
  by (auto simp: demo_pool_def demo_mem_def demo_new_def heads_def sizes_ok_def counters_ok_def int_limits int_ok_def)

lemma demo_run:
  assumes "new_pool demo_pool demo_mem 100 2 4 demo_new w0" "p_blocks w0 = []"
  shows "\<exists>x p w. pool_list_get_free_elem 1000 demo_new w0 = Some (x, p, w) \<and> x \<noteq> NULL \<and> pool_run demo_new w0 p w {x}"
proof -
  have inv: "pool_inv demo_new w0 [] [] [] []" using new_pool_inv [OF assms(1)] by blast
  have "fresh_block demo_new w0 1000"
    using assms(2) by (simp add: fresh_block_def demo_new_def demo_pool_def heads_def Let_def)
  then obtain x p w os where g: "pool_list_get_free_elem 1000 demo_new w0 = Some (x, p, w)" "got 1000 x demo_new p [] [] os"
    using get_free_ok [OF inv demo_new_pool(2,3), of 1000] by blast
  have "may_expand demo_new" by (simp add: may_expand_def demo_new_def demo_pool_def)
  then have "x \<noteq> NULL" using g(2) by (auto simp: got_def split: if_splits)
  moreover have "pool_run demo_new w0 p w (if x = NULL then {} else insert x {})"
    using \<open>fresh_block demo_new w0 1000\<close> demo_new_pool(3) g(1) by (intro pool_run.get [OF pool_run.start]) auto
  ultimately show ?thesis using g(1) by auto
qed

text \<open>
  C15: The elements a client has never share memory. In every run on a new pool with sizes that fit, each element the client has got
  has its own range of \<open>elem_size\<close> bytes inside a block that \<open>calloc\<close> returned, apart from the ranges of all others; and the
  pool goes on working: a further element can be asked for, every element can be queued, and the first
  one in the queue can be recycled, without undefined behaviour.
\<close>

theorem pool_list_elements_apart:
  assumes "new_pool q m sz max_slub num p0 w0" and "sizes_ok p0" and "pool_run p0 w0 p w outs"
  shows "(\<forall>x\<in>outs. \<exists>a. p_addr w x = Some a \<and> elem_in (p_blocks w) (nat (pl_elem_size p)) x a) \<and>
    (\<forall>x\<in>outs. \<forall>y\<in>outs. \<forall>a b. x \<noteq> y \<longrightarrow> p_addr w x = Some a \<longrightarrow> p_addr w y = Some b \<longrightarrow> apart (nat (pl_elem_size p)) a b) \<and>
    (\<forall>x\<in>outs. pool_list_put_available_elem p x w \<noteq> None) \<and>
    (counters_ok p \<and> (mem = NULL \<or> fresh_block p w mem) \<longrightarrow> pool_list_get_free_elem mem p w \<noteq> None) \<and>
    (\<exists>x. pool_list_get_available_elem p w = Some x \<and> (x \<noteq> NULL \<and> counters_ok p \<longrightarrow> pool_list_put_free_elem p x w \<noteq> None))"
proof -
  obtain fs avs os ss where i: "pool_inv p w fs avs os ss" "outs = set os" "sizes_ok p"
    using pool_run_inv [OF assms(3) _ assms(2)] new_pool_inv [OF assms(1)] by blast
  have el: "elems_ok (nat (pl_elem_size p)) (p_addr w) (p_blocks w) outs"
    using i(1,2) by (auto simp: pool_inv_def intro: elems_ok_mono)
  have "pool_list_put_available_elem p x w \<noteq> None" if "x \<in> outs" for x
  proof -
    obtain us vs where "os = us @ x # vs" using \<open>x \<in> outs\<close> i(2) by (meson split_list)
    then show ?thesis using put_available_ok [of p w fs avs us x vs ss] i(1) by auto
  qed
  moreover have "pool_list_get_free_elem mem p w \<noteq> None" if "counters_ok p \<and> (mem = NULL \<or> fresh_block p w mem)"
    using get_free_ok [OF i(1,3), of mem] that by auto
  moreover have "\<exists>x. pool_list_get_available_elem p w = Some x \<and> (x \<noteq> NULL \<and> counters_ok p \<longrightarrow> pool_list_put_free_elem p x w \<noteq> None)"
  proof (cases avs)
    case (Cons x vs)
    have "pl_free_num p < INT_MAX" if "counters_ok p" using that i(3) by (simp add: counters_ok_def sizes_ok_def)
    then show ?thesis using get_available_ok [OF i(1)] put_free_ok [of p w fs "[]" x vs os ss] i(1) Cons by auto
  qed (use get_available_ok [OF i(1)] in simp)
  ultimately show ?thesis using el unfolding elems_ok_def by blast
qed

theorem pool_list_elements_apart_witness:
  "\<exists>w0 p w x. new_pool demo_pool demo_mem 100 2 4 demo_new w0 \<and> pool_run demo_new w0 p w {x} \<and> x \<noteq> NULL \<and>
    (\<exists>a. p_addr w x = Some a \<and> elem_in (p_blocks w) (nat (pl_elem_size p)) x a) \<and> pool_list_put_available_elem p x w \<noteq> None"
proof -
  obtain w0 where w0: "new_pool demo_pool demo_mem 100 2 4 demo_new w0" "p_blocks w0 = []" using demo_new_pool(1) by blast
  obtain x p w where r: "x \<noteq> NULL" "pool_run demo_new w0 p w {x}" using demo_run [OF w0] by blast
  show ?thesis using pool_list_elements_apart [OF w0(1) demo_new_pool(2) r(2), of NULL] w0(1) r by blast
qed

lemma may_expand_room:
  assumes "may_expand p" "pl_max_slub p = of_nat k" "k < 2 ^ 31" "pl_cur_slub p = int n" "n \<le> k"
  shows "n < k"
proof -
  have k: "unat (of_nat k :: u32) = k" using assms(3) by (simp add: unsigned_of_nat take_bit_nat_eq_self)
  have "(of_nat k :: u32) \<noteq> - 1"
  proof
    assume "(of_nat k :: u32) = - 1"
    then have "k = unat (- 1 :: u32)" using k by simp
    then show False using assms(3) by (simp add: unsigned_minus_1_eq_mask mask_eq_exp_minus_1)
  qed
  then have "(of_nat n :: u32) < of_nat k" using assms(1,2,4) by (simp add: may_expand_def eq_commute)
  then have "unat (of_nat n :: u32) < k" using k by (simp add: word_less_nat_alt)
  then show ?thesis using assms(3,5) by (simp add: unsigned_of_nat take_bit_nat_eq_self)
qed

text \<open>A state of a pool that keeps its limit of \<open>k\<close> slabs.\<close>

definition limit_ok :: "nat \<Rightarrow> int \<Rightarrow> pool_list \<Rightarrow> pool_mem \<Rightarrow> addr list \<Rightarrow> addr list \<Rightarrow> addr list \<Rightarrow> addr list \<Rightarrow> bool" where
  "limit_ok k num p w fs avs os ss \<longleftrightarrow> pool_inv p w fs avs os ss \<and> sizes_ok p \<and> pl_cur_slub p = int (length ss) \<and> length ss \<le> k \<and>
     int (length (fs @ avs @ os)) = int (length ss) * num \<and> pl_max_slub p = of_nat k \<and> pl_prealloc_num p = num"

lemma limit_get:
  assumes l: "limit_ok k num p w fs avs os ss" and k: "k < 2 ^ 31" and c: "counters_ok p" and mem: "mem = NULL \<or> fresh_block p w mem"
    and g: "pool_list_get_free_elem mem p w = Some (x, p', w')"
  shows "\<exists>fs' os' ss'. limit_ok k num p' w' fs' avs os' ss' \<and> set os' = (if x = NULL then set os else insert x (set os)) \<and>
    (x = NULL \<longrightarrow> fs = [] \<and> (mem = NULL \<or> \<not> may_expand p))"
proof -
  have i: "pool_inv p w fs avs os ss" "sizes_ok p" using l by (simp_all add: limit_ok_def)
  obtain fs' os' ss' where r: "pool_inv p' w' fs' avs os' ss'" "got mem x p p' fs os os'"
      "pl_cur_slub p' = pl_cur_slub p + int (length ss') - int (length ss)" "grown p fs os ss fs' os' ss'"
    using get_free_ok [OF i c mem] g by auto
  obtain j where j: "length ss' = length ss + j" "j = 0 \<or> j = 1 \<and> may_expand p"
      "int (length fs' + length os') = int (length fs + length os) + int j * num"
    using r(4) l by (auto simp: grown_def limit_ok_def)
  have "length ss' \<le> k" using j(1,2) l may_expand_room [of p k "length ss"] k by (auto simp: limit_ok_def)
  moreover have "int (length (fs' @ avs @ os')) = int (length ss') * num" using j(1,3) l by (simp add: limit_ok_def distrib_right)
  ultimately have "limit_ok k num p' w' fs' avs os' ss'" using r l sizes_ok_got [OF r(2) i(2)] by (simp add: limit_ok_def got_def)
  moreover have "set os' = (if x = NULL then set os else insert x (set os))" "x = NULL \<longrightarrow> fs = [] \<and> (mem = NULL \<or> \<not> may_expand p)"
    using r(2) by (auto simp: got_def split: if_splits)
  ultimately show ?thesis by blast
qed

lemma pool_run_limit:
  assumes "pool_run p0 w0 p w outs" "limit_ok k num p0 w0 [] [] [] []" "k < 2 ^ 31"
  shows "\<exists>fs avs os ss. limit_ok k num p w fs avs os ss \<and> outs = set os"
  using assms
proof (induction rule: pool_run.induct)
  case start
  then show ?case by force
next
  case (get p w outs mem x p' w')
  then obtain fs avs os ss where i: "limit_ok k num p w fs avs os ss" "outs = set os" by blast
  show ?case using limit_get [OF i(1) get.prems(2) get.hyps(3,2,4)] i(2) by metis
next
  case (put p w outs x r w')
  then obtain fs avs os ss where i: "limit_ok k num p w fs avs os ss" "outs = set os" by blast
  then obtain us vs where os: "os = us @ x # vs" using put.hyps(2) by (meson split_list)
  then have "pool_inv p w' fs (avs @ [x]) (us @ vs) ss"
    using put_available_ok [of p w fs avs us x vs ss] i(1) put.hyps(3) by (auto simp: limit_ok_def)
  moreover have "distinct os" using i(1) by (simp add: limit_ok_def pool_inv_def lists_ok_def)
  then have "outs - {x} = set (us @ vs)" using i(2) os by auto
  ultimately show ?case using i(1) os
    by (intro exI [of _ fs] exI [of _ "avs @ [x]"] exI [of _ "us @ vs"] exI [of _ ss]) (simp add: limit_ok_def)
next
  case (recycle p w outs x r p' w')
  then obtain fs avs os ss where i: "limit_ok k num p w fs avs os ss" "outs = set os" by blast
  then have inv: "pool_inv p w fs avs os ss" "sizes_ok p" by (simp_all add: limit_ok_def)
  obtain vs where avs: "avs = x # vs" using get_available_ok [OF inv(1)] recycle.hyps(2,3) by (cases avs) auto
  have "pl_free_num p < INT_MAX" using recycle.hyps(4) inv(2) by (simp add: counters_ok_def sizes_ok_def)
  then have "pool_inv p' w' (x # fs) vs os ss" "p' = p\<lparr>pl_free_num := pl_free_num p + 1\<rparr>"
    using put_free_ok [of p w fs "[]" x vs os ss] inv(1) avs recycle.hyps(5) by auto
  then have "limit_ok k num p' w' (x # fs) vs os ss" using i(1) avs by (auto simp: limit_ok_def sizes_ok_def)
  then show ?case using i(2) by blast
qed

text \<open>
  C40: The limit on slabs. If the count of slabs happened to be 0 when the pool was made (\<open>pool_list_init\<close> does not set it), a client never has more
  than \<open>max_slub * prealloc_num\<close> elements; a request that \<open>calloc\<close> can serve is refused only when the client and the queue together have exactly
  that many.
\<close>

theorem pool_list_limit:
  assumes "new_pool q m sz (int k) num p0 w0" and "sizes_ok p0" and "pl_cur_slub q = 0" and "k < 2 ^ 31"
    and "pool_run p0 w0 p w outs"
  shows "finite outs \<and> int (card outs) \<le> int k * num \<and>
    (\<forall>mem p' w'. counters_ok p \<longrightarrow> fresh_block p w mem \<longrightarrow> pool_list_get_free_elem mem p w = Some (NULL, p', w') \<longrightarrow>
      (\<exists>avs. dlist (p_links w) (pl_available p) avs \<and> int (length avs) + int (card outs) = int k * num))"
proof -
  have n: "pool_inv p0 w0 [] [] [] []" "pl_prealloc_num p0 = num" "pl_max_slub p0 = of_nat k" "pl_cur_slub p0 = 0"
    using new_pool_inv [OF assms(1)] assms(3) by simp_all
  then have "limit_ok k num p0 w0 [] [] [] []" using assms(2) by (simp add: limit_ok_def)
  from pool_run_limit [OF assms(5) this assms(4)] obtain fs avs os ss where l: "limit_ok k num p w fs avs os ss" "outs = set os" by blast
  have d: "distinct os" "dlist (p_links w) (pl_available p) avs" using l(1) by (auto simp: limit_ok_def pool_inv_def lists_ok_def)
  then have card: "card outs = length os" using l(2) by (simp add: distinct_card)
  have "0 < num" using l(1) by (auto simp: limit_ok_def sizes_ok_def)
  then have "int (length ss) * num \<le> int k * num" using l(1) by (intro mult_right_mono) (auto simp: limit_ok_def)
  then have "int (card outs) \<le> int k * num" using l(1) card by (simp add: limit_ok_def)
  moreover have "int (length avs) + int (card outs) = int k * num"
    if c: "counters_ok p" "fresh_block p w mem" "pool_list_get_free_elem mem p w = Some (NULL, p', w')" for mem p' w'
  proof -
    have "fs = []" "\<not> may_expand p" using limit_get [OF l(1) assms(4) c(1) _ c(3)] c(2) by (auto simp: fresh_block_def Let_def)
    moreover have "length ss = k"
    proof (rule ccontr)
      assume "length ss \<noteq> k"
      then have "length ss < k" using l(1) by (simp add: limit_ok_def)
      then have "(of_nat (length ss) :: u32) < of_nat k"
        using assms(4) by (simp add: word_less_nat_alt unsigned_of_nat take_bit_nat_eq_self)
      then show False using \<open>\<not> may_expand p\<close> l(1) by (simp add: may_expand_def limit_ok_def)
    qed
    ultimately show ?thesis using l(1) card by (simp add: limit_ok_def)
  qed
  ultimately show ?thesis using d(2) l(2) by blast
qed

theorem pool_list_limit_witness:
  "\<exists>w0 p w x. new_pool demo_pool demo_mem 100 2 4 demo_new w0 \<and> pool_run demo_new w0 p w {x} \<and> int (card {x}) \<le> 8"
proof -
  obtain w0 where w0: "new_pool demo_pool demo_mem 100 2 4 demo_new w0" "p_blocks w0 = []" using demo_new_pool(1) by blast
  obtain x p w where r: "pool_run demo_new w0 p w {x}" using demo_run [OF w0] by blast
  show ?thesis using pool_list_limit [of demo_pool demo_mem 100 2 4 demo_new w0 p w "{x}"] demo_new_pool(2) w0(1) r
    by (auto simp: demo_pool_def)
qed

text \<open>With any other count in the memory the limit is not the one that was set: here a new pool refuses its first request.\<close>

lemma pool_list_limit_uninitialised:
  assumes "new_pool q m sz 2 num p0 w0" "pl_cur_slub q = 5"
  shows "pool_list_get_free_elem mem p0 w0 = Some (NULL, p0, w0)"
proof -
  have "pool_inv p0 w0 [] [] [] []" "pl_max_slub p0 = 2" "pl_cur_slub p0 = 5" using new_pool_inv [OF assms(1)] assms(2) by simp_all
  moreover then have "klist_empty (pl_free p0) (p_links w0) = Some True"
    using klist.is_empty_law [of "p_links w0" "pl_free p0" "[]"] by (simp add: pool_inv_def lists_ok_def)
  ultimately show ?thesis by (simp add: pool_list_get_free_elem_def may_expand_def)
qed

end
