(* ===== verification/Real_Time_Fifo.thy ===== *)
theory Real_Time_Fifo
  imports Utils_List
begin

text \<open>
  \<^verbatim>\<open>linux/utils/src/real_time_fifo.c\<close>: a queue of intrusive nodes with a size limit and a callback
  that is given the nodes the queue drops. The struct \<open>real_time_fifo_t\<close> is a record; a pointer to it is
  an option (\<^const>\<open>None\<close> is NULL). \<open>rf_head\<close> is the address of the embedded list head. The release
  function is whatever the caller registered: it is a value of the record, and \<open>rf_log\<close> is the
  sequence of nodes it has been called with. The pthread mutex has three states; locking it when
  it is not free, or unlocking it when it is not held, does not return.

  The queue compares \<open>out - in\<close> with the limit, but \<open>put\<close> advances both counters and \<open>get\<close>
  advances \<open>in\<close>: the difference never grows, so a positive limit is never reached.
\<close>

section \<open>State\<close>

datatype mutex_state = Mutex_Uninit | Mutex_Free | Mutex_Held

record real_time_fifo =
  rf_in :: int
  rf_out :: int
  rf_size :: int
  rf_head :: addr
  rf_mutex :: mutex_state
  rf_release :: "(addr \<Rightarrow> lheap \<Rightarrow> lheap) option"
  rf_is_initial :: int
  rf_log :: "addr list"

definition fifo_lock :: "real_time_fifo \<Rightarrow> real_time_fifo option" where
  "fifo_lock f = (if rf_mutex f = Mutex_Free then Some (f\<lparr>rf_mutex := Mutex_Held\<rparr>) else None)"

definition fifo_unlock :: "real_time_fifo \<Rightarrow> real_time_fifo option" where
  "fifo_unlock f = (if rf_mutex f = Mutex_Held then Some (f\<lparr>rf_mutex := Mutex_Free\<rparr>) else None)"

definition fifo_release :: "addr \<Rightarrow> real_time_fifo \<Rightarrow> lheap \<Rightarrow> real_time_fifo \<times> lheap" where
  "fifo_release p f h = (case rf_release f of
     None \<Rightarrow> (f, h)
   | Some rel \<Rightarrow> (f\<lparr>rf_log := rf_log f @ [p]\<rparr>, rel p h))"


section \<open>Operations\<close>

definition real_time_fifo_init ::
  "real_time_fifo option \<Rightarrow> int \<Rightarrow> (addr \<Rightarrow> lheap \<Rightarrow> lheap) option \<Rightarrow> lheap \<Rightarrow>
     (int \<times> real_time_fifo option \<times> lheap) option" where
  "real_time_fifo_init rfifo sz func h = (case rfifo of
     None \<Rightarrow> Some (-1, None, h)
   | Some f \<Rightarrow> do {
       let f = f\<lparr>rf_size := sz, rf_in := 0, rf_out := 0, rf_release := func, rf_is_initial := 1\<rparr>;
       h \<leftarrow> INIT_LIST_HEAD (rf_head f) h;
       Some (0, Some (f\<lparr>rf_mutex := Mutex_Free\<rparr>), h) })"

definition fifo_drop_oldest :: "real_time_fifo \<Rightarrow> lheap \<Rightarrow> (real_time_fifo \<times> lheap) option" where
  "fifo_drop_oldest f h = do {
     diff \<leftarrow> cint (rf_out f - rf_in f);
     empty \<leftarrow> (if diff = rf_size f then list_empty (rf_head f) h else Some True);
     if diff = rf_size f \<and> \<not> empty
     then do {
       ptr \<leftarrow> get_next (rf_head f) h;
       h \<leftarrow> list_del ptr h;
       Some (fifo_release ptr f h) }
     else Some (f, h) }"

definition real_time_fifo_put ::
  "real_time_fifo option \<Rightarrow> addr \<Rightarrow> lheap \<Rightarrow> (int \<times> real_time_fifo option \<times> lheap) option" where
  "real_time_fifo_put rfifo list h = (case rfifo of
     None \<Rightarrow> Some (-1, None, h)
   | Some f \<Rightarrow>
       if list = NULL then Some (-1, Some f, h)
       else if rf_is_initial f = 0 then Some (-1, Some f, h)
       else do {
         f \<leftarrow> fifo_lock f;
         (f, h) \<leftarrow> fifo_drop_oldest f h;
         i \<leftarrow> cint (rf_in f + 1);
         f \<leftarrow> fifo_unlock (f\<lparr>rf_in := i\<rparr>);
         h \<leftarrow> list_add_tail list (rf_head f) h;
         out \<leftarrow> cint (rf_out f + 1);
         Some (0, Some (f\<lparr>rf_out := out\<rparr>), h) })"

text \<open>\<open>real_time_fifo_get\<close> returns its status and, on success, the node it stores in \<open>*list\<close>.\<close>

definition real_time_fifo_get ::
  "real_time_fifo option \<Rightarrow> bool \<Rightarrow> lheap \<Rightarrow> (int \<times> addr option \<times> real_time_fifo option \<times> lheap) option" where
  "real_time_fifo_get rfifo list_given h = (case rfifo of
     None \<Rightarrow> Some (-1, None, None, h)
   | Some f \<Rightarrow>
       if \<not> list_given then Some (-1, None, Some f, h)
       else if rf_is_initial f = 0 then Some (-1, None, Some f, h)
       else do {
         f \<leftarrow> fifo_lock f;
         empty \<leftarrow> list_empty (rf_head f) h;
         if empty then do { f \<leftarrow> fifo_unlock f; Some (-1, None, Some f, h) }
         else do {
           p \<leftarrow> get_next (rf_head f) h;
           h \<leftarrow> list_del p h;
           i \<leftarrow> cint (rf_in f + 1);
           f \<leftarrow> fifo_unlock (f\<lparr>rf_in := i\<rparr>);
           Some (0, Some p, Some f, h) } })"

definition fifo_destroy_body :: "addr \<Rightarrow> lheap \<Rightarrow> real_time_fifo \<Rightarrow> (lheap \<times> real_time_fifo) option" where
  "fifo_destroy_body pos h f = do {
     h \<leftarrow> list_del pos h;
     let (f, h) = fifo_release pos f h;
     Some (h, f) }"

definition real_time_fifo_destroy ::
  "real_time_fifo option \<Rightarrow> lheap \<Rightarrow> (int \<times> real_time_fifo option \<times> lheap) option" where
  "real_time_fifo_destroy rfifo h = (case rfifo of
     None \<Rightarrow> Some (-1, None, h)
   | Some f \<Rightarrow> do {
       (h, f) \<leftarrow> list_for_each_safe fifo_destroy_body (rf_head f) h f;
       Some (0, Some (f\<lparr>rf_in := 0, rf_out := 0, rf_is_initial := 0, rf_mutex := Mutex_Uninit\<rparr>), h) })"


section \<open>Invariant and behaviour of each operation\<close>

text \<open>A release function may write or free the node it is given, and nothing else.\<close>

definition release_local :: "real_time_fifo \<Rightarrow> bool" where
  "release_local f \<longleftrightarrow> (case rf_release f of None \<Rightarrow> True | Some rel \<Rightarrow> \<forall>p h q. q \<noteq> p \<longrightarrow> rel p h q = h q)"

definition fifo_ok :: "real_time_fifo \<Rightarrow> lheap \<Rightarrow> addr list \<Rightarrow> bool" where
  "fifo_ok f h xs \<longleftrightarrow> rf_is_initial f \<noteq> 0 \<and> rf_mutex f = Mutex_Free \<and> release_local f \<and>
     int_ok (rf_out f - rf_in f) \<and> dlist h (rf_head f) xs"

lemma fifo_release_dlist:
  assumes "release_local f" "dlist h hp xs" "p \<notin> set (hp # xs)"
  shows "dlist (snd (fifo_release p f h)) hp xs"
proof (cases "rf_release f")
  case (Some rel)
  have "rel p h q = h q" if "q \<in> set (hp # xs)" for q
  proof -
    have "q \<noteq> p" using that assms(3) by auto
    then show ?thesis using assms(1) Some by (simp add: release_local_def)
  qed
  then have "dlist (rel p h) hp xs = dlist h hp xs" by (intro dlist_cong) blast
  with Some assms(2) show ?thesis by (simp add: fifo_release_def)
qed (use assms in \<open>simp add: fifo_release_def\<close>)

lemma fifo_release_fields [simp]:
  "rf_in (fst (fifo_release p f h)) = rf_in f" "rf_out (fst (fifo_release p f h)) = rf_out f"
  "rf_size (fst (fifo_release p f h)) = rf_size f" "rf_head (fst (fifo_release p f h)) = rf_head f"
  "rf_mutex (fst (fifo_release p f h)) = rf_mutex f" "rf_release (fst (fifo_release p f h)) = rf_release f"
  "rf_is_initial (fst (fifo_release p f h)) = rf_is_initial f"
  "rf_log (fst (fifo_release p f h)) = rf_log f @ (if rf_release f = None then [] else [p])"
  by (simp_all add: fifo_release_def split: option.splits)

lemma fifo_release_other: "release_local f \<Longrightarrow> q \<noteq> p \<Longrightarrow> snd (fifo_release p f h) q = h q"
  by (auto simp: fifo_release_def release_local_def split: option.splits)

lemma fifo_drop_oldest_keeps:
  assumes "int_ok (rf_out f - rf_in f)" "dlist h (rf_head f) xs" "rf_out f - rf_in f \<noteq> rf_size f \<or> xs = []"
  shows "fifo_drop_oldest f h = Some (f, h)"
  using assms list_empty_spec [OF assms(2)] by (auto simp: fifo_drop_oldest_def)

lemma fifo_drop_oldest_drops:
  assumes "int_ok (rf_out f - rf_in f)" "dlist h (rf_head f) (x # xs)" "rf_out f - rf_in f = rf_size f" "release_local f"
  obtains h1 where "list_del x h = Some h1" "dlist h1 (rf_head f) xs"
    "same_outside (set (rf_head f # x # xs)) h h1"
    "fifo_drop_oldest f h = Some (fifo_release x f h1)"
    "dlist (snd (fifo_release x f h1)) (rf_head f) xs"
proof -
  from assms(2) obtain h1 where h1: "list_del x h = Some h1" "dlist h1 (rf_head f) xs"
      "same_outside (set (rf_head f # x # xs)) h h1"
    by (rule ulist.del_first)
  have "fifo_drop_oldest f h = Some (fifo_release x f h1)"
    using assms h1(1) ulist.is_empty_law [OF assms(2)] dlist_first [OF assms(2)] by (simp add: fifo_drop_oldest_def)
  moreover have "x \<notin> set (rf_head f # xs)" using assms(2) by (auto simp: dlist_def)
  ultimately show ?thesis
    using that h1 fifo_release_dlist [OF assms(4) h1(2)] by blast
qed

lemmas fifo_mutex_defs = fifo_lock_def fifo_unlock_def

lemma fifo_init_ok:
  assumes "h (rf_head f) \<noteq> None" "release_local (f\<lparr>rf_release := func\<rparr>)"
  shows "\<exists>h'. real_time_fifo_init (Some f) sz func h =
           Some (0, Some (f\<lparr>rf_size := sz, rf_in := 0, rf_out := 0, rf_release := func, rf_is_initial := 1,
                           rf_mutex := Mutex_Free\<rparr>), h') \<and>
         fifo_ok (f\<lparr>rf_size := sz, rf_in := 0, rf_out := 0, rf_release := func, rf_is_initial := 1,
                   rf_mutex := Mutex_Free\<rparr>) h' [] \<and>
         same_outside {rf_head f} h h'"
  using ulist.init_law [of h "rf_head f"] assms
  by (auto simp: real_time_fifo_init_def fifo_ok_def release_local_def cint_simps)

lemma fifo_put_keeps:
  assumes ok: "fifo_ok f h xs" and new: "x \<noteq> NULL" "x \<notin> set (rf_head f # xs)" "h x \<noteq> None"
    and rng: "int_ok (rf_in f + 1)" "int_ok (rf_out f + 1)"
    and room: "rf_out f - rf_in f \<noteq> rf_size f \<or> xs = []"
  shows "\<exists>h'. real_time_fifo_put (Some f) x h = Some (0, Some (f\<lparr>rf_in := rf_in f + 1, rf_out := rf_out f + 1\<rparr>), h') \<and>
           fifo_ok (f\<lparr>rf_in := rf_in f + 1, rf_out := rf_out f + 1\<rparr>) h' (xs @ [x]) \<and>
           same_outside (set (x # rf_head f # xs)) h h'"
proof -
  have d: "dlist h (rf_head f) xs" and m: "rf_mutex f = Mutex_Free" and i: "rf_is_initial f \<noteq> 0"
    and diff: "int_ok (rf_out f - rf_in f)"
    using ok by (auto simp: fifo_ok_def)
  obtain h' where h': "list_add_tail x (rf_head f) h = Some h'" "dlist h' (rf_head f) (xs @ [x])"
      "same_outside (set (x # rf_head f # xs)) h h'"
    using ulist.add_tail_law [OF d new(2,3)] by blast
  have "fifo_drop_oldest (f\<lparr>rf_mutex := Mutex_Held\<rparr>) h = Some (f\<lparr>rf_mutex := Mutex_Held\<rparr>, h)"
    using fifo_drop_oldest_keeps [of "f\<lparr>rf_mutex := Mutex_Held\<rparr>" h xs] diff d room by simp
  then show ?thesis
    using ok new(1) i m rng h' by (simp add: real_time_fifo_put_def fifo_mutex_defs fifo_ok_def release_local_def)
qed

lemma fifo_get_empty:
  assumes "fifo_ok f h []"
  shows "real_time_fifo_get (Some f) True h = Some (-1, None, Some f, h)"
proof -
  have "f\<lparr>rf_mutex := Mutex_Free\<rparr> = f" using assms by (cases f) (simp add: fifo_ok_def)
  then show ?thesis
    using assms ulist.is_empty_law [of h "rf_head f" "[]"]
    by (simp add: real_time_fifo_get_def fifo_mutex_defs fifo_ok_def)
qed

lemma fifo_get_first:
  assumes "fifo_ok f h (x # xs)" and rng: "int_ok (rf_in f + 1)" "int_ok (rf_out f - (rf_in f + 1))"
  shows "\<exists>h'. real_time_fifo_get (Some f) True h = Some (0, Some x, Some (f\<lparr>rf_in := rf_in f + 1\<rparr>), h') \<and>
           fifo_ok (f\<lparr>rf_in := rf_in f + 1\<rparr>) h' xs \<and> same_outside (set (rf_head f # x # xs)) h h'"
proof -
  have d: "dlist h (rf_head f) (x # xs)" and m: "rf_mutex f = Mutex_Free" and i: "rf_is_initial f \<noteq> 0"
    using assms by (auto simp: fifo_ok_def)
  from d obtain h' where h': "list_del x h = Some h'" "dlist h' (rf_head f) xs"
      "same_outside (set (rf_head f # x # xs)) h h'"
    by (rule ulist.del_first)
  show ?thesis
    using assms(1) rng h' i m ulist.is_empty_law [OF d] dlist_first [OF d]
    by (simp add: real_time_fifo_get_def fifo_mutex_defs fifo_ok_def release_local_def)
qed

text \<open>Destruction hands every node left in the queue to the release function, in order, and empties the list.\<close>

definition log_release :: "addr \<Rightarrow> real_time_fifo \<Rightarrow> real_time_fifo" where
  "log_release p f = fst (fifo_release p f Map.empty)"

lemma fifo_release_fst: "fst (fifo_release p f h) = log_release p f"
  by (simp add: log_release_def fifo_release_def split: option.splits)

lemma log_release_fold [simp]:
  "rf_head (fold log_release xs f) = rf_head f" "rf_size (fold log_release xs f) = rf_size f"
  "rf_release (fold log_release xs f) = rf_release f"
  "rf_log (fold log_release xs f) = rf_log f @ (if rf_release f = None then [] else xs)"
  by (induction xs arbitrary: f) (simp_all add: log_release_def)

lemma fifo_destroy_body_step:
  assumes "release_local f" "dlist h hp (x # xs)"
  shows "\<exists>h'. fifo_destroy_body x h f = Some (h', log_release x f) \<and> dlist h' hp xs"
proof -
  from assms(2) obtain h1 where h1: "list_del x h = Some h1" "dlist h1 hp xs"
    by (rule ulist.del_first)
  have "x \<notin> set (hp # xs)" using assms(2) by (auto simp: dlist_def)
  then have "dlist (snd (fifo_release x f h1)) hp xs"
    by (rule fifo_release_dlist [OF assms(1) h1(2)])
  then show ?thesis
    using h1(1) by (cases "fifo_release x f h1") (simp add: fifo_destroy_body_def fifo_release_fst [symmetric, of x f h1])
qed

section \<open>Runs of puts and gets\<close>

datatype fifo_op = Put addr | Get

fun fifo_run :: "fifo_op list \<Rightarrow> real_time_fifo \<Rightarrow> lheap \<Rightarrow> (addr option list \<times> real_time_fifo \<times> lheap) option" where
  "fifo_run [] f h = Some ([], f, h)"
| "fifo_run (Put x # ops) f h = (case real_time_fifo_put (Some f) x h of
     Some (_, Some f', h') \<Rightarrow> fifo_run ops f' h' | _ \<Rightarrow> None)"
| "fifo_run (Get # ops) f h = (case real_time_fifo_get (Some f) True h of
     Some (_, r, Some f', h') \<Rightarrow> map_option (\<lambda>(rs, s). (r # rs, s)) (fifo_run ops f' h') | _ \<Rightarrow> None)"

text \<open>The abstract queue, with no limit: what the gets return and what is left.\<close>

fun queue_run :: "fifo_op list \<Rightarrow> addr list \<Rightarrow> addr option list \<times> addr list" where
  "queue_run [] q = ([], q)"
| "queue_run (Put x # ops) q = queue_run ops (q @ [x])"
| "queue_run (Get # ops) [] = (let (rs, q') = queue_run ops [] in (None # rs, q'))"
| "queue_run (Get # ops) (x # q) = (let (rs, q') = queue_run ops q in (Some x # rs, q'))"

text \<open>A caller only puts nodes it owns: allocated, and in no queue at that moment.\<close>

fun puts_owned :: "addr set \<Rightarrow> addr \<Rightarrow> fifo_op list \<Rightarrow> addr list \<Rightarrow> bool" where
  "puts_owned A hp [] q \<longleftrightarrow> True"
| "puts_owned A hp (Put x # ops) q \<longleftrightarrow>
     x \<noteq> NULL \<and> x \<in> A \<and> x \<notin> set (hp # q) \<and> puts_owned A hp ops (q @ [x])"
| "puts_owned A hp (Get # ops) q \<longleftrightarrow> puts_owned A hp ops (tl q)"

lemma fifo_run_unbounded:
  assumes "fifo_ok f h q" "0 < rf_size f" "0 \<le> rf_out f" "rf_out f \<le> rf_in f"
    and "rf_in f + int (length ops) \<le> INT_MAX" and "puts_owned (dom h) (rf_head f) ops q"
  shows "\<exists>f' h'. fifo_run ops f h = Some (fst (queue_run ops q), f', h') \<and>
           fifo_ok f' h' (snd (queue_run ops q)) \<and> rf_log f' = rf_log f \<and> rf_head f' = rf_head f"
  using assms
proof (induction ops arbitrary: f h q)
  case Nil
  then show ?case by simp
next
  case (Cons op ops)
  show ?case
  proof (cases op)
    case (Put x)
    let ?f = "f\<lparr>rf_in := rf_in f + 1, rf_out := rf_out f + 1\<rparr>"
    have "int_ok (rf_in f + 1)" "int_ok (rf_out f + 1)"
      using Cons.prems by (auto simp: cint_simps int_limits)
    moreover have "x \<noteq> NULL" "x \<notin> set (rf_head f # q)" "h x \<noteq> None" "rf_out f - rf_in f \<noteq> rf_size f \<or> q = []"
      using Cons.prems Put by (auto simp: domIff)
    ultimately obtain h' where h': "real_time_fifo_put (Some f) x h = Some (0, Some ?f, h')"
        "fifo_ok ?f h' (q @ [x])" "same_outside (set (x # rf_head f # q)) h h'"
      using fifo_put_keeps [OF Cons.prems(1), of x] by blast
    then show ?thesis
      using Cons.IH [OF h'(2)] Cons.prems Put by (simp add: same_outside_def)
  next
    case Get
    show ?thesis
    proof (cases q)
      case Nil
      have "puts_owned (dom h) (rf_head f) ops []" "rf_in f + int (length ops) \<le> INT_MAX"
        using Cons.prems Get Nil by simp_all
      then obtain f' h' where "fifo_run ops f h = Some (fst (queue_run ops []), f', h')"
          "fifo_ok f' h' (snd (queue_run ops []))" "rf_log f' = rf_log f" "rf_head f' = rf_head f"
        using Cons.IH [of f h "[]"] Cons.prems Nil by blast
      then show ?thesis
        using Get Nil fifo_get_empty [of f h] Cons.prems(1) by (simp add: case_prod_unfold Let_def)
    next
      case (Cons x q')
      let ?f = "f\<lparr>rf_in := rf_in f + 1\<rparr>"
      have "int_ok (rf_in f + 1)" "int_ok (rf_out f - (rf_in f + 1))"
        using Cons.prems by (auto simp: cint_simps int_limits)
      then obtain h' where h': "real_time_fifo_get (Some f) True h = Some (0, Some x, Some ?f, h')"
          "fifo_ok ?f h' q'" "same_outside (set (rf_head f # x # q')) h h'"
        using fifo_get_first [of f h x q'] Cons.prems(1) Cons by auto
      have "puts_owned (dom h') (rf_head ?f) ops q'" "rf_in ?f + int (length ops) \<le> INT_MAX"
        using Cons.prems Get Cons h'(3) by (simp_all add: same_outside_def)
      then obtain f' h'' where "fifo_run ops ?f h' = Some (fst (queue_run ops q'), f', h'')"
          "fifo_ok f' h'' (snd (queue_run ops q'))" "rf_log f' = rf_log ?f" "rf_head f' = rf_head ?f"
        using Cons.IH [OF h'(2)] Cons.prems by auto
      then show ?thesis
        using Get Cons h'(1) by (simp add: case_prod_unfold Let_def)
    qed
  qed
qed


section \<open>Properties\<close>

text \<open>
  C1: A FIFO initialised with a positive limit behaves, for every sequence of puts and gets, as
  a queue with no limit: the gets return the nodes in the order they were put, what is left in the
  list is what the abstract queue holds, and no node is ever handed to the release function. The
  limit is therefore never enforced, because \<open>in\<close> is advanced by every put.
\<close>

theorem real_time_fifo_limit_never_enforced:
  assumes "h (rf_head f) \<noteq> None" and "release_local (f\<lparr>rf_release := func\<rparr>)" and "0 < sz"
    and "int (length ops) \<le> INT_MAX" and "puts_owned (dom h) (rf_head f) ops []"
  shows "\<exists>f1 h1 f2 h2. real_time_fifo_init (Some f) sz func h = Some (0, Some f1, h1) \<and>
           fifo_run ops f1 h1 = Some (fst (queue_run ops []), f2, h2) \<and>
           dlist h2 (rf_head f) (snd (queue_run ops [])) \<and> rf_log f2 = rf_log f"
proof -
  let ?f = "f\<lparr>rf_size := sz, rf_in := 0, rf_out := 0, rf_release := func, rf_is_initial := 1, rf_mutex := Mutex_Free\<rparr>"
  obtain h1 where h1: "real_time_fifo_init (Some f) sz func h = Some (0, Some ?f, h1)" "fifo_ok ?f h1 []"
      "same_outside {rf_head f} h h1"
    using fifo_init_ok [of h f func sz] assms(1,2) by blast
  have "puts_owned (dom h1) (rf_head ?f) ops []"
    using assms(5) h1(3) by (simp add: same_outside_def)
  then show ?thesis
    using fifo_run_unbounded [OF h1(2)] assms(3,4) h1(1) by (fastforce simp: fifo_ok_def)
qed

definition demo_fifo :: real_time_fifo where
  "demo_fifo = \<lparr>rf_in = 5, rf_out = 5, rf_size = 5, rf_head = 100, rf_mutex = Mutex_Uninit,
     rf_release = None, rf_is_initial = 0, rf_log = []\<rparr>"

definition demo_heap :: lheap where
  "demo_heap = [1 \<mapsto> \<lparr>lh_next = 0, lh_prev = 0\<rparr>, 2 \<mapsto> \<lparr>lh_next = 0, lh_prev = 0\<rparr>, 3 \<mapsto> \<lparr>lh_next = 0, lh_prev = 0\<rparr>,
     100 \<mapsto> \<lparr>lh_next = 0, lh_prev = 0\<rparr>]"

lemmas demo_fifo_simps = demo_fifo_def demo_heap_def release_local_def int_limits

theorem real_time_fifo_limit_never_enforced_witness:
  "\<exists>f1 h1 f2 h2. real_time_fifo_init (Some demo_fifo) 1 (Some (\<lambda>p h. h(p := None))) demo_heap = Some (0, Some f1, h1) \<and>
     fifo_run [Put 1, Put 2, Put 3, Get] f1 h1 = Some ([Some 1], f2, h2) \<and>
     dlist h2 100 [2, 3] \<and> rf_log f2 = []"
  using real_time_fifo_limit_never_enforced
    [of demo_heap demo_fifo "Some (\<lambda>p h. h(p := None))" 1 "[Put 1, Put 2, Put 3, Get]"]
  by (simp add: demo_fifo_simps)

text \<open>
  When \<open>out - in\<close> does equal the limit (a limit of 0, before the first get) and the queue is
  not empty, a put unlinks the oldest node, calls the release function with it once if there is
  one, appends the new node, advances both counters and leaves the mutex free.
\<close>

theorem real_time_fifo_put_at_limit:
  assumes ok: "fifo_ok f h (y # xs)" and new: "x \<noteq> NULL" "x \<notin> set (rf_head f # y # xs)" "h x \<noteq> None"
    and rng: "int_ok (rf_in f + 1)" "int_ok (rf_out f + 1)"
    and full: "rf_out f - rf_in f = rf_size f"
  shows "\<exists>f' h'. real_time_fifo_put (Some f) x h = Some (0, Some f', h') \<and> fifo_ok f' h' (xs @ [x]) \<and>
           rf_in f' = rf_in f + 1 \<and> rf_out f' = rf_out f + 1 \<and> rf_size f' = rf_size f \<and> rf_head f' = rf_head f \<and>
           rf_release f' = rf_release f \<and>
           rf_log f' = rf_log f @ (if rf_release f = None then [] else [y])"
proof -
  let ?f = "f\<lparr>rf_mutex := Mutex_Held\<rparr>"
  have d: "dlist h (rf_head ?f) (y # xs)" and rl: "release_local ?f" and diff: "int_ok (rf_out ?f - rf_in ?f)"
    and full': "rf_out ?f - rf_in ?f = rf_size ?f"
    using ok full by (auto simp: fifo_ok_def release_local_def)
  from diff d full' rl obtain h1 where h1: "same_outside (set (rf_head ?f # y # xs)) h h1"
      "fifo_drop_oldest ?f h = Some (fifo_release y ?f h1)" "dlist (snd (fifo_release y ?f h1)) (rf_head ?f) xs"
    by (rule fifo_drop_oldest_drops)
  obtain f2 h2 where r: "fifo_release y ?f h1 = (f2, h2)" by (cases "fifo_release y ?f h1")
  have "h2 x \<noteq> None"
    using fifo_release_other [OF rl, of x y h1] r new(2,3) h1(1) by (auto simp: same_outside_def)
  moreover have "dlist h2 (rf_head f) xs" "x \<notin> set (rf_head f # xs)"
    using h1(3) new(2) r by auto
  ultimately obtain h' where h': "list_add_tail x (rf_head f) h2 = Some h'" "dlist h' (rf_head f) (xs @ [x])"
    using ulist.add_tail_law [of h2 "rf_head f" xs x] by blast
  have fields: "rf_in f2 = rf_in f" "rf_out f2 = rf_out f" "rf_size f2 = rf_size f" "rf_head f2 = rf_head f"
      "rf_mutex f2 = Mutex_Held" "rf_release f2 = rf_release f" "rf_is_initial f2 = rf_is_initial f"
      "rf_log f2 = rf_log f @ (if rf_release f = None then [] else [y])"
    using fifo_release_fields [of y ?f h1] r by simp_all
  show ?thesis
    using ok new(1) rng h' h1(2) r fields
    by (simp add: real_time_fifo_put_def fifo_mutex_defs fifo_ok_def release_local_def)
qed

definition demo_full_fifo :: real_time_fifo where
  "demo_full_fifo = \<lparr>rf_in = 1, rf_out = 1, rf_size = 0, rf_head = 100, rf_mutex = Mutex_Free,
     rf_release = Some (\<lambda>p h. h(p := None)), rf_is_initial = 1, rf_log = []\<rparr>"

definition demo_full_heap :: lheap where
  "demo_full_heap = [1 \<mapsto> \<lparr>lh_next = 100, lh_prev = 100\<rparr>, 2 \<mapsto> \<lparr>lh_next = 0, lh_prev = 0\<rparr>,
     100 \<mapsto> \<lparr>lh_next = 1, lh_prev = 1\<rparr>]"

theorem real_time_fifo_put_at_limit_witness:
  "\<exists>f' h'. real_time_fifo_put (Some demo_full_fifo) 2 demo_full_heap = Some (0, Some f', h') \<and>
     fifo_ok f' h' [2] \<and> rf_log f' = [1]"
proof -
  have "fifo_ok demo_full_fifo demo_full_heap [1]"
    by (simp add: fifo_ok_def demo_full_fifo_def demo_full_heap_def release_local_def dlist_def
        get_next_def get_prev_def cint_simps)
  then show ?thesis
    using real_time_fifo_put_at_limit [of demo_full_fifo demo_full_heap 1 "[]" 2]
    by (auto simp: demo_full_fifo_def demo_full_heap_def cint_simps)
qed

text \<open>
  Destroying a FIFO hands every node still queued to the release function, once and in queue
  order (when one is registered), leaves an empty list and marks the FIFO as not initialised.
\<close>

theorem real_time_fifo_destroy_releases_all:
  assumes "fifo_ok f h xs"
  shows "\<exists>f' h'. real_time_fifo_destroy (Some f) h = Some (0, Some f', h') \<and> dlist h' (rf_head f) [] \<and>
           rf_is_initial f' = 0 \<and> rf_mutex f' = Mutex_Uninit \<and>
           rf_log f' = rf_log f @ (if rf_release f = None then [] else xs)"
proof -
  let ?I = "\<lambda>h :: lheap. release_local"
  have "\<exists>h'. list_for_each_safe fifo_destroy_body (rf_head f) h f = Some (h', fold log_release xs f) \<and>
          dlist h' (rf_head f) [] \<and> release_local (fold log_release xs f)"
  proof (rule list_for_each_safe_drain [where I = ?I])
    fix x ys h s
    assume s: "release_local s" and d: "dlist h (rf_head f) (x # ys)"
    have "release_local (log_release x s)" using s by (simp add: release_local_def log_release_def)
    then show "\<exists>h'. fifo_destroy_body x h s = Some (h', log_release x s) \<and> dlist h' (rf_head f) ys \<and>
             release_local (log_release x s)"
      using fifo_destroy_body_step [OF s d] by blast
  qed (use assms in \<open>simp_all add: fifo_ok_def\<close>)
  then show ?thesis by (auto simp: real_time_fifo_destroy_def)
qed

theorem real_time_fifo_destroy_releases_all_witness:
  "\<exists>f' h'. real_time_fifo_destroy (Some demo_full_fifo) demo_full_heap = Some (0, Some f', h') \<and>
     dlist h' 100 [] \<and> rf_log f' = [1]"
proof -
  have "fifo_ok demo_full_fifo demo_full_heap [1]"
    by (simp add: fifo_ok_def demo_full_fifo_def demo_full_heap_def release_local_def dlist_def
        get_next_def get_prev_def cint_simps)
  from real_time_fifo_destroy_releases_all [OF this] show ?thesis
    by (auto simp: demo_full_fifo_def)
qed

end
