(* ===== verification/Fifo_Threads.thy ===== *)
theory Fifo_Threads
  imports Real_Time_Fifo
begin

text \<open>
  Threads that use one fifo of \<^verbatim>\<open>real_time_fifo.c\<close> at the same time. \<open>real_time_fifo_put\<close> gives the mutex back before it links the node and counts it. Its steps, and
  those of \<open>real_time_fifo_get\<close>, are the parts between which another thread can get in: taking the mutex, what is done while it is held,
  giving it back, reading the tail of the list, linking, and counting. A thread that waits for the mutex has no step (\<^const>\<open>None\<close>).
\<close>

section \<open>Steps\<close>

text \<open>Where a thread is in its call. \<open>Put_Link x p\<close> has read \<open>p\<close> as the tail of the list. A thread that has returned stays there.\<close>

datatype fifo_pc =
  Put_Lock addr | Put_Drop addr | Put_Unlock addr | Put_Tail addr | Put_Link addr addr | Put_Count
| Get_Lock | Get_Test | Get_Take | Get_Unlock int "addr option"
| Returned int "addr option"

fun fifo_step :: "fifo_pc \<Rightarrow> real_time_fifo \<Rightarrow> lheap \<Rightarrow> (fifo_pc \<times> real_time_fifo \<times> lheap) option" where
  "fifo_step (Put_Lock x) f h = do { f \<leftarrow> fifo_lock f; Some (Put_Drop x, f, h) }"
| "fifo_step (Put_Drop x) f h = do {
     (f, h) \<leftarrow> fifo_drop_oldest f h;
     i \<leftarrow> cint (rf_in f + 1);
     Some (Put_Unlock x, f\<lparr>rf_in := i\<rparr>, h) }"
| "fifo_step (Put_Unlock x) f h = do { f \<leftarrow> fifo_unlock f; Some (Put_Tail x, f, h) }"
| "fifo_step (Put_Tail x) f h = do { p \<leftarrow> get_prev (rf_head f) h; Some (Put_Link x p, f, h) }"
| "fifo_step (Put_Link x p) f h = do { h \<leftarrow> list_add_between x p (rf_head f) h; Some (Put_Count, f, h) }"
| "fifo_step Put_Count f h = do { out \<leftarrow> cint (rf_out f + 1); Some (Returned 0 None, f\<lparr>rf_out := out\<rparr>, h) }"
| "fifo_step Get_Lock f h = do { f \<leftarrow> fifo_lock f; Some (Get_Test, f, h) }"
| "fifo_step Get_Test f h = do {
     empty \<leftarrow> list_empty (rf_head f) h;
     Some (if empty then Get_Unlock (- 1) None else Get_Take, f, h) }"
| "fifo_step Get_Take f h = do {
     p \<leftarrow> get_next (rf_head f) h;
     h \<leftarrow> list_del p h;
     i \<leftarrow> cint (rf_in f + 1);
     Some (Get_Unlock 0 (Some p), f\<lparr>rf_in := i\<rparr>, h) }"
| "fifo_step (Get_Unlock r v) f h = do { f \<leftarrow> fifo_unlock f; Some (Returned r v, f, h) }"
| "fifo_step (Returned r v) f h = Some (Returned r v, f, h)"

text \<open>A thread that runs alone for a number of steps, and two threads under a schedule: \<^const>\<open>True\<close> is a step of the first.\<close>

fun fifo_alone :: "nat \<Rightarrow> fifo_pc \<Rightarrow> real_time_fifo \<Rightarrow> lheap \<Rightarrow> (fifo_pc \<times> real_time_fifo \<times> lheap) option" where
  "fifo_alone 0 c f h = Some (c, f, h)"
| "fifo_alone (Suc n) c f h = do { (c, f, h) \<leftarrow> fifo_step c f h; fifo_alone n c f h }"

fun fifo_threads ::
  "bool list \<Rightarrow> fifo_pc \<Rightarrow> fifo_pc \<Rightarrow> real_time_fifo \<Rightarrow> lheap \<Rightarrow> (fifo_pc \<times> fifo_pc \<times> real_time_fifo \<times> lheap) option" where
  "fifo_threads [] c d f h = Some (c, d, f, h)"
| "fifo_threads (True # ts) c d f h = do { (c, f, h) \<leftarrow> fifo_step c f h; fifo_threads ts c d f h }"
| "fifo_threads (False # ts) c d f h = do { (d, f, h) \<leftarrow> fifo_step d f h; fifo_threads ts c d f h }"

lemma fifo_threads_first: "fifo_threads (replicate n True @ ts) c d f h = do { (c, f, h) \<leftarrow> fifo_alone n c f h; fifo_threads ts c d f h }"
  by (induction n arbitrary: c f h) (auto simp: split_def split: Option.bind_splits)

lemma fifo_threads_second: "fifo_threads (replicate n False @ ts) c d f h = do { (d, f, h) \<leftarrow> fifo_alone n d f h; fifo_threads ts c d f h }"
  by (induction n arbitrary: d f h) (auto simp: split_def split: Option.bind_splits)


section \<open>A thread alone\<close>

text \<open>
  The steps of a thread that is not interrupted are the operation: six of them make a put, four a get.
\<close>

lemma put_alone:
  assumes "x \<noteq> NULL" "rf_is_initial f \<noteq> 0"
  shows "fifo_alone 6 (Put_Lock x) f h = do { (r, f', h') \<leftarrow> real_time_fifo_put (Some f) x h; f' \<leftarrow> f'; Some (Returned r None, f', h') }"
  using assms
  by (auto simp: numeral_eq_Suc real_time_fifo_put_def list_add_tail_def fifo_mutex_defs Let_def split_def split: Option.bind_splits)

lemma get_alone:
  assumes "rf_is_initial f \<noteq> 0"
  shows "fifo_alone 4 Get_Lock f h = do { (r, v, f', h') \<leftarrow> real_time_fifo_get (Some f) True h; f' \<leftarrow> f'; Some (Returned r v, f', h') }"
  using assms
  by (auto simp: numeral_eq_Suc real_time_fifo_get_def fifo_mutex_defs split: Option.bind_splits if_splits)


section \<open>Two threads\<close>

text \<open>A put up to the point where it has read the tail, and the rest of it.\<close>

lemma put_until_link:
  assumes "fifo_ok f h xs" "int_ok (rf_in f + 1)" "rf_out f - rf_in f \<noteq> rf_size f \<or> xs = []"
  shows "fifo_alone 4 (Put_Lock x) f h = Some (Put_Link x (last (rf_head f # xs)), f\<lparr>rf_in := rf_in f + 1\<rparr>, h)"
proof -
  let ?f = "f\<lparr>rf_mutex := Mutex_Held\<rparr>"
  have ok: "rf_mutex f = Mutex_Free" "dlist h (rf_head f) xs" "int_ok (rf_out f - rf_in f)" using assms(1) by (simp_all add: fifo_ok_def)
  have "fifo_drop_oldest ?f h = Some (?f, h)" using fifo_drop_oldest_keeps [of ?f h xs] ok(2,3) assms(3) by simp
  moreover have "f\<lparr>rf_in := i, rf_mutex := Mutex_Free\<rparr> = f\<lparr>rf_in := i\<rparr>" for i using ok(1) by (cases f) simp
  ultimately show ?thesis
    using ok(1) assms(2) dlist_last [OF ok(2)] by (simp add: numeral_eq_Suc fifo_mutex_defs)
qed

lemma put_from_link:
  assumes "h x \<noteq> None" "h p \<noteq> None" "h (rf_head f) \<noteq> None" "int_ok (rf_out f + 1)"
  shows "fifo_alone 2 (Put_Link x p) f h = Some (Returned 0 None, f\<lparr>rf_out := rf_out f + 1\<rparr>, link_between x p (rf_head f) h)"
  using assms list_add_between_eq [of h x p "rf_head f"] by (simp add: numeral_eq_Suc)

lemma get_finds_nothing:
  assumes "rf_is_initial f \<noteq> 0" "rf_mutex f = Mutex_Free" "get_next (rf_head f) h = Some (rf_head f)"
  shows "real_time_fifo_get (Some f) True h = Some (- 1, None, Some f, h)" and "list_for_each (rf_head f) h = Some []"
proof -
  have "f\<lparr>rf_mutex := Mutex_Free\<rparr> = f" using assms(2) by (cases f) simp
  then show "real_time_fifo_get (Some f) True h = Some (- 1, None, Some f, h)"
    using assms by (simp add: real_time_fifo_get_def fifo_mutex_defs list_empty_def)
  show "list_for_each (rf_head f) h = Some []" using assms(3) by (simp add: list_for_each_def list_walk.simps)
qed

text \<open>Counters that are far from overflow, as after a start-up and less than \<open>2 ^ 30\<close> calls.\<close>

definition counters_small :: "real_time_fifo \<Rightarrow> bool" where
  "counters_small f \<longleftrightarrow> 0 \<le> rf_in f \<and> rf_in f < 2 ^ 30 \<and> 0 \<le> rf_out f \<and> rf_out f < 2 ^ 30"

lemma counters_ok:
  "counters_small f \<Longrightarrow> int_ok (rf_in f + 1) \<and> int_ok (2 + rf_in f) \<and> int_ok (rf_out f + 1) \<and> int_ok (2 + rf_out f) \<and>
     int_ok (rf_out f - rf_in f) \<and> int_ok (rf_out f - (rf_in f + 1)) \<and> int_ok (rf_out f - (2 + rf_in f)) \<and> int_ok (rf_out f - rf_in f - 1)"
  by (simp add: counters_small_def int_ok_iff)

lemma put_get_race:
  assumes "fifo_ok f h [p]" "x \<notin> {rf_head f, p}" "h x \<noteq> None" "rf_out f - rf_in f \<noteq> rf_size f" "counters_small f"
  shows "\<exists>f' h'. fifo_threads (replicate 4 True @ replicate 4 False @ replicate 2 True) (Put_Lock x) Get_Lock f h =
      Some (Returned 0 None, Returned 0 (Some p), f', h') \<and> rf_log f' = rf_log f \<and> rf_head f' = rf_head f \<and>
      rf_is_initial f' \<noteq> 0 \<and> rf_mutex f' = Mutex_Free \<and> get_next (rf_head f) h' = Some (rf_head f)"
proof -
  let ?f1 = "f\<lparr>rf_in := rf_in f + 1\<rparr>"
  note rng = counters_ok [OF assms(5)]
  have ok: "rf_is_initial f \<noteq> 0" "rf_mutex f = Mutex_Free" "dlist h (rf_head f) [p]" using assms(1) by (simp_all add: fifo_ok_def)
  have "fifo_ok ?f1 h [p]" using assms(1) rng by (simp add: fifo_ok_def release_local_def)
  then obtain h1 where h1: "real_time_fifo_get (Some ?f1) True h = Some (0, Some p, Some (?f1\<lparr>rf_in := rf_in ?f1 + 1\<rparr>), h1)"
      "dlist h1 (rf_head f) []" "same_outside (set [rf_head f, p]) h h1"
    using fifo_get_first [of ?f1 h p "[]"] rng by (auto simp: fifo_ok_def)
  have get: "fifo_alone 4 Get_Lock ?f1 h = Some (Returned 0 (Some p), f\<lparr>rf_in := 2 + rf_in f\<rparr>, h1)"
    using get_alone [of ?f1 h] ok(1) h1(1) by simp
  have alloc: "h1 x \<noteq> None" "h1 p \<noteq> None" "h1 (rf_head f) \<noteq> None"
    using h1(3) assms(3) dlist_alloc [OF ok(3)] unfolding same_outside_def by (metis domIff list.set_intros)+
  have put: "fifo_alone 2 (Put_Link x p) (f\<lparr>rf_in := 2 + rf_in f\<rparr>) h1 =
      Some (Returned 0 None, f\<lparr>rf_in := 2 + rf_in f, rf_out := rf_out f + 1\<rparr>, link_between x p (rf_head f) h1)"
    using put_from_link [of h1 x p "f\<lparr>rf_in := 2 + rf_in f\<rparr>"] alloc rng by simp
  have "p \<noteq> rf_head f" using ok(3) by (auto simp: dlist_def)
  then have "get_next (rf_head f) (link_between x p (rf_head f) h1) = Some (rf_head f)"
    using h1(2) assms(2) by (simp add: link_between_def mem_simps)
  then show ?thesis
    using put_until_link [OF assms(1), of x] rng assms(4) get put ok(1,2) fifo_threads_first [of 2 "[]"]
    by (simp add: fifo_threads_first fifo_threads_second)
qed

lemma put_then_get:
  assumes "fifo_ok f h [p]" "x \<noteq> NULL" "x \<notin> {rf_head f, p}" "h x \<noteq> None" "rf_out f - rf_in f \<noteq> rf_size f" "counters_small f"
  shows "\<exists>f' h'. fifo_threads (replicate 6 True @ replicate 4 False) (Put_Lock x) Get_Lock f h =
    Some (Returned 0 None, Returned 0 (Some p), f', h') \<and> fifo_ok f' h' [x]"
proof -
  note rng = counters_ok [OF assms(6)]
  let ?f1 = "f\<lparr>rf_in := rf_in f + 1, rf_out := rf_out f + 1\<rparr>"
  have init: "rf_is_initial f \<noteq> 0" using assms(1) by (simp add: fifo_ok_def)
  obtain h1 where h1: "real_time_fifo_put (Some f) x h = Some (0, Some ?f1, h1)" "fifo_ok ?f1 h1 [p, x]"
    using fifo_put_keeps [OF assms(1,2), of] assms(3-5) rng by auto
  obtain h2 where h2: "real_time_fifo_get (Some ?f1) True h1 = Some (0, Some p, Some (?f1\<lparr>rf_in := rf_in ?f1 + 1\<rparr>), h2)"
      "fifo_ok (?f1\<lparr>rf_in := rf_in ?f1 + 1\<rparr>) h2 [x]"
    using fifo_get_first [OF h1(2)] rng by auto
  show ?thesis
    using put_alone [of x f h] get_alone [of ?f1 h1] h1(1) h2 assms(2) init fifo_threads_second [of 4 "[]"]
    by (simp add: fifo_threads_first)
qed

lemma get_then_put:
  assumes "fifo_ok f h [p]" "x \<noteq> NULL" "x \<notin> {rf_head f, p}" "h x \<noteq> None" "counters_small f"
  shows "\<exists>f' h'. fifo_threads (replicate 4 False @ replicate 6 True) (Put_Lock x) Get_Lock f h =
    Some (Returned 0 None, Returned 0 (Some p), f', h') \<and> fifo_ok f' h' [x]"
proof -
  note rng = counters_ok [OF assms(5)]
  let ?f1 = "f\<lparr>rf_in := rf_in f + 1\<rparr>"
  have init: "rf_is_initial f \<noteq> 0" using assms(1) by (simp add: fifo_ok_def)
  obtain h1 where h1: "real_time_fifo_get (Some f) True h = Some (0, Some p, Some ?f1, h1)" "fifo_ok ?f1 h1 []"
      "same_outside (set [rf_head f, p]) h h1"
    using fifo_get_first [OF assms(1)] rng by auto
  have "h1 x \<noteq> None" using h1(3) assms(4) by (auto simp: same_outside_def)
  then obtain h2 f2 where h2: "real_time_fifo_put (Some ?f1) x h1 = Some (0, Some f2, h2)" "fifo_ok f2 h2 [x]"
    using fifo_put_keeps [OF h1(2) assms(2)] assms(3) rng by auto
  show ?thesis
    using get_alone [of f h] put_alone [of x ?f1 h1] h1(1) h2 assms(2) init fifo_threads_first [of 6 "[]"]
    by (simp add: fifo_threads_second)
qed

text \<open>
  C2: One producer and one consumer can lose a node. Let the fifo hold one node \<open>p\<close>, and let one thread put \<open>x\<close> while another one gets a node. There is a schedule under which
  both calls succeed, the getter receives \<open>p\<close>, and \<open>x\<close> is then nowhere: it was not handed out and not released, a walk over the list finds no node, and the next get
  reports an empty fifo. When the calls do not overlap, in either order, the getter receives \<open>p\<close> and the fifo then holds just \<open>x\<close>.
\<close>

theorem fifo_loses_node:
  assumes "fifo_ok f h [p]" and "x \<noteq> NULL" and "x \<notin> {rf_head f, p}" and "h x \<noteq> None" and "rf_out f - rf_in f \<noteq> rf_size f" and "counters_small f"
  shows "(\<exists>sched f' h'. fifo_threads sched (Put_Lock x) Get_Lock f h = Some (Returned 0 None, Returned 0 (Some p), f', h') \<and>
      rf_log f' = rf_log f \<and> list_for_each (rf_head f) h' = Some [] \<and> real_time_fifo_get (Some f') True h' = Some (- 1, None, Some f', h')) \<and>
    (\<exists>f' h'. fifo_threads (replicate 6 True @ replicate 4 False) (Put_Lock x) Get_Lock f h =
      Some (Returned 0 None, Returned 0 (Some p), f', h') \<and> fifo_ok f' h' [x]) \<and>
    (\<exists>f' h'. fifo_threads (replicate 4 False @ replicate 6 True) (Put_Lock x) Get_Lock f h =
      Some (Returned 0 None, Returned 0 (Some p), f', h') \<and> fifo_ok f' h' [x])"
proof (intro conjI)
  obtain f' h' where r: "fifo_threads (replicate 4 True @ replicate 4 False @ replicate 2 True) (Put_Lock x) Get_Lock f h =
      Some (Returned 0 None, Returned 0 (Some p), f', h')" "rf_log f' = rf_log f" "rf_head f' = rf_head f"
      "rf_is_initial f' \<noteq> 0" "rf_mutex f' = Mutex_Free" "get_next (rf_head f) h' = Some (rf_head f)"
    using put_get_race [OF assms(1,3,4,5,6)] by blast
  then show "\<exists>sched f' h'. fifo_threads sched (Put_Lock x) Get_Lock f h = Some (Returned 0 None, Returned 0 (Some p), f', h') \<and>
      rf_log f' = rf_log f \<and> list_for_each (rf_head f) h' = Some [] \<and> real_time_fifo_get (Some f') True h' = Some (- 1, None, Some f', h')"
    using get_finds_nothing [OF r(4,5)] r(1,2,3,6) by metis
qed (use put_then_get [OF assms] get_then_put [OF assms(1-4,6)] in blast)+

text \<open>The witness: a fifo of size 5 with node 1 in it; node 2 is lost.\<close>

definition demo_queue :: real_time_fifo where
  "demo_queue = \<lparr>rf_in = 1, rf_out = 1, rf_size = 5, rf_head = 100, rf_mutex = Mutex_Free, rf_release = None, rf_is_initial = 1, rf_log = []\<rparr>"

definition demo_queue_heap :: lheap where
  "demo_queue_heap = [100 \<mapsto> \<lparr>lh_next = 1, lh_prev = 1\<rparr>, 1 \<mapsto> \<lparr>lh_next = 100, lh_prev = 100\<rparr>, 2 \<mapsto> \<lparr>lh_next = 0, lh_prev = 0\<rparr>]"

theorem fifo_loses_node_witness:
  "\<exists>sched f' h'. fifo_threads sched (Put_Lock 2) Get_Lock demo_queue demo_queue_heap = Some (Returned 0 None, Returned 0 (Some 1), f', h') \<and>
    rf_log f' = [] \<and> list_for_each 100 h' = Some [] \<and> real_time_fifo_get (Some f') True h' = Some (- 1, None, Some f', h')"
proof -
  have "fifo_ok demo_queue demo_queue_heap [1]" "counters_small demo_queue"
    by (simp_all add: fifo_ok_def release_local_def demo_queue_def demo_queue_heap_def dlist_def get_next_def get_prev_def counters_small_def int_ok_def int_limits)
  then show ?thesis
    using fifo_loses_node [of demo_queue demo_queue_heap 1 2] by (simp add: demo_queue_def demo_queue_heap_def)
qed

text \<open>
  Two producers: when both have read the tail before either has linked its node, the node linked first is lost, whatever the fifo holds.
\<close>

lemma two_puts_lose_node:
  assumes "fifo_ok f h xs" "x \<notin> set (rf_head f # y # xs)" "y \<notin> set (rf_head f # xs)" "h x \<noteq> None" "h y \<noteq> None"
    and "rf_out f - rf_in f \<noteq> rf_size f" "rf_out f - (rf_in f + 1) \<noteq> rf_size f" "counters_small f"
  shows "\<exists>f' h'. fifo_threads (replicate 4 True @ replicate 4 False @ replicate 2 True @ replicate 2 False) (Put_Lock x) (Put_Lock y) f h =
    Some (Returned 0 None, Returned 0 None, f', h') \<and> rf_out f' = 2 + rf_out f \<and> dlist h' (rf_head f) (xs @ [y])"
proof -
  note rng = counters_ok [OF assms(8)]
  let ?p = "last (rf_head f # xs)"
  let ?f1 = "f\<lparr>rf_in := rf_in f + 1\<rparr>"
  let ?hx = "link_between x ?p (rf_head f) h"
  have d: "dlist h (rf_head f) xs" using assms(1) by (simp add: fifo_ok_def)
  have "fifo_ok ?f1 h xs" using assms(1) rng by (simp add: fifo_ok_def release_local_def)
  then have second: "fifo_alone 4 (Put_Lock y) ?f1 h = Some (Put_Link y ?p, f\<lparr>rf_in := 2 + rf_in f\<rparr>, h)"
    using put_until_link [of ?f1 h xs y] rng assms(7) by simp
  have p: "?p \<in> set (rf_head f # xs)" by (rule last_in_ring)
  then have alloc: "h ?p \<noteq> None" "h (rf_head f) \<noteq> None" using dlist_alloc [OF d] by auto
  have hx: "dom ?hx = dom h" using link_between_outside [of x ?p "rf_head f" h] by (auto simp: same_outside_def)
  have x_rest: "fifo_alone 2 (Put_Link x ?p) (f\<lparr>rf_in := 2 + rf_in f\<rparr>) h = Some (Returned 0 None, f\<lparr>rf_in := 2 + rf_in f, rf_out := rf_out f + 1\<rparr>, ?hx)"
    using put_from_link [of h x ?p "f\<lparr>rf_in := 2 + rf_in f\<rparr>"] assms(4) alloc rng by simp
  have "?hx y \<noteq> None" "?hx ?p \<noteq> None" "?hx (rf_head f) \<noteq> None" using hx assms(5) alloc by (metis domIff)+
  then have y_rest: "fifo_alone 2 (Put_Link y ?p) (f\<lparr>rf_in := 2 + rf_in f, rf_out := rf_out f + 1\<rparr>) ?hx =
      Some (Returned 0 None, f\<lparr>rf_in := 2 + rf_in f, rf_out := 2 + rf_out f\<rparr>, link_between y ?p (rf_head f) ?hx)"
    using put_from_link [of ?hx y ?p "f\<lparr>rf_in := 2 + rf_in f, rf_out := rf_out f + 1\<rparr>"] rng by simp
  have "dlist (link_between y ?p (rf_head f) h) (rf_head f) (xs @ [y])"
    using dlist_link_between [of h "rf_head f" xs "[]" y] d assms(3,5) by simp
  moreover have "\<forall>q \<in> set (rf_head f # xs @ [y]). link_between y ?p (rf_head f) ?hx q = link_between y ?p (rf_head f) h q"
    using assms(2,3,5) p alloc by (auto simp: link_between_def upd_next_def upd_prev_def option.map_comp o_def)
  ultimately have "dlist (link_between y ?p (rf_head f) ?hx) (rf_head f) (xs @ [y])"
    using dlist_cong by blast
  then show ?thesis
    using put_until_link [OF assms(1), of x] rng assms(6) second x_rest y_rest fifo_threads_second [of 2 "[]"]
    by (simp add: fifo_threads_first fifo_threads_second)
qed

end
