(* ===== verification/Singly_List.thy ===== *)
theory Singly_List
  imports C_Prelude
begin

text \<open>
  \<^verbatim>\<open>list/singly_linked_list.h\<close> and \<^verbatim>\<open>list/singly_linked_list.c\<close>: a singly linked list that keeps a
  pointer to the pointer field where the next node goes (\<open>node_t **tail\<close>). Such a pointer is
  either the address of \<open>list->head\<close> or of the \<open>next\<close> field of a node: the datatype \<open>loc\<close>. The memory
  maps addresses of nodes (\<open>template_t\<close>, a node followed by a data pointer) to their contents;
  \<open>free\<close> removes an address from it.
\<close>

section \<open>State\<close>

datatype insert_type = INSERT_TYPE_HEAD | INSERT_TYPE_TAIL

datatype loc = Loc_head | Loc_next addr

record snode =
  sn_next :: addr
  sn_data :: int

type_synonym sheap = "addr \<Rightarrow> snode option"

record singly_list =
  sl_head :: addr
  sl_tail :: loc
  sl_type :: insert_type

definition sl_load :: "loc \<Rightarrow> singly_list \<Rightarrow> sheap \<Rightarrow> addr option" where
  "sl_load l s h = (case l of Loc_head \<Rightarrow> Some (sl_head s) | Loc_next p \<Rightarrow> map_option sn_next (h p))"

definition node_set_next :: "addr \<Rightarrow> addr \<Rightarrow> sheap \<Rightarrow> sheap option" where
  "node_set_next p v h = (case h p of None \<Rightarrow> None | Some n \<Rightarrow> Some (h(p \<mapsto> n\<lparr>sn_next := v\<rparr>)))"

definition sl_store :: "loc \<Rightarrow> addr \<Rightarrow> singly_list \<Rightarrow> sheap \<Rightarrow> (singly_list \<times> sheap) option" where
  "sl_store l v s h = (case l of
     Loc_head \<Rightarrow> Some (s\<lparr>sl_head := v\<rparr>, h)
   | Loc_next p \<Rightarrow> map_option (Pair s) (node_set_next p v h))"


section \<open>singly\_linked\_list.h\<close>

definition INIT_SINGLY_LINKED_LIST :: "insert_type \<Rightarrow> singly_list" where
  "INIT_SINGLY_LINKED_LIST ty = \<lparr>sl_head = NULL, sl_tail = Loc_head, sl_type = ty\<rparr>"

definition singly_linked_list_add :: "addr \<Rightarrow> singly_list \<Rightarrow> sheap \<Rightarrow> (singly_list \<times> sheap) option" where
  "singly_linked_list_add new s h =
     (if sl_type s = INSERT_TYPE_TAIL
      then do {
        h \<leftarrow> node_set_next new NULL h;
        (s, h) \<leftarrow> sl_store (sl_tail s) new s h;
        Some (s\<lparr>sl_tail := Loc_next new\<rparr>, h) }
      else do {
        n \<leftarrow> sl_load (sl_tail s) s h;
        h \<leftarrow> node_set_next new n h;
        Some (s\<lparr>sl_head := new, sl_tail := Loc_head\<rparr>, h) })"

text \<open>
  The deletion loop. After it unlinks and frees a node it still executes the loop's increment,
  \<open>ptr = &(*ptr)->next\<close>, with the new value of \<open>*ptr\<close>.
\<close>

partial_function (option) sl_del_loop :: "loc \<Rightarrow> addr \<Rightarrow> singly_list \<Rightarrow> sheap \<Rightarrow> (singly_list \<times> sheap) option" where
  "sl_del_loop ptr new s h =
     Option.bind (sl_load ptr s h) (\<lambda>tmp.
       if tmp = NULL then Some (s, h)
       else if tmp \<noteq> new then sl_del_loop (Loc_next tmp) new s h
       else Option.bind (map_option sn_next (h tmp)) (\<lambda>n.
         Option.bind (sl_store ptr n s h) (\<lambda>(s, h).
           let s = (if sl_type s = INSERT_TYPE_TAIL \<and> n = NULL then s\<lparr>sl_tail := ptr\<rparr> else s);
               h = h(tmp := None)
           in Option.bind (sl_load ptr s h) (\<lambda>cur. sl_del_loop (Loc_next cur) new s h))))"

definition singly_linked_list_del :: "addr \<Rightarrow> singly_list \<Rightarrow> sheap \<Rightarrow> (singly_list \<times> sheap) option" where
  "singly_linked_list_del new s h = sl_del_loop Loc_head new s h"


section \<open>singly\_linked\_list.c\<close>

text \<open>
  \<open>malloc\<close> is an argument: the address it returned (NULL when it failed) and the contents of the
  block it returned, which are not specified.
\<close>

definition single_list_new :: "addr \<Rightarrow> insert_type \<Rightarrow> singly_list option" where
  "single_list_new m ty = (if m = NULL then None else Some (INIT_SINGLY_LINKED_LIST ty))"

definition single_list_add ::
  "addr \<Rightarrow> snode \<Rightarrow> singly_list option \<Rightarrow> int \<Rightarrow> sheap \<Rightarrow> (int \<times> singly_list option \<times> sheap) option" where
  "single_list_add m raw list data h =
     (let h = (if m = NULL then h else h(m \<mapsto> raw)) in
      case list of
        None \<Rightarrow> Some (-1, None, h)
      | Some s \<Rightarrow> (case h m of
          None \<Rightarrow> None
        | Some n \<Rightarrow> do {
            (s, h) \<leftarrow> singly_linked_list_add m s (h(m \<mapsto> n\<lparr>sn_data := data\<rparr>));
            Some (0, Some s, h) }))"

definition single_list_del :: "addr \<Rightarrow> singly_list \<Rightarrow> sheap \<Rightarrow> (int \<times> singly_list \<times> sheap) option" where
  "single_list_del p s h = do { (s, h) \<leftarrow> singly_linked_list_del p s h; Some (0, s, h) }"

text \<open>\<open>single_list_free\<close> frees the nodes and then the list struct itself; what is left is the memory.\<close>

partial_function (option) sl_free_loop :: "addr \<Rightarrow> sheap \<Rightarrow> sheap option" where
  "sl_free_loop p h =
     (if p = NULL then Some h
      else Option.bind (h p) (\<lambda>n. sl_free_loop (sn_next n) (h(p := None))))"

definition single_list_free :: "singly_list \<Rightarrow> sheap \<Rightarrow> sheap option" where
  "single_list_free s h = sl_free_loop (sl_head s) h"

text \<open>\<open>dump_template\<close> calls \<open>do_show\<close> with the data of every node; the model is the sequence of these data.\<close>

partial_function (option) sl_dump_loop :: "addr \<Rightarrow> sheap \<Rightarrow> int list option" where
  "sl_dump_loop p h =
     (if p = NULL then Some []
      else Option.bind (h p) (\<lambda>n. Option.bind (sl_dump_loop (sn_next n) h) (\<lambda>ds. Some (sn_data n # ds))))"

definition dump_template :: "singly_list \<Rightarrow> sheap \<Rightarrow> int list option" where
  "dump_template s h = sl_dump_loop (sl_head s) h"


section \<open>Representation and invariant\<close>

fun spath :: "sheap \<Rightarrow> addr \<Rightarrow> addr list \<Rightarrow> addr \<Rightarrow> bool" where
  "spath h p [] q \<longleftrightarrow> p = q"
| "spath h p (x # xs) q \<longleftrightarrow> p = x \<and> x \<noteq> NULL \<and> (\<exists>n. h x = Some n \<and> spath h (sn_next n) xs q)"

definition tail_loc :: "addr list \<Rightarrow> loc" where
  "tail_loc xs = (if xs = [] then Loc_head else Loc_next (last xs))"

definition sl_ok :: "singly_list \<Rightarrow> sheap \<Rightarrow> addr list \<Rightarrow> bool" where
  "sl_ok s h xs \<longleftrightarrow> spath h (sl_head s) xs NULL \<and> distinct xs \<and>
     sl_tail s = (if sl_type s = INSERT_TYPE_TAIL then tail_loc xs else Loc_head)"

lemma spath_append: "spath h p (xs @ ys) q \<longleftrightarrow> (\<exists>r. spath h p xs r \<and> spath h r ys q)"
  by (induction xs arbitrary: p) auto

lemma spath_cong: "\<forall>x \<in> set xs. h' x = h x \<Longrightarrow> spath h' p xs q = spath h p xs q"
  by (induction xs arbitrary: p) auto

lemma spath_alloc: "spath h p xs q \<Longrightarrow> x \<in> set xs \<Longrightarrow> x \<noteq> NULL \<and> h x \<noteq> None"
  by (induction xs arbitrary: p) auto

lemma spath_upd [simp]: "x \<notin> set xs \<Longrightarrow> spath (h(x := v)) p xs q = spath h p xs q"
  by (rule spath_cong) auto

lemma spath_unique: "spath h p xs NULL \<Longrightarrow> spath h p ys NULL \<Longrightarrow> xs = ys"
proof (induction xs arbitrary: p ys)
  case Nil
  then show ?case by (cases ys) auto
next
  case (Cons x xs)
  then show ?case by (cases ys) auto
qed

text \<open>Redirecting the pointer field at the end of a path, which is what \<open>*list->tail = new\<close> does.\<close>

lemma spath_redirect:
  assumes "spath h p (xs @ [x]) q" "x \<notin> set xs"
  shows "spath (h(x \<mapsto> (the (h x))\<lparr>sn_next := r\<rparr>)) p (xs @ [x]) r"
  using assms by (auto simp: spath_append)

lemma sl_load_tail_loc:
  "spath h (sl_head s) xs q \<Longrightarrow> sl_load (tail_loc xs) s h = Some q"
  by (cases xs rule: rev_cases) (auto simp: tail_loc_def sl_load_def spath_append)

lemma sl_store_tail_loc:
  assumes "spath h (sl_head s) xs q" "distinct xs"
  obtains s' h' where "sl_store (tail_loc xs) r s h = Some (s', h')" "spath h' (sl_head s') xs r"
    "sl_type s' = sl_type s" "sl_tail s' = sl_tail s" "\<forall>p. p \<notin> set xs \<longrightarrow> h' p = h p" "dom h' = dom h"
    "\<forall>p. map_option sn_data (h' p) = map_option sn_data (h p)"
proof (cases xs rule: rev_cases)
  case Nil
  then show ?thesis using that [of "s\<lparr>sl_head := r\<rparr>" h] by (simp add: tail_loc_def sl_store_def)
next
  case (snoc ys y)
  obtain n where n: "h y = Some n" using spath_alloc [OF assms(1), of y] snoc by auto
  let ?h = "h(y \<mapsto> n\<lparr>sn_next := r\<rparr>)"
  have "spath ?h (sl_head s) xs r"
    using spath_redirect [of h "sl_head s" ys y q r] assms snoc n by simp
  with snoc n show ?thesis
    by (intro that [of s ?h]) (auto simp: tail_loc_def sl_store_def node_set_next_def)
qed


section \<open>Insertion\<close>

lemma sl_add_tail_ok:
  assumes "sl_ok s h xs" "sl_type s = INSERT_TYPE_TAIL" "x \<noteq> NULL" "x \<notin> set xs" "h x = Some n"
  shows "\<exists>s' h'. singly_linked_list_add x s h = Some (s', h') \<and> sl_ok s' h' (xs @ [x]) \<and>
           sl_type s' = sl_type s \<and> dom h' = dom h \<and> (\<forall>p. map_option sn_data (h' p) = map_option sn_data (h p))"
proof -
  let ?h = "h(x \<mapsto> n\<lparr>sn_next := NULL\<rparr>)"
  have sp: "spath ?h (sl_head s) xs NULL" "distinct xs" and t: "sl_tail s = tail_loc xs"
    using assms by (simp_all add: sl_ok_def)
  from sp obtain s' h' where s': "sl_store (tail_loc xs) x s ?h = Some (s', h')" "spath h' (sl_head s') xs x"
      "sl_type s' = sl_type s" and st: "sl_tail s' = sl_tail s" and s'': "\<forall>p. p \<notin> set xs \<longrightarrow> h' p = ?h p" "dom h' = dom ?h"
      "\<forall>p. map_option sn_data (h' p) = map_option sn_data (?h p)"
    by (rule sl_store_tail_loc [where r = x])
  have "spath h' (sl_head s') (xs @ [x]) NULL"
    using s'(2) s''(1) assms(3,4) by (auto simp: spath_append)
  then show ?thesis
    using s' s'' t assms by (auto simp: singly_linked_list_add_def node_set_next_def sl_ok_def tail_loc_def)
qed

lemma sl_add_head_ok:
  assumes "sl_ok s h xs" "sl_type s = INSERT_TYPE_HEAD" "x \<noteq> NULL" "x \<notin> set xs" "h x = Some n"
  shows "\<exists>s' h'. singly_linked_list_add x s h = Some (s', h') \<and> sl_ok s' h' (x # xs) \<and>
           sl_type s' = sl_type s \<and> dom h' = dom h \<and> (\<forall>p. map_option sn_data (h' p) = map_option sn_data (h p))"
  using assms by (auto simp: singly_linked_list_add_def node_set_next_def sl_ok_def sl_load_def)


section \<open>Deletion\<close>

lemma sl_del_skip:
  assumes "spath h (sl_head s) (us @ ws @ vs) NULL" "x \<notin> set ws"
  shows "sl_del_loop (tail_loc us) x s h = sl_del_loop (tail_loc (us @ ws)) x s h"
  using assms
proof (induction ws arbitrary: us)
  case (Cons w ws)
  have "sl_load (tail_loc us) s h = Some w" "w \<noteq> NULL"
    using Cons.prems sl_load_tail_loc [of h s us w] by (auto simp: spath_append)
  then have "sl_del_loop (tail_loc us) x s h = sl_del_loop (tail_loc (us @ [w])) x s h"
    using Cons.prems by (subst sl_del_loop.simps) (simp add: tail_loc_def)
  also have "\<dots> = sl_del_loop (tail_loc ((us @ [w]) @ ws)) x s h"
    using Cons.prems by (intro Cons.IH) auto
  finally show ?case by simp
qed simp

lemma sl_del_absent:
  assumes "spath h (sl_head s) (us @ vs) NULL" "x \<notin> set vs"
  shows "sl_del_loop (tail_loc us) x s h = Some (s, h)"
proof -
  have "sl_del_loop (tail_loc us) x s h = sl_del_loop (tail_loc (us @ vs)) x s h"
    using assms by (intro sl_del_skip [of _ _ _ _ "[]"]) auto
  then show ?thesis
    using sl_load_tail_loc [OF assms(1)] by (subst (asm) (2) sl_del_loop.simps) simp
qed

text \<open>One step of the loop at the node to delete: unlink it, free it, and go on behind its successor.\<close>

lemma sl_del_found:
  assumes "spath h (sl_head s) (us @ x # vs) NULL" "distinct (us @ x # vs)"
  obtains s' h' where
    "sl_del_loop (tail_loc us) x s h =
       sl_del_loop (Loc_next (hd (vs @ [NULL]))) x
         (if sl_type s = INSERT_TYPE_TAIL \<and> vs = [] then s'\<lparr>sl_tail := tail_loc us\<rparr> else s') (h'(x := None))"
    "spath (h'(x := None)) (sl_head s') (us @ vs) NULL" "sl_type s' = sl_type s" "sl_tail s' = sl_tail s"
    "dom h' = dom h" "\<forall>p. map_option sn_data (h' p) = map_option sn_data (h p)"
proof -
  obtain n where n: "h x = Some n" "spath h (sl_head s) us x" "spath h (sn_next n) vs NULL" "x \<noteq> NULL"
    using assms(1) by (auto simp: spath_append)
  have nx: "sn_next n = hd (vs @ [NULL])" "sn_next n = NULL \<longleftrightarrow> vs = []"
    using n(3) by (cases vs; auto)+
  have dus: "distinct us" using assms(2) by simp
  from n(2) dus obtain s' h' where s': "sl_store (tail_loc us) (sn_next n) s h = Some (s', h')"
      "spath h' (sl_head s') us (sn_next n)" "sl_type s' = sl_type s" "sl_tail s' = sl_tail s"
      "\<forall>p. p \<notin> set us \<longrightarrow> h' p = h p" "dom h' = dom h"
      "\<forall>p. map_option sn_data (h' p) = map_option sn_data (h p)"
    by (rule sl_store_tail_loc [where r = "sn_next n"])
  have "spath h' (sn_next n) vs NULL"
    using n(3) s'(5) assms(2) by (subst spath_cong [of _ h' h]) auto
  then have p: "spath (h'(x := None)) (sl_head s') (us @ vs) NULL"
    using s'(2) assms(2) by (auto simp: spath_append)
  have ld: "sl_load (tail_loc us) s'' (h'(x := None)) = Some (sn_next n)" if "sl_head s'' = sl_head s'" for s''
    using that s'(2) assms(2) by (intro sl_load_tail_loc) simp
  have "sl_del_loop (tail_loc us) x s h =
       sl_del_loop (Loc_next (hd (vs @ [NULL]))) x
         (if sl_type s = INSERT_TYPE_TAIL \<and> vs = [] then s'\<lparr>sl_tail := tail_loc us\<rparr> else s') (h'(x := None))"
    using n(1,4) sl_load_tail_loc [OF n(2)] s'(1,3) ld nx
    by (subst sl_del_loop.simps) (simp add: Let_def)
  then show ?thesis using that p s' by blast
qed

lemma sl_del_middle:
  assumes ok: "sl_ok s h (us @ x # v # vs)"
  shows "\<exists>s' h'. singly_linked_list_del x s h = Some (s', h') \<and> sl_ok s' h' (us @ v # vs) \<and>
           sl_type s' = sl_type s \<and> dom h' = dom h - {x} \<and>
           (\<forall>p. p \<noteq> x \<longrightarrow> map_option sn_data (h' p) = map_option sn_data (h p))"
proof -
  have p: "spath h (sl_head s) (us @ x # v # vs) NULL" and d: "distinct (us @ x # v # vs)"
    using ok by (auto simp: sl_ok_def)
  then obtain s' h' where f: "sl_del_loop (tail_loc us) x s h = sl_del_loop (Loc_next v) x s' (h'(x := None))"
      "spath (h'(x := None)) (sl_head s') (us @ v # vs) NULL" "sl_type s' = sl_type s" "sl_tail s' = sl_tail s"
      "dom h' = dom h" "\<forall>p. map_option sn_data (h' p) = map_option sn_data (h p)"
    by (rule sl_del_found) auto
  have "sl_del_loop (tail_loc (us @ [v])) x s' (h'(x := None)) = Some (s', h'(x := None))"
    using f(2) d by (intro sl_del_absent [where vs = vs]) auto
  moreover have "sl_del_loop (tail_loc []) x s h = sl_del_loop (tail_loc us) x s h"
    using sl_del_skip [of h s "[]" us "x # v # vs" x] p d by auto
  ultimately have "singly_linked_list_del x s h = Some (s', h'(x := None))"
    using f(1) by (simp add: singly_linked_list_del_def tail_loc_def)
  moreover have "sl_ok s' (h'(x := None)) (us @ v # vs)"
    using ok f(2,3,4) by (auto simp: sl_ok_def tail_loc_def)
  ultimately show ?thesis using f(3,5,6) by auto
qed

lemma sl_del_last:
  assumes ok: "sl_ok s h (us @ [x])" and null: "h NULL = None"
  shows "singly_linked_list_del x s h = None"
proof -
  have p: "spath h (sl_head s) (us @ [x]) NULL" and d: "distinct (us @ [x])"
    using ok by (auto simp: sl_ok_def)
  then obtain s' h' where f: "sl_del_loop (tail_loc us) x s h = sl_del_loop (Loc_next NULL) x s' (h'(x := None))"
      "dom h' = dom h"
    by (rule sl_del_found) auto
  have "(h'(x := None)) NULL = None" using f(2) null by (auto simp: domIff)
  then have "sl_del_loop (tail_loc us) x s h = None"
    unfolding f(1) by (subst sl_del_loop.simps) (simp add: sl_load_def)
  moreover have "sl_del_loop (tail_loc []) x s h = sl_del_loop (tail_loc us) x s h"
    using sl_del_skip [of h s "[]" us "[x]" x] p d by auto
  ultimately show ?thesis by (simp add: singly_linked_list_del_def tail_loc_def)
qed


section \<open>Freeing and dumping a whole list\<close>

lemma sl_free_loop_path:
  "spath h p xs NULL \<Longrightarrow> distinct xs \<Longrightarrow> sl_free_loop p h = Some (h |` (- set xs))"
proof (induction xs arbitrary: p h)
  case Nil
  then show ?case by (subst sl_free_loop.simps) (simp add: fun_eq_iff restrict_map_def)
next
  case (Cons x xs)
  then obtain n where n: "p = x" "x \<noteq> NULL" "h x = Some n" "spath (h(x := None)) (sn_next n) xs NULL"
    by auto
  have "(h(x := None)) |` (- set xs) = h |` (- set (x # xs))"
    by (auto simp: restrict_map_def fun_eq_iff)
  then show ?case
    using n Cons.IH [OF n(4)] Cons.prems(2) by (subst sl_free_loop.simps) (simp only: option.simps bind.simps if_False distinct.simps)
qed

lemma sl_dump_loop_path:
  "spath h p xs NULL \<Longrightarrow> sl_dump_loop p h = Some (map (\<lambda>x. sn_data (the (h x))) xs)"
proof (induction xs arbitrary: p)
  case Nil
  then show ?case by (subst sl_dump_loop.simps) simp
next
  case (Cons x xs)
  then show ?case by (subst sl_dump_loop.simps) auto
qed

lemma dump_template_ok: "sl_ok s h xs \<Longrightarrow> dump_template s h = Some (map (\<lambda>x. sn_data (the (h x))) xs)"
  by (simp add: sl_ok_def dump_template_def sl_dump_loop_path)

text \<open>What a list holds, as the data of its nodes in order.\<close>

definition sl_data :: "sheap \<Rightarrow> addr list \<Rightarrow> int list" where
  "sl_data h xs = map (\<lambda>x. sn_data (the (h x))) xs"

lemma sl_data_cong:
  assumes "\<And>x. x \<in> set xs \<Longrightarrow> map_option sn_data (h' x) = map_option sn_data (h x) \<and> h x \<noteq> None"
  shows "sl_data h' xs = sl_data h xs"
  unfolding sl_data_def
proof (rule map_cong [OF refl])
  fix x
  assume "x \<in> set xs"
  then show "sn_data (the (h' x)) = sn_data (the (h x))"
    using assms [of x] by (cases "h x"; cases "h' x") auto
qed


section \<open>Properties\<close>

text \<open>
  Adding data to a list, with a fresh block from \<open>malloc\<close>, keeps the list well formed and puts the
  new data last in a list created with \<open>INSERT_TYPE_TAIL\<close> and first in one created with
  \<open>INSERT_TYPE_HEAD\<close>, as \<open>dump_template\<close> shows; the other data and their order are unchanged.
\<close>

theorem single_list_add_dump:
  assumes "sl_ok s h xs" "m \<noteq> NULL" "h m = None"
  shows "\<exists>s' h'. single_list_add m raw (Some s) d h = Some (0, Some s', h') \<and>
           sl_ok s' h' (if sl_type s = INSERT_TYPE_TAIL then xs @ [m] else m # xs) \<and>
           dump_template s' h' = Some (if sl_type s = INSERT_TYPE_TAIL then sl_data h xs @ [d] else d # sl_data h xs)"
proof -
  let ?n = "raw\<lparr>sn_data := d\<rparr>"
  let ?h = "h(m \<mapsto> ?n)" and ?ys = "if sl_type s = INSERT_TYPE_TAIL then xs @ [m] else m # xs"
  have m: "m \<notin> set xs" using assms(1,3) spath_alloc [of h "sl_head s" xs NULL m] by (auto simp: sl_ok_def)
  then have ok: "sl_ok s ?h xs" using assms(1) by (simp add: sl_ok_def)
  obtain s' h' where s': "singly_linked_list_add m s ?h = Some (s', h')" "sl_ok s' h' ?ys"
      "\<forall>p. map_option sn_data (h' p) = map_option sn_data (?h p)"
  proof (cases "sl_type s")
    case INSERT_TYPE_TAIL
    then show ?thesis using that sl_add_tail_ok [OF ok _ assms(2) m, of ?n] by auto
  next
    case INSERT_TYPE_HEAD
    then show ?thesis using that sl_add_head_ok [OF ok _ assms(2) m, of ?n] by auto
  qed
  have "\<forall>x \<in> set ?ys. ?h x \<noteq> None"
    using assms(1) spath_alloc [of h "sl_head s" xs NULL] by (auto simp: sl_ok_def)
  then have "sl_data h' ?ys = sl_data ?h ?ys"
    using s'(3) by (intro sl_data_cong) blast
  moreover have "sl_data ?h xs = sl_data h xs"
    using m by (auto simp: sl_data_def)
  ultimately show ?thesis
    using s' assms dump_template_ok [OF s'(2)] by (auto simp: single_list_add_def sl_data_def)
qed

theorem single_list_add_dump_witness:
  "\<exists>s' h'. single_list_add 7 \<lparr>sn_next = 99, sn_data = 99\<rparr> (Some (INIT_SINGLY_LINKED_LIST INSERT_TYPE_TAIL)) 42 Map.empty =
      Some (0, Some s', h') \<and> sl_ok s' h' [7] \<and> dump_template s' h' = Some [42]"
  using single_list_add_dump [of "INIT_SINGLY_LINKED_LIST INSERT_TYPE_TAIL" Map.empty "[]" 7]
  by (simp add: sl_ok_def INIT_SINGLY_LINKED_LIST_def tail_loc_def sl_data_def)

text \<open>
  Deleting a node that has a successor removes exactly that node, frees it, keeps the list well
  formed (the tail pointer too) and leaves the data of the other nodes.
\<close>

theorem single_list_del_middle:
  assumes "sl_ok s h (us @ x # v # vs)"
  shows "\<exists>s' h'. single_list_del x s h = Some (0, s', h') \<and> sl_ok s' h' (us @ v # vs) \<and> h' x = None \<and>
           dump_template s' h' = Some (sl_data h (us @ v # vs))"
proof -
  obtain s' h' where s': "singly_linked_list_del x s h = Some (s', h')" "sl_ok s' h' (us @ v # vs)"
      "dom h' = dom h - {x}" "\<forall>p. p \<noteq> x \<longrightarrow> map_option sn_data (h' p) = map_option sn_data (h p)"
    using sl_del_middle [OF assms] by blast
  have "x \<notin> set (us @ v # vs)" using assms by (auto simp: sl_ok_def)
  moreover have "\<forall>p \<in> set (us @ v # vs). h p \<noteq> None"
    using assms spath_alloc [of h "sl_head s" "us @ x # v # vs" NULL] by (auto simp: sl_ok_def)
  ultimately have "sl_data h' (us @ v # vs) = sl_data h (us @ v # vs)"
    using s'(4) by (intro sl_data_cong) auto
  then show ?thesis
    using s' dump_template_ok [OF s'(2)] by (auto simp: single_list_del_def sl_data_def)
qed

definition demo_slist :: singly_list where
  "demo_slist = \<lparr>sl_head = 1, sl_tail = Loc_next 2, sl_type = INSERT_TYPE_TAIL\<rparr>"

definition demo_sheap :: sheap where
  "demo_sheap = [1 \<mapsto> \<lparr>sn_next = 2, sn_data = 10\<rparr>, 2 \<mapsto> \<lparr>sn_next = 0, sn_data = 20\<rparr>]"

lemma demo_slist_ok: "sl_ok demo_slist demo_sheap [1, 2]"
  by (simp add: sl_ok_def demo_slist_def demo_sheap_def tail_loc_def)

theorem single_list_del_middle_witness:
  "\<exists>s' h'. single_list_del 1 demo_slist demo_sheap = Some (0, s', h') \<and> sl_ok s' h' [2] \<and> dump_template s' h' = Some [20]"
  using single_list_del_middle [of demo_slist demo_sheap "[]" 1 2 "[]"] demo_slist_ok
  by (auto simp: sl_data_def demo_sheap_def)

text \<open>
  Deleting the last node is undefined behaviour: the loop's increment dereferences the NULL
  pointer the deletion has just stored.
\<close>

theorem single_list_del_last_undefined:
  assumes "sl_ok s h (us @ [x])" and "h NULL = None"
  shows "single_list_del x s h = None"
  using sl_del_last [OF assms] by (simp add: single_list_del_def)

theorem single_list_del_last_undefined_witness: "single_list_del 2 demo_slist demo_sheap = None"
  using single_list_del_last_undefined [of demo_slist demo_sheap "[1]" 2] demo_slist_ok
  by (simp add: demo_sheap_def)

text \<open>
  \<open>single_list_free\<close> terminates on every well-formed list and frees exactly the list's nodes.
\<close>

theorem single_list_free_frees_nodes:
  assumes "sl_ok s h xs"
  shows "single_list_free s h = Some (h |` (- set xs))"
  using assms by (simp add: sl_ok_def single_list_free_def sl_free_loop_path)

theorem single_list_free_frees_nodes_witness: "single_list_free demo_slist demo_sheap = Some (demo_sheap |` (- {1, 2}))"
  using single_list_free_frees_nodes [OF demo_slist_ok] by simp

end
