(* ===== verification/Crc32.thy ===== *)
theory Crc32
  imports C_Prelude
begin

text \<open>
  \<^verbatim>\<open>linux/utils/src/crc32.c\<close>: three table-driven CRC-32 routines. \<open>unsigned int\<close> is \<^typ>\<open>32 word\<close>,
  \<open>unsigned char\<close> is \<^typ>\<open>8 word\<close>, and reading the buffer or the table outside its bounds is
  undefined behaviour. The reference the routines are compared with, \<open>crc_ref\<close>, processes one bit
  at a time and uses no table. The global \<open>crc_table\<close> and the table returned by
  \<open>crc32_alloc_init_table\<close> are explicit arguments.
\<close>

section \<open>The code\<close>

definition CRC_POLY :: u32 where
  "CRC_POLY = 0xedb88320"

text \<open>The inner loop of the three table builders: \<open>n\<close> rounds of one-bit division.\<close>

fun crc_bits :: "nat \<Rightarrow> u32 \<Rightarrow> u32" where
  "crc_bits 0 c = c"
| "crc_bits (Suc n) c = crc_bits n (if c AND 1 \<noteq> 0 then CRC_POLY XOR drop_bit 1 c else drop_bit 1 c)"

text \<open>The outer loop, which overwrites the first 256 entries of a table.\<close>

definition crc_fill :: "u32 list \<Rightarrow> u32 list" where
  "crc_fill table = fold (\<lambda>i t. t[i := crc_bits 8 (word_of_nat i)]) [0..<256] table"

definition init_crc_table :: "u32 list \<Rightarrow> u32 list" where
  "init_crc_table crc_table = crc_fill crc_table"

function crc32_loop :: "u32 list \<Rightarrow> u8 list \<Rightarrow> nat \<Rightarrow> nat \<Rightarrow> u32 \<Rightarrow> u32 option" where
  "crc32_loop table buffer i n crc =
     (if i < n
      then do {
        b \<leftarrow> array_get buffer (int i);
        e \<leftarrow> array_get table (uint ((crc XOR ucast b) AND 0xff));
        crc32_loop table buffer (Suc i) n (e XOR drop_bit 8 crc) }
      else Some crc)"
  by pat_completeness auto
termination
  by (relation "measure (\<lambda>(table, buffer, i, n, crc). n - i)") auto

declare crc32_loop.simps [simp del]

definition crc32 :: "u32 list \<Rightarrow> u32 \<Rightarrow> u8 list \<Rightarrow> u32 \<Rightarrow> u32 option" where
  "crc32 crc_table crc buffer n = crc32_loop crc_table buffer 0 (unat n) crc"

definition calc_crc :: "u32 list \<Rightarrow> u8 list \<Rightarrow> u32 \<Rightarrow> u32 option" where
  "calc_crc crc_table buf n = crc32 crc_table 0xffffffff buf n"

text \<open>\<open>lut_crc32\<close> builds its table anew on every call and inverts the register before and after.\<close>

function lut_loop :: "u32 list \<Rightarrow> u8 list \<Rightarrow> nat \<Rightarrow> nat \<Rightarrow> u32 \<Rightarrow> u32 option" where
  "lut_loop table buf p q crc =
     (if p < q
      then do {
        octet \<leftarrow> array_get buf (int p);
        e \<leftarrow> array_get table (uint ((crc AND 0xff) XOR ucast octet));
        lut_loop table buf (Suc p) q (drop_bit 8 crc XOR e) }
      else Some crc)"
  by pat_completeness auto
termination
  by (relation "measure (\<lambda>(table, buf, p, q, crc). q - p)") auto

declare lut_loop.simps [simp del]

definition lut_crc32 :: "u32 \<Rightarrow> u8 list \<Rightarrow> u64 \<Rightarrow> u32 option" where
  "lut_crc32 crc buf len =
     map_option (\<lambda>c. NOT c) (lut_loop (crc_fill (replicate 256 0)) buf 0 (unat len) (NOT crc))"

text \<open>\<open>calloc\<close> may fail; the argument says whether it did not.\<close>

definition crc32_alloc_init_table :: "bool \<Rightarrow> u32 list option" where
  "crc32_alloc_init_table calloc_ok = (if calloc_ok then Some (crc_fill (replicate 256 0)) else None)"

definition crc32_get :: "u32 list \<Rightarrow> u8 list \<Rightarrow> u32 \<Rightarrow> u32 option" where
  "crc32_get table buf n = map_option (\<lambda>c. NOT c) (crc32_loop table buf 0 (unat n) 0xffffffff)"

text \<open>The handle of an allocated table (\<^const>\<open>None\<close> for a null pointer) is released; the result is 0.\<close>

definition crc32_destroy :: "u32 list option \<Rightarrow> u32 list option \<times> int" where
  "crc32_destroy table = (case table of Some _ \<Rightarrow> (None, 0) | None \<Rightarrow> (None, 0))"


section \<open>The bitwise reference\<close>

definition crc_ref :: "u32 \<Rightarrow> u8 list \<Rightarrow> u32" where
  "crc_ref c bs = foldl (\<lambda>c b. crc_bits 8 (c XOR ucast b)) c bs"

definition crc_bit :: "u32 \<Rightarrow> u32" where
  "crc_bit c = drop_bit 1 c XOR (if odd c then CRC_POLY else 0)"

lemma and_one_odd: "(c :: u32) AND 1 \<noteq> 0 \<longleftrightarrow> odd c"
  by (simp add: and_one_eq odd_iff_mod_2_eq_one)

lemma crc_bits_Suc: "crc_bits (Suc n) c = crc_bits n (crc_bit c)"
  unfolding crc_bits.simps and_one_odd by (simp add: crc_bit_def xor.commute)

lemma crc_bit_xor: "crc_bit (x XOR y) = crc_bit x XOR crc_bit y"
  by (simp add: crc_bit_def even_xor_iff ac_simps)

lemma crc_bits_xor: "crc_bits n (x XOR y) = crc_bits n x XOR crc_bits n y"
  by (induction n arbitrary: x y) (simp_all add: crc_bits_Suc crc_bit_xor del: crc_bits.simps(2))

lemma crc_bits_add: "crc_bits (m + n) c = crc_bits n (crc_bits m c)"
  by (induction m arbitrary: c) (simp_all add: crc_bits_Suc del: crc_bits.simps(2))

text \<open>Rounds that shift out zeros only are a shift.\<close>

lemma crc_bits_zeros: "take_bit n z = 0 \<Longrightarrow> crc_bits n z = drop_bit n z"
proof (induction n arbitrary: z)
  case (Suc n)
  have e: "even z" using Suc.prems even_take_bit_eq [of "Suc n" z] by simp
  have "take_bit n (drop_bit 1 z) = 0"
    using Suc.prems by (simp add: take_bit_drop_bit)
  then show ?case
    using Suc.IH [of "drop_bit 1 z"] e by (simp add: crc_bits_Suc crc_bit_def del: crc_bits.simps(2))
qed simp

text \<open>The one-bit division loses nothing: the bit it shifts out comes back as the top bit.\<close>

lemma crc_bit_inj: "crc_bit x = crc_bit y \<Longrightarrow> x = y"
proof -
  have top: "bit (crc_bit z) 31 = odd z" for z
    using bit_imp_le_length [of z 32] by (auto simp: crc_bit_def bit_simps CRC_POLY_def)
  assume a: "crc_bit x = crc_bit y"
  then have o: "odd x = odd y" using top by metis
  let ?k = "if odd x then CRC_POLY else 0"
  have "(drop_bit 1 x XOR ?k) XOR ?k = (drop_bit 1 y XOR ?k) XOR ?k"
    using a o by (simp add: crc_bit_def)
  then have d: "drop_bit 1 x = drop_bit 1 y"
    by (simp only: xor.assoc xor_self_eq xor.right_neutral)
  have s: "bit z (Suc m) = bit (drop_bit 1 z) m" for z :: u32 and m
    by (simp only: bit_drop_bit_eq comp_apply plus_1_eq_Suc)
  show "x = y"
  proof (rule bit_word_eqI)
    fix n
    show "bit x n = bit y n"
      using o by (cases n) (simp_all only: s d bit_0)
  qed
qed

lemma crc_bits_inj: "crc_bits n x = crc_bits n y \<Longrightarrow> x = y"
  by (induction n arbitrary: x y) (auto simp: crc_bits_Suc dest: crc_bit_inj simp del: crc_bits.simps(2))


section \<open>Tables\<close>

lemma crc_fill_length [simp]: "length (crc_fill t) = length t"
proof -
  have "length (fold (\<lambda>i t. t[i := f i]) is t) = length t" for "is" and f :: "nat \<Rightarrow> u32"
    by (induction "is" arbitrary: t) simp_all
  then show ?thesis by (simp add: crc_fill_def)
qed

lemma fold_update_nth:
  "j < length t \<Longrightarrow> fold (\<lambda>i t. t[i := f i]) [0..<n] t ! j = (if j < n then f j else t ! j)"
proof (induction n)
  case (Suc n)
  have len: "length (fold (\<lambda>i t. t[i := f i]) is t) = length t" for "is"
    by (induction "is" arbitrary: t) simp_all
  show ?case using Suc by (auto simp: nth_list_update len less_Suc_eq)
qed simp

lemma crc_fill_get:
  assumes "length t = 256" "uint i < 256"
  shows "array_get (crc_fill t) (uint (i :: u32)) = Some (crc_bits 8 i)"
proof -
  have u: "uint i = int (unat i)" by simp
  then have i: "unat i < 256" using assms(2) by linarith
  then have "crc_fill t ! unat i = crc_bits 8 i"
    using assms(1) fold_update_nth [of "unat i" t "\<lambda>i. crc_bits 8 (word_of_nat i)" 256]
    by (simp only: crc_fill_def if_True of_nat_unat ucast_id)
  then show ?thesis
    using assms(1) i array_get_nat [of "unat i" "crc_fill t"] by (simp only: u crc_fill_length)
qed

text \<open>The table step equals eight one-bit steps.\<close>

lemma take_bit_8_bound: "uint (take_bit 8 (x :: u32)) < 256"
proof -
  have "take_bit 8 (uint x) < 2 ^ 8" by (rule take_bit_int_less_exp)
  then show ?thesis by (simp add: unsigned_take_bit_eq)
qed

lemma crc_bits_8_split: "crc_bits 8 x = crc_bits 8 (take_bit 8 x) XOR drop_bit 8 x"
proof -
  have "x = take_bit 8 x XOR push_bit 8 (drop_bit 8 x)"
    by (rule bit_word_eqI) (auto simp: bit_simps)
  then have "crc_bits 8 x = crc_bits 8 (take_bit 8 x) XOR crc_bits 8 (push_bit 8 (drop_bit 8 x))"
    by (metis crc_bits_xor)
  also have "crc_bits 8 (push_bit 8 (drop_bit 8 x)) = drop_bit 8 (push_bit 8 (drop_bit 8 x))"
    by (rule crc_bits_zeros) (simp add: take_bit_push_bit)
  also have "\<dots> = drop_bit 8 x"
    by (rule bit_word_eqI) (auto simp: bit_simps dest: bit_imp_le_length)
  finally show ?thesis .
qed

lemma drop_bit_byte [simp]: "drop_bit 8 (ucast (b :: u8) :: u32) = 0"
  by (rule bit_word_eqI) (auto simp: bit_simps dest: bit_imp_le_length)

lemma crc_table_step:
  assumes "length t = 256"
  shows "array_get (crc_fill t) (uint ((c XOR ucast (b :: u8)) AND 0xff)) = Some (crc_bits 8 (take_bit 8 (c XOR ucast b)))"
    and "crc_bits 8 (take_bit 8 (c XOR ucast b)) XOR drop_bit 8 c = crc_bits 8 (c XOR ucast b)"
  using assms crc_bits_8_split [of "c XOR ucast b"]
  by (simp_all add: mask_byte crc_fill_get take_bit_8_bound del: take_bit_xor)

lemma crc32_loop_ref:
  assumes "length t = 256" "i \<le> n" "n \<le> length buf"
  shows "crc32_loop (crc_fill t) buf i n c = Some (crc_ref c (take (n - i) (drop i buf)))"
  using assms(2)
proof (induction "n - i" arbitrary: i c)
  case 0
  then show ?case by (simp add: crc32_loop.simps crc_ref_def)
next
  case (Suc k)
  then have lt: "i < n" by simp
  then have "take (n - i) (drop i buf) = buf ! i # take (n - Suc i) (drop (Suc i) buf)"
    using assms(3) by (simp add: Cons_nth_drop_Suc [symmetric] Suc_diff_Suc [symmetric] take_Suc_Cons)
  moreover have "crc32_loop (crc_fill t) buf (Suc i) n c' = Some (crc_ref c' (take (n - Suc i) (drop (Suc i) buf)))" for c'
    using Suc lt by simp
  ultimately show ?case
    using lt assms(1,3) crc_table_step [OF assms(1), of c "buf ! i"]
    by (subst crc32_loop.simps) (simp add: crc_ref_def)
qed

lemma lut_loop_eq: "lut_loop t buf i n c = crc32_loop t buf i n c"
proof (induction t buf i n c rule: lut_loop.induct)
  case (1 t buf i n c)
  have "(c AND 0xff) XOR ucast b = (c XOR ucast b) AND 0xff" for b :: u8
    by (rule bit_word_eqI) (auto simp: bit_simps mask_byte dest: bit_imp_le_length)
  then show ?case
    using 1 by (simp add: lut_loop.simps [of t buf i n c] crc32_loop.simps [of t buf i n c] xor.commute
        split: bind_split)
qed


section \<open>Messages in one window\<close>

text \<open>
  The bytes of a window of at most four bytes, as one little-endian word, and the register
  after the window as a function of that word.
\<close>

fun le_word :: "u8 list \<Rightarrow> u32" where
  "le_word [] = 0"
| "le_word (b # bs) = ucast b XOR push_bit 8 (le_word bs)"

lemma le_word_bound: "take_bit (8 * length bs) (le_word bs) = le_word bs"
proof (induction bs)
  case (Cons b bs)
  have "take_bit (8 * length (b # bs)) (push_bit 8 (le_word bs)) = push_bit 8 (le_word bs)"
    using Cons by (simp add: take_bit_push_bit)
  moreover have "take_bit (8 * length (b # bs)) (ucast b) = (ucast b :: u32)"
    by (rule bit_word_eqI) (auto simp: bit_simps dest: bit_imp_le_length)
  ultimately show ?case by (simp only: le_word.simps take_bit_xor)
qed simp

lemma le_word_push:
  assumes "length bs \<le> 3"
  shows "take_bit 8 (push_bit 8 (le_word bs)) = 0" "drop_bit 8 (push_bit 8 (le_word bs)) = le_word bs"
proof -
  have high: "\<not> bit (le_word bs) n" if "24 \<le> n" for n
  proof -
    have "bit (le_word bs) n = bit (take_bit (8 * length bs) (le_word bs)) n"
      by (simp only: le_word_bound)
    then show ?thesis using that assms by (auto simp: bit_simps)
  qed
  show "take_bit 8 (push_bit 8 (le_word bs)) = 0" by (simp add: take_bit_push_bit)
  show "drop_bit 8 (push_bit 8 (le_word bs)) = le_word bs"
    by (rule bit_word_eqI) (use high leI in \<open>auto simp: bit_simps\<close>)
qed

lemma crc_ref_window: "length bs \<le> 4 \<Longrightarrow> crc_ref c bs = crc_bits (8 * length bs) (c XOR le_word bs)"
proof (induction bs arbitrary: c)
  case (Cons b bs)
  have "crc_bits 8 (push_bit 8 (le_word bs)) = le_word bs"
    using crc_bits_zeros [OF le_word_push(1)] le_word_push(2) Cons.prems by simp
  then have "crc_bits 8 (c XOR le_word (b # bs)) = crc_bits 8 (c XOR ucast b) XOR le_word bs"
    by (simp add: crc_bits_xor xor.assoc [symmetric])
  then have "crc_bits (8 * length bs) (crc_bits 8 (c XOR ucast b) XOR le_word bs) =
      crc_bits (8 * length (b # bs)) (c XOR le_word (b # bs))"
    using crc_bits_add [of 8 "8 * length bs"] by simp
  then show ?case using Cons by (simp add: crc_ref_def del: le_word.simps)
qed (simp add: crc_ref_def)

lemma le_word_inj: "length xs = length ys \<Longrightarrow> length xs \<le> 4 \<Longrightarrow> le_word xs = le_word ys \<Longrightarrow> xs = ys"
proof (induction xs ys rule: list_induct2)
  case (Cons x xs y ys)
  have low: "take_bit 8 (le_word (b # bs)) = (ucast b :: u32)" for b bs
  proof -
    have "take_bit 8 (ucast b) = (ucast b :: u32)"
      by (rule bit_word_eqI) (auto simp: bit_simps dest: bit_imp_le_length)
    then show ?thesis by (simp add: take_bit_push_bit)
  qed
  have "(ucast x :: u32) = ucast y" using Cons.prems(2) low by metis
  then have "bit x n = bit y n" if "n < 8" for n
    using that by (auto simp: bit_eq_iff bit_simps)
  then have xy: "x = y" by (intro bit_word_eqI) simp
  have "ucast x XOR (ucast x XOR push_bit 8 (le_word xs)) = ucast x XOR (ucast x XOR push_bit 8 (le_word ys))"
    using Cons.prems(2) unfolding xy le_word.simps by (simp only:)
  then have "push_bit 8 (le_word xs) = push_bit 8 (le_word ys)"
    by (simp only: xor.assoc [symmetric] xor_self_eq xor.left_neutral)
  then have push: "drop_bit 8 (push_bit 8 (le_word xs)) = drop_bit 8 (push_bit 8 (le_word ys))"
    by (simp only:)
  have "length xs \<le> 3" "length ys \<le> 3" using Cons.hyps Cons.prems(1) by simp_all
  then have "le_word xs = le_word ys" using push by (simp only: le_word_push(2))
  then show ?case using Cons xy by simp
qed simp

lemma crc_ref_append: "crc_ref c (xs @ ys) = crc_ref (crc_ref c xs) ys"
  by (simp add: crc_ref_def)

lemma crc_ref_start_inj: "crc_ref c bs = crc_ref d bs \<Longrightarrow> c = d"
proof (induction bs arbitrary: c d)
  case (Cons b bs)
  then have "crc_bits 8 (c XOR ucast b) = crc_bits 8 (d XOR ucast b)" by (auto simp: crc_ref_def)
  then have "c XOR ucast b = d XOR ucast b" by (rule crc_bits_inj)
  then have "(c XOR ucast b) XOR ucast b = (d XOR ucast b) XOR ucast b" by (simp only:)
  then show ?case by (simp only: xor.assoc xor_self_eq xor.right_neutral)
qed (simp add: crc_ref_def)

lemma crc_ref_window_inj:
  assumes "length w = length w'" "length w \<le> 4" "crc_ref c (xs @ w @ ys) = crc_ref c (xs @ w' @ ys)"
  shows "w = w'"
proof -
  let ?c = "crc_ref c xs"
  have "crc_bits (8 * length w) (?c XOR le_word w) = crc_bits (8 * length w) (?c XOR le_word w')"
    using assms crc_ref_start_inj [of "crc_ref ?c w" ys "crc_ref ?c w'"] crc_ref_window [of w ?c] crc_ref_window [of w' ?c]
    by (simp add: crc_ref_append)
  then have "?c XOR le_word w = ?c XOR le_word w'" by (rule crc_bits_inj)
  then have "?c XOR (?c XOR le_word w) = ?c XOR (?c XOR le_word w')" by (simp only:)
  then have "le_word w = le_word w'"
    by (simp only: xor.assoc [symmetric] xor_self_eq xor.left_neutral)
  then show ?thesis using le_word_inj assms by blast
qed


section \<open>Properties\<close>

text \<open>The register the routines leave behind, whatever table memory they started from.\<close>

lemma crc32_ref:
  assumes "length t = 256" "unat n \<le> length buf"
  shows "crc32 (init_crc_table t) c buf n = Some (crc_ref c (take (unat n) buf))"
  using crc32_loop_ref [OF assms(1), of 0 "unat n" buf c] assms(2)
  by (simp only: crc32_def init_crc_table_def diff_zero drop_0 le0)

lemma lut_crc32_ref:
  assumes "unat n \<le> length buf"
  shows "lut_crc32 c buf n = Some (NOT (crc_ref (NOT c) (take (unat n) buf)))"
  using crc32_loop_ref [of "replicate 256 0" 0 "unat n" buf "NOT c"] assms
  by (simp only: lut_crc32_def lut_loop_eq length_replicate diff_zero drop_0 le0 option.map)

lemma crc32_get_ref:
  assumes "crc32_alloc_init_table ok = Some t" "unat n \<le> length buf"
  shows "crc32_get t buf n = Some (NOT (crc_ref 0xffffffff (take (unat n) buf)))"
proof -
  have t: "t = crc_fill (replicate 256 0)"
    using assms(1) by (simp add: crc32_alloc_init_table_def split: if_splits)
  show ?thesis
    using crc32_loop_ref [of "replicate 256 0" 0 "unat n" buf "0xffffffff"] assms(2)
    by (simp only: crc32_get_def t length_replicate diff_zero drop_0 le0 option.map)
qed

text \<open>
  C3: After \<open>init_crc_table\<close> (whatever the 256 entries held before), the table-driven \<open>crc32\<close> reads
  only inside its buffer and returns what bit-by-bit division by the reflected polynomial gives.
\<close>

theorem crc32_is_bitwise_division:
  assumes "length crc_table = 256" and "unat n \<le> length buffer"
  shows "crc32 (init_crc_table crc_table) crc buffer n =
    Some (foldl (\<lambda>c b. crc_bits 8 (c XOR ucast b)) crc (take (unat n) buffer))"
  using crc32_ref [OF assms] by (simp only: crc_ref_def)

theorem crc32_is_bitwise_division_witness:
  "crc32 (init_crc_table (replicate 256 0)) 0xffffffff [0x61] 1 =
    Some (crc_bits 8 (0xffffffff XOR ucast (0x61 :: u8)))"
proof -
  have "length (replicate 256 (0 :: u32)) = 256" "unat (1 :: u32) \<le> length [0x61 :: u8]"
    "take (unat (1 :: u32)) [0x61 :: u8] = [0x61]"
    by simp_all
  then show ?thesis
    using crc32_is_bitwise_division [of "replicate 256 0" 1 "[0x61]" "0xffffffff"]
    by (simp only: foldl.simps)
qed

text \<open>
  The three CRC routines of the file are the same checksum: \<open>crc32_get\<close> with the allocated table
  equals \<open>lut_crc32\<close> started at 0, and both are the complement of \<open>calc_crc\<close>; none of them reads
  outside the buffer or the table.
\<close>

theorem crc32_variants_agree:
  assumes "crc32_alloc_init_table ok = Some t" and "length crc_table = 256" and "unat n \<le> length buf"
  shows "\<exists>c. calc_crc (init_crc_table crc_table) buf n = Some c \<and>
    crc32_get t buf n = Some (NOT c) \<and> lut_crc32 0 buf (ucast n) = Some (NOT c)"
proof -
  have "unat n < 2 ^ LENGTH(32)" by (rule unsigned_less)
  then have "unat n < 2 ^ 64" by simp
  then have w: "unat (ucast n :: u64) = unat n"
    by (simp add: unsigned_ucast_eq take_bit_nat_eq_self)
  have "NOT (0 :: u32) = 0xffffffff" by simp
  then have "lut_crc32 0 buf (ucast n) = Some (NOT (crc_ref 0xffffffff (take (unat n) buf)))"
    using lut_crc32_ref [of "ucast n" buf 0] assms(3) by (simp only: w)
  then show ?thesis
    using crc32_ref [OF assms(2,3)] crc32_get_ref [OF assms(1,3)] by (simp only: calc_crc_def) blast
qed

theorem crc32_variants_agree_witness:
  "\<exists>t c. crc32_alloc_init_table True = Some t \<and>
    calc_crc (init_crc_table (replicate 256 0)) [0x61, 0x62] 2 = Some c \<and>
    crc32_get t [0x61, 0x62] 2 = Some (NOT c) \<and> lut_crc32 0 [0x61, 0x62] (ucast (2 :: u32)) = Some (NOT c)"
proof -
  obtain t where t: "crc32_alloc_init_table True = Some t"
    by (simp add: crc32_alloc_init_table_def)
  have "length (replicate 256 (0 :: u32)) = 256" "unat (2 :: u32) \<le> length [0x61 :: u8, 0x62]"
    by simp_all
  then show ?thesis
    using crc32_variants_agree [OF t, of "replicate 256 0" 2 "[0x61, 0x62]"] t by blast
qed

text \<open>
  \<open>lut_crc32\<close> is incremental: feeding the checksum of a prefix back in as the start value and
  continuing with the rest gives the checksum of the whole message.
\<close>

theorem lut_crc32_incremental:
  assumes "unat n \<le> length xs" and "unat m \<le> length ys" and "unat n + unat m < 2 ^ 64"
  shows "\<exists>c. lut_crc32 crc xs n = Some c \<and>
    lut_crc32 c ys m = lut_crc32 crc (take (unat n) xs @ take (unat m) ys) (n + m)"
proof -
  have "unat (n + m) = unat n + unat m"
    using assms(3) by (simp add: unat_word_ariths(1))
  then show ?thesis
    using lut_crc32_ref [OF assms(1)] lut_crc32_ref [OF assms(2)] assms(1,2)
      lut_crc32_ref [of "n + m" "take (unat n) xs @ take (unat m) ys" crc]
    by (simp add: crc_ref_append)
qed

theorem lut_crc32_incremental_witness:
  "\<exists>c. lut_crc32 0 [0x61, 0x62] 2 = Some c \<and> lut_crc32 c [0x63] 1 = lut_crc32 0 [0x61, 0x62, 0x63] (2 + 1)"
proof -
  have "unat (2 :: u64) \<le> length [0x61 :: u8, 0x62]" "unat (1 :: u64) \<le> length [0x63 :: u8]"
    "unat (2 :: u64) + unat (1 :: u64) < 2 ^ 64"
    "take (unat (2 :: u64)) [0x61 :: u8, 0x62] @ take (unat (1 :: u64)) [0x63] = [0x61, 0x62, 0x63]"
    by simp_all
  then show ?thesis
    using lut_crc32_incremental [of 2 "[0x61, 0x62]" 1 "[0x63]" 0] by (simp only:)
qed

text \<open>
  C26: Error detection: two messages of the same length that differ, but only inside a window of at
  most four consecutive bytes, have different checksums.
\<close>

theorem crc32_get_detects_bursts:
  assumes "crc32_alloc_init_table ok = Some t"
    and "length w = length w'" and "length w \<le> 4" and "w \<noteq> w'"
    and "unat n = length (xs @ w @ ys)"
  shows "\<exists>c d. crc32_get t (xs @ w @ ys) n = Some c \<and> crc32_get t (xs @ w' @ ys) n = Some d \<and> c \<noteq> d"
proof -
  have "crc_ref 0xffffffff (xs @ w @ ys) \<noteq> crc_ref 0xffffffff (xs @ w' @ ys)"
    using crc_ref_window_inj [OF assms(2,3)] assms(4) by blast
  moreover have "unat n = length (xs @ w' @ ys)" using assms(2,5) by simp
  ultimately show ?thesis
    using crc32_get_ref [OF assms(1), of n "xs @ w @ ys"] crc32_get_ref [OF assms(1), of n "xs @ w' @ ys"] assms(5)
    by simp
qed

theorem crc32_get_detects_bursts_witness:
  "\<exists>t c d. crc32_alloc_init_table True = Some t \<and>
    crc32_get t [1, 2, 3] 3 = Some c \<and> crc32_get t [1, 7, 3] 3 = Some d \<and> c \<noteq> d"
proof -
  obtain t where t: "crc32_alloc_init_table True = Some t"
    by (simp add: crc32_alloc_init_table_def)
  have "unat (3 :: u32) = length ([1 :: u8] @ [2] @ [3])" "[2 :: u8] \<noteq> [7]" by simp_all
  then show ?thesis
    using crc32_get_detects_bursts [OF t, of "[2]" "[7]" 3 "[1]" "[3]"] t by auto
qed

text \<open>The standard check message, the ASCII digits 1 to 9.\<close>

definition crc_check_message :: "u8 list" where
  "crc_check_message = [0x31, 0x32, 0x33, 0x34, 0x35, 0x36, 0x37, 0x38, 0x39]"

lemma crc_bits_8:
  "crc_bits 8 c = crc_bit (crc_bit (crc_bit (crc_bit (crc_bit (crc_bit (crc_bit (crc_bit c)))))))"
  by (simp add: numeral_eq_Suc crc_bits_Suc del: crc_bits.simps(2))

lemma crc_check_steps:
  "crc_bits 8 (0xffffffff XOR ucast (0x31 :: u8)) = 0x7c231048"
  "crc_bits 8 (0x7c231048 XOR ucast (0x32 :: u8)) = 0xb0acbb32"
  "crc_bits 8 (0xb0acbb32 XOR ucast (0x33 :: u8)) = 0x77b79c2d"
  "crc_bits 8 (0x77b79c2d XOR ucast (0x34 :: u8)) = 0x641c1f5c"
  "crc_bits 8 (0x641c1f5c XOR ucast (0x35 :: u8)) = 0x340ac5e3"
  "crc_bits 8 (0x340ac5e3 XOR ucast (0x36 :: u8)) = 0xf68d2c9e"
  "crc_bits 8 (0xf68d2c9e XOR ucast (0x37 :: u8)) = 0xaffc9660"
  "crc_bits 8 (0xaffc9660 XOR ucast (0x38 :: u8)) = 0x651f2550"
  "crc_bits 8 (0x651f2550 XOR ucast (0x39 :: u8)) = 0x340bc6d9"
  by (simp_all add: crc_bits_8 crc_bit_def CRC_POLY_def)

lemma crc_ref_check_message: "crc_ref 0xffffffff crc_check_message = 0x340bc6d9"
  by (simp only: crc_ref_def crc_check_message_def foldl.simps crc_check_steps)

text \<open>
  Known answers. On the standard check message \<open>crc32_get\<close> returns 0xCBF43926, the CRC-32 of
  Ethernet and zip, and \<open>calc_crc\<close> its complement 0x340BC6D9 (JAMCRC): not 0x0376E6E7, the value of
  the CRC-32/MPEG-2 that the comment over \<open>crc32\<close> names.
\<close>

theorem crc32_known_answers:
  "\<exists>t. crc32_alloc_init_table True = Some t \<and>
    crc32_get t crc_check_message 9 = Some 0xcbf43926 \<and>
    calc_crc (init_crc_table (replicate 256 0)) crc_check_message 9 = Some 0x340bc6d9"
proof -
  obtain t where t: "crc32_alloc_init_table True = Some t"
    by (simp add: crc32_alloc_init_table_def)
  have n: "unat (9 :: u32) \<le> length crc_check_message" and
    all: "take (unat (9 :: u32)) crc_check_message = crc_check_message"
    by (simp_all add: crc_check_message_def)
  have "NOT (0x340bc6d9 :: u32) = 0xcbf43926" by simp
  then have "crc32_get t crc_check_message 9 = Some 0xcbf43926"
    using crc32_get_ref [OF t n] by (simp only: all crc_ref_check_message)
  moreover have "calc_crc (init_crc_table (replicate 256 0)) crc_check_message 9 = Some 0x340bc6d9"
    using crc32_ref [OF length_replicate n] by (simp only: all crc_ref_check_message calc_crc_def)
  ultimately show ?thesis using t by (intro exI conjI)
qed

end
