(* ===== verification/Sunday.thy ===== *)
theory Sunday
  imports C_Prelude
begin

text \<open>
  \<^verbatim>\<open>algorithm/SundayMatch.c\<close>: substring search after Sunday, once over C buffers
  (\<open>sunday_match\<close>) and once over C++ strings (\<open>Sunday\<close>). A \<open>char\<close> is a \<^typ>\<open>8 word\<close> whose value as
  an array index is its \<^const>\<open>sint\<close>: plain \<open>char\<close> is signed on the targets of the library. A
  buffer is the list of its readable bytes, so a read past its end is undefined behaviour; a C++
  string has the terminator \<open>0\<close> as one more readable element. For a negative pattern length the
  search loop need not end, which \<open>sunday_scan\<close> gives as \<^const>\<open>None\<close> too.
\<close>

section \<open>The code\<close>

text \<open>The loop that records, for each letter of the pattern, its distance from the end.\<close>

function sunday_fill :: "u8 list \<Rightarrow> int \<Rightarrow> int \<Rightarrow> int list \<Rightarrow> int list option" where
  "sunday_fill pattern pattern_len i shift =
     (if i < pattern_len
      then do {
        c \<leftarrow> array_get pattern i;
        shift' \<leftarrow> array_set shift (sint c) (pattern_len - i);
        sunday_fill pattern pattern_len (i + 1) shift' }
      else Some shift)"
  by pat_completeness auto
termination
  by (relation "measure (\<lambda>(pattern, pattern_len, i, shift). nat (pattern_len - i))") auto

declare sunday_fill.simps [simp del]

text \<open>The two table-filling loops together; the size of the table is 256 in C and 1005 in C++.\<close>

definition sunday_shift :: "nat \<Rightarrow> u8 list \<Rightarrow> int \<Rightarrow> int list option" where
  "sunday_shift sz pattern pattern_len = do {
     d \<leftarrow> cint (pattern_len + 1);
     sunday_fill pattern pattern_len 0 (replicate sz d) }"

text \<open>The inner loop: does the pattern stand at position \<open>i\<close>?\<close>

function sunday_cmp :: "u8 list \<Rightarrow> u8 list \<Rightarrow> int \<Rightarrow> int \<Rightarrow> int \<Rightarrow> bool option" where
  "sunday_cmp src pattern pattern_len i j = do {
     k \<leftarrow> cint (i + j);
     a \<leftarrow> array_get src k;
     b \<leftarrow> array_get pattern j;
     if a = b
     then (if j + 1 \<ge> pattern_len then Some True else sunday_cmp src pattern pattern_len i (j + 1))
     else Some False }"
  by pat_completeness auto
termination
  by (relation "measure (\<lambda>(src, pattern, pattern_len, i, j). nat (pattern_len - j))") auto

declare sunday_cmp.simps [simp del]

text \<open>The outer loop; \<open>hi\<close> is \<open>src_len - pattern_len\<close>.\<close>

partial_function (option) sunday_scan ::
  "u8 list \<Rightarrow> u8 list \<Rightarrow> int \<Rightarrow> int \<Rightarrow> int list \<Rightarrow> int \<Rightarrow> int option" where
  "sunday_scan src pattern pattern_len hi shift i =
     (if i \<le> hi
      then do {
        found \<leftarrow> sunday_cmp src pattern pattern_len i 0;
        if found then Some i
        else do {
          k \<leftarrow> cint (i + pattern_len);
          c \<leftarrow> array_get src k;
          d \<leftarrow> array_get shift (sint c);
          i' \<leftarrow> cint (i + d);
          sunday_scan src pattern pattern_len hi shift i' } }
      else Some (- 1))"

definition sunday_match :: "u8 list \<Rightarrow> int \<Rightarrow> u8 list \<Rightarrow> int \<Rightarrow> int option" where
  "sunday_match src src_len pattern pattern_len = do {
     shift \<leftarrow> sunday_shift 256 pattern pattern_len;
     hi \<leftarrow> cint (src_len - pattern_len);
     sunday_scan src pattern pattern_len hi shift 0 }"

definition maxNum :: nat where
  "maxNum = 1005"

definition Sunday :: "u8 list \<Rightarrow> u8 list \<Rightarrow> int option" where
  "Sunday T P = do {
     n \<leftarrow> cint (int (length T));
     m \<leftarrow> cint (int (length P));
     shift \<leftarrow> sunday_shift maxNum (P @ [0]) m;
     hi \<leftarrow> cint (n - m);
     sunday_scan (T @ [0]) (P @ [0]) m hi shift 0 }"


section \<open>What a search means\<close>

definition occurs_at :: "u8 list \<Rightarrow> nat \<Rightarrow> u8 list \<Rightarrow> nat \<Rightarrow> nat \<Rightarrow> bool" where
  "occurs_at src n pattern m k \<longleftrightarrow> k + m \<le> n \<and> (\<forall>j<m. src ! (k + j) = pattern ! j)"

text \<open>The first occurrence, or \<open>-1\<close> when there is none.\<close>

definition first_match :: "u8 list \<Rightarrow> nat \<Rightarrow> u8 list \<Rightarrow> nat \<Rightarrow> int \<Rightarrow> bool" where
  "first_match src n pattern m r \<longleftrightarrow>
     (r = - 1 \<and> (\<forall>k. \<not> occurs_at src n pattern m k)) \<or>
     (0 \<le> r \<and> occurs_at src n pattern m (nat r) \<and> (\<forall>k<nat r. \<not> occurs_at src n pattern m k))"

definition ascii :: "u8 list \<Rightarrow> nat \<Rightarrow> bool" where
  "ascii xs n \<longleftrightarrow> list_all (\<lambda>c. unat c < 128) (take n xs)"

lemma ascii_nth: "ascii xs n \<Longrightarrow> k < n \<Longrightarrow> n \<le> length xs \<Longrightarrow> unat (xs ! k) < 128"
  by (simp add: ascii_def list_all_length)

text \<open>A shift for the letter behind the window never jumps over an occurrence.\<close>

definition shift_ok :: "u8 list \<Rightarrow> nat \<Rightarrow> u8 \<Rightarrow> int \<Rightarrow> bool" where
  "shift_ok pattern m c d \<longleftrightarrow>
     1 \<le> d \<and> d \<le> int m + 1 \<and> (\<forall>k<m. pattern ! k = c \<longrightarrow> d \<le> int m - int k)"

lemma sint_ascii: "unat c < 128 \<Longrightarrow> sint (c :: u8) = int (unat c)"
proof -
  assume "unat c < 128"
  moreover have u: "uint c = int (unat c)" by simp
  ultimately have "uint c < 128" "- 128 \<le> uint c" by linarith+
  then have "signed_take_bit 7 (uint c) = uint c" by (intro signed_take_bit_int_eq_self) simp_all
  moreover have "sint c = signed_take_bit 7 (uint c)" by (simp add: sint_uint)
  ultimately show ?thesis by simp
qed

lemma sint_not_ascii: "\<not> unat c < 128 \<Longrightarrow> sint (c :: u8) < 0"
proof (rule ccontr)
  assume a: "\<not> unat c < 128" and "\<not> sint c < 0"
  moreover have lt: "sint c < 128" using sint_lt [of c] by simp
  ultimately have "uint c = sint c"
    by (simp add: uint_sint take_bit_int_eq_self_iff)
  moreover have "uint c = int (unat c)" by simp
  ultimately show False using a lt by linarith
qed

lemma ascii_index:
  assumes "unat (c :: u8) < 128" "128 \<le> length t"
  shows "array_get t (sint c) = Some (t ! unat c)" "array_set t (sint c) v = Some (t[unat c := v])"
proof -
  have "unat c < length t" using assms by (rule less_le_trans)
  then show "array_get t (sint c) = Some (t ! unat c)" "array_set t (sint c) v = Some (t[unat c := v])"
    unfolding sint_ascii [OF assms(1)] by (rule array_get_nat, rule array_set_nat)
qed


section \<open>The shift table\<close>

text \<open>The table after the first \<open>i\<close> letters of the pattern.\<close>

definition table_ok :: "u8 list \<Rightarrow> nat \<Rightarrow> nat \<Rightarrow> int list \<Rightarrow> bool" where
  "table_ok pattern m i t \<longleftrightarrow> 128 \<le> length t \<and>
     (\<forall>c. unat c < 128 \<longrightarrow> 1 \<le> t ! unat c \<and> t ! unat c \<le> int m + 1 \<and>
       (\<forall>k<i. pattern ! k = c \<longrightarrow> t ! unat c \<le> int m - int k))"

lemma table_ok_step:
  assumes "table_ok pattern m i t" "i < m" "unat (pattern ! i) < 128"
  shows "table_ok pattern m (Suc i) (t[unat (pattern ! i) := int m - int i])"
  using assms by (auto simp: table_ok_def nth_list_update less_Suc_eq)

lemma sunday_fill_ok:
  assumes "ascii pattern m" "m \<le> length pattern" "i \<le> m" "table_ok pattern m i t"
  shows "\<exists>t'. sunday_fill pattern (int m) (int i) t = Some t' \<and> table_ok pattern m m t'"
  using assms(3,4)
proof (induction "m - i" arbitrary: i t)
  case 0
  then show ?case by (simp add: sunday_fill.simps)
next
  case (Suc k)
  let ?c = "pattern ! i" and ?t = "t[unat (pattern ! i) := int m - int i]"
  have i: "i < m" using Suc by simp
  have c: "unat ?c < 128" using Suc assms(1,2) by (auto intro: ascii_nth)
  then have "array_set t (sint ?c) (int m - int i) = Some ?t"
    using Suc.prems(2) by (simp add: ascii_index table_ok_def)
  moreover have "array_get pattern (int i) = Some ?c" using Suc assms(2) by simp
  moreover have "table_ok pattern m (Suc i) ?t" using table_ok_step Suc c by simp
  then obtain t' where "sunday_fill pattern (int m) (int (Suc i)) ?t = Some t'" "table_ok pattern m m t'"
    using Suc by (metis Suc_diff_le Suc_leI Suc_le_eq diff_Suc_Suc old.nat.inject zero_less_Suc zero_less_diff)
  ultimately show ?case
    using i by (subst sunday_fill.simps) (simp add: add.commute)
qed

lemma sunday_shift_ok:
  assumes "ascii pattern m" "m \<le> length pattern" "int m < INT_MAX" "128 \<le> sz"
  shows "\<exists>t. sunday_shift sz pattern (int m) = Some t \<and>
    (\<forall>c. unat c < 128 \<longrightarrow> (\<exists>d. array_get t (sint c) = Some d \<and> shift_ok pattern m c d))"
proof -
  have "table_ok pattern m 0 (replicate sz (int m + 1))" using assms(4) by (simp add: table_ok_def)
  then obtain t where "sunday_fill pattern (int m) 0 (replicate sz (int m + 1)) = Some t" "table_ok pattern m m t"
    using sunday_fill_ok [OF assms(1,2), of 0] by auto
  then show ?thesis
    using assms(3) by (auto simp: sunday_shift_def cint_def cint_simps int_limits table_ok_def shift_ok_def ascii_index)
qed

text \<open>A letter outside ASCII in the pattern is a negative index.\<close>

lemma sunday_fill_negative:
  assumes "i \<le> k" "k < m" "\<not> unat (pattern ! k) < 128"
  shows "sunday_fill pattern (int m) (int i) t = None"
  using assms(1)
proof (induction "k - i" arbitrary: i t)
  case 0
  then have "i = k" by simp
  then show ?case
    using assms(2,3) sint_not_ascii [of "pattern ! k"]
    by (subst sunday_fill.simps) (auto simp: array_get_def array_set_def)
next
  case (Suc n)
  have "sunday_fill pattern (int m) (int (Suc i)) t' = None" for t'
    using Suc.hyps(1) [of "Suc i" t'] Suc.hyps(2) Suc.prems by simp
  moreover have "i < m" using Suc assms(2) by simp
  ultimately show ?case by (subst sunday_fill.simps) (auto simp: add.commute split: bind_split)
qed


section \<open>The search\<close>

lemma sunday_cmp_step:
  assumes "i + m \<le> n" "n \<le> length src" "m \<le> length pattern" "int n < INT_MAX" "j < m"
  shows "sunday_cmp src pattern (int m) (int i) (int j) =
    (if src ! (i + j) = pattern ! j
     then (if m \<le> Suc j then Some True else sunday_cmp src pattern (int m) (int i) (int (Suc j)))
     else Some False)"
proof -
  have "cint (int i + int j) = Some (int (i + j))" using assms by (simp add: cint_simps int_limits)
  moreover have "array_get src (int (i + j)) = Some (src ! (i + j))" using assms by (intro array_get_nat) simp
  ultimately show ?thesis
    using assms by (subst sunday_cmp.simps) (auto simp: add.commute)
qed

lemma sunday_cmp_ok:
  assumes "i + m \<le> n" "n \<le> length src" "m \<le> length pattern" "int n < INT_MAX" "j < m"
  shows "sunday_cmp src pattern (int m) (int i) (int j) = Some (\<forall>k. j \<le> k \<and> k < m \<longrightarrow> src ! (i + k) = pattern ! k)"
  using assms(5)
proof (induction "m - Suc j" arbitrary: j)
  case 0
  then have "m = Suc j" by simp
  then show ?case using sunday_cmp_step [OF assms(1-4) 0(2)] by (auto simp: le_less_Suc_eq)
next
  case (Suc d)
  have IH: "sunday_cmp src pattern (int m) (int i) (int (Suc j)) =
      Some (\<forall>k. Suc j \<le> k \<and> k < m \<longrightarrow> src ! (i + k) = pattern ! k)"
    using Suc.hyps(1) [of "Suc j"] Suc.hyps(2) by simp
  have "(src ! (i + j) = pattern ! j \<and> (\<forall>k. Suc j \<le> k \<and> k < m \<longrightarrow> src ! (i + k) = pattern ! k)) =
      (\<forall>k. j \<le> k \<and> k < m \<longrightarrow> src ! (i + k) = pattern ! k)"
    using Suc.prems by (metis Suc_le_eq le_eq_less_or_eq)
  then show ?case
    using sunday_cmp_step [OF assms(1-4) Suc.prems] IH Suc.hyps(2) by (auto simp del: of_nat_Suc)
qed

text \<open>One step of the search: no occurrence lies between the old and the new position.\<close>

lemma shift_skips_nothing:
  assumes "shift_ok pattern m (src ! (i + m)) d" "\<not> occurs_at src n pattern m i" "i \<le> k" "int k < int i + d" "1 \<le> m"
  shows "\<not> occurs_at src n pattern m k"
proof
  assume occ: "occurs_at src n pattern m k"
  then have "i < k" using assms(2,3) by (metis le_eq_less_or_eq)
  define j where "j = i + m - k"
  have "k \<le> i + m" using assms(1,4) by (simp add: shift_ok_def)
  then have "k + j = i + m" "j < m" using \<open>i < k\<close> assms(5) by (simp_all add: j_def)
  then have "pattern ! j = src ! (i + m)" using occ by (metis occurs_at_def)
  then have "d \<le> int m - int j" using assms(1) \<open>j < m\<close> by (simp add: shift_ok_def)
  then show False using assms(4) \<open>k + j = i + m\<close> by simp
qed

text \<open>
  What the search loop relies on: a table builder that, for an ASCII pattern, gives every ASCII
  letter a shift that is safe.
\<close>

locale shift_table =
  fixes mk :: "u8 list \<Rightarrow> int \<Rightarrow> int list option"
  assumes mk_ok: "\<lbrakk>ascii pattern m; m \<le> length pattern; int m < INT_MAX\<rbrakk> \<Longrightarrow>
    \<exists>t. mk pattern (int m) = Some t \<and>
      (\<forall>c. unat c < 128 \<longrightarrow> (\<exists>d. array_get t (sint c) = Some d \<and> shift_ok pattern m c d))"
begin

lemma scan_first_match:
  assumes "ascii pattern m" "m \<le> length pattern" "1 \<le> m" "int m < INT_MAX" "mk pattern (int m) = Some t"
    and "ascii src (Suc n)" "n < length src" "int n < INT_MAX"
    and "\<forall>k<i. \<not> occurs_at src n pattern m k" "i \<le> Suc n"
  shows "\<exists>r. sunday_scan src pattern (int m) (int n - int m) t (int i) = Some r \<and> first_match src n pattern m r"
  using assms(9,10)
proof (induction "Suc n - i" arbitrary: i rule: less_induct)
  case less
  show ?case
  proof (cases "i + m \<le> n")
    case False
    then have "\<not> occurs_at src n pattern m k" for k
      using less.prems(1) by (cases "k < i") (auto simp: occurs_at_def)
    then show ?thesis using False by (subst sunday_scan.simps) (auto simp: first_match_def)
  next
    case True
    have cmp: "sunday_cmp src pattern (int m) (int i) 0 = Some (occurs_at src n pattern m i)"
      using sunday_cmp_ok [of i m n src pattern 0] True assms by (simp add: occurs_at_def)
    show ?thesis
    proof (cases "occurs_at src n pattern m i")
      case True': True
      then show ?thesis
        using True cmp less.prems(1) by (subst sunday_scan.simps) (simp add: first_match_def)
    next
      case no: False
      have "unat (src ! (i + m)) < 128" using True assms(6,7) by (auto intro: ascii_nth [of src "Suc n"])
      then obtain d where d: "array_get t (sint (src ! (i + m))) = Some d" "shift_ok pattern m (src ! (i + m)) d"
        using mk_ok [OF assms(1,2,4)] assms(5) by auto
      define i' where "i' = i + nat d"
      have i': "int i + d = int i'" "i < i'" "i' \<le> Suc n"
        using d(2) True by (auto simp: i'_def shift_ok_def)
      have "\<forall>k<i'. \<not> occurs_at src n pattern m k"
        using less.prems(1) shift_skips_nothing [OF d(2) no _ _ assms(3)] i'(1) by (metis not_le of_nat_less_iff)
      then obtain r where r: "sunday_scan src pattern (int m) (int n - int m) t (int i') = Some r" "first_match src n pattern m r"
        using less.hyps [of i'] i' True by (auto simp: diff_less_mono2)
      have "cint (int (i + m)) = Some (int (i + m))" "cint (int i') = Some (int i')"
        using True i' assms(8) by (simp_all add: cint_simps int_limits)
      moreover have "array_get src (int (i + m)) = Some (src ! (i + m))" using True assms(7) by (intro array_get_nat) simp
      ultimately show ?thesis
        using True no cmp d(1) r i'(1) by (subst sunday_scan.simps) simp
    qed
  qed
qed

lemma search_first_match:
  assumes "ascii pattern m" "m \<le> length pattern" "1 \<le> m" "int m < INT_MAX"
    and "ascii src (Suc n)" "n < length src" "int n < INT_MAX"
  shows "\<exists>r. do { t \<leftarrow> mk pattern (int m); hi \<leftarrow> cint (int n - int m);
      sunday_scan src pattern (int m) hi t 0 } = Some r \<and> first_match src n pattern m r"
proof -
  obtain t where t: "mk pattern (int m) = Some t" using mk_ok [OF assms(1,2,4)] by auto
  have "cint (int n - int m) = Some (int n - int m)" using assms(4,7) by (simp add: cint_simps int_limits)
  then show ?thesis
    using scan_first_match [OF assms(1-4) t assms(5-7), of 0] t by simp
qed

end

interpretation c_table: shift_table "sunday_shift 256"
  by unfold_locales (simp add: sunday_shift_ok)

interpretation cpp_table: shift_table "sunday_shift maxNum"
  by unfold_locales (simp add: sunday_shift_ok maxNum_def)



section \<open>Properties\<close>

text \<open>
  C5: For an ASCII text followed by one readable byte and a non-empty ASCII pattern, \<open>sunday_match\<close>
  returns (the loops end and every access is in bounds), and the result is the first position
  where the pattern occurs, or \<open>-1\<close> when it does not occur.
\<close>

theorem sunday_match_first_occurrence:
  assumes "ascii src (Suc n)" and "n < length src" and "int n < INT_MAX"
    and "ascii pattern m" and "m \<le> length pattern" and "1 \<le> m" and "int m < INT_MAX"
  shows "\<exists>r. sunday_match src (int n) pattern (int m) = Some r \<and> first_match src n pattern m r"
  unfolding sunday_match_def by (rule c_table.search_first_match) (use assms in simp_all)

theorem sunday_match_first_occurrence_witness:
  "\<exists>r. sunday_match [1, 2, 1, 2, 3, 0] (int 5) [2, 3] (int 2) = Some r \<and> first_match [1, 2, 1, 2, 3, 0] 5 [2, 3] 2 r"
  by (rule sunday_match_first_occurrence) (simp_all add: ascii_def int_limits)

text \<open>
  The C++ \<open>Sunday\<close> needs no terminator of its own: for ASCII strings it always returns the first
  occurrence of a non-empty pattern, or \<open>-1\<close> when there is none.
\<close>

theorem Sunday_first_occurrence:
  assumes "ascii T (length T)" and "int (length T) < INT_MAX"
    and "ascii P (length P)" and "P \<noteq> []" and "int (length P) < INT_MAX"
  shows "\<exists>r. Sunday T P = Some r \<and> first_match T (length T) P (length P) r"
proof -
  let ?n = "length T" and ?m = "length P"
  have "occurs_at (T @ [0]) ?n (P @ [0]) ?m k = occurs_at T ?n P ?m k" for k
    unfolding occurs_at_def by (intro conj_cong all_cong refl) (simp add: nth_append)
  then have "first_match (T @ [0]) ?n (P @ [0]) ?m r = first_match T ?n P ?m r" for r
    by (simp add: first_match_def)
  moreover have "ascii (T @ [0]) (Suc ?n)" "ascii (P @ [0]) ?m"
    using assms(1,3) by (simp_all add: ascii_def)
  moreover have "cint (int ?n) = Some (int ?n)" "cint (int ?m) = Some (int ?m)"
    using assms(2,5) by (simp_all add: cint_simps int_limits)
  moreover have "1 \<le> ?m" using assms(4) by (simp add: Suc_le_eq)
  ultimately show ?thesis
    using cpp_table.search_first_match [of "P @ [0]" ?m "T @ [0]" ?n] assms(2,5) by (simp add: Sunday_def)
qed

theorem Sunday_first_occurrence_witness:
  "\<exists>r. Sunday [1, 2, 1, 2, 3] [2, 3] = Some r \<and> first_match [1, 2, 1, 2, 3] (length [1 :: u8, 2, 1, 2, 3]) [2, 3] (length [2 :: u8, 3]) r"
  by (rule Sunday_first_occurrence) (simp_all add: ascii_def int_limits)

text \<open>
  A byte outside ASCII anywhere in the pattern makes \<open>sunday_match\<close> index its shift table with
  a negative number, whatever the text is.
\<close>

theorem sunday_match_non_ascii_undefined:
  assumes "k < m" and "128 \<le> unat (pattern ! k)"
  shows "sunday_match src src_len pattern (int m) = None"
  using sunday_fill_negative [of 0 k m pattern] assms
  by (auto simp: sunday_match_def sunday_shift_def split: bind_split)

theorem sunday_match_non_ascii_undefined_witness:
  "sunday_match [0xc3, 0xa9, 0] 2 [0xc3, 0xa9] (int 2) = None"
  by (rule sunday_match_non_ascii_undefined [of 0]) simp_all

text \<open>
  The terminator is needed: when the text has the length of the pattern, is not the pattern and
  ends where its buffer ends, \<open>sunday_match\<close> reads the byte behind the buffer.
\<close>

theorem sunday_match_reads_behind_text:
  assumes "length src = m" and "m \<le> length pattern" and "1 \<le> m" and "int m < INT_MAX"
    and "\<exists>k<m. src ! k \<noteq> pattern ! k"
  shows "sunday_match src (int m) pattern (int m) = None"
proof -
  have "sunday_cmp src pattern (int m) 0 0 = Some False"
    using sunday_cmp_ok [of 0 m m src pattern 0] assms by simp
  then have "sunday_scan src pattern (int m) 0 t 0 = None" for t
    using assms(1) by (subst sunday_scan.simps) (auto simp: array_get_def cint_def)
  then show ?thesis by (auto simp: sunday_match_def cint_simps split: bind_split)
qed

theorem sunday_match_reads_behind_text_witness:
  "sunday_match [0x61, 0x62] (int 2) [0x61, 0x63] (int 2) = None"
  by (rule sunday_match_reads_behind_text) (auto simp: int_limits intro: exI [of _ 1])

end
