(* ===== verification/Packet_Buffer.thy ===== *)
theory Packet_Buffer
  imports C_Prelude
begin

text \<open>
  \<^verbatim>\<open>linux/utils/src/packet_buffer.c\<close> and \<^verbatim>\<open>packet_buffer.h\<close>: reassembly of a packet that arrives
  in pieces, a header of fixed length first and then a body whose length the header tells. The
  component does not read from the network itself: the owner asks for the place to write to
  (\<open>packet_buffer_get_buf\<close>), receives at most \<open>req_len\<close> bytes there and reports how many
  (\<open>packet_buffer_update_index\<close>). \<open>pb_feed\<close> is that protocol, one received chunk after the other.

  Memory is a map from the address of an allocated block to its bytes. \<open>calloc\<close> and \<open>realloc\<close> take
  the address the allocator returns as an argument, \<^const>\<open>NULL\<close> when it fails. A null \<open>packet\<close> is
  \<^const>\<open>None\<close> of the inner option type. The reserved fields \<open>handle\<close> and \<open>ops\<close>, which no function
  touches, are left out.
\<close>

section \<open>Memory\<close>

type_synonym pmem = "addr \<Rightarrow> u8 list option"

definition calloc_mem :: "pmem \<Rightarrow> int \<Rightarrow> addr \<Rightarrow> pmem" where
  "calloc_mem h n p = (if p = NULL then h else h(p := Some (replicate (nat n) 0)))"

definition free_mem :: "pmem \<Rightarrow> addr \<Rightarrow> pmem" where
  "free_mem h p = (if p = NULL then h else h(p := None))"

text \<open>The bytes a grown block gains are unspecified: \<open>junk\<close> gives them.\<close>

definition realloc_mem :: "pmem \<Rightarrow> addr \<Rightarrow> int \<Rightarrow> addr \<Rightarrow> (nat \<Rightarrow> u8) \<Rightarrow> pmem" where
  "realloc_mem h old n p junk =
     (if p = NULL then h
      else (let bs = (case h old of Some bs \<Rightarrow> bs | None \<Rightarrow> []) in
        (free_mem h old)(p := Some (map (\<lambda>i. if i < length bs then bs ! i else junk i) [0..<nat n]))))"

definition mem_write :: "pmem \<Rightarrow> addr \<Rightarrow> int \<Rightarrow> u8 list \<Rightarrow> pmem option" where
  "mem_write h p off xs = (case h p of
     None \<Rightarrow> None
   | Some bs \<Rightarrow>
       if 0 \<le> off \<and> nat off + length xs \<le> length bs
       then Some (h(p := Some (take (nat off) bs @ xs @ drop (nat off + length xs) bs)))
       else None)"


section \<open>The code\<close>

datatype buffer_state = BUFFER_STATE_HEADER | BUFFER_STATE_BODY | BUFFER_STATE_BUTT

definition RECV_STATE_IN_PROGRESS :: int where
  "RECV_STATE_IN_PROGRESS = 0"

definition RECV_STATE_HEADER_COMPLETE :: int where
  "RECV_STATE_HEADER_COMPLETE = 1"

definition RECV_STATE_BODY_COMPLETE :: int where
  "RECV_STATE_BODY_COMPLETE = 2"

lemmas recv_states = RECV_STATE_IN_PROGRESS_def RECV_STATE_HEADER_COMPLETE_def RECV_STATE_BODY_COMPLETE_def

record packet_buffer =
  header_len :: int
  header_buffer :: addr
  body_len :: int
  body :: addr
  index :: int
  req_len :: int
  buf :: addr
  state :: buffer_state

definition packet_buffer_update_header :: "packet_buffer option \<Rightarrow> int \<times> packet_buffer option" where
  "packet_buffer_update_header packet = (case packet of
     None \<Rightarrow> (- 1, None)
   | Some p \<Rightarrow>
       (0, Some (p\<lparr>index := 0, req_len := header_len p, buf := header_buffer p, state := BUFFER_STATE_HEADER\<rparr>)))"

text \<open>\<open>packet\<close> is not checked here: after a successful allocation a null pointer is dereferenced.\<close>

definition packet_buffer_init ::
  "pmem \<Rightarrow> packet_buffer option \<Rightarrow> int \<Rightarrow> addr \<Rightarrow> (int \<times> pmem \<times> packet_buffer option) option" where
  "packet_buffer_init h packet len header =
     (let h' = calloc_mem h len header in
      if header = NULL then Some (- 1, h', packet)
      else (case packet of
        None \<Rightarrow> None
      | Some p \<Rightarrow>
          (let (r, p') = packet_buffer_update_header
             (Some (p\<lparr>body := NULL, body_len := 0, header_len := len, header_buffer := header\<rparr>))
           in Some (r, h', p'))))"

definition packet_buffer_destroy :: "pmem \<Rightarrow> packet_buffer option \<Rightarrow> int \<times> pmem \<times> packet_buffer option" where
  "packet_buffer_destroy h packet = (case packet of
     None \<Rightarrow> (0, h, None)
   | Some p \<Rightarrow>
       (let h1 = (if header_buffer p \<noteq> NULL then free_mem h (header_buffer p) else h);
            p1 = (if header_buffer p \<noteq> NULL then p\<lparr>header_buffer := NULL\<rparr> else p);
            h2 = (if body p1 \<noteq> NULL then free_mem h1 (body p1) else h1);
            p2 = (if body p1 \<noteq> NULL then p1\<lparr>body := NULL\<rparr> else p1)
        in (0, h2, Some (p2\<lparr>header_len := 0, body_len := 0, req_len := 0, buf := NULL\<rparr>))))"

definition packet_buffer_update_index ::
  "packet_buffer option \<Rightarrow> int \<Rightarrow> (int \<times> packet_buffer option) option" where
  "packet_buffer_update_index packet len = (case packet of
     None \<Rightarrow> Some (- 1, None)
   | Some p \<Rightarrow> do {
       idx \<leftarrow> cint (index p + len);
       req \<leftarrow> (case state p of
           BUFFER_STATE_HEADER \<Rightarrow> cint (header_len p - idx)
         | BUFFER_STATE_BODY \<Rightarrow> cint (body_len p - idx)
         | BUFFER_STATE_BUTT \<Rightarrow> Some (req_len p));
       if req > 0 then Some (RECV_STATE_IN_PROGRESS, Some (p\<lparr>index := idx, req_len := req\<rparr>))
       else Some (case state p of
             BUFFER_STATE_BODY \<Rightarrow> RECV_STATE_BODY_COMPLETE
           | BUFFER_STATE_HEADER \<Rightarrow> RECV_STATE_HEADER_COMPLETE
           | BUFFER_STATE_BUTT \<Rightarrow> 0,
           Some (p\<lparr>index := idx, req_len := (if req < 0 then 0 else req)\<rparr>)) })"

definition packet_buffer_update_body ::
  "pmem \<Rightarrow> packet_buffer option \<Rightarrow> int \<Rightarrow> addr \<Rightarrow> (nat \<Rightarrow> u8) \<Rightarrow> int \<times> pmem \<times> packet_buffer option" where
  "packet_buffer_update_body h packet len ptr junk = (case packet of
     None \<Rightarrow> (- 1, h, None)
   | Some p \<Rightarrow>
       if len > body_len p
       then (let h' = realloc_mem h (body p) len ptr junk in
         if ptr = NULL then (- 1, h', Some p)
         else (0, h', Some (p\<lparr>body := ptr, buf := ptr, index := 0, req_len := len, body_len := len,
           state := BUFFER_STATE_BODY\<rparr>)))
       else (0, h, Some (p\<lparr>index := 0, req_len := len, body_len := len, state := BUFFER_STATE_BODY\<rparr>)))"

text \<open>A pointer is a block and an offset; the error value is the integer \<open>-1\<close> cast to a pointer.\<close>

definition packet_buffer_get_buf :: "packet_buffer option \<Rightarrow> int + addr \<times> int" where
  "packet_buffer_get_buf packet = (case packet of None \<Rightarrow> Inl (- 1) | Some p \<Rightarrow> Inr (buf p, index p))"

definition packet_buffer_get_len :: "packet_buffer option \<Rightarrow> int" where
  "packet_buffer_get_len packet = (case packet of None \<Rightarrow> - 1 | Some p \<Rightarrow> index p)"


section \<open>The receiving protocol\<close>

text \<open>One received chunk: written where \<open>get_buf\<close> points, then reported to \<open>update_index\<close>.\<close>

definition pb_receive ::
  "pmem \<Rightarrow> packet_buffer option \<Rightarrow> u8 list \<Rightarrow> (int \<times> pmem \<times> packet_buffer option) option" where
  "pb_receive h packet chunk = (case packet_buffer_get_buf packet of
     Inl _ \<Rightarrow> None
   | Inr (b, off) \<Rightarrow> do {
       h' \<leftarrow> mem_write h b off chunk;
       (r, packet') \<leftarrow> packet_buffer_update_index packet (int (length chunk));
       Some (r, h', packet') })"

text \<open>The results of all chunks, in order.\<close>

fun pb_feed ::
  "pmem \<Rightarrow> packet_buffer option \<Rightarrow> u8 list list \<Rightarrow> (int list \<times> pmem \<times> packet_buffer option) option" where
  "pb_feed h packet [] = Some ([], h, packet)"
| "pb_feed h packet (c # cs) = do {
     (r, h', packet') \<leftarrow> pb_receive h packet c;
     (rs, h'', packet'') \<leftarrow> pb_feed h' packet' cs;
     Some (r # rs, h'', packet'') }"

text \<open>
  The length of the part being received, and the two facts that make the window \<open>get_buf\<close> gives
  writable for \<open>req_len\<close> bytes.
\<close>

definition part_len :: "packet_buffer \<Rightarrow> int" where
  "part_len p = (case state p of BUFFER_STATE_HEADER \<Rightarrow> header_len p | _ \<Rightarrow> body_len p)"

definition part_block :: "packet_buffer \<Rightarrow> addr" where
  "part_block p = (case state p of BUFFER_STATE_HEADER \<Rightarrow> header_buffer p | _ \<Rightarrow> body p)"

definition part_done :: "packet_buffer \<Rightarrow> int" where
  "part_done p = (case state p of BUFFER_STATE_HEADER \<Rightarrow> RECV_STATE_HEADER_COMPLETE | _ \<Rightarrow> RECV_STATE_BODY_COMPLETE)"

definition receiving :: "pmem \<Rightarrow> packet_buffer \<Rightarrow> bool" where
  "receiving h p \<longleftrightarrow> state p \<noteq> BUFFER_STATE_BUTT \<and> buf p = part_block p \<and>
     0 \<le> index p \<and> index p + req_len p = part_len p \<and> 0 \<le> req_len p \<and> int_ok (part_len p) \<and>
     (\<exists>bs. h (buf p) = Some bs \<and> part_len p \<le> int (length bs))"

text \<open>The bytes received so far.\<close>

definition received :: "pmem \<Rightarrow> packet_buffer \<Rightarrow> u8 list" where
  "received h p = (case h (buf p) of Some bs \<Rightarrow> take (nat (index p)) bs | None \<Rightarrow> [])"

text \<open>Receiving moves the index and the outstanding length and nothing else.\<close>

definition advanced :: "packet_buffer \<Rightarrow> packet_buffer \<Rightarrow> bool" where
  "advanced p p' \<longleftrightarrow> p' = p\<lparr>index := index p', req_len := req_len p'\<rparr>"

lemma advanced_iff: "advanced p p' \<longleftrightarrow> header_len p' = header_len p \<and> header_buffer p' = header_buffer p \<and>
    body_len p' = body_len p \<and> body p' = body p \<and> buf p' = buf p \<and> state p' = state p"
  by (cases p; cases p') (auto simp: advanced_def)

lemma part_update [simp]:
  "part_len (p\<lparr>index := a, req_len := b\<rparr>) = part_len p"
  "part_block (p\<lparr>index := a, req_len := b\<rparr>) = part_block p"
  "part_done (p\<lparr>index := a, req_len := b\<rparr>) = part_done p"
  by (cases "state p"; simp add: part_len_def part_block_def part_done_def)+

lemma update_index_part:
  assumes "state p \<noteq> BUFFER_STATE_BUTT" "int_ok (index p + len)" "int_ok (part_len p - (index p + len))"
  shows "packet_buffer_update_index (Some p) len =
    Some (if index p + len < part_len p then RECV_STATE_IN_PROGRESS else part_done p,
      Some (p\<lparr>index := index p + len, req_len := max 0 (part_len p - (index p + len))\<rparr>))"
  using assms by (cases "state p") (simp_all add: packet_buffer_update_index_def part_len_def part_done_def max_def)

lemma pb_receive_ok:
  assumes "receiving h p" "int (length c) \<le> req_len p"
  shows "\<exists>h' p'. pb_receive h (Some p) c =
      Some (if int (length c) < req_len p then RECV_STATE_IN_PROGRESS else part_done p, h', Some p') \<and>
    receiving h' p' \<and> received h' p' = received h p @ c \<and>
    req_len p' = req_len p - int (length c) \<and> advanced p p' \<and>
    (\<forall>q. q \<noteq> buf p \<longrightarrow> h' q = h q) \<and> (\<forall>q. map_option length (h' q) = map_option length (h q))"
proof -
  obtain bs where bs: "h (buf p) = Some bs" "part_len p \<le> int (length bs)"
    using assms(1) by (auto simp: receiving_def)
  define k where "k = nat (index p)"
  let ?bs = "take k bs @ c @ drop (k + length c) bs"
  let ?p = "p\<lparr>index := index p + int (length c), req_len := req_len p - int (length c)\<rparr>"
  have k: "index p = int k" "k + length c \<le> length bs"
    using assms bs(2) by (auto simp: receiving_def k_def)
  have w: "mem_write h (buf p) (index p) c = Some (h(buf p := Some ?bs))"
    using k bs(1) by (simp add: mem_write_def)
  have "packet_buffer_update_index (Some p) (int (length c)) =
      Some (if int (length c) < req_len p then RECV_STATE_IN_PROGRESS else part_done p, Some ?p)"
  proof -
    have "state p \<noteq> BUFFER_STATE_BUTT" "int_ok (index p + int (length c))"
      and req: "int_ok (req_len p - int (length c))" "max 0 (req_len p - int (length c)) = req_len p - int (length c)"
      and eq: "part_len p - (index p + int (length c)) = req_len p - int (length c)"
        "index p + int (length c) < part_len p \<longleftrightarrow> int (length c) < req_len p"
      using assms by (auto simp: receiving_def cint_simps)
    then show ?thesis
      using update_index_part [of p "int (length c)", unfolded eq req(2)] by blast
  qed
  then have "pb_receive h (Some p) c =
      Some (if int (length c) < req_len p then RECV_STATE_IN_PROGRESS else part_done p, h(buf p := Some ?bs), Some ?p)"
    using w by (simp add: pb_receive_def packet_buffer_get_buf_def)
  moreover have "receiving (h(buf p := Some ?bs)) ?p"
    using assms bs k by (auto simp: receiving_def)
  moreover have "received (h(buf p := Some ?bs)) ?p = received h p @ c"
    using k bs(1) by (simp add: received_def nat_add_distrib)
  ultimately show ?thesis by (intro exI [of _ "h(buf p := Some ?bs)"] exI [of _ ?p])
      (use bs(1) k in \<open>auto simp: advanced_def\<close>)
qed


text \<open>
  Any way of cutting the outstanding bytes into non-empty chunks is received completely: every
  chunk but the last is reported as in progress, the last one as the completion.
\<close>

lemma pb_feed_ok:
  assumes "receiving h p" "cs \<noteq> []" "list_all (\<lambda>c. c \<noteq> []) cs" "int (length (concat cs)) = req_len p"
  shows "\<exists>h' p'. pb_feed h (Some p) cs =
      Some (replicate (length cs - 1) RECV_STATE_IN_PROGRESS @ [part_done p], h', Some p') \<and>
    receiving h' p' \<and> received h' p' = received h p @ concat cs \<and> req_len p' = 0 \<and>
    advanced p p' \<and> (\<forall>q. q \<noteq> buf p \<longrightarrow> h' q = h q) \<and>
    (\<forall>q. map_option length (h' q) = map_option length (h q))"
  using assms
proof (induction cs arbitrary: h p)
  case (Cons c cs)
  obtain h1 p1 where c: "pb_receive h (Some p) c =
      Some (if int (length c) < req_len p then RECV_STATE_IN_PROGRESS else part_done p, h1, Some p1)"
    "receiving h1 p1" "received h1 p1 = received h p @ c"
    "req_len p1 = req_len p - int (length c)" "advanced p p1"
    "\<forall>q. q \<noteq> buf p \<longrightarrow> h1 q = h q" "\<forall>q. map_option length (h1 q) = map_option length (h q)"
    using pb_receive_ok [OF Cons.prems(1), of c] Cons.prems(4) by auto
  have same: "buf p1 = buf p" "part_done p1 = part_done p"
    using c(5) by (simp_all add: advanced_iff part_done_def)
  show ?case
  proof (cases "cs = []")
    case True
    then show ?thesis using c Cons.prems(4) by auto
  next
    case False
    then have "int (length c) < req_len p"
      using Cons.prems(3,4) by (cases cs) (auto simp flip: length_greater_0_conv)
    moreover obtain h2 p2 where "pb_feed h1 (Some p1) cs =
        Some (replicate (length cs - 1) RECV_STATE_IN_PROGRESS @ [part_done p1], h2, Some p2)"
      "receiving h2 p2" "received h2 p2 = received h1 p1 @ concat cs" "req_len p2 = 0"
      "advanced p1 p2" "\<forall>q. q \<noteq> buf p1 \<longrightarrow> h2 q = h1 q"
      "\<forall>q. map_option length (h2 q) = map_option length (h1 q)"
      using Cons.IH [OF c(2) False] Cons.prems(3,4) c(4) by auto
    moreover have "replicate (length cs) RECV_STATE_IN_PROGRESS =
        RECV_STATE_IN_PROGRESS # replicate (length cs - 1) RECV_STATE_IN_PROGRESS"
      using False by (cases cs) simp_all
    ultimately show ?thesis
      using c same by (intro exI [of _ h2] exI [of _ p2]) (auto simp: advanced_iff)
  qed
qed simp



text \<open>Once nothing is outstanding, the block holds exactly what was received.\<close>

lemma received_complete:
  assumes "receiving h p" "req_len p = 0" "map_option length (h (buf p)) = Some (nat (part_len p))"
  shows "h (buf p) = Some (received h p)"
  using assms by (auto simp: receiving_def received_def)


section \<open>Properties\<close>

lemma chunks_length_pos: "cs \<noteq> [] \<Longrightarrow> list_all (\<lambda>c. c \<noteq> []) cs \<Longrightarrow> 0 < length (concat cs)"
  by (cases cs) auto

lemma packet_buffer_init_receiving:
  assumes "header \<noteq> NULL" "int_ok (int n)"
  shows "\<exists>h' p'. packet_buffer_init h (Some p) (int n) header = Some (0, h', Some p') \<and>
    receiving h' p' \<and> received h' p' = [] \<and> req_len p' = int n \<and> body p' = NULL \<and> body_len p' = 0 \<and>
    header_buffer p' = header \<and> header_len p' = int n \<and> state p' = BUFFER_STATE_HEADER \<and>
    h' = h(header := Some (replicate n 0))"
  using assms
  by (simp add: packet_buffer_init_def packet_buffer_update_header_def calloc_mem_def receiving_def
      received_def part_len_def part_block_def)

text \<open>
  C6: Receiving a header. After \<open>packet_buffer_init\<close>, a header that arrives in any number of non-empty
  chunks is stored byte for byte in the header buffer without a write outside it; every chunk but
  the last is answered \<open>RECV_STATE_IN_PROGRESS\<close> and the last \<open>RECV_STATE_HEADER_COMPLETE\<close>.
\<close>

theorem packet_buffer_header_reassembled:
  assumes "header \<noteq> NULL" and "int_ok (int (length (concat cs)))"
    and "cs \<noteq> []" and "list_all (\<lambda>c. c \<noteq> []) cs"
  shows "\<exists>h1 p1 h2 p2. packet_buffer_init h (Some p) (int (length (concat cs))) header = Some (0, h1, Some p1) \<and>
    pb_feed h1 (Some p1) cs =
      Some (replicate (length cs - 1) RECV_STATE_IN_PROGRESS @ [RECV_STATE_HEADER_COMPLETE], h2, Some p2) \<and>
    header_buffer p2 = header \<and> h2 header = Some (concat cs) \<and> req_len p2 = 0"
proof -
  obtain h1 p1 where i: "packet_buffer_init h (Some p) (int (length (concat cs))) header = Some (0, h1, Some p1)"
    "receiving h1 p1" "received h1 p1 = []" "req_len p1 = int (length (concat cs))"
    "header_buffer p1 = header" "header_len p1 = int (length (concat cs))" "state p1 = BUFFER_STATE_HEADER"
    "h1 = h(header := Some (replicate (length (concat cs)) 0))"
    using packet_buffer_init_receiving [OF assms(1,2), of h p] by blast
  obtain h2 p2 where f: "pb_feed h1 (Some p1) cs =
      Some (replicate (length cs - 1) RECV_STATE_IN_PROGRESS @ [part_done p1], h2, Some p2)"
    "receiving h2 p2" "received h2 p2 = received h1 p1 @ concat cs" "req_len p2 = 0"
    "advanced p1 p2" "\<forall>q. map_option length (h2 q) = map_option length (h1 q)"
    using pb_feed_ok [OF i(2) assms(3,4)] i(4) by auto
  have "part_len p2 = int (length (concat cs))" "buf p2 = header" "header_buffer p2 = header"
    using f(2,5) i(5-7) by (auto simp: advanced_iff receiving_def part_len_def part_block_def)
  moreover have "map_option length (h2 header) = Some (length (concat cs))"
    unfolding f(6) [rule_format] by (simp add: i(8))
  ultimately have "h2 header = Some (concat cs)" "header_buffer p2 = header"
    using received_complete [OF f(2,4)] f(3) i(3) by simp_all
  moreover have "part_done p1 = RECV_STATE_HEADER_COMPLETE" using i(7) by (simp add: part_done_def)
  ultimately show ?thesis using i(1) f(1,4) by auto
qed

definition demo_packet :: packet_buffer where
  "demo_packet = \<lparr>header_len = 0, header_buffer = 0, body_len = 0, body = 0, index = 0, req_len = 0, buf = 0,
     state = BUFFER_STATE_BUTT\<rparr>"

theorem packet_buffer_header_reassembled_witness:
  "\<exists>h1 p1 h2 p2. packet_buffer_init Map.empty (Some demo_packet) 3 7 = Some (0, h1, Some p1) \<and>
    pb_feed h1 (Some p1) [[1, 2], [3]] = Some ([RECV_STATE_IN_PROGRESS, RECV_STATE_HEADER_COMPLETE], h2, Some p2) \<and>
    header_buffer p2 = 7 \<and> h2 7 = Some [1, 2, 3] \<and> req_len p2 = 0"
  using packet_buffer_header_reassembled [of 7 "[[1, 2], [3]]" Map.empty demo_packet]
  by (simp add: cint_simps)

text \<open>
  Receiving a body in a new block. When a body longer than the one before is announced and the
  allocator delivers, the body is stored byte for byte in the body block, in any chunking, with
  \<open>RECV_STATE_BODY_COMPLETE\<close> on the last chunk; every other block, the header among them, keeps its bytes.
\<close>

theorem packet_buffer_body_reassembled:
  assumes "body_len p < int (length (concat cs))" and "int_ok (int (length (concat cs)))"
    and "cs \<noteq> []" and "list_all (\<lambda>c. c \<noteq> []) cs"
    and "ptr \<noteq> NULL" and "ptr = body p \<or> h ptr = None"
  shows "\<exists>h1 p1 h2 p2. packet_buffer_update_body h (Some p) (int (length (concat cs))) ptr junk = (0, h1, Some p1) \<and>
    pb_feed h1 (Some p1) cs =
      Some (replicate (length cs - 1) RECV_STATE_IN_PROGRESS @ [RECV_STATE_BODY_COMPLETE], h2, Some p2) \<and>
    body p2 = ptr \<and> h2 ptr = Some (concat cs) \<and> req_len p2 = 0 \<and>
    (\<forall>q. h q \<noteq> None \<and> q \<noteq> body p \<longrightarrow> h2 q = h q)"
proof -
  let ?n = "length (concat cs)"
  define h1 where "h1 = realloc_mem h (body p) (int ?n) ptr junk"
  define p1 where "p1 = p\<lparr>body := ptr, buf := ptr, index := 0, req_len := int ?n, body_len := int ?n,
    state := BUFFER_STATE_BODY\<rparr>"
  have u: "packet_buffer_update_body h (Some p) (int ?n) ptr junk = (0, h1, Some p1)"
    using assms(1,5) by (simp add: packet_buffer_update_body_def h1_def p1_def)
  have block: "map_option length (h1 ptr) = Some ?n" and frame: "\<forall>q. q \<noteq> ptr \<and> q \<noteq> body p \<longrightarrow> h1 q = h q"
    using assms(5) by (auto simp: h1_def realloc_mem_def free_mem_def Let_def)
  then have r: "receiving h1 p1" "received h1 p1 = []"
    using assms(2) by (auto simp: receiving_def received_def p1_def part_block_def part_len_def)
  obtain h2 p2 where f: "pb_feed h1 (Some p1) cs =
      Some (replicate (length cs - 1) RECV_STATE_IN_PROGRESS @ [part_done p1], h2, Some p2)"
    "receiving h2 p2" "received h2 p2 = received h1 p1 @ concat cs" "req_len p2 = 0" "advanced p1 p2"
    "\<forall>q. q \<noteq> buf p1 \<longrightarrow> h2 q = h1 q" "\<forall>q. map_option length (h2 q) = map_option length (h1 q)"
    using pb_feed_ok [OF r(1) assms(3,4)] by (auto simp: p1_def)
  have p2: "buf p2 = ptr" "body p2 = ptr" "part_len p2 = int ?n" "buf p1 = ptr" "part_done p1 = RECV_STATE_BODY_COMPLETE"
    using f(5) by (auto simp: advanced_iff p1_def part_len_def part_done_def)
  then have "h2 ptr = Some (concat cs)"
    using received_complete [OF f(2,4)] f(3,7) block r(2) by simp
  moreover have "h2 q = h q" if "h q \<noteq> None" "q \<noteq> body p" for q
  proof -
    have "q \<noteq> ptr" using assms(6) that by auto
    then show ?thesis using f(6) frame p2(4) that(2) by simp
  qed
  ultimately show ?thesis using u f(1,4) p2 by auto
qed

theorem packet_buffer_body_reassembled_witness:
  "\<exists>h1 p1 h2 p2. packet_buffer_update_body [7 \<mapsto> [9]] (Some demo_packet) 3 8 (\<lambda>_. 0) = (0, h1, Some p1) \<and>
    pb_feed h1 (Some p1) [[1, 2], [3]] = Some ([RECV_STATE_IN_PROGRESS, RECV_STATE_BODY_COMPLETE], h2, Some p2) \<and>
    h2 8 = Some [1, 2, 3] \<and> h2 7 = Some [9]"
  using packet_buffer_body_reassembled [of demo_packet "[[1, 2], [3]]" 8 "[7 \<mapsto> [9]]" "\<lambda>_. 0"]
  by (fastforce simp: cint_simps demo_packet_def simp del: pb_feed.simps split: if_splits)

text \<open>
  The next packet. When the header of a further packet has been announced with
  \<open>packet_buffer_update_header\<close> and its body is not longer than the body before,
  \<open>packet_buffer_update_body\<close> succeeds but leaves \<open>buf\<close> on the header buffer: the place the owner is
  told to write the body to is the header, so a body longer than the header overruns the header
  block, and the body block never changes.
\<close>

theorem packet_buffer_second_body_goes_to_header:
  assumes "len \<le> body_len p" and "h (header_buffer p) = Some hb" and "int (length hb) = header_len p"
    and "header_len p < int (length chunk)"
  shows "\<exists>p1 p2. packet_buffer_update_header (Some p) = (0, Some p1) \<and>
    packet_buffer_update_body h (Some p1) len ptr junk = (0, h, Some p2) \<and>
    state p2 = BUFFER_STATE_BODY \<and> req_len p2 = len \<and>
    packet_buffer_get_buf (Some p2) = Inr (header_buffer p, 0) \<and>
    pb_receive h (Some p2) chunk = None"
  using assms
  by (simp add: packet_buffer_update_header_def packet_buffer_update_body_def packet_buffer_get_buf_def
      pb_receive_def mem_write_def)

definition demo_received :: packet_buffer where
  "demo_received = \<lparr>header_len = 2, header_buffer = 7, body_len = 4, body = 8, index = 4, req_len = 0, buf = 8,
     state = BUFFER_STATE_BODY\<rparr>"

theorem packet_buffer_second_body_goes_to_header_witness:
  "\<exists>p1 p2. packet_buffer_update_header (Some demo_received) = (0, Some p1) \<and>
    packet_buffer_update_body [7 \<mapsto> [1, 2], 8 \<mapsto> [1, 2, 3, 4]] (Some p1) 3 9 (\<lambda>_. 0) =
      (0, [7 \<mapsto> [1, 2], 8 \<mapsto> [1, 2, 3, 4]], Some p2) \<and>
    state p2 = BUFFER_STATE_BODY \<and> req_len p2 = 3 \<and> packet_buffer_get_buf (Some p2) = Inr (7, 0) \<and>
    pb_receive [7 \<mapsto> [1, 2], 8 \<mapsto> [1, 2, 3, 4]] (Some p2) [5, 6, 7] = None"
  using packet_buffer_second_body_goes_to_header
    [of 3 demo_received "[7 \<mapsto> [1, 2], 8 \<mapsto> [1, 2, 3, 4]]" "[1, 2]" "[5, 6, 7]" 9 "\<lambda>_. 0"]
  by (simp add: demo_received_def)

text \<open>
  \<open>packet_buffer_update_index\<close> on every branch: the index grows by the reported length, the
  outstanding length is what is left of the current part and never negative, and the answer is
  in progress exactly while something is left.
\<close>

theorem packet_buffer_update_index_result:
  assumes "state p = BUFFER_STATE_HEADER \<and> part = header_len p \<and> complete = RECV_STATE_HEADER_COMPLETE \<or>
      state p = BUFFER_STATE_BODY \<and> part = body_len p \<and> complete = RECV_STATE_BODY_COMPLETE"
    and "int_ok (index p + len)" and "int_ok (part - (index p + len))"
  shows "packet_buffer_update_index (Some p) len =
    Some (if index p + len < part then RECV_STATE_IN_PROGRESS else complete,
      Some (p\<lparr>index := index p + len, req_len := max 0 (part - (index p + len))\<rparr>))"
  using assms update_index_part [of p len] by (auto simp: part_len_def part_done_def)

theorem packet_buffer_update_index_result_witness:
  "packet_buffer_update_index (Some (demo_received\<lparr>index := 1, req_len := 3\<rparr>)) 2 =
    Some (RECV_STATE_IN_PROGRESS, Some (demo_received\<lparr>index := 3, req_len := 1\<rparr>))"
  using packet_buffer_update_index_result [of "demo_received\<lparr>index := 1, req_len := 3\<rparr>" 4 RECV_STATE_BODY_COMPLETE 2]
  by (simp add: demo_received_def cint_simps)

text \<open>
  \<open>packet_buffer_destroy\<close> frees the header buffer and the body, frees nothing else, and leaves no
  pointer behind; a second call frees nothing more.
\<close>

theorem packet_buffer_destroy_frees:
  "\<exists>h' p'. packet_buffer_destroy h (Some p) = (0, h', Some p') \<and>
    header_buffer p' = NULL \<and> body p' = NULL \<and> buf p' = NULL \<and> req_len p' = 0 \<and>
    (\<forall>q. h' q = (if q \<noteq> NULL \<and> (q = header_buffer p \<or> q = body p) then None else h q)) \<and>
    packet_buffer_destroy h' (Some p') = (0, h', Some p')"
  by (auto simp: packet_buffer_destroy_def free_mem_def Let_def)

end
