(* ===== verification/Stats.thy ===== *)
theory Stats
  imports C_Prelude
begin

text \<open>
  \<^verbatim>\<open>linux/utils/src/stats.c\<close> and \<^verbatim>\<open>stats.h\<close>: running minimum, maximum and average of samples. The
  samples are collected in a batch, and the batch is folded into the average when it is full or
  when its sum would wrap. \<open>uint64_t\<close> is \<^typ>\<open>64 word\<close>, so the conversion of a signed sample to
  unsigned and the wrap of the sum are as in C (\<open>unsigned long\<close> has 64 bits); the signed counters and
  the signed average are \<^typ>\<open>int\<close> with the overflow checks written out. A null \<open>stats\<close> is
  \<^const>\<open>None\<close> of the inner option type, undefined behaviour \<^const>\<open>None\<close> of the outer one.
\<close>

section \<open>The code\<close>

record stats =
  min_v :: u64
  max_v :: u64
  average :: int
  nr_samples :: int
  batch :: u64
  nr_batch :: int
  max_batch :: int

text \<open>The macros of \<^verbatim>\<open>common_macro.h\<close> at the type the comparison has after the usual conversions.\<close>

definition MAX_u64 :: "u64 \<Rightarrow> u64 \<Rightarrow> u64" where
  "MAX_u64 a b = (if a < b then b else a)"

definition MIN_u64 :: "u64 \<Rightarrow> u64 \<Rightarrow> u64" where
  "MIN_u64 a b = (if a > b then b else a)"

definition cint64 :: "int \<Rightarrow> int option" where
  "cint64 x = (if - (2 ^ 63) \<le> x \<and> x < 2 ^ 63 then Some x else None)"

definition udiv64 :: "u64 \<Rightarrow> u64 \<Rightarrow> u64 option" where
  "udiv64 a b = (if b = 0 then None else Some (a div b))"

definition flush_batch :: "stats \<Rightarrow> stats option" where
  "flush_batch s =
     (if nr_batch s = 0 then Some s
      else do {
        avg \<leftarrow> (if nr_samples s = 0 then udiv64 (batch s) (word_of_int (nr_batch s))
               else do {
                 prod \<leftarrow> cint64 (average s * nr_samples s);
                 den \<leftarrow> cint (nr_samples s + nr_batch s);
                 udiv64 (word_of_int prod + batch s) (word_of_int den) });
        n \<leftarrow> cint (nr_samples s + nr_batch s);
        Some (s\<lparr>average := sint avg, nr_samples := n, nr_batch := 0, batch := 0\<rparr>) })"

definition stats_init :: "stats option \<Rightarrow> int \<times> stats option" where
  "stats_init stats = (case stats of
     None \<Rightarrow> (- 1, None)
   | Some _ \<Rightarrow> (0, Some \<lparr>min_v = - 1, max_v = 0, average = 0, nr_samples = 0, batch = 0, nr_batch = 0, max_batch = 32\<rparr>))"

definition stats_add :: "stats option \<Rightarrow> int \<Rightarrow> (int \<times> stats option) option" where
  "stats_add stats value = (case stats of
     None \<Rightarrow> Some (- 1, None)
   | Some s0 \<Rightarrow>
       (let v = word_of_int value;
            s1 = s0\<lparr>min_v := MIN_u64 (min_v s0) v, max_v := MAX_u64 (max_v s0) v\<rparr>
        in do {
          full \<leftarrow> (if batch s1 + v < batch s1 then Some True
                  else map_option (\<lambda>n. n = max_batch s1) (cint (nr_batch s1 + 1)));
          s2 \<leftarrow> (if full then flush_batch s1 else Some s1);
          n \<leftarrow> cint (nr_batch s2 + 1);
          Some (0, Some (s2\<lparr>batch := batch s2 + v, nr_batch := n\<rparr>)) }))"

definition stats_set_max_batch :: "stats option \<Rightarrow> int \<Rightarrow> int \<times> stats option" where
  "stats_set_max_batch stats m = (case stats of
     None \<Rightarrow> (- 1, None)
   | Some s \<Rightarrow> (0, Some (s\<lparr>max_batch := m\<rparr>)))"

text \<open>\<open>stats_print\<close> flushes first; the second component is what it prints.\<close>

definition stats_print :: "stats option \<Rightarrow> (stats option \<times> (u64 \<times> u64 \<times> int \<times> int) option) option" where
  "stats_print stats = (case stats of
     None \<Rightarrow> Some (None, None)
   | Some s \<Rightarrow> map_option (\<lambda>s'. (Some s', Some (min_v s', max_v s', average s', nr_samples s'))) (flush_batch s))"

text \<open>A sequence of samples.\<close>

fun stats_adds :: "stats option \<Rightarrow> int list \<Rightarrow> stats option option" where
  "stats_adds stats [] = Some stats"
| "stats_adds stats (v # vs) = do { (r, stats') \<leftarrow> stats_add stats v; stats_adds stats' vs }"


section \<open>The invariant\<close>

text \<open>
  \<open>ys\<close> are the samples already folded into the average, \<open>zs\<close> those of the current batch, and \<open>k\<close> is
  the number of flushes so far. Each flush rounds down, so the average is behind by less than
  one per flush.
\<close>

definition sample_ok :: "int \<Rightarrow> bool" where
  "sample_ok v \<longleftrightarrow> 0 \<le> v \<and> v \<le> INT_MAX"

definition stats_inv :: "int list \<Rightarrow> int list \<Rightarrow> int \<Rightarrow> stats \<Rightarrow> bool" where
  "stats_inv ys zs k s \<longleftrightarrow>
     list_all sample_ok (ys @ zs) \<and>
     uint (min_v s) = foldl min (2 ^ 64 - 1) (ys @ zs) \<and>
     uint (max_v s) = foldl max 0 (ys @ zs) \<and>
     nr_samples s = int (length ys) \<and> nr_batch s = int (length zs) \<and>
     uint (batch s) = sum_list zs \<and>
     0 \<le> average s \<and> (ys = [] \<longrightarrow> average s = 0) \<and> 0 \<le> k \<and>
     average s * int (length ys) \<le> sum_list ys \<and>
     sum_list ys \<le> (average s + k) * int (length ys)"

lemma sum_list_samples:
  assumes "list_all sample_ok xs"
  shows "0 \<le> sum_list xs" "sum_list xs \<le> int (length xs) * INT_MAX"
  using assms by (induction xs) (auto simp: sample_ok_def algebra_simps)

lemma uint_of_int_64: "0 \<le> x \<Longrightarrow> x < 2 ^ 64 \<Longrightarrow> uint (word_of_int x :: u64) = x"
  by (simp add: unsigned_of_int take_bit_int_eq_self)

lemma uint_plus_64: "uint a + uint b < 2 ^ 64 \<Longrightarrow> uint (a + b :: u64) = uint a + uint b"
  by (simp add: uint_word_ariths(1))

lemma sint_small_64: "uint a < 2 ^ 63 \<Longrightarrow> sint (a :: u64) = uint a"
  by (simp add: sint_uint signed_take_bit_int_eq_self_iff) (metis neg_numeral_le_zero order.trans uint_ge_0)

lemma udiv64_int:
  assumes "uint a = x" "uint b = y" "0 < y"
  shows "\<exists>c. udiv64 a b = Some c \<and> uint c = x div y"
  using assms by (auto simp: udiv64_def uint_div_distrib)

lemma INT_MAX_pos: "0 < INT_MAX" "INT_MAX = 2 ^ 31 - 1"
  by (simp_all add: INT_MAX_def)

text \<open>A sum of at most \<open>INT_MAX\<close> samples stays far below the range of 64 bits.\<close>

lemma sum_list_bound:
  assumes "list_all sample_ok xs" "int (length xs) \<le> INT_MAX"
  shows "sum_list xs < 2 ^ 62"
proof -
  have "sum_list xs \<le> INT_MAX * INT_MAX"
    using sum_list_samples(2) [OF assms(1)] assms(2) mult_right_mono [OF assms(2), of INT_MAX] INT_MAX_pos(1)
    by linarith
  then show ?thesis by (simp add: INT_MAX_def)
qed

text \<open>The rounding of one flush.\<close>

lemma average_step:
  fixes avg ns sy sz nb k :: int
  assumes "avg * ns \<le> sy" "sy \<le> (avg + k) * ns" "0 \<le> k" "0 < nb" "0 \<le> ns"
  defines "a \<equiv> (avg * ns + sz) div (ns + nb)"
  shows "a * (ns + nb) \<le> sy + sz" "sy + sz \<le> (a + (k + 1)) * (ns + nb)"
proof -
  have "a * (ns + nb) + (avg * ns + sz) mod (ns + nb) = avg * ns + sz" unfolding a_def by (rule div_mult_mod_eq)
  moreover have "0 \<le> (avg * ns + sz) mod (ns + nb)" "(avg * ns + sz) mod (ns + nb) < ns + nb"
    using assms(4,5) by simp_all
  ultimately have "a * (ns + nb) \<le> avg * ns + sz" "avg * ns + sz < a * (ns + nb) + (ns + nb)" by linarith+
  moreover have "k * ns \<le> k * (ns + nb)" using assms(3,4) by (simp add: mult_left_mono)
  ultimately show "a * (ns + nb) \<le> sy + sz" "sy + sz \<le> (a + (k + 1)) * (ns + nb)"
    using assms(1,2) by (simp_all add: distrib_right)
qed

lemma flush_batch_quotient:
  assumes "stats_inv ys zs k s" "int (length (ys @ zs)) \<le> INT_MAX" "zs \<noteq> []"
  shows "\<exists>s'. flush_batch s = Some s' \<and> s' = s\<lparr>average := average s', nr_samples := int (length (ys @ zs)), nr_batch := 0, batch := 0\<rparr> \<and>
    average s' = (average s * int (length ys) + sum_list zs) div int (length (ys @ zs))"
proof -
  let ?ns = "int (length ys)" and ?n = "int (length (ys @ zs))" and ?T = "average s * int (length ys) + sum_list zs"
  note inv = assms(1) [unfolded stats_inv_def]
  have sz: "0 \<le> sum_list zs" using inv sum_list_samples(1) [of zs] by simp
  have prod: "0 \<le> average s * ?ns" using inv by simp
  have "?T \<le> sum_list (ys @ zs)" using inv by simp
  then have T: "?T < 2 ^ 62" using sum_list_bound [of "ys @ zs"] inv assms(2) by linarith
  have "0 < int (length zs)" using assms(3) by simp
  then have "0 < ?n" unfolding length_append of_nat_add by linarith
  then have n: "0 < ?n" "int_ok ?n" "?n < 2 ^ 31" "?n = nr_samples s + nr_batch s"
    using inv assms(2) by (simp_all add: cint_simps int_limits)
  have "uint (word_of_int (average s * ?ns) :: u64) = average s * ?ns"
    using prod sz T by (intro uint_of_int_64) simp_all
  then have num: "uint (word_of_int (average s * ?ns) + batch s) = ?T"
    using inv T by (subst uint_plus_64) simp_all
  have den: "uint (word_of_int ?n :: u64) = ?n" using n by (intro uint_of_int_64) simp_all
  obtain c where c: "udiv64 (word_of_int (average s * ?ns) + batch s) (word_of_int ?n) = Some c" "uint c = ?T div ?n"
    using udiv64_int [OF num den n(1)] by auto
  have "?T div ?n \<le> ?T" using zdiv_mono2 [of ?T 1 ?n] n(1) prod sz by simp
  then have sc: "sint c = ?T div ?n" using c(2) T by (simp add: sint_small_64)
  have "flush_batch s = Some (s\<lparr>average := sint c, nr_samples := ?n, nr_batch := 0, batch := 0\<rparr>)"
  proof (cases "ys = []")
    case True
    then show ?thesis using inv assms(3) c(1) n by (auto simp: flush_batch_def)
  next
    case False
    have "cint64 (average s * ?ns) = Some (average s * ?ns)" using prod sz T by (simp add: cint64_def)
    then show ?thesis using False inv assms(3) c(1) n by (auto simp: flush_batch_def)
  qed
  then show ?thesis using sc by simp
qed

lemma stats_inv_mono: "stats_inv ys zs k s \<Longrightarrow> k \<le> l \<Longrightarrow> stats_inv ys zs l s"
proof -
  assume "k \<le> l"
  then have "(average s + k) * int (length ys) \<le> (average s + l) * int (length ys)"
    by (intro mult_right_mono) simp_all
  then show "stats_inv ys zs k s \<Longrightarrow> stats_inv ys zs l s"
    using \<open>k \<le> l\<close> unfolding stats_inv_def by linarith
qed

lemma flush_batch_inv:
  assumes "stats_inv ys zs k s" "int (length (ys @ zs)) \<le> INT_MAX"
  shows "\<exists>s'. flush_batch s = Some s' \<and> stats_inv (ys @ zs) [] (k + 1) s' \<and> max_batch s' = max_batch s"
proof (cases "zs = []")
  case True
  moreover have "flush_batch s = Some s" using assms(1) True by (simp add: flush_batch_def stats_inv_def)
  ultimately show ?thesis using stats_inv_mono [OF assms(1), of "k + 1"] by simp
next
  case False
  let ?ns = "int (length ys)" and ?nb = "int (length zs)"
  note inv = assms(1) [unfolded stats_inv_def]
  obtain s' where s': "flush_batch s = Some s'"
    "s' = s\<lparr>average := average s', nr_samples := int (length (ys @ zs)), nr_batch := 0, batch := 0\<rparr>"
    and avg: "average s' = (average s * ?ns + sum_list zs) div (?ns + ?nb)"
    using flush_batch_quotient [OF assms False] by auto
  have "0 < ?nb" using False by simp
  then have "average s' * (?ns + ?nb) \<le> sum_list ys + sum_list zs"
    "sum_list ys + sum_list zs \<le> (average s' + (k + 1)) * (?ns + ?nb)"
    using average_step [of "average s" ?ns "sum_list ys" k ?nb "sum_list zs"] inv unfolding avg by simp_all
  moreover have "0 \<le> average s'"
  proof -
    have "0 < ?ns + ?nb" using \<open>0 < ?nb\<close> by linarith
    moreover have "0 \<le> average s * ?ns + sum_list zs" using inv sum_list_samples(1) [of zs] by simp
    ultimately show ?thesis unfolding avg by (simp only: pos_imp_zdiv_nonneg_iff)
  qed
  moreover have "min_v s' = min_v s" "max_v s' = max_v s" "nr_samples s' = ?ns + ?nb" "nr_batch s' = 0" "batch s' = 0"
    "max_batch s' = max_batch s"
    by (subst s'(2), simp)+
  ultimately have "stats_inv (ys @ zs) [] (k + 1) s'" "max_batch s' = max_batch s"
    using inv False by (simp_all add: stats_inv_def)
  then show ?thesis using s'(1) by simp
qed

lemma stats_inv_sample:
  assumes "stats_inv ys zs k s" "sample_ok v" "int (length (ys @ zs)) < INT_MAX"
  shows "stats_inv ys (zs @ [v]) k
    (s\<lparr>min_v := MIN_u64 (min_v s) (word_of_int v), max_v := MAX_u64 (max_v s) (word_of_int v),
       batch := batch s + word_of_int v, nr_batch := nr_batch s + 1\<rparr>)"
proof -
  note inv = assms(1) [unfolded stats_inv_def]
  have v: "uint (word_of_int v :: u64) = v"
    using assms(2) by (intro uint_of_int_64) (simp_all add: sample_ok_def int_limits)
  have "sum_list (zs @ [v]) < 2 ^ 62"
    using inv assms(2,3) by (intro sum_list_bound) simp_all
  then have "uint (batch s + word_of_int v) = sum_list (zs @ [v])"
    using inv v by (subst uint_plus_64) simp_all
  moreover have "uint (MIN_u64 (min_v s) (word_of_int v)) = min (uint (min_v s)) v"
    "uint (MAX_u64 (max_v s) (word_of_int v)) = max (uint (max_v s)) v"
    by (simp_all add: MIN_u64_def MAX_u64_def word_less_def v min_def max_def)
  ultimately show ?thesis using inv assms(2) by (simp add: stats_inv_def)
qed

text \<open>
  One sample: the sum of non-negative samples never wraps, so the batch is flushed exactly when the
  new sample would make it as long as \<open>max_batch\<close>.
\<close>

lemma stats_add_inv:
  assumes "stats_inv ys zs k s" "sample_ok v" "int (length (ys @ zs)) < INT_MAX"
  shows "\<exists>s'. stats_add (Some s) v = Some (0, Some s') \<and> max_batch s' = max_batch s \<and>
    (if int (length zs) + 1 = max_batch s then stats_inv (ys @ zs) [v] (k + 1) s' else stats_inv ys (zs @ [v]) k s')"
proof -
  let ?w = "word_of_int v :: u64"
  define s1 where "s1 = s\<lparr>min_v := MIN_u64 (min_v s) ?w, max_v := MAX_u64 (max_v s) ?w\<rparr>"
  note inv = assms(1) [unfolded stats_inv_def]
  have "sum_list (zs @ [v]) < 2 ^ 62" using inv assms(2,3) by (intro sum_list_bound) simp_all
  moreover have w: "uint ?w = v" using assms(2) by (intro uint_of_int_64) (simp_all add: sample_ok_def int_limits)
  ultimately have "uint (batch s + ?w) = sum_list zs + v" using inv by (subst uint_plus_64) simp_all
  then have nowrap: "\<not> batch s + ?w < batch s" using inv assms(2) by (simp add: word_less_def sample_ok_def)
  have nb: "cint (nr_batch s + 1) = Some (int (length zs) + 1)" using inv assms(3) by (simp add: cint_simps int_limits)
  show ?thesis
  proof (cases "int (length zs) + 1 = max_batch s")
    case True
    obtain s2 where s2: "flush_batch s = Some s2" "stats_inv (ys @ zs) [] (k + 1) s2" "max_batch s2 = max_batch s"
      using flush_batch_inv [OF assms(1)] assms(3) by auto
    let ?s2 = "s2\<lparr>min_v := MIN_u64 (min_v s) ?w, max_v := MAX_u64 (max_v s) ?w\<rparr>"
    have "flush_batch s1 = map_option (\<lambda>t. t\<lparr>min_v := MIN_u64 (min_v s) ?w, max_v := MAX_u64 (max_v s) ?w\<rparr>) (flush_batch s)"
      by (auto simp: s1_def flush_batch_def split: bind_split)
    moreover have "min_v s2 = min_v s" "max_v s2 = max_v s"
      using s2(2) inv by (auto simp: stats_inv_def word_uint_eq_iff)
    moreover have nb2: "nr_batch s2 = 0" using s2(2) by (simp add: stats_inv_def)
    ultimately have "stats_add (Some s) v = Some (0, Some
        (s2\<lparr>min_v := MIN_u64 (min_v s2) ?w, max_v := MAX_u64 (max_v s2) ?w, batch := batch s2 + ?w, nr_batch := nr_batch s2 + 1\<rparr>))"
      using True nowrap nb s2(1) by (simp add: stats_add_def Let_def s1_def cint_def cint_simps)
    then show ?thesis
      using True stats_inv_sample [OF s2(2) assms(2)] assms(3) s2(3) by simp
  next
    case False
    then show ?thesis
      using nowrap nb stats_inv_sample [OF assms(1-3)] inv by (auto simp: stats_add_def Let_def)
  qed
qed

lemma stats_adds_inv:
  assumes "stats_inv ys zs k s" "max_batch s = 32" "int (length ys) = 31 * k" "length zs \<le> 31"
    and "list_all sample_ok vs" "int (length (ys @ zs @ vs)) \<le> INT_MAX"
  shows "\<exists>ys' zs' k' s'. stats_adds (Some s) vs = Some (Some s') \<and> stats_inv ys' zs' k' s' \<and>
    ys' @ zs' = ys @ zs @ vs \<and> int (length ys') = 31 * k'"
  using assms
proof (induction vs arbitrary: ys zs k s)
  case (Cons v vs)
  obtain s1 where s1: "stats_add (Some s) v = Some (0, Some s1)" "max_batch s1 = 32"
    "if int (length zs) + 1 = max_batch s then stats_inv (ys @ zs) [v] (k + 1) s1 else stats_inv ys (zs @ [v]) k s1"
    using stats_add_inv [OF Cons.prems(1), of v] Cons.prems by auto
  show ?case
  proof (cases "length zs = 31")
    case True
    then have "stats_inv (ys @ zs) [v] (k + 1) s1" using s1(3) Cons.prems(2) by simp
    then show ?thesis using Cons.IH [of "ys @ zs" "[v]" "k + 1" s1] s1(1,2) Cons.prems True by auto
  next
    case False
    then have "stats_inv ys (zs @ [v]) k s1" using s1(3) Cons.prems(2) by simp
    then show ?thesis using Cons.IH [of ys "zs @ [v]" k s1] s1(1,2) Cons.prems False by auto
  qed
qed auto

lemma stats_adds_stuck:
  assumes "stats_inv ys zs k s" "max_batch s \<le> int (length zs)"
    and "list_all sample_ok vs" "int (length (ys @ zs @ vs)) \<le> INT_MAX"
  shows "\<exists>s'. stats_adds (Some s) vs = Some (Some s') \<and> stats_inv ys (zs @ vs) k s'"
  using assms
proof (induction vs arbitrary: zs s)
  case (Cons v vs)
  obtain s1 where "stats_add (Some s) v = Some (0, Some s1)" "max_batch s1 = max_batch s" "stats_inv ys (zs @ [v]) k s1"
    using stats_add_inv [OF Cons.prems(1), of v] Cons.prems by auto
  then show ?case using Cons.IH [of "zs @ [v]" s1] Cons.prems by auto
qed simp


section \<open>Properties\<close>

lemma foldl_min_le: "foldl min a xs \<le> a" for a :: int
  by (induction xs arbitrary: a) (simp, metis foldl_Cons min.bounded_iff)

lemma foldl_max_ge: "a \<le> foldl max a xs" for a :: int
  by (induction xs arbitrary: a) (simp, metis foldl_Cons max.bounded_iff)

lemma foldl_min:
  fixes a :: int
  shows "\<forall>v\<in>set xs. foldl min a xs \<le> v" "foldl min a xs \<in> insert a (set xs)"
proof (induction xs arbitrary: a)
  case (Cons x xs)
  { case 1 then show ?case using Cons foldl_min_le [of "min a x" xs] by auto }
  { case 2 then show ?case using Cons(2) [of "min a x"] by (auto simp: min_def) }
qed simp_all

lemma foldl_max:
  fixes a :: int
  shows "\<forall>v\<in>set xs. v \<le> foldl max a xs" "foldl max a xs \<in> insert a (set xs)"
proof (induction xs arbitrary: a)
  case (Cons x xs)
  { case 1 then show ?case using Cons foldl_max_ge [of "max a x" xs] by auto }
  { case 2 then show ?case using Cons(2) [of "max a x"] by (auto simp: max_def) }
qed simp_all

lemma uint_minus_one_64 [simp]: "uint (- 1 :: u64) = 18446744073709551615"
  by (simp add: unsigned_minus_1_eq_mask mask_eq_exp_minus_1)

lemma stats_init_inv:
  "\<exists>s0. stats_init (Some s) = (0, Some s0) \<and> stats_inv [] [] 0 s0 \<and> max_batch s0 = 32"
  by (simp add: stats_init_def stats_inv_def)

lemma stats_inv_extremes:
  assumes "stats_inv ys zs k s" "ys @ zs \<noteq> []"
  shows "uint (min_v s) \<in> set (ys @ zs)" "\<forall>v\<in>set (ys @ zs). uint (min_v s) \<le> v"
    "uint (max_v s) \<in> set (ys @ zs)" "\<forall>v\<in>set (ys @ zs). v \<le> uint (max_v s)"
proof -
  let ?xs = "ys @ zs"
  have m: "uint (min_v s) = foldl min (2 ^ 64 - 1) ?xs" "uint (max_v s) = foldl max 0 ?xs"
    and ok: "\<forall>v\<in>set ?xs. sample_ok v"
    using assms(1) by (simp_all add: stats_inv_def list_all_iff)
  obtain x where x: "x \<in> set ?xs" using assms(2) by (cases ?xs) auto
  show le: "\<forall>v\<in>set ?xs. uint (min_v s) \<le> v" unfolding m by (rule foldl_min(1))
  show ge: "\<forall>v\<in>set ?xs. v \<le> uint (max_v s)" unfolding m by (rule foldl_max(1))
  have "uint (min_v s) \<noteq> 2 ^ 64 - 1" using bspec [OF le x] bspec [OF ok x] by (auto simp: sample_ok_def int_limits)
  then show "uint (min_v s) \<in> set ?xs" unfolding m using foldl_min(2) [of "2 ^ 64 - 1" ?xs] by simp
  show "uint (max_v s) \<in> set ?xs"
    using foldl_max(2) [of 0 ?xs] bspec [OF ge x] bspec [OF ok x] x unfolding m by (auto simp: sample_ok_def)
qed

text \<open>
  C7: What \<open>stats_print\<close> reports after \<open>stats_init\<close> and any non-empty sequence of non-negative samples
  (at most \<open>INT_MAX\<close> of them; no step overflows): the exact minimum, maximum and number of samples, and
  an average that never exceeds the true mean and is behind it by at most one for every
  flush, of which there is one for 31 samples and the final one.
\<close>

theorem stats_report:
  assumes "list_all sample_ok vs" and "vs \<noteq> []" and "int (length vs) \<le> INT_MAX"
  shows "\<exists>s0 s1 s2 mn mx avg. stats_init (Some s) = (0, Some s0) \<and> stats_adds (Some s0) vs = Some (Some s1) \<and>
    stats_print (Some s1) = Some (Some s2, Some (mn, mx, avg, int (length vs))) \<and>
    uint mn \<in> set vs \<and> (\<forall>v\<in>set vs. uint mn \<le> v) \<and> uint mx \<in> set vs \<and> (\<forall>v\<in>set vs. v \<le> uint mx) \<and>
    avg * int (length vs) \<le> sum_list vs \<and>
    sum_list vs \<le> (avg + (int (length vs) div 31 + 1)) * int (length vs)"
proof -
  obtain s0 where s0: "stats_init (Some s) = (0, Some s0)" "stats_inv [] [] 0 s0" "max_batch s0 = 32"
    using stats_init_inv by blast
  obtain ys zs k s1 where s1: "stats_adds (Some s0) vs = Some (Some s1)" "stats_inv ys zs k s1"
    "ys @ zs = vs" "int (length ys) = 31 * k"
    using stats_adds_inv [OF s0(2,3) _ _ assms(1)] assms(3) by auto
  obtain s2 where s2: "flush_batch s1 = Some s2" "stats_inv vs [] (k + 1) s2"
    using flush_batch_inv [OF s1(2)] assms(3) s1(3) by auto
  have "k \<le> int (length vs) div 31" using s1(3,4) by (auto simp flip: s1(3))
  then have "stats_inv vs [] (int (length vs) div 31 + 1) s2" by (intro stats_inv_mono [OF s2(2)]) simp
  then show ?thesis
    using s0(1) s1(1) s2(1) stats_inv_extremes [OF s2(2)] assms(2)
    by (auto simp: stats_print_def stats_inv_def)
qed

definition demo_stats :: stats where
  "demo_stats = \<lparr>min_v = 0, max_v = 0, average = 0, nr_samples = 0, batch = 0, nr_batch = 0, max_batch = 0\<rparr>"

theorem stats_report_witness:
  "\<exists>s0 s1 s2 mn mx avg. stats_init (Some demo_stats) = (0, Some s0) \<and> stats_adds (Some s0) [4, 9] = Some (Some s1) \<and>
    stats_print (Some s1) = Some (Some s2, Some (mn, mx, avg, 2)) \<and> uint mn = 4 \<and> uint mx = 9"
proof -
  have "\<exists>s0 s1 s2 mn mx avg. stats_init (Some demo_stats) = (0, Some s0) \<and> stats_adds (Some s0) [4, 9] = Some (Some s1) \<and>
      stats_print (Some s1) = Some (Some s2, Some (mn, mx, avg, int (length [4, 9 :: int]))) \<and>
      uint mn \<in> set [4, 9] \<and> (\<forall>v\<in>set [4, 9]. uint mn \<le> v) \<and> uint mx \<in> set [4, 9] \<and> (\<forall>v\<in>set [4, 9]. v \<le> uint mx) \<and>
      avg * int (length [4, 9 :: int]) \<le> sum_list [4, 9] \<and>
      sum_list [4, 9] \<le> (avg + (int (length [4, 9 :: int]) div 31 + 1)) * int (length [4, 9 :: int])"
    by (rule stats_report) (simp_all add: sample_ok_def int_limits)
  then show ?thesis by (elim exE) (intro exI, auto simp del: stats_adds.simps)
qed

text \<open>
  A negative sample is taken for a huge unsigned one: after 3 and -5 the report says minimum 3,
  maximum 2^64 - 5 and average 2^63 - 1.
\<close>

theorem stats_negative_sample:
  "\<exists>s0 s1 s2. stats_init (Some demo_stats) = (0, Some s0) \<and> stats_adds (Some s0) [3, - 5] = Some (Some s1) \<and>
    stats_print (Some s1) = Some (Some s2, Some (3, 2 ^ 64 - 5, 2 ^ 63 - 1, 2))"
  by (simp add: stats_init_def demo_stats_def stats_add_def stats_print_def flush_batch_def MIN_u64_def MAX_u64_def
      cint_def cint_simps udiv64_def Let_def)

text \<open>
  A batch size set too late is never reached: after \<open>stats_set_max_batch\<close> with a size that the
  current batch already has, no number of further samples is ever folded into the average by
  \<open>stats_add\<close>.
\<close>

theorem stats_set_max_batch_too_small:
  assumes "stats_inv ys zs k s" and "m \<le> int (length zs)"
    and "list_all sample_ok vs" and "int (length (ys @ zs @ vs)) \<le> INT_MAX"
  shows "\<exists>s1 s2. stats_set_max_batch (Some s) m = (0, Some s1) \<and> stats_adds (Some s1) vs = Some (Some s2) \<and>
    nr_samples s2 = nr_samples s \<and> nr_batch s2 = nr_batch s + int (length vs)"
proof -
  let ?s = "s\<lparr>max_batch := m\<rparr>"
  have "stats_inv ys zs k ?s" using assms(1) by (simp add: stats_inv_def)
  then obtain s2 where "stats_adds (Some ?s) vs = Some (Some s2)" "stats_inv ys (zs @ vs) k s2"
    using stats_adds_stuck [of ys zs k ?s vs] assms(2-4) by auto
  then show ?thesis using assms(1) by (auto simp: stats_set_max_batch_def stats_inv_def)
qed

theorem stats_set_max_batch_too_small_witness:
  "\<exists>s1 s2. stats_set_max_batch (Some (demo_stats\<lparr>min_v := - 1\<rparr>)) 0 = (0, Some s1) \<and>
    stats_adds (Some s1) [4, 9] = Some (Some s2) \<and> nr_samples s2 = 0 \<and> nr_batch s2 = 2"
proof -
  have "stats_inv [] [] 0 (demo_stats\<lparr>min_v := - 1\<rparr>)" by (simp add: stats_inv_def demo_stats_def)
  then show ?thesis
    using stats_set_max_batch_too_small [of "[]" "[]" 0 "demo_stats\<lparr>min_v := - 1\<rparr>" 0 "[4, 9]"]
    by (simp add: demo_stats_def sample_ok_def int_limits del: stats_adds.simps)
qed

end
