(* ===== verification/Image_Split.thy ===== *)
theory Image_Split
  imports C_Prelude
begin

text \<open>
  \<^verbatim>\<open>linux/utils/src/image_split.c\<close> and \<^verbatim>\<open>image_split.h\<close>: cutting an image into \<open>num\<close> tiles of equal,
  aligned size that share the memory of the image. The \<open>int\<close> arguments meet \<open>uint32_t\<close> operands and
  are converted, so all sizes and offsets are computed in \<^typ>\<open>32 word\<close> and wrap there before they
  are added to the 64-bit address. Division by zero and a destination array that is too short are
  undefined behaviour; a null pointer is \<^const>\<open>None\<close> of the argument.
\<close>

section \<open>The code\<close>

record split_image =
  addr :: u64
  width :: u32
  height :: u32
  stride :: u32

datatype split_dir = SPLIT_DIR_WIDTH | SPLIT_DIR_HEIGHT

definition udiv32 :: "u32 \<Rightarrow> u32 \<Rightarrow> u32 option" where
  "udiv32 a b = (if b = 0 then None else Some (a div b))"

text \<open>\<open>((total / num) / align) * align\<close>\<close>

definition split_part :: "u32 \<Rightarrow> int \<Rightarrow> int \<Rightarrow> u32 option" where
  "split_part n num align = do {
     q \<leftarrow> udiv32 n (word_of_int num);
     r \<leftarrow> udiv32 q (word_of_int align);
     Some (r * word_of_int align) }"

text \<open>The loop \<open>for (i = 0; i < num; i++) dst[i] = ...\<close>\<close>

function split_fill :: "(int \<Rightarrow> split_image) \<Rightarrow> int \<Rightarrow> int \<Rightarrow> split_image list \<Rightarrow> split_image list option" where
  "split_fill tile num i dst =
     (if i < num
      then do { dst' \<leftarrow> array_set dst i (tile i); split_fill tile num (i + 1) dst' }
      else Some dst)"
  by pat_completeness auto
termination
  by (relation "measure (\<lambda>(tile, num, i, dst). nat (num - i))") auto

declare split_fill.simps [simp del]

definition split_multiple_image_horizontal_scan ::
  "split_image option \<Rightarrow> split_image list option \<Rightarrow> int \<Rightarrow> split_dir \<Rightarrow> int \<Rightarrow> (int \<times> split_image list option) option" where
  "split_multiple_image_horizontal_scan src dst num split_dir align = (case (src, dst) of
     (Some s, Some d) \<Rightarrow>
       (case split_dir of
          SPLIT_DIR_WIDTH \<Rightarrow> do {
            w \<leftarrow> split_part (width s) num align;
            d' \<leftarrow> split_fill (\<lambda>i. \<lparr>addr = addr s + ucast (word_of_int i * w), width = w, height = height s, stride = stride s\<rparr>)
              num 0 d;
            Some (0, Some d') }
        | SPLIT_DIR_HEIGHT \<Rightarrow> do {
            h \<leftarrow> split_part (height s) num align;
            d' \<leftarrow> split_fill (\<lambda>i. \<lparr>addr = addr s + ucast (word_of_int i * stride s * h), width = width s, height = h, stride = stride s\<rparr>)
              num 0 d;
            Some (0, Some d') })
   | _ \<Rightarrow> Some (- 1, dst))"

definition split_multiple_image_vertical_scan ::
  "split_image option \<Rightarrow> split_image list option \<Rightarrow> int \<Rightarrow> split_dir \<Rightarrow> int \<Rightarrow> (int \<times> split_image list option) option" where
  "split_multiple_image_vertical_scan src dst num split_dir align = (case (src, dst) of
     (Some s, Some d) \<Rightarrow>
       (case split_dir of
          SPLIT_DIR_WIDTH \<Rightarrow> do {
            w \<leftarrow> split_part (width s) num align;
            d' \<leftarrow> split_fill (\<lambda>i. \<lparr>addr = addr s + ucast (word_of_int i * w * stride s), width = w, height = height s, stride = stride s\<rparr>)
              num 0 d;
            Some (0, Some d') }
        | SPLIT_DIR_HEIGHT \<Rightarrow> do {
            h \<leftarrow> split_part (height s) num align;
            d' \<leftarrow> split_fill (\<lambda>i. \<lparr>addr = addr s + ucast (word_of_int i * width s * h), width = width s, height = h, stride = stride s\<rparr>)
              num 0 d;
            Some (0, Some d') })
   | _ \<Rightarrow> Some (- 1, dst))"


section \<open>Pixels\<close>

text \<open>
  The address of the pixel in column \<open>x\<close> and row \<open>y\<close>: a horizontal scan stores rows one after the
  other, a vertical scan columns, \<open>stride\<close> bytes apart, one byte per pixel.
\<close>

definition row_pixel :: "split_image \<Rightarrow> nat \<Rightarrow> nat \<Rightarrow> u64" where
  "row_pixel img x y = addr img + of_nat (y * unat (stride img) + x)"

definition column_pixel :: "split_image \<Rightarrow> nat \<Rightarrow> nat \<Rightarrow> u64" where
  "column_pixel img x y = addr img + of_nat (x * unat (stride img) + y)"


section \<open>Lemmas\<close>

lemma split_fill_ok:
  assumes "i \<le> n" "n \<le> length dst"
  shows "\<exists>dst'. split_fill tile (int n) (int i) dst = Some dst' \<and> length dst' = length dst \<and>
    (\<forall>j. i \<le> j \<and> j < n \<longrightarrow> dst' ! j = tile (int j)) \<and> (\<forall>j. j < i \<or> n \<le> j \<longrightarrow> dst' ! j = dst ! j)"
  using assms
proof (induction "n - i" arbitrary: i dst)
  case 0
  then show ?case by (subst split_fill.simps) auto
next
  case (Suc k)
  then have i: "i < n" by simp
  let ?d = "dst[i := tile (int i)]"
  obtain d' where d': "split_fill tile (int n) (int (Suc i)) ?d = Some d'" "length d' = length ?d"
    "\<forall>j. Suc i \<le> j \<and> j < n \<longrightarrow> d' ! j = tile (int j)" "\<forall>j. j < Suc i \<or> n \<le> j \<longrightarrow> d' ! j = ?d ! j"
  proof -
    have "k = n - Suc i" "Suc i \<le> n" "n \<le> length ?d" using Suc.hyps(2) Suc.prems(2) i by simp_all
    then show thesis using that Suc.hyps(1) by blast
  qed
  have "split_fill tile (int n) (int i) dst = Some d'"
    using i Suc.prems d'(1) by (subst split_fill.simps) (simp add: add.commute)
  moreover have "d' ! j = tile (int j)" if "i \<le> j" "j < n" for j
    using that d'(3,4) i Suc.prems by (cases "j = i") auto
  moreover have "d' ! j = dst ! j" if "j < i \<or> n \<le> j" for j
    using that d'(4) i by auto
  ultimately show ?case using d'(2) by auto
qed

text \<open>The tile size is the largest multiple of the alignment that fits \<open>num\<close> times.\<close>

lemma split_part_ok:
  assumes "0 < n" "n < 2 ^ 31" "0 < a" "a < 2 ^ 31"
  shows "\<exists>w. split_part t (int n) (int a) = Some w \<and> unat w = unat t div n div a * a"
proof -
  have n: "unat (of_nat n :: u32) = n" and a: "unat (of_nat a :: u32) = a"
    using assms by (simp_all add: unat_of_nat_u32)
  then have nz: "(of_nat n :: u32) \<noteq> 0" "(of_nat a :: u32) \<noteq> 0" using assms(1,3) by auto
  let ?q = "t div of_nat n div of_nat a"
  have q: "unat ?q = unat t div n div a" by (simp add: unat_div_distrib n a)
  have "unat t div n div a * a \<le> unat t" by (metis div_times_less_eq_dividend div_le_dividend order_trans)
  then have "unat ?q * unat (of_nat a :: u32) < 2 ^ 32" using unat_u32_less [of t] q a by simp
  then have "unat (?q * of_nat a) = unat t div n div a * a" using q a by (simp only: unat_mult_u32)
  then show ?thesis using nz by (simp add: split_part_def udiv32_def)
qed

lemma tile_bounds:
  fixes t n a :: nat
  assumes "0 < n" "0 < a"
  defines "w \<equiv> t div n div a * a"
  shows "a dvd w" "n * w \<le> t" "t < n * w + n * a"
proof -
  show "a dvd w" by (simp add: w_def)
  have "w \<le> t div n" unfolding w_def by (rule div_times_less_eq_dividend)
  then show le: "n * w \<le> t" by (metis le_trans mult_le_mono2 times_div_less_eq_dividend)
  have "t div n < w + a" unfolding w_def using assms(2) by (metis add.commute dividend_less_div_times)
  then have "n * Suc (t div n) \<le> n * (w + a)" by (intro mult_le_mono2) simp
  moreover have "t < n * Suc (t div n)" using assms(1) dividend_less_times_div by fastforce
  ultimately show "t < n * w + n * a" by (simp add: distrib_left)
qed

lemma tile_inside:
  fixes n w t :: nat
  assumes "n * w \<le> t" "i < n" "x < w"
  shows "i * w + x < t"
proof -
  have "i * w + x < Suc i * w" using assms(3) by simp
  also have "\<dots> \<le> n * w" using assms(2) by (intro mult_le_mono1) simp
  finally show ?thesis using assms(1) by simp
qed

text \<open>Offsets that do not wrap in 32 bits are the products of the numbers.\<close>

lemma offset_u64:
  assumes "i < 2 ^ 32" "i * unat (a :: u32) < 2 ^ 32"
  shows "(ucast (word_of_int (int i) * a) :: u64) = of_nat (i * unat a)"
proof -
  have "unat (of_nat i :: u32) = i" using assms(1) by (rule unat_of_nat_u32)
  then have "unat (of_nat i * a) = i * unat a" using assms(2) unat_mult_u32 [of "of_nat i" a] by simp
  then show ?thesis using of_nat_unat_u32 [of "of_nat i * a"] by simp
qed

lemma offset2_u64:
  assumes "i < 2 ^ 32" "unat (a :: u32) * unat b < 2 ^ 32" "i * (unat a * unat b) < 2 ^ 32"
  shows "(ucast (word_of_int (int i) * a * b) :: u64) = of_nat (i * (unat a * unat b))"
proof -
  have ab: "unat (a * b) = unat a * unat b" using assms(2) by (rule unat_mult_u32)
  show ?thesis using offset_u64 [of i "a * b", unfolded ab] assms(1,3) by (simp only: mult.assoc)
qed

lemma product_bound:
  fixes a b i n w t :: nat
  assumes "n * w \<le> t" "i < n" "a * t < b"
  shows "a * w < b" "i * (a * w) < b"
proof -
  have "n * (a * w) < b" using assms(1,3) by (metis le_less_trans mult.left_commute mult_le_mono2)
  moreover have "i * (a * w) \<le> n * (a * w)" "1 * (a * w) \<le> n * (a * w)"
    using assms(2) by (intro mult_le_mono1; simp)+
  ultimately show "a * w < b" "i * (a * w) < b" by linarith+
qed

lemma of_nat_eq_64: "x < 2 ^ 64 \<Longrightarrow> y < 2 ^ 64 \<Longrightarrow> (of_nat x :: u64) = of_nat y \<longleftrightarrow> x = y"
  by (simp add: word_of_nat_eq_iff take_bit_nat_eq_self)


section \<open>Properties\<close>

text \<open>
  C25: Cutting a row-major image into columns (\<open>split_multiple_image_horizontal_scan\<close> along the width):
  the call succeeds, every tile has a width that is a multiple of the alignment, pixel \<open>(x, y)\<close> of
  tile \<open>i\<close> is pixel \<open>(i * w + x, y)\<close> of the image and lies inside it, and fewer than \<open>num * align\<close>
  columns are left over. No offset wraps.
\<close>

theorem horizontal_scan_width_tiles:
  assumes "0 < n" and "n < 2 ^ 31" and "0 < a" and "a < 2 ^ 31" and "n \<le> length dst"
    and "w = unat (width s) div n div a * a"
  shows "\<exists>d. split_multiple_image_horizontal_scan (Some s) (Some dst) (int n) SPLIT_DIR_WIDTH (int a) = Some (0, Some d) \<and>
    a dvd w \<and> unat (width s) < n * w + n * a \<and>
    (\<forall>i<n. unat (width (d ! i)) = w \<and> height (d ! i) = height s \<and>
      (\<forall>x<w. \<forall>y. i * w + x < unat (width s) \<and> row_pixel (d ! i) x y = row_pixel s (i * w + x) y))"
proof -
  obtain v where v: "split_part (width s) (int n) (int a) = Some v" "unat v = w"
    using split_part_ok [OF assms(1-4)] assms(6) by blast
  note b = tile_bounds [OF assms(1,3), of "unat (width s)", folded assms(6)]
  obtain d where d: "split_fill (\<lambda>i. \<lparr>addr = addr s + ucast (word_of_int i * v), width = v, height = height s, stride = stride s\<rparr>)
      (int n) 0 dst = Some d"
    "\<forall>j<n. d ! j = \<lparr>addr = addr s + ucast (word_of_int (int j) * v), width = v, height = height s, stride = stride s\<rparr>"
    using split_fill_ok [of 0 n dst] assms(5) by fastforce
  have pixel: "row_pixel (d ! i) x y = row_pixel s (i * w + x) y" if "i < n" for i x y
  proof -
    have "n * w < 2 ^ 32" using b(2) unat_u32_less [of "width s"] by linarith
    then have "i * w < 2 ^ 32" using that by (metis le_less_trans less_imp_le mult_le_mono1)
    then have "ucast (word_of_int (int i) * v) = (of_nat (i * w) :: u64)"
      using offset_u64 [of i v] that assms(2) v(2) by simp
    then show ?thesis using d(2) that by (simp add: row_pixel_def algebra_simps)
  qed
  then show ?thesis
    using v d b tile_inside [OF b(2)] by (simp add: split_multiple_image_horizontal_scan_def)
qed

definition demo_image :: split_image where
  "demo_image = \<lparr>addr = 4096, width = 70, height = 40, stride = 128\<rparr>"

theorem horizontal_scan_width_tiles_witness:
  "\<exists>d. split_multiple_image_horizontal_scan (Some demo_image) (Some [demo_image, demo_image]) 2 SPLIT_DIR_WIDTH 16 = Some (0, Some d) \<and>
    unat (width (d ! 1)) = 32 \<and> row_pixel (d ! 1) 3 5 = row_pixel demo_image 35 5"
proof -
  have "\<exists>d. split_multiple_image_horizontal_scan (Some demo_image) (Some [demo_image, demo_image]) (int 2) SPLIT_DIR_WIDTH (int 16) = Some (0, Some d) \<and>
    16 dvd (32 :: nat) \<and> unat (width demo_image) < 2 * 32 + 2 * 16 \<and>
    (\<forall>i<2. unat (width (d ! i)) = 32 \<and> height (d ! i) = height demo_image \<and>
      (\<forall>x<32. \<forall>y. i * 32 + x < unat (width demo_image) \<and> row_pixel (d ! i) x y = row_pixel demo_image (i * 32 + x) y))"
    by (rule horizontal_scan_width_tiles) (simp_all add: demo_image_def)
  then show ?thesis by (elim exE) (intro exI, fastforce)
qed

text \<open>
  Cutting a row-major image into bands (\<open>split_multiple_image_horizontal_scan\<close> along the height):
  if the image has less than 2^32 bytes, pixel \<open>(x, y)\<close> of tile \<open>i\<close> is pixel \<open>(x, i * h + y)\<close> of the
  image and lies inside it, and the band height is a multiple of the alignment.
\<close>

theorem horizontal_scan_height_tiles:
  assumes "0 < n" and "n < 2 ^ 31" and "0 < a" and "a < 2 ^ 31" and "n \<le> length dst"
    and "unat (stride s) * unat (height s) < 2 ^ 32" and "h = unat (height s) div n div a * a"
  shows "\<exists>d. split_multiple_image_horizontal_scan (Some s) (Some dst) (int n) SPLIT_DIR_HEIGHT (int a) = Some (0, Some d) \<and>
    a dvd h \<and> unat (height s) < n * h + n * a \<and>
    (\<forall>i<n. unat (height (d ! i)) = h \<and> width (d ! i) = width s \<and>
      (\<forall>y<h. \<forall>x. i * h + y < unat (height s) \<and> row_pixel (d ! i) x y = row_pixel s x (i * h + y)))"
proof -
  obtain v where v: "split_part (height s) (int n) (int a) = Some v" "unat v = h"
    using split_part_ok [OF assms(1-4)] assms(7) by blast
  note b = tile_bounds [OF assms(1,3), of "unat (height s)", folded assms(7)]
  obtain d where d: "split_fill (\<lambda>i. \<lparr>addr = addr s + ucast (word_of_int i * stride s * v), width = width s, height = v, stride = stride s\<rparr>)
      (int n) 0 dst = Some d"
    "\<forall>j<n. d ! j = \<lparr>addr = addr s + ucast (word_of_int (int j) * stride s * v), width = width s, height = v, stride = stride s\<rparr>"
    using split_fill_ok [of 0 n dst] assms(5) by fastforce
  have pixel: "row_pixel (d ! i) x y = row_pixel s x (i * h + y)" if "i < n" for i x y
  proof -
    have "ucast (word_of_int (int i) * stride s * v) = (of_nat (i * (unat (stride s) * h)) :: u64)"
      using offset2_u64 [of i "stride s" v] product_bound [OF b(2) that assms(6)] that assms(2) v(2) by simp
    then show ?thesis using d(2) that by (simp add: row_pixel_def algebra_simps)
  qed
  then show ?thesis
    using v d b tile_inside [OF b(2)] by (simp add: split_multiple_image_horizontal_scan_def)
qed

theorem horizontal_scan_height_tiles_witness:
  "\<exists>d. split_multiple_image_horizontal_scan (Some demo_image) (Some [demo_image, demo_image]) 2 SPLIT_DIR_HEIGHT 16 = Some (0, Some d) \<and>
    unat (height (d ! 1)) = 16 \<and> row_pixel (d ! 1) 3 5 = row_pixel demo_image 3 21"
proof -
  have "\<exists>d. split_multiple_image_horizontal_scan (Some demo_image) (Some [demo_image, demo_image]) (int 2) SPLIT_DIR_HEIGHT (int 16) = Some (0, Some d) \<and>
    16 dvd (16 :: nat) \<and> unat (height demo_image) < 2 * 16 + 2 * 16 \<and>
    (\<forall>i<2. unat (height (d ! i)) = 16 \<and> width (d ! i) = width demo_image \<and>
      (\<forall>y<16. \<forall>x. i * 16 + y < unat (height demo_image) \<and> row_pixel (d ! i) x y = row_pixel demo_image x (i * 16 + y)))"
    by (rule horizontal_scan_height_tiles) (simp_all add: demo_image_def)
  then show ?thesis by (elim exE) (intro exI, fastforce)
qed

text \<open>
  Cutting a column-major image along the width (\<open>split_multiple_image_vertical_scan\<close>): if the image
  has less than 2^32 bytes, pixel \<open>(x, y)\<close> of tile \<open>i\<close> is pixel \<open>(i * w + x, y)\<close> of the image.
\<close>

theorem vertical_scan_width_tiles:
  assumes "0 < n" and "n < 2 ^ 31" and "0 < a" and "a < 2 ^ 31" and "n \<le> length dst"
    and "unat (stride s) * unat (width s) < 2 ^ 32" and "w = unat (width s) div n div a * a"
  shows "\<exists>d. split_multiple_image_vertical_scan (Some s) (Some dst) (int n) SPLIT_DIR_WIDTH (int a) = Some (0, Some d) \<and>
    a dvd w \<and> unat (width s) < n * w + n * a \<and>
    (\<forall>i<n. unat (width (d ! i)) = w \<and> height (d ! i) = height s \<and>
      (\<forall>x<w. \<forall>y. i * w + x < unat (width s) \<and> column_pixel (d ! i) x y = column_pixel s (i * w + x) y))"
proof -
  obtain v where v: "split_part (width s) (int n) (int a) = Some v" "unat v = w"
    using split_part_ok [OF assms(1-4)] assms(7) by blast
  note b = tile_bounds [OF assms(1,3), of "unat (width s)", folded assms(7)]
  obtain d where d: "split_fill (\<lambda>i. \<lparr>addr = addr s + ucast (word_of_int i * v * stride s), width = v, height = height s, stride = stride s\<rparr>)
      (int n) 0 dst = Some d"
    "\<forall>j<n. d ! j = \<lparr>addr = addr s + ucast (word_of_int (int j) * v * stride s), width = v, height = height s, stride = stride s\<rparr>"
    using split_fill_ok [of 0 n dst] assms(5) by fastforce
  have pixel: "column_pixel (d ! i) x y = column_pixel s (i * w + x) y" if "i < n" for i x y
  proof -
    have "ucast (word_of_int (int i) * v * stride s) = (of_nat (i * (w * unat (stride s))) :: u64)"
      using offset2_u64 [of i v "stride s"] product_bound [OF b(2) that assms(6)] that assms(2) v(2)
      by (simp add: mult.commute)
    then show ?thesis using d(2) that by (simp add: column_pixel_def algebra_simps)
  qed
  then show ?thesis
    using v d b tile_inside [OF b(2)] by (simp add: split_multiple_image_vertical_scan_def)
qed

theorem vertical_scan_width_tiles_witness:
  "\<exists>d. split_multiple_image_vertical_scan (Some demo_image) (Some [demo_image, demo_image]) 2 SPLIT_DIR_WIDTH 16 = Some (0, Some d) \<and>
    unat (width (d ! 1)) = 32 \<and> column_pixel (d ! 1) 3 5 = column_pixel demo_image 35 5"
proof -
  have "\<exists>d. split_multiple_image_vertical_scan (Some demo_image) (Some [demo_image, demo_image]) (int 2) SPLIT_DIR_WIDTH (int 16) = Some (0, Some d) \<and>
    16 dvd (32 :: nat) \<and> unat (width demo_image) < 2 * 32 + 2 * 16 \<and>
    (\<forall>i<2. unat (width (d ! i)) = 32 \<and> height (d ! i) = height demo_image \<and>
      (\<forall>x<32. \<forall>y. i * 32 + x < unat (width demo_image) \<and> column_pixel (d ! i) x y = column_pixel demo_image (i * 32 + x) y))"
    by (rule vertical_scan_width_tiles) (simp_all add: demo_image_def)
  then show ?thesis by (elim exE) (intro exI, fastforce)
qed

text \<open>
  Cutting a column-major image along the height misplaces the tiles: the offset is computed as
  \<open>i * width * height\<close> where the column-major layout has \<open>i * height\<close>, so for an image wider than one
  column no tile but the first starts at its own pixel.
\<close>

theorem vertical_scan_height_misplaced:
  assumes "0 < n" and "n < 2 ^ 31" and "0 < a" and "a < 2 ^ 31" and "n \<le> length dst"
    and "unat (width s) * unat (height s) < 2 ^ 32" and "h = unat (height s) div n div a * a"
    and "0 < i" and "i < n" and "0 < h" and "1 < unat (width s)"
  shows "\<exists>d. split_multiple_image_vertical_scan (Some s) (Some dst) (int n) SPLIT_DIR_HEIGHT (int a) = Some (0, Some d) \<and>
    column_pixel (d ! i) 0 0 \<noteq> column_pixel s 0 (i * h)"
proof -
  obtain v where v: "split_part (height s) (int n) (int a) = Some v" "unat v = h"
    using split_part_ok [OF assms(1-4)] assms(7) by blast
  note b = tile_bounds [OF assms(1,3), of "unat (height s)", folded assms(7)]
  obtain d where d: "split_fill (\<lambda>i. \<lparr>addr = addr s + ucast (word_of_int i * width s * v), width = width s, height = v, stride = stride s\<rparr>)
      (int n) 0 dst = Some d"
    "\<forall>j<n. d ! j = \<lparr>addr = addr s + ucast (word_of_int (int j) * width s * v), width = width s, height = v, stride = stride s\<rparr>"
    using split_fill_ok [of 0 n dst] assms(5) by fastforce
  have p: "i * (unat (width s) * h) < 2 ^ 32" using product_bound [OF b(2) assms(9,6)] by simp
  have off: "ucast (word_of_int (int i) * width s * v) = (of_nat (i * (unat (width s) * h)) :: u64)"
    using offset2_u64 [of i "width s" v] product_bound [OF b(2) assms(9,6)] assms(2,9) v(2) by simp
  have less: "i * h < i * (unat (width s) * h)" using assms(8,10,11) by simp
  moreover have "i * (unat (width s) * h) < 2 ^ 64" "i * h < 2 ^ 64"
    using less_trans [OF p, of "2 ^ 64"] less_trans [OF less, of "2 ^ 64"] by simp_all
  ultimately have "(of_nat (i * (unat (width s) * h)) :: u64) \<noteq> of_nat (i * h)"
    by (simp only: of_nat_eq_64)
  then show ?thesis
    using v d off assms(9) by (auto simp: split_multiple_image_vertical_scan_def column_pixel_def)
qed

theorem vertical_scan_height_misplaced_witness:
  "\<exists>d. split_multiple_image_vertical_scan (Some demo_image) (Some [demo_image, demo_image]) (int 2) SPLIT_DIR_HEIGHT (int 16) = Some (0, Some d) \<and>
    column_pixel (d ! 1) 0 0 \<noteq> column_pixel demo_image 0 (1 * 16)"
  by (rule vertical_scan_height_misplaced) (simp_all add: demo_image_def)

end
