(* ===== verification/Glb_Hsm.thy ===== *)
theory Glb_Hsm
  imports C_Prelude
begin

text \<open>
  \<^verbatim>\<open>linux/glb_hsm\<close>: a hierarchical state machine (\<^verbatim>\<open>glb_hsm.c\<close>, \<^verbatim>\<open>glb_hsm.h\<close>) and the three demo
  states nested in each other (\<^verbatim>\<open>level_state.c\<close>, \<^verbatim>\<open>level2_state.c\<close>, \<^verbatim>\<open>level3_state.c\<close>,
  \<^verbatim>\<open>common_level.c\<close>).

  A state is an address, and a table \<open>cfg\<close> gives the \<open>super_state_t\<close> stored there. Its function
  pointers are values of the model: an action is the status it returns, \<^const>\<open>None\<close> for a null
  pointer; a handler maps a signal to the status it returns and, when it uses \<open>EVT_SUPER\<close> or starts
  a transition, the state it stores into \<open>next_state\<close> of its machine. It does that through the
  \<open>hsm\<close> field of its own state, which \<open>SET_STATE_HSM\<close> sets: \<open>bound\<close> tells for which states the
  field has been set. \<open>trace\<close> records the entry and exit actions that ran.
\<close>

section \<open>Data\<close>

definition HSM_MAX_NEST_DEPTH :: nat where
  "HSM_MAX_NEST_DEPTH = 4"

definition HSM_EMPTY_SIG :: int where
  "HSM_EMPTY_SIG = 0"

definition EVT_STATUS_SUPER :: int where
  "EVT_STATUS_SUPER = 0"

definition EVT_STATUS_HANDLED :: int where
  "EVT_STATUS_HANDLED = 1"

definition EVT_STATUS_IGNORED :: int where
  "EVT_STATUS_IGNORED = 2"

definition EVT_STATUS_UNHANDLE :: int where
  "EVT_STATUS_UNHANDLE = 3"

definition EVT_STATUS_TRAN :: int where
  "EVT_STATUS_TRAN = 4"

lemmas evt_status = EVT_STATUS_SUPER_def EVT_STATUS_HANDLED_def EVT_STATUS_IGNORED_def
  EVT_STATUS_UNHANDLE_def EVT_STATUS_TRAN_def

record super_state =
  on_entry :: "int option"
  on_exit :: "int option"
  handler :: "int \<Rightarrow> int \<times> addr option"

type_synonym hsm_cfg = "addr \<Rightarrow> super_state option"

datatype action = Enter addr | Exit addr

record glb_hsm =
  cur_state :: addr
  next_state :: addr
  bound :: "addr \<Rightarrow> bool"
  trace :: "action list"

definition SET_STATE_HSM :: "addr \<Rightarrow> glb_hsm \<Rightarrow> glb_hsm" where
  "SET_STATE_HSM s m = m\<lparr>bound := (bound m)(s := True)\<rparr>"

text \<open>Calls through the function pointers of a state.\<close>

definition call_handler :: "hsm_cfg \<Rightarrow> glb_hsm \<Rightarrow> addr \<Rightarrow> int \<Rightarrow> (int \<times> glb_hsm) option" where
  "call_handler cfg m s sig = (case cfg s of
     None \<Rightarrow> None
   | Some st \<Rightarrow> (case handler st sig of
       (r, None) \<Rightarrow> Some (r, m)
     | (r, Some q) \<Rightarrow> if bound m s then Some (r, m\<lparr>next_state := q\<rparr>) else None))"

definition call_entry :: "hsm_cfg \<Rightarrow> glb_hsm \<Rightarrow> addr \<Rightarrow> glb_hsm option" where
  "call_entry cfg m s = (case cfg s of
     None \<Rightarrow> None
   | Some st \<Rightarrow> map_option (\<lambda>_. m\<lparr>trace := trace m @ [Enter s]\<rparr>) (on_entry st))"

definition call_exit :: "hsm_cfg \<Rightarrow> glb_hsm \<Rightarrow> addr \<Rightarrow> (int \<times> glb_hsm) option" where
  "call_exit cfg m s = (case cfg s of
     None \<Rightarrow> None
   | Some st \<Rightarrow> map_option (\<lambda>r. (r, m\<lparr>trace := trace m @ [Exit s]\<rparr>)) (on_exit st))"


section \<open>The machine\<close>

definition get_super_state :: "hsm_cfg \<Rightarrow> glb_hsm \<Rightarrow> addr \<Rightarrow> (int \<times> glb_hsm) option" where
  "get_super_state cfg m s = call_handler cfg m s HSM_EMPTY_SIG"

text \<open>
  Climbing from the state in \<open>next_state\<close> until \<open>tp\<close> is reached, storing the way in \<open>path\<close>; \<open>link\<close> says
  whether the states met on the way get their \<open>hsm\<close> field set first. The array bounds the loop.
\<close>

function hsm_climb ::
  "bool \<Rightarrow> hsm_cfg \<Rightarrow> addr \<Rightarrow> glb_hsm \<Rightarrow> addr list \<Rightarrow> int \<Rightarrow> (glb_hsm \<times> addr list \<times> int) option" where
  "hsm_climb link cfg tp m path ip =
     (if next_state m \<noteq> tp
      then (case array_set path (ip + 1) (next_state m) of
          None \<Rightarrow> None
        | Some path' \<Rightarrow>
            (let m' = (if link then SET_STATE_HSM (next_state m) m else m) in
             case call_handler cfg m' (next_state m) HSM_EMPTY_SIG of
               None \<Rightarrow> None
             | Some (r, m'') \<Rightarrow> hsm_climb link cfg tp m'' path' (ip + 1)))
      else Some (m, path, ip))"
  by pat_completeness auto
termination
  by (relation "measure (\<lambda>(link, cfg, tp, m, path, ip). nat (int (length path) - ip))")
    (auto simp: mem_simps)

declare hsm_climb.simps [simp del]

text \<open>The loop that enters \<open>path[ip]\<close>, \<open>path[ip - 1]\<close>, ..., \<open>path[0]\<close>; the argument is \<open>ip + 1\<close>.\<close>

fun hsm_enter :: "hsm_cfg \<Rightarrow> glb_hsm \<Rightarrow> addr list \<Rightarrow> nat \<Rightarrow> glb_hsm option" where
  "hsm_enter cfg m path 0 = Some m"
| "hsm_enter cfg m path (Suc ip) = do {
     s \<leftarrow> array_get path (int ip);
     m' \<leftarrow> call_entry cfg m s;
     hsm_enter cfg m' path ip }"

definition glb_hsm_init :: "hsm_cfg \<Rightarrow> glb_hsm \<Rightarrow> glb_hsm option" where
  "glb_hsm_init cfg hsm = do {
     let s0 = next_state hsm;
     let path = replicate HSM_MAX_NEST_DEPTH NULL;
     path0 \<leftarrow> array_set path 0 s0;
     (r, m1) \<leftarrow> call_handler cfg (SET_STATE_HSM s0 hsm) s0 HSM_EMPTY_SIG;
     (m2, path, ip) \<leftarrow> hsm_climb True cfg (cur_state hsm) m1 path0 0;
     m3 \<leftarrow> hsm_enter cfg (m2\<lparr>next_state := s0\<rparr>) path (Suc (nat ip));
     Some (m3\<lparr>cur_state := s0, next_state := s0\<rparr>) }"

text \<open>
  Part (e) of \<open>hsm_tran\<close>: store the superstates of the target until the source or the top is met.
  The result is the machine, the path, \<open>ip\<close> and whether the source was found. The test for
  \<open>ip > HSM_MAX_NEST_DEPTH\<close> comes after the store it is meant to guard, so it never fires.
\<close>

function tran_supers ::
  "hsm_cfg \<Rightarrow> addr \<Rightarrow> int \<Rightarrow> glb_hsm \<Rightarrow> addr list \<Rightarrow> int \<Rightarrow> (glb_hsm \<times> addr list \<times> int \<times> bool) option" where
  "tran_supers cfg s status m path ip =
     (if status = EVT_STATUS_SUPER
      then (case array_set path (ip + 1) (next_state m) of
          None \<Rightarrow> None
        | Some path' \<Rightarrow>
            if next_state m = s then Some (m, path', ip, True)
            else (case get_super_state cfg m (next_state m) of
                None \<Rightarrow> None
              | Some (status', m') \<Rightarrow> tran_supers cfg s status' m' path' (ip + 1)))
      else Some (m, path, ip, False))"
  by pat_completeness auto
termination
  by (relation "measure (\<lambda>(cfg, s, status, m, path, ip). nat (int (length path) - ip))")
    (auto simp: mem_simps)

declare tran_supers.simps [simp del]

text \<open>The search for \<open>t\<close> in \<open>path[iq]\<close>, ..., \<open>path[0]\<close>; the argument is \<open>iq + 1\<close>, the result the index found.\<close>

fun tran_find :: "addr list \<Rightarrow> addr \<Rightarrow> nat \<Rightarrow> int option option" where
  "tran_find path t 0 = Some None"
| "tran_find path t (Suc iq) = do {
     q \<leftarrow> array_get path (int iq);
     if t = q then Some (Some (int iq)) else tran_find path t iq }"

text \<open>Part (g): leave superstates of the source until one is on the path. This loop need not end.\<close>

partial_function (option) tran_leave ::
  "hsm_cfg \<Rightarrow> glb_hsm \<Rightarrow> addr list \<Rightarrow> int \<Rightarrow> addr \<Rightarrow> (int \<times> glb_hsm) option" where
  "tran_leave cfg m path ip t = do {
     (r, m1) \<leftarrow> call_exit cfg m t;
     m2 \<leftarrow> (if r = EVT_STATUS_HANDLED then map_option snd (get_super_state cfg m1 t) else Some m1);
     found \<leftarrow> tran_find path (next_state m2) (nat (ip + 1));
     (case found of
        Some iq \<Rightarrow> Some (iq - 1, m2)
      | None \<Rightarrow> tran_leave cfg m2 path ip (next_state m2)) }"

text \<open>Parts (e) to (g): the source is neither the target nor next to it in the hierarchy.\<close>

definition hsm_tran_far ::
  "hsm_cfg \<Rightarrow> glb_hsm \<Rightarrow> addr \<Rightarrow> addr \<Rightarrow> addr list \<Rightarrow> (int \<times> glb_hsm \<times> addr list) option" where
  "hsm_tran_far cfg m2 s tsup path = do {
     path1 \<leftarrow> array_set path 1 tsup;
     let ssup = next_state m2;
     (status, m3) \<leftarrow> get_super_state cfg m2 tsup;
     (m4, path2, ip, found) \<leftarrow> tran_supers cfg s status m3 path1 1;
     if found then Some (ip, m4, path2)
     else do {
       (r, m5) \<leftarrow> call_exit cfg m4 s;
       lca \<leftarrow> tran_find path2 ssup (nat (ip + 1));
       (case lca of
          Some iq \<Rightarrow> Some (iq - 1, m5, path2)
        | None \<Rightarrow> do {
            (ip', m6) \<leftarrow> tran_leave cfg m5 path2 ip ssup;
            Some (ip', m6, path2) }) } }"

definition hsm_tran :: "hsm_cfg \<Rightarrow> glb_hsm \<Rightarrow> addr list \<Rightarrow> (int \<times> glb_hsm \<times> addr list) option" where
  "hsm_tran cfg me path = do {
     t \<leftarrow> array_get path 0;
     s \<leftarrow> array_get path 2;
     if s = t then do { (r, m1) \<leftarrow> call_exit cfg me s; Some (0, m1, path) }
     else do {
       (r, m1) \<leftarrow> get_super_state cfg me t;
       let tsup = next_state m1;
       if s = tsup then Some (0, m1, path)
       else do {
         (r, m2) \<leftarrow> get_super_state cfg m1 s;
         if next_state m2 = tsup then do { (r, m3) \<leftarrow> call_exit cfg m2 s; Some (0, m3, path) }
         else if next_state m2 = t then do { (r, m3) \<leftarrow> call_exit cfg m2 s; Some (- 1, m3, path) }
         else hsm_tran_far cfg m2 s tsup path } } }"

text \<open>The loop of \<open>glb_hsm_dispatch\<close> that offers the event: \<open>next_state\<close> of the C code is the third result.\<close>

partial_function (option) dispatch_offer ::
  "hsm_cfg \<Rightarrow> glb_hsm \<Rightarrow> int \<Rightarrow> (int \<times> glb_hsm \<times> addr) option" where
  "dispatch_offer cfg m sig = do {
     let s = next_state m;
     (r, m1) \<leftarrow> call_handler cfg m s sig;
     (status, m2) \<leftarrow> (if r = EVT_STATUS_HANDLED then get_super_state cfg m1 s else Some (r, m1));
     if status = EVT_STATUS_SUPER then dispatch_offer cfg m2 sig else Some (status, m2, s) }"

text \<open>The loop that leaves states from the one that handled the event to the current one.\<close>

partial_function (option) dispatch_leave :: "hsm_cfg \<Rightarrow> glb_hsm \<Rightarrow> addr \<Rightarrow> addr \<Rightarrow> glb_hsm option" where
  "dispatch_leave cfg m s cur =
     (if s \<noteq> cur
      then do {
        (r, m1) \<leftarrow> call_exit cfg m s;
        m2 \<leftarrow> (if r = EVT_STATUS_HANDLED then map_option snd (get_super_state cfg m1 s) else Some m1);
        dispatch_leave cfg m2 (next_state m2) cur }
      else Some m)"

definition glb_hsm_dispatch :: "hsm_cfg \<Rightarrow> glb_hsm \<Rightarrow> int \<Rightarrow> glb_hsm option" where
  "glb_hsm_dispatch cfg hsm sig = do {
     let cur = cur_state hsm;
     (status, m1, s) \<leftarrow> dispatch_offer cfg hsm sig;
     if status \<ge> EVT_STATUS_TRAN
     then do {
       let target = next_state m1;
       m2 \<leftarrow> dispatch_leave cfg m1 s cur;
       (ip, m3, path) \<leftarrow> hsm_tran cfg m2 [target, s, cur, NULL];
       m4 \<leftarrow> hsm_enter cfg m3 path (nat (ip + 1));
       s' \<leftarrow> array_get path 0;
       (r, m5) \<leftarrow> get_super_state cfg (m4\<lparr>next_state := s'\<rparr>) s';
       (m6, path', ip') \<leftarrow> hsm_climb False cfg s' m5 path 0;
       m7 \<leftarrow> hsm_enter cfg (m6\<lparr>next_state := s'\<rparr>) path' (Suc (nat ip'));
       Some (m7\<lparr>cur_state := s', next_state := s'\<rparr>) }
     else Some (m1\<lparr>cur_state := s, next_state := s\<rparr>) }"

definition hsm_root_handler :: "int \<Rightarrow> int \<times> addr option" where
  "hsm_root_handler sig = (EVT_STATUS_IGNORED, None)"

definition m_root_state :: super_state where
  "m_root_state = \<lparr>on_entry = None, on_exit = None, handler = hsm_root_handler\<rparr>"

text \<open>The address of the root state.\<close>

definition get_root_state :: addr where
  "get_root_state = 1"

definition glb_hsm_ctor :: "glb_hsm \<Rightarrow> addr \<Rightarrow> glb_hsm" where
  "glb_hsm_ctor hsm initial = hsm\<lparr>cur_state := get_root_state, next_state := initial\<rparr>"

text \<open>The static machine starts zeroed; no state belongs to it yet.\<close>

definition m_glb_hsm :: glb_hsm where
  "m_glb_hsm = \<lparr>cur_state = NULL, next_state = NULL, bound = (\<lambda>_. False), trace = []\<rparr>"

definition hsm_init :: "hsm_cfg \<Rightarrow> addr \<Rightarrow> glb_hsm option" where
  "hsm_init cfg state = glb_hsm_init cfg (glb_hsm_ctor m_glb_hsm state)"



section \<open>The demo states\<close>

definition LEVEL_START_SIG :: int where
  "LEVEL_START_SIG = HSM_EMPTY_SIG + 1"

definition LEVEL_STOP_SIG :: int where
  "LEVEL_STOP_SIG = LEVEL_START_SIG + 1"

definition get_level1_state :: addr where
  "get_level1_state = 2"

definition get_level2_state :: addr where
  "get_level2_state = 3"

definition get_level3_state :: addr where
  "get_level3_state = 4"

text \<open>Both actions print the name of the state and return 0.\<close>

definition level_entry :: int where
  "level_entry = 0"

definition level_exit :: int where
  "level_exit = 0"

definition level_msg_handler :: "int \<Rightarrow> int \<times> addr option" where
  "level_msg_handler sig =
     (if sig = LEVEL_START_SIG then (EVT_STATUS_HANDLED, None)
      else if sig = LEVEL_STOP_SIG then (EVT_STATUS_HANDLED, None)
      else (EVT_STATUS_SUPER, Some get_root_state))"

definition level2_msg_handler :: "int \<Rightarrow> int \<times> addr option" where
  "level2_msg_handler sig =
     (if sig = LEVEL_START_SIG then (EVT_STATUS_HANDLED, None)
      else if sig = LEVEL_STOP_SIG then (EVT_STATUS_HANDLED, None)
      else (EVT_STATUS_SUPER, Some get_level1_state))"

definition level3_msg_handler :: "int \<Rightarrow> int \<times> addr option" where
  "level3_msg_handler sig =
     (if sig = LEVEL_START_SIG then (EVT_STATUS_HANDLED, None)
      else if sig = LEVEL_STOP_SIG then (EVT_STATUS_HANDLED, None)
      else (EVT_STATUS_SUPER, Some get_level2_state))"

definition level_state :: "(int \<Rightarrow> int \<times> addr option) \<Rightarrow> super_state" where
  "level_state h = \<lparr>on_entry = Some level_entry, on_exit = Some level_exit, handler = h\<rparr>"

definition level_cfg :: hsm_cfg where
  "level_cfg = [get_root_state \<mapsto> m_root_state, get_level1_state \<mapsto> level_state level_msg_handler,
     get_level2_state \<mapsto> level_state level2_msg_handler, get_level3_state \<mapsto> level_state level3_msg_handler]"

lemmas level_defs = level_cfg_def level_state_def level_msg_handler_def level2_msg_handler_def level3_msg_handler_def
  get_root_state_def get_level1_state_def get_level2_state_def get_level3_state_def m_root_state_def
  LEVEL_START_SIG_def LEVEL_STOP_SIG_def HSM_EMPTY_SIG_def level_entry_def level_exit_def hsm_root_handler_def


section \<open>Hierarchies\<close>

text \<open>\<open>ss\<close> is a chain of states, innermost first, each with the next as its superstate and the last below \<open>tp\<close>.\<close>

definition super_of :: "addr \<Rightarrow> addr list \<Rightarrow> addr" where
  "super_of tp ss = (case ss of [] \<Rightarrow> tp | p # _ \<Rightarrow> p)"

lemma super_of_simps [simp]: "super_of tp [] = tp" "super_of tp (s # ss) = s"
  by (simp_all add: super_of_def)

fun super_chain :: "hsm_cfg \<Rightarrow> addr \<Rightarrow> addr list \<Rightarrow> bool" where
  "super_chain cfg tp [] = True"
| "super_chain cfg tp (s # ss) =
     ((case cfg s of None \<Rightarrow> False
       | Some st \<Rightarrow> handler st HSM_EMPTY_SIG = (EVT_STATUS_SUPER, Some (super_of tp ss)) \<and> on_entry st \<noteq> None) \<and>
      s \<noteq> tp \<and> super_chain cfg tp ss)"

lemma super_chain_call:
  assumes "super_chain cfg tp (s # ss)"
  shows "call_handler cfg m s HSM_EMPTY_SIG = (if bound m s then Some (EVT_STATUS_SUPER, m\<lparr>next_state := super_of tp ss\<rparr>) else None)"
    and "call_entry cfg m s = Some (m\<lparr>trace := trace m @ [Enter s]\<rparr>)"
  using assms by (auto simp: call_handler_def call_entry_def split: option.splits)

lemma array_set_append: "array_set (pre @ v # post) (int (length pre)) w = Some (pre @ w # post)"
  by (simp add: array_set_def list_update_append)

text \<open>Climbing a chain with linking stores it in the path, if the path has room.\<close>

lemma hsm_climb_chain:
  assumes "super_chain cfg tp ss" "next_state m = super_of tp ss" "length ss \<le> length post"
  shows "hsm_climb True cfg tp m (pre @ post) (int (length pre) - 1) =
    Some (m\<lparr>next_state := tp, bound := (\<lambda>s. bound m s \<or> s \<in> set ss)\<rparr>,
      pre @ ss @ drop (length ss) post, int (length pre + length ss) - 1)"
  using assms
proof (induction ss arbitrary: m pre post)
  case Nil
  then show ?case by (subst hsm_climb.simps) simp
next
  case (Cons s ss)
  obtain v post' where post: "post = v # post'" using Cons.prems(3) by (cases post) auto
  let ?m = "(SET_STATE_HSM s m)\<lparr>next_state := super_of tp ss\<rparr>"
  have call: "call_handler cfg (SET_STATE_HSM s m) s HSM_EMPTY_SIG = Some (EVT_STATUS_SUPER, ?m)"
    using super_chain_call(1) [OF Cons.prems(1)] by (simp add: SET_STATE_HSM_def)
  have "hsm_climb True cfg tp ?m ((pre @ [s]) @ post') (int (length (pre @ [s])) - 1) =
      Some (?m\<lparr>next_state := tp, bound := (\<lambda>q. bound ?m q \<or> q \<in> set ss)\<rparr>,
        (pre @ [s]) @ ss @ drop (length ss) post', int (length (pre @ [s]) + length ss) - 1)"
    using Cons.prems post by (intro Cons.IH) simp_all
  moreover have "(\<lambda>q. bound ?m q \<or> q \<in> set ss) = (\<lambda>q. bound m q \<or> q \<in> set (s # ss))"
    by (auto simp: SET_STATE_HSM_def)
  ultimately show ?case
    using Cons.prems call post by (subst hsm_climb.simps) (simp add: array_set_append SET_STATE_HSM_def)
qed

lemma hsm_climb_overflow:
  assumes "super_chain cfg tp ss" "next_state m = super_of tp ss" "length post < length ss"
  shows "hsm_climb True cfg tp m (pre @ post) (int (length pre) - 1) = None"
  using assms
proof (induction ss arbitrary: m pre post)
  case (Cons s ss)
  let ?m = "(SET_STATE_HSM s m)\<lparr>next_state := super_of tp ss\<rparr>"
  have call: "call_handler cfg (SET_STATE_HSM s m) s HSM_EMPTY_SIG = Some (EVT_STATUS_SUPER, ?m)"
    using super_chain_call(1) [OF Cons.prems(1)] by (simp add: SET_STATE_HSM_def)
  show ?case
  proof (cases post)
    case Nil
    then show ?thesis using Cons.prems by (subst hsm_climb.simps) (simp add: array_set_def)
  next
    case (Cons v post')
    then have "hsm_climb True cfg tp ?m ((pre @ [s]) @ post') (int (length (pre @ [s])) - 1) = None"
      using Cons.prems by (intro Cons.IH) simp_all
    then show ?thesis
      using Cons.prems Cons call by (subst hsm_climb.simps) (simp add: array_set_append)
  qed
qed simp

lemma hsm_enter_chain:
  assumes "super_chain cfg tp xs" "n \<le> length xs"
  shows "hsm_enter cfg m (xs @ post) n = Some (m\<lparr>trace := trace m @ map Enter (rev (take n xs))\<rparr>)"
  using assms(2)
proof (induction n arbitrary: m)
  case (Suc n)
  have "super_chain cfg tp (drop n xs)" using assms(1) by (induction xs arbitrary: n) (auto simp: drop_Cons split: nat.splits)
  then have "super_chain cfg tp (xs ! n # drop (Suc n) xs)" using Suc.prems by (simp add: Cons_nth_drop_Suc)
  then have "call_entry cfg m (xs ! n) = Some (m\<lparr>trace := trace m @ [Enter (xs ! n)]\<rparr>)" by (rule super_chain_call(2))
  then show ?case
    using Suc by (simp add: nth_append take_Suc_conv_app_nth)
qed simp


section \<open>Dispatch\<close>

text \<open>A state that takes the event or passes it on to its superstate, without a transition.\<close>

fun quiet_chain :: "hsm_cfg \<Rightarrow> addr \<Rightarrow> int \<Rightarrow> addr list \<Rightarrow> bool" where
  "quiet_chain cfg tp sig [] = True"
| "quiet_chain cfg tp sig (s # ss) =
     ((case cfg s of None \<Rightarrow> False
       | Some st \<Rightarrow> handler st sig = (EVT_STATUS_HANDLED, None) \<or>
           handler st sig = (EVT_STATUS_SUPER, Some (super_of tp ss))) \<and>
      quiet_chain cfg tp sig ss)"

lemma dispatch_offer_quiet:
  assumes "cfg root = Some m_root_state" "super_chain cfg root ss" "quiet_chain cfg root sig ss"
    and "next_state m = super_of root ss" "list_all (bound m) ss"
  shows "dispatch_offer cfg m sig = Some (EVT_STATUS_IGNORED, m\<lparr>next_state := root\<rparr>, root)"
  using assms(2-5)
proof (induction ss arbitrary: m)
  case Nil
  have "call_handler cfg m root sig = Some (EVT_STATUS_IGNORED, m)"
    using assms(1) by (simp add: call_handler_def m_root_state_def hsm_root_handler_def)
  moreover have "m\<lparr>next_state := root\<rparr> = m" using Nil.prems(3) by simp
  ultimately show ?case
    using Nil.prems(3) by (subst dispatch_offer.simps) (simp add: evt_status)
next
  case (Cons s ss)
  let ?m = "m\<lparr>next_state := super_of root ss\<rparr>"
  have sup: "get_super_state cfg m s = Some (EVT_STATUS_SUPER, ?m)"
    using super_chain_call(1) [OF Cons.prems(1)] Cons.prems(4) by (simp add: get_super_state_def)
  have "call_handler cfg m s sig = Some (EVT_STATUS_HANDLED, m) \<or> call_handler cfg m s sig = Some (EVT_STATUS_SUPER, ?m)"
    using Cons.prems(2,4) by (auto simp: call_handler_def split: option.splits)
  moreover have "dispatch_offer cfg ?m sig = Some (EVT_STATUS_IGNORED, ?m\<lparr>next_state := root\<rparr>, root)"
    using Cons.prems by (intro Cons.IH) simp_all
  ultimately show ?case
    using Cons.prems(3) sup by (subst dispatch_offer.simps) (auto simp: EVT_STATUS_SUPER_def EVT_STATUS_HANDLED_def)
qed

text \<open>
  Climbing for a target that is not on the way: at the root \<open>next_state\<close> stays the root, and the loop
  ends only when the path array does.
\<close>

lemma hsm_climb_root:
  assumes "cfg root = Some m_root_state" "tp \<noteq> root" "next_state m = root"
  shows "hsm_climb False cfg tp m path ip = None"
  using assms(3)
proof (induction "nat (int (length path) - ip)" arbitrary: path ip rule: less_induct)
  case less
  have "call_handler cfg m root HSM_EMPTY_SIG = Some (EVT_STATUS_IGNORED, m)"
    using assms(1) by (simp add: call_handler_def m_root_state_def hsm_root_handler_def)
  then show ?case
    using assms(2) less by (subst hsm_climb.simps) (auto simp: mem_simps split: option.splits)
qed

lemma hsm_climb_unlinked:
  assumes "cfg root = Some m_root_state" "tp \<noteq> root" "super_chain cfg root ss" "tp \<notin> set ss"
    and "next_state m = super_of root ss"
  shows "hsm_climb False cfg tp m path ip = None"
  using assms(3-5)
proof (induction ss arbitrary: m path ip)
  case Nil
  then show ?case using hsm_climb_root [of cfg root tp m] assms(1,2) by simp
next
  case (Cons s ss)
  have "hsm_climb False cfg tp (m\<lparr>next_state := super_of root ss\<rparr>) path' ip' = None" for path' ip'
    using Cons.prems by (intro Cons.IH) simp_all
  then show ?case
    using Cons.prems super_chain_call(1) [OF Cons.prems(1), of m]
    by (subst hsm_climb.simps) (auto split: option.splits)
qed

lemma tran_supers_path:
  assumes "tran_supers cfg s status m path ip = Some (m', path', ip', found)" "0 \<le> ip"
  shows "array_get path' 0 = array_get path 0"
  using assms
proof (induction cfg s status m path ip rule: tran_supers.induct)
  case (1 cfg s status m path ip)
  from "1.prems" show ?case
    by (subst (asm) tran_supers.simps)
      (use "1.IH" "1.prems"(2) in \<open>fastforce simp: mem_simps array_get_def split: if_splits option.splits prod.splits\<close>)
qed

lemma hsm_tran_far_path:
  assumes "hsm_tran_far cfg m s tsup path = Some (ip, m', path')"
  shows "array_get path' 0 = array_get path 0"
proof -
  obtain path1 m3 m4 status ip4 found where 1: "array_set path 1 tsup = Some path1"
    and 2: "tran_supers cfg s status m3 path1 1 = Some (m4, path', ip4, found)"
    using assms unfolding hsm_tran_far_def Let_def
    by (auto simp: bind_eq_Some_conv split: if_splits option.splits)
  show ?thesis using tran_supers_path [OF 2] 1 by (auto simp: array_set_def array_get_def split: if_splits)
qed

lemma hsm_tran_path:
  assumes "hsm_tran cfg m path = Some (ip, m', path')"
  shows "array_get path' 0 = array_get path 0"
  using assms unfolding hsm_tran_def Let_def
  by (auto simp: bind_eq_Some_conv dest: hsm_tran_far_path split: if_splits)


section \<open>Properties\<close>

text \<open>
  C4: Start-up. For an initial state with at most four states between it and the root (itself
  included), \<open>hsm_init\<close> runs the entry actions from the outermost state to the initial one,
  each once, runs no exit action, and leaves the machine in the initial state with
  every state on the way tied to the machine.
\<close>

theorem hsm_init_enters_outermost_first:
  assumes "super_chain cfg get_root_state (s # ss)" and "length (s # ss) \<le> 4"
  shows "\<exists>m. hsm_init cfg s = Some m \<and> cur_state m = s \<and> next_state m = s \<and>
    trace m = map Enter (rev (s # ss)) \<and> list_all (bound m) (s # ss)"
proof -
  let ?m0 = "SET_STATE_HSM s (glb_hsm_ctor m_glb_hsm s)"
  let ?m1 = "?m0\<lparr>next_state := super_of get_root_state ss\<rparr>"
  have call: "call_handler cfg ?m0 s HSM_EMPTY_SIG = Some (EVT_STATUS_SUPER, ?m1)"
    using super_chain_call(1) [OF assms(1)] by (simp add: SET_STATE_HSM_def)
  have climb: "hsm_climb True cfg get_root_state ?m1 ([s] @ [NULL, NULL, NULL]) (int (length [s]) - 1) =
      Some (?m1\<lparr>next_state := get_root_state, bound := (\<lambda>q. bound ?m1 q \<or> q \<in> set ss)\<rparr>,
        [s] @ ss @ drop (length ss) [NULL, NULL, NULL], int (length [s] + length ss) - 1)"
    using assms by (intro hsm_climb_chain) simp_all
  have enter: "hsm_enter cfg m ((s # ss) @ post) (Suc (length ss)) = Some (m\<lparr>trace := trace m @ map Enter (rev (s # ss))\<rparr>)" for m post
    using hsm_enter_chain [OF assms(1), of "Suc (length ss)" m post] by simp
  have four: "replicate HSM_MAX_NEST_DEPTH NULL = [NULL, NULL, NULL, NULL]"
    by (simp add: HSM_MAX_NEST_DEPTH_def numeral_eq_Suc)
  show ?thesis
    using call climb enter [of _ "drop (length ss) [NULL, NULL, NULL]"]
    by (simp add: hsm_init_def glb_hsm_init_def four array_set_def glb_hsm_ctor_def m_glb_hsm_def SET_STATE_HSM_def list_all_iff
        del: hsm_enter.simps)
qed

theorem hsm_init_enters_outermost_first_witness:
  "\<exists>m. hsm_init level_cfg get_level3_state = Some m \<and> cur_state m = get_level3_state \<and> next_state m = get_level3_state \<and>
    trace m = [Enter get_level1_state, Enter get_level2_state, Enter get_level3_state] \<and>
    list_all (bound m) [get_level3_state, get_level2_state, get_level1_state]"
  using hsm_init_enters_outermost_first [of level_cfg get_level3_state "[get_level2_state, get_level1_state]"]
  by (simp add: level_defs)

text \<open>
  Start-up from a state nested deeper than \<open>HSM_MAX_NEST_DEPTH_\<close> writes behind the path array.
\<close>

theorem hsm_init_too_deep_undefined:
  assumes "super_chain cfg get_root_state (s # ss)" and "4 < length (s # ss)"
  shows "hsm_init cfg s = None"
proof -
  let ?m0 = "SET_STATE_HSM s (glb_hsm_ctor m_glb_hsm s)"
  let ?m1 = "?m0\<lparr>next_state := super_of get_root_state ss\<rparr>"
  have call: "call_handler cfg ?m0 s HSM_EMPTY_SIG = Some (EVT_STATUS_SUPER, ?m1)"
    using super_chain_call(1) [OF assms(1)] by (simp add: SET_STATE_HSM_def)
  have climb: "hsm_climb True cfg get_root_state ?m1 ([s] @ [NULL, NULL, NULL]) (int (length [s]) - 1) = None"
    using assms by (intro hsm_climb_overflow) (simp_all add: numeral_eq_Suc)
  have four: "replicate HSM_MAX_NEST_DEPTH NULL = [NULL, NULL, NULL, NULL]"
    by (simp add: HSM_MAX_NEST_DEPTH_def numeral_eq_Suc)
  show ?thesis
    using call climb
    by (simp add: hsm_init_def glb_hsm_init_def four array_set_def glb_hsm_ctor_def m_glb_hsm_def SET_STATE_HSM_def)
qed

text \<open>A state five levels below the root, for the witness.\<close>

definition nested_state :: "addr \<Rightarrow> super_state" where
  "nested_state p = \<lparr>on_entry = Some 0, on_exit = Some 0, handler = (\<lambda>_. (EVT_STATUS_SUPER, Some p))\<rparr>"

theorem hsm_init_too_deep_undefined_witness:
  "hsm_init [2 \<mapsto> nested_state get_root_state, 3 \<mapsto> nested_state 2, 4 \<mapsto> nested_state 3, 5 \<mapsto> nested_state 4, 6 \<mapsto> nested_state 5] 6 = None"
  by (rule hsm_init_too_deep_undefined [of _ _ "[5, 4, 3, 2]"]) (simp_all add: nested_state_def get_root_state_def)

text \<open>
  C27: Dispatching an event that the states handle or pass on, without a transition, takes the
  machine out of its state: a handled event is offered to the superstate as well, and whatever
  the nesting, the machine ends in the root state, with no exit action run. The root
  ignores every further event.
\<close>

theorem glb_hsm_dispatch_ends_in_root:
  assumes "cfg root = Some m_root_state" and "super_chain cfg root ss" and "quiet_chain cfg root sig ss"
    and "next_state m = super_of root ss" and "list_all (bound m) ss"
  shows "\<exists>m'. glb_hsm_dispatch cfg m sig = Some m' \<and> cur_state m' = root \<and> next_state m' = root \<and> trace m' = trace m \<and>
    glb_hsm_dispatch cfg m' sig' = Some m'"
proof -
  let ?m = "m\<lparr>next_state := root\<rparr>" and ?r = "m\<lparr>cur_state := root, next_state := root\<rparr>"
  have "glb_hsm_dispatch cfg m sig = Some (?m\<lparr>cur_state := root, next_state := root\<rparr>)"
    using dispatch_offer_quiet [of cfg root ss sig m] assms by (simp add: glb_hsm_dispatch_def evt_status)
  moreover have "glb_hsm_dispatch cfg ?r sig' = Some ?r"
    using dispatch_offer_quiet [of cfg root "[]" sig' ?r] assms(1) by (simp add: glb_hsm_dispatch_def evt_status)
  ultimately show ?thesis by simp
qed

definition level3_machine :: glb_hsm where
  "level3_machine = \<lparr>cur_state = get_level3_state, next_state = get_level3_state,
     bound = (\<lambda>s. s \<in> {get_level1_state, get_level2_state, get_level3_state}), trace = []\<rparr>"

theorem glb_hsm_dispatch_ends_in_root_witness:
  "\<exists>m'. glb_hsm_dispatch level_cfg level3_machine LEVEL_START_SIG = Some m' \<and>
    cur_state m' = get_root_state \<and> next_state m' = get_root_state \<and> trace m' = [] \<and>
    glb_hsm_dispatch level_cfg m' LEVEL_STOP_SIG = Some m'"
  using glb_hsm_dispatch_ends_in_root [of level_cfg get_root_state "[get_level3_state, get_level2_state, get_level1_state]"
      LEVEL_START_SIG level3_machine LEVEL_STOP_SIG]
  by (simp add: level_defs level3_machine_def)

text \<open>
  Dispatching a transition to a state below the root never completes: after the transition the
  code looks for the target among its own superstates, and the loop runs over the end of the path
  array.
\<close>

theorem glb_hsm_dispatch_transition_undefined:
  assumes "cfg root = Some m_root_state" and "super_chain cfg root (t # ts)" and "t \<notin> set ts"
    and "cfg (next_state m) = Some st" and "handler st sig = (EVT_STATUS_TRAN, Some t)"
  shows "glb_hsm_dispatch cfg m sig = None"
proof -
  have offer: "dispatch_offer cfg m sig = None \<or>
      (\<exists>m1. dispatch_offer cfg m sig = Some (EVT_STATUS_TRAN, m1, next_state m) \<and> next_state m1 = t)"
    using assms(4,5) by (subst (1 2) dispatch_offer.simps) (auto simp: call_handler_def evt_status Let_def)
  have climb: "hsm_climb False cfg t m5 path 0 = None" if "get_super_state cfg m4 t = Some (r, m5)" for m4 m5 r path
  proof -
    have "next_state m5 = super_of root ts"
      using that super_chain_call(1) [OF assms(2), of m4] by (auto simp: get_super_state_def split: if_splits)
    moreover have "t \<noteq> root" "super_chain cfg root ts" using assms(2) by simp_all
    ultimately show ?thesis using hsm_climb_unlinked [of cfg root t ts m5 path 0] assms(1,3) by simp
  qed
  have path0: "array_get path 0 = Some t" if "hsm_tran cfg m2 [t, s, c, NULL] = Some (ip, m3, path)" for m2 s c ip m3 path
    using hsm_tran_path [OF that] by (simp add: array_get_def)
  show ?thesis
  proof (rule ccontr)
    assume "glb_hsm_dispatch cfg m sig \<noteq> None"
    then obtain m' where m': "glb_hsm_dispatch cfg m sig = Some m'" by blast
    then obtain m1 where "dispatch_offer cfg m sig = Some (EVT_STATUS_TRAN, m1, next_state m)" "next_state m1 = t"
      using offer by (auto simp: glb_hsm_dispatch_def)
    then obtain m2 ip m3 path m4 r m5 q where "hsm_tran cfg m2 [t, next_state m, cur_state m, NULL] = Some (ip, m3, path)"
      "array_get path 0 = Some q" "get_super_state cfg m4 q = Some (r, m5)" "hsm_climb False cfg q m5 path 0 \<noteq> None"
      using m' unfolding glb_hsm_dispatch_def Let_def
      by (auto simp: bind_eq_Some_conv simp del: hsm_enter.simps)
    then show False using path0 climb by (metis option.inject)
  qed
qed

text \<open>A state that starts a transition on signal 1.\<close>

definition tran_state :: "addr \<Rightarrow> addr \<Rightarrow> super_state" where
  "tran_state p t = \<lparr>on_entry = Some 0, on_exit = Some EVT_STATUS_HANDLED,
     handler = (\<lambda>sig. if sig = 1 then (EVT_STATUS_TRAN, Some t) else (EVT_STATUS_SUPER, Some p))\<rparr>"

theorem glb_hsm_dispatch_transition_undefined_witness:
  "glb_hsm_dispatch [1 \<mapsto> m_root_state, 2 \<mapsto> tran_state 1 3, 3 \<mapsto> nested_state 1]
     \<lparr>cur_state = 2, next_state = 2, bound = (\<lambda>_. True), trace = []\<rparr> 1 = None"
  by (rule glb_hsm_dispatch_transition_undefined [where root = 1 and t = 3 and ts = "[]" and st = "tran_state 1 3"])
    (simp_all add: nested_state_def tran_state_def)

text \<open>
  \<open>hsm_tran\<close> for a target next to the source in the hierarchy, cases (a) to (d) of the code: for a
  self transition or siblings the source is left and the target is to be entered (result 0), from a
  state to its substate only the target is to be entered, from a substate to its superstate only
  the source is left (result -1). No other action runs.
\<close>

theorem hsm_tran_near:
  assumes "cfg t = Some tst" and "handler tst HSM_EMPTY_SIG = (EVT_STATUS_SUPER, Some p)" and "bound m t"
    and "cfg s = Some sst" and "handler sst HSM_EMPTY_SIG = (EVT_STATUS_SUPER, Some q)" and "bound m s"
    and "on_exit sst \<noteq> None" and "s = t \<or> s = p \<or> q = p \<or> q = t"
  shows "\<exists>ip m'. hsm_tran cfg m [t, x, s, y] = Some (ip, m', [t, x, s, y]) \<and>
    trace m' = trace m @ (if s \<noteq> t \<and> s = p then [] else [Exit s]) \<and>
    ip = (if s \<noteq> t \<and> s \<noteq> p \<and> q \<noteq> p then - 1 else 0)"
  using assms
  by (auto simp: hsm_tran_def array_get_def get_super_state_def call_handler_def call_exit_def Let_def nth_Cons')

theorem hsm_tran_near_witness:
  "\<exists>ip m'. hsm_tran level_cfg level3_machine [get_level2_state, NULL, get_level3_state, NULL] =
      Some (ip, m', [get_level2_state, NULL, get_level3_state, NULL]) \<and>
    trace m' = [Exit get_level3_state] \<and> ip = - 1"
  using hsm_tran_near [of level_cfg get_level2_state "level_state level2_msg_handler" get_level1_state level3_machine
      get_level3_state "level_state level3_msg_handler" get_level2_state NULL NULL]
  by (simp add: level_defs level3_machine_def)

end
