(* ===== verification/Serial.thy ===== *)
theory Serial
  imports C_Prelude
begin

text \<open>
  \<^verbatim>\<open>linux/serial/basic_serial.c\<close>: the line settings of a serial port. The settings are the struct
  \<open>termios\<close> with the flag words as \<^typ>\<open>32 word\<close> and the two speeds and the two control characters
  the code sets as fields of their own; the flag bits are those of Linux. The terminal driver is a
  map from the file descriptors of open terminals to their settings: \<open>tcgetattr\<close> and \<open>tcsetattr\<close>
  fail for a descriptor that is not in it. Whether \<open>tcsetattr\<close> accepts the settings of an open
  terminal is an argument. \<open>tcflush\<close>, which discards bytes in transit, does not touch the settings.
\<close>

section \<open>termios\<close>

record termios =
  c_iflag :: u32
  c_oflag :: u32
  c_cflag :: u32
  c_lflag :: u32
  c_ispeed :: int
  c_ospeed :: int
  c_vtime :: u8
  c_vmin :: u8

definition CSIZE :: u32 where "CSIZE = 0x30"
definition CS5 :: u32 where "CS5 = 0x00"
definition CS6 :: u32 where "CS6 = 0x10"
definition CS7 :: u32 where "CS7 = 0x20"
definition CS8 :: u32 where "CS8 = 0x30"
definition CSTOPB :: u32 where "CSTOPB = 0x40"
definition PARENB :: u32 where "PARENB = 0x100"
definition PARODD :: u32 where "PARODD = 0x200"
definition INPCK :: u32 where "INPCK = 0x10"

lemmas cflag_defs = CSIZE_def CS5_def CS6_def CS7_def CS8_def CSTOPB_def PARENB_def PARODD_def

text \<open>Raw mode, from the manual of \<open>cfmakeraw\<close>: the flag masks are IGNBRK to IXON, OPOST, and ECHO to IEXTEN.\<close>

definition cfmakeraw :: "termios \<Rightarrow> termios" where
  "cfmakeraw t = t\<lparr>c_iflag := c_iflag t AND NOT 0x5eb, c_oflag := c_oflag t AND NOT 0x1,
     c_lflag := c_lflag t AND NOT 0x804b, c_cflag := (c_cflag t AND NOT (CSIZE OR PARENB)) OR CS8\<rparr>"

definition cfsetispeed :: "termios \<Rightarrow> int \<Rightarrow> termios" where
  "cfsetispeed t b = t\<lparr>c_ispeed := b\<rparr>"

definition cfsetospeed :: "termios \<Rightarrow> int \<Rightarrow> termios" where
  "cfsetospeed t b = t\<lparr>c_ospeed := b\<rparr>"

type_synonym ttys = "int \<Rightarrow> termios option"

definition tcsetattr :: "bool \<Rightarrow> ttys \<Rightarrow> int \<Rightarrow> termios \<Rightarrow> int \<times> ttys" where
  "tcsetattr accepted w fd t = (if w fd \<noteq> None \<and> accepted then (0, w(fd := Some t)) else (- 1, w))"


section \<open>The code\<close>

text \<open>The speeds with the codes Linux gives the constants \<open>B115200\<close> to \<open>B460800\<close>, in the order of the table.\<close>

definition m_map_table :: "(int \<times> int) list" where
  "m_map_table =
     [(115200, 0x1002), (110, 3), (134, 4), (150, 5), (200, 6), (300, 7), (600, 8), (1200, 9), (1800, 10),
      (2400, 11), (4800, 12), (9600, 13), (19200, 14), (38400, 15), (57600, 0x1001), (230400, 0x1003),
      (460800, 0x1004)]"

fun baud_loop :: "(int \<times> int) list \<Rightarrow> int \<Rightarrow> int" where
  "baud_loop [] speed = - 1"
| "baud_loop ((s, b) # rest) speed = (if s \<noteq> speed then baud_loop rest speed else b)"

definition get_baudrate :: "int \<Rightarrow> int" where
  "get_baudrate speed = baud_loop m_map_table speed"

definition set_data_bits :: "termios \<Rightarrow> int \<Rightarrow> termios" where
  "set_data_bits t data_bits = t\<lparr>c_cflag := c_cflag t OR
     (if data_bits = 5 then CS5 else if data_bits = 6 then CS6 else if data_bits = 7 then CS7 else CS8)\<rparr>"

text \<open>The character decides; every other character than the eight of the cases means no parity.\<close>

definition set_parity :: "termios \<Rightarrow> char \<Rightarrow> termios" where
  "set_parity t parity =
     (if parity \<in> {CHR ''o'', CHR ''O''}
      then t\<lparr>c_cflag := (c_cflag t OR PARENB) OR PARODD, c_iflag := c_iflag t OR INPCK\<rparr>
      else if parity \<in> {CHR ''e'', CHR ''E''}
      then t\<lparr>c_cflag := (c_cflag t OR PARENB) AND NOT PARODD, c_iflag := c_iflag t OR INPCK\<rparr>
      else if parity \<in> {CHR ''s'', CHR ''S''}
      then t\<lparr>c_cflag := (c_cflag t AND NOT PARENB) AND NOT CSTOPB, c_iflag := c_iflag t OR INPCK\<rparr>
      else t\<lparr>c_cflag := c_cflag t AND NOT PARENB, c_iflag := c_iflag t AND NOT INPCK\<rparr>)"

definition set_stop_bits :: "termios \<Rightarrow> int \<Rightarrow> termios" where
  "set_stop_bits t stop_bits =
     (if stop_bits = 2 then t\<lparr>c_cflag := c_cflag t OR CSTOPB\<rparr> else t\<lparr>c_cflag := c_cflag t AND NOT CSTOPB\<rparr>)"

text \<open>
  \<open>serial_set_speed\<close> does not look at the result of \<open>tcgetattr\<close>: when it fails the settings are
  whatever the stack held, the argument \<open>junk\<close>.
\<close>

definition serial_set_speed :: "bool \<Rightarrow> termios \<Rightarrow> ttys \<Rightarrow> int \<Rightarrow> int \<Rightarrow> int \<times> ttys" where
  "serial_set_speed accepted junk w fd speed =
     (let baudrate = get_baudrate speed in
      if baudrate < 0 then (- 1, w)
      else
        (let opt = (case w fd of Some t \<Rightarrow> t | None \<Rightarrow> junk);
             opt = cfsetospeed (cfsetispeed opt baudrate) baudrate;
             (ret, w') = tcsetattr accepted w fd opt
         in if ret < 0 then (- 1, w') else (0, w')))"

definition serial_set_databits :: "bool \<Rightarrow> ttys \<Rightarrow> int \<Rightarrow> int \<Rightarrow> int \<times> ttys" where
  "serial_set_databits accepted w fd data_bits = (case w fd of
     None \<Rightarrow> (- 1, w)
   | Some t \<Rightarrow>
       (let (ret, w') = tcsetattr accepted w fd (set_data_bits t data_bits)
        in if ret \<noteq> 0 then (- 1, w') else (0, w')))"

definition serial_set_conf :: "bool \<Rightarrow> ttys \<Rightarrow> int \<Rightarrow> int \<Rightarrow> int \<Rightarrow> int \<Rightarrow> char \<Rightarrow> int \<times> ttys" where
  "serial_set_conf accepted w fd speed data_bits stop_bits parity =
     (let baudrate = get_baudrate speed in
      if baudrate < 0 then (- 1, w)
      else (case w fd of
        None \<Rightarrow> (- 1, w)
      | Some t \<Rightarrow>
          (let t = cfmakeraw t;
               t = cfsetospeed (cfsetispeed t baudrate) baudrate;
               t = set_parity (set_stop_bits (set_data_bits t data_bits) stop_bits) parity;
               t = t\<lparr>c_vtime := 150, c_vmin := 0\<rparr>;
               (ret, w') = tcsetattr accepted w fd t
           in if ret \<noteq> 0 then (- 1, w') else (0, w'))))"

text \<open>\<open>open\<close> gives a descriptor and the settings of the device behind it, or a negative number.\<close>

definition serial_open :: "int \<Rightarrow> termios \<Rightarrow> ttys \<Rightarrow> int \<times> ttys" where
  "serial_open opened t w = (if opened < 0 then (- 1, w) else (opened, w(opened := Some t)))"

definition serial_close :: "ttys \<Rightarrow> int \<Rightarrow> int \<times> ttys" where
  "serial_close w fd =
     (if fd < 0 then (0, w) else if w fd = None then (- 1, w) else (0, w(fd := None)))"


section \<open>Properties\<close>

lemma get_baudrate_iff:
  "get_baudrate speed < 0 \<longleftrightarrow> speed \<notin> fst ` set m_map_table"
  "(speed, b) \<in> set m_map_table \<Longrightarrow> get_baudrate speed = b"
  by (auto simp: get_baudrate_def m_map_table_def)

text \<open>The character size after \<open>cfmakeraw\<close> and \<open>set_data_bits\<close> is that of \<open>cfmakeraw\<close>: eight bits.\<close>

lemma raw_char_size: "c_cflag (set_data_bits (cfmakeraw t) n) AND CSIZE = CS8"
proof -
  have "CS8 = CSIZE" by (simp add: cflag_defs)
  then show ?thesis
    by (intro bit_word_eqI) (auto simp: set_data_bits_def cfmakeraw_def bit_or_iff bit_and_iff)
qed

text \<open>The flags of stop bits and parity lie outside the character size.\<close>

lemma mask_keep:
  fixes m k x :: u32
  assumes "m AND k = 0"
  shows "(x OR m) AND k = x AND k" "(x AND NOT m) AND k = x AND k"
proof -
  have "\<not> (bit m n \<and> bit k n)" for n using assms by (metis bit_0_eq bit_and_iff bot_apply bot_bool_def)
  then show "(x OR m) AND k = x AND k" "(x AND NOT m) AND k = x AND k"
    by (auto intro!: bit_word_eqI simp: bit_or_iff bit_and_iff bit_not_iff)
qed

lemma CSIZE_disjoint: "CSTOPB AND CSIZE = 0" "PARENB AND CSIZE = 0" "PARODD AND CSIZE = 0"
  by (simp_all add: cflag_defs)

lemma stop_parity_char_size:
  "c_cflag (set_parity (set_stop_bits t n) c) AND CSIZE = c_cflag t AND CSIZE"
  by (simp add: set_parity_def set_stop_bits_def mask_keep [OF CSIZE_disjoint(1)] mask_keep [OF CSIZE_disjoint(2)]
      mask_keep [OF CSIZE_disjoint(3)])

lemma cflag_bits:
  "bit CSTOPB 6" "\<not> bit PARENB 6" "\<not> bit PARODD 6" "\<not> bit CSTOPB 8" "bit PARENB 8" "\<not> bit PARODD 8"
  "\<not> bit CSTOPB 9" "\<not> bit PARENB 9" "bit PARODD 9" "\<not> bit CSIZE 8" "\<not> bit CS5 8" "\<not> bit CS6 8" "\<not> bit CS7 8" "\<not> bit CS8 8"
  unfolding cflag_defs by (simp_all add: bit_numeral_rec)

lemma iflag_bit: "bit INPCK 4" unfolding INPCK_def by (simp add: bit_numeral_rec)

text \<open>
  What \<open>serial_set_conf\<close> leaves in the driver for a supported speed on an open terminal: both
  speeds, the stop bits, the parity bits and the input parity check are as the arguments say, and
  the read timeout is set. The character size is eight bits whatever number of data bits was asked
  for, since the bits are added to the eight-bit setting of raw mode without clearing it.
\<close>

theorem serial_set_conf_result:
  assumes "w fd = Some t" and "(speed, b) \<in> set m_map_table"
  shows "\<exists>w' t'. serial_set_conf True w fd speed data_bits stop_bits parity = (0, w') \<and> w' fd = Some t' \<and>
    (\<forall>g. g \<noteq> fd \<longrightarrow> w' g = w g) \<and>
    c_ispeed t' = b \<and> c_ospeed t' = b \<and> c_vtime t' = 150 \<and> c_vmin t' = 0 \<and>
    c_cflag t' AND CSIZE = CS8 \<and>
    (bit (c_cflag t') 6 \<longleftrightarrow> stop_bits = 2 \<and> parity \<notin> {CHR ''s'', CHR ''S''}) \<and>
    (bit (c_cflag t') 8 \<longleftrightarrow> parity \<in> {CHR ''o'', CHR ''O'', CHR ''e'', CHR ''E''}) \<and>
    (bit (c_iflag t') 4 \<longleftrightarrow> parity \<in> {CHR ''o'', CHR ''O'', CHR ''e'', CHR ''E'', CHR ''s'', CHR ''S''}) \<and>
    (parity \<in> {CHR ''o'', CHR ''O''} \<longrightarrow> bit (c_cflag t') 9) \<and>
    (parity \<in> {CHR ''e'', CHR ''E''} \<longrightarrow> \<not> bit (c_cflag t') 9)"
proof -
  have b: "get_baudrate speed = b" "\<not> b < 0"
    using get_baudrate_iff(2) [OF assms(2)] assms(2) by (auto simp: m_map_table_def)
  let ?t1 = "cfsetospeed (cfsetispeed (cfmakeraw t) b) b"
  let ?t2 = "set_parity (set_stop_bits (set_data_bits ?t1 data_bits) stop_bits) parity"
  let ?t = "?t2\<lparr>c_vtime := 150, c_vmin := 0\<rparr>"
  have run: "serial_set_conf True w fd speed data_bits stop_bits parity = (0, w(fd := Some ?t))"
    using assms(1) b by (simp add: serial_set_conf_def tcsetattr_def)
  have same: "set_data_bits (t'\<lparr>c_ispeed := x, c_ospeed := y\<rparr>) n = (set_data_bits t' n)\<lparr>c_ispeed := x, c_ospeed := y\<rparr>" for t' n x y
    by (simp add: set_data_bits_def)
  have size: "c_cflag ?t AND CSIZE = CS8"
    using stop_parity_char_size [of "set_data_bits ?t1 data_bits"] raw_char_size [of t data_bits]
    by (simp add: same cfsetispeed_def cfsetospeed_def)
  have speeds: "c_ispeed ?t = b" "c_ospeed ?t = b"
    by (simp_all add: set_parity_def set_stop_bits_def set_data_bits_def cfsetispeed_def cfsetospeed_def)
  have bits: "bit (c_cflag ?t) 6 \<longleftrightarrow> stop_bits = 2 \<and> parity \<notin> {CHR ''s'', CHR ''S''}"
    "bit (c_cflag ?t) 8 \<longleftrightarrow> parity \<in> {CHR ''o'', CHR ''O'', CHR ''e'', CHR ''E''}"
    "parity \<in> {CHR ''o'', CHR ''O''} \<longrightarrow> bit (c_cflag ?t) 9" "parity \<in> {CHR ''e'', CHR ''E''} \<longrightarrow> \<not> bit (c_cflag ?t) 9"
    "bit (c_iflag ?t) 4 \<longleftrightarrow> parity \<in> {CHR ''o'', CHR ''O'', CHR ''e'', CHR ''E'', CHR ''s'', CHR ''S''}"
    by (auto simp: set_parity_def set_stop_bits_def set_data_bits_def cfsetispeed_def cfsetospeed_def cfmakeraw_def
        bit_or_iff bit_and_iff bit_not_iff cflag_bits iflag_bit)
  show ?thesis using run size speeds bits by (intro exI [of _ "w(fd := Some ?t)"] exI [of _ ?t]) simp
qed

definition demo_tty :: termios where
  "demo_tty = \<lparr>c_iflag = 0, c_oflag = 0, c_cflag = 0, c_lflag = 0, c_ispeed = 13, c_ospeed = 13, c_vtime = 0, c_vmin = 1\<rparr>"

theorem serial_set_conf_result_witness:
  "\<exists>w' t'. serial_set_conf True [3 \<mapsto> demo_tty] 3 115200 7 1 (CHR ''e'') = (0, w') \<and> w' 3 = Some t' \<and>
    c_ispeed t' = 0x1002 \<and> c_cflag t' AND CSIZE = CS8 \<and> bit (c_cflag t') 8 \<and> \<not> bit (c_cflag t') 9"
  using serial_set_conf_result [where w = "[3 \<mapsto> demo_tty]" and fd = 3 and t = demo_tty and speed = 115200 and b = "0x1002"
      and data_bits = 7 and stop_bits = 1 and parity = "CHR ''e''"]
  by (auto simp: m_map_table_def)

end
