(* ===== verification/Time_Utils.thy ===== *)
theory Time_Utils
  imports C_Prelude
begin

text \<open>
  \<^verbatim>\<open>linux/utils/src/time_utils.c\<close> and the inline functions of \<^verbatim>\<open>linux/utils/include/time_utils.h\<close>: readings of
  the clocks in several units. The argument of a reading is what the system call stores; seconds
  and nanoseconds are 64-bit signed integers, whose overflow is \<^const>\<open>None\<close>, and the results are
  unsigned 64-bit words.
\<close>

section \<open>The code\<close>

record timespec =
  tv_sec :: int
  tv_nsec :: int

record timeval =
  tvl_sec :: int
  tvl_usec :: int

definition clong :: "int \<Rightarrow> int option" where
  "clong x = (if - 0x8000000000000000 \<le> x \<and> x < 0x8000000000000000 then Some x else None)"

definition get_sys_time_ns :: "timespec \<Rightarrow> u64" where
  "get_sys_time_ns ts = of_int (tv_sec ts) * 1000000000 + of_int (tv_nsec ts)"

definition get_sys_time_us :: "timespec \<Rightarrow> u64" where
  "get_sys_time_us ts = get_sys_time_ns ts div 1000"

definition get_sys_time_ms :: "timespec \<Rightarrow> u64" where
  "get_sys_time_ms ts = get_sys_time_us ts div 1000"

definition get_current_time_us :: "timeval \<Rightarrow> u64" where
  "get_current_time_us tv = of_int (tvl_sec tv) * 1000000 + of_int (tvl_usec tv)"

text \<open>The inline functions compute in signed integers; C division truncates, and the nanoseconds are not negative.\<close>

definition get_time_ns :: "timespec \<Rightarrow> u64 option" where
  "get_time_ns ts = do { a \<leftarrow> clong (tv_sec ts * 1000000000); b \<leftarrow> clong (a + tv_nsec ts); Some (of_int b) }"

definition get_time_us :: "timespec \<Rightarrow> u64 option" where
  "get_time_us ts = do { a \<leftarrow> clong (tv_sec ts * 1000000); b \<leftarrow> clong (a + tv_nsec ts div 1000); Some (of_int b) }"

definition get_time :: "timespec \<Rightarrow> u64 option" where
  "get_time ts = do { a \<leftarrow> clong (tv_sec ts * 1000); b \<leftarrow> clong (a + tv_nsec ts div 1000000); Some (of_int b) }"

definition iclock :: "timespec \<Rightarrow> u32 option" where
  "iclock ts = do { t \<leftarrow> get_time ts; Some (ucast (t AND 0xffffffff)) }"

text \<open>\<open>settimeofday\<close> is the result of that call for the given time; the state is the time of day.\<close>

definition set_time :: "(timeval \<Rightarrow> int) \<Rightarrow> u64 \<Rightarrow> timeval \<Rightarrow> int \<times> timeval" where
  "set_time settimeofday milliseconds clock =
     (let tv = \<lparr>tvl_sec = sint (milliseconds div 1000), tvl_usec = sint ((milliseconds mod 1000) * 1000)\<rparr>;
          ret = settimeofday tv
      in (ret, if ret = 0 then tv else clock))"

definition getCurrentTime :: "timeval \<Rightarrow> u64" where
  "getCurrentTime tv = of_int (tvl_sec tv) * 1000000 + of_int (tvl_usec tv)"


section \<open>Properties\<close>

text \<open>A time a monotonic clock shows, less than \<open>2 ^ 63\<close> nanoseconds after its start.\<close>

definition clock_time :: "timespec \<Rightarrow> bool" where
  "clock_time ts \<longleftrightarrow> 0 \<le> tv_sec ts \<and> 0 \<le> tv_nsec ts \<and> tv_nsec ts < 1000000000 \<and> tv_sec ts \<le> 9223372035"

definition ns_of :: "timespec \<Rightarrow> int" where
  "ns_of ts = tv_sec ts * 1000000000 + tv_nsec ts"

lemma clock_time_ns: "clock_time ts \<Longrightarrow> 0 \<le> ns_of ts \<and> ns_of ts < 0x8000000000000000"
  by (auto simp: clock_time_def ns_of_def)

lemma uint_of_int_u64: "0 \<le> x \<Longrightarrow> x < 0x10000000000000000 \<Longrightarrow> uint (of_int x :: u64) = x"
  by (simp add: unsigned_of_int take_bit_int_eq_self)

lemma div_of_int_u64:
  assumes "0 \<le> x" "x < 0x8000000000000000" "0 < d" "d < 0x8000000000000000"
  shows "(of_int x :: u64) div of_int d = of_int (x div d)"
proof -
  have "uint ((of_int x :: u64) div of_int d) = x div d"
    using assms by (simp add: uint_div_distrib uint_of_int_u64)
  then show ?thesis by (metis word_of_int_uint)
qed

lemma get_sys_time_eq:
  assumes "clock_time ts"
  shows "get_sys_time_ns ts = of_int (ns_of ts)" "get_sys_time_us ts = of_int (ns_of ts div 1000)"
    "get_sys_time_ms ts = of_int (ns_of ts div 1000000)"
proof -
  note n = clock_time_ns [OF assms]
  show 1: "get_sys_time_ns ts = of_int (ns_of ts)" by (simp add: get_sys_time_ns_def ns_of_def)
  show 2: "get_sys_time_us ts = of_int (ns_of ts div 1000)"
    using div_of_int_u64 [of "ns_of ts" 1000] n by (simp add: get_sys_time_us_def 1)
  have "ns_of ts div 1000 < 0x8000000000000000" "0 \<le> ns_of ts div 1000" using n by linarith+
  then show "get_sys_time_ms ts = of_int (ns_of ts div 1000000)"
    using div_of_int_u64 [of "ns_of ts div 1000" 1000] by (simp add: get_sys_time_ms_def 2 zdiv_zmult2_eq [symmetric])
qed

lemma ns_of_div:
  "ns_of ts div 1000 = tv_sec ts * 1000000 + tv_nsec ts div 1000"
  "ns_of ts div 1000000 = tv_sec ts * 1000 + tv_nsec ts div 1000000"
  using div_mult_self3 [of 1000 "tv_sec ts * 1000000" "tv_nsec ts"] div_mult_self3 [of 1000000 "tv_sec ts * 1000" "tv_nsec ts"]
  by (simp_all add: ns_of_def)

lemma get_time_eq:
  assumes "clock_time ts"
  shows "get_time_ns ts = Some (of_int (ns_of ts))" "get_time_us ts = Some (of_int (ns_of ts div 1000))"
    "get_time ts = Some (of_int (ns_of ts div 1000000))"
proof -
  have "0 \<le> tv_nsec ts div 1000" "tv_nsec ts div 1000 < 1000000" "0 \<le> tv_nsec ts div 1000000" "tv_nsec ts div 1000000 < 1000"
    using assms by (auto simp: clock_time_def)
  then show "get_time_ns ts = Some (of_int (ns_of ts))" "get_time_us ts = Some (of_int (ns_of ts div 1000))"
    "get_time ts = Some (of_int (ns_of ts div 1000000))"
    using assms unfolding ns_of_div
    by (auto simp: get_time_ns_def get_time_us_def get_time_def clong_def clock_time_def ns_of_def)
qed

text \<open>
  The two families of readings. For every time within \<open>2 ^ 63\<close> nanoseconds the unsigned functions of
  \<^verbatim>\<open>time_utils.c\<close>, which divide a reading in nanoseconds, and the signed ones of the header, which convert the parts,
  give the same nanoseconds, microseconds and milliseconds, without overflow.
\<close>

theorem time_readings_agree:
  assumes "clock_time ts"
  shows "get_time_ns ts = Some (get_sys_time_ns ts) \<and> get_time_us ts = Some (get_sys_time_us ts) \<and>
    get_time ts = Some (get_sys_time_ms ts)"
  using get_time_eq [OF assms] get_sys_time_eq [OF assms] by simp

theorem time_readings_agree_witness:
  "get_time \<lparr>tv_sec = 9223372035, tv_nsec = 999999999\<rparr> = Some (get_sys_time_ms \<lparr>tv_sec = 9223372035, tv_nsec = 999999999\<rparr>)"
  using time_readings_agree [of "\<lparr>tv_sec = 9223372035, tv_nsec = 999999999\<rparr>"] by (simp add: clock_time_def)

lemma ucast_low_word: "(ucast (of_int x AND 0xffffffff :: u64) :: u32) = of_int x"
proof -
  have "(of_int x AND 0xffffffff :: u64) = take_bit 32 (of_int x)" by (simp add: take_bit_eq_mask mask_eq_exp_minus_1)
  then show ?thesis by (intro bit_word_eqI) (simp add: bit_simps)
qed

lemma iclock_eq:
  assumes "clock_time ts"
  shows "iclock ts = Some (of_int (ns_of ts div 1000000))"
  using get_time_eq(3) [OF assms] ucast_low_word [of "ns_of ts div 1000000"] by (simp add: iclock_def)

text \<open>
  The 32-bit clock wraps around every \<open>2 ^ 32\<close> milliseconds, but the unsigned difference of two readings is the number
  of milliseconds between them as long as that is less than \<open>2 ^ 32\<close>, also when the clock wrapped in between.
\<close>

theorem iclock_elapsed:
  assumes "clock_time ts" and "clock_time ts'" and "0 \<le> ms" and "ms < 0x100000000"
    and "ns_of ts' div 1000000 = ns_of ts div 1000000 + ms"
  shows "\<exists>a b. iclock ts = Some a \<and> iclock ts' = Some b \<and> uint (b - a) = ms"
proof -
  have "(of_int (ns_of ts div 1000000 + ms) :: u32) - of_int (ns_of ts div 1000000) = of_int ms" by simp
  moreover have "uint (of_int ms :: u32) = ms" using assms(3,4) by (simp add: unsigned_of_int take_bit_int_eq_self)
  ultimately show ?thesis using iclock_eq [OF assms(1)] iclock_eq [OF assms(2)] assms(5) by simp
qed

theorem iclock_elapsed_witness:
  "\<exists>a b. iclock \<lparr>tv_sec = 4294967, tv_nsec = 295000000\<rparr> = Some a \<and> iclock \<lparr>tv_sec = 4294968, tv_nsec = 297000000\<rparr> = Some b \<and>
    uint (b - a) = 1002"
  using iclock_elapsed [of "\<lparr>tv_sec = 4294967, tv_nsec = 295000000\<rparr>" "\<lparr>tv_sec = 4294968, tv_nsec = 297000000\<rparr>" 1002]
  by (simp add: clock_time_def ns_of_def)

text \<open>Setting the time in milliseconds and reading it in microseconds; both readings of the time of day are one function.\<close>

lemma set_time_read_back:
  assumes "settimeofday \<lparr>tvl_sec = sint (ms div 1000), tvl_usec = sint ((ms mod 1000) * 1000)\<rparr> = 0"
  shows "\<exists>clock'. set_time settimeofday ms clock = (0, clock') \<and> getCurrentTime clock' = ms * 1000 \<and> get_current_time_us clock' = ms * 1000"
proof -
  have "ms div 1000 * 1000000 + ms mod 1000 * 1000 = (ms div 1000 * 1000 + ms mod 1000) * 1000" by (simp add: algebra_simps)
  then have "ms div 1000 * 1000000 + ms mod 1000 * 1000 = ms * 1000" by (simp only: word_mod_div_equality div_mult_mod_eq)
  then show ?thesis using assms by (simp add: set_time_def getCurrentTime_def get_current_time_us_def Let_def)
qed

end
