(* ===== verification/Serial_Test.thy ===== *)
theory Serial_Test
  imports Serial Time_Utils
begin

text \<open>
  \<^verbatim>\<open>linux/serial/test_basic_serial.c\<close>: a program that sends the time over a serial line, in frames with a checksum. The results of the system calls are
  arguments; the state has the terminals and the bytes written, and the clock is read once per round.
  What it prints is left out.
\<close>

section \<open>The code\<close>

record msg_set_tim =
  sfd :: u8
  tim_len :: u8
  cmd :: u8
  dat :: "u8 list"
  tim_sum :: u8
  eof :: u8

text \<open>The structure has no padding.\<close>

definition msg_image :: "msg_set_tim \<Rightarrow> u8 list" where
  "msg_image m = [sfd m, tim_len m, cmd m] @ dat m @ [tim_sum m, eof m]"

definition test_time_ns :: "timespec \<Rightarrow> u64" where
  "test_time_ns ts = of_int (tv_sec ts) * 1000000000 + of_int (tv_nsec ts)"

definition test_time_ms :: "timespec \<Rightarrow> u64" where
  "test_time_ms ts = test_time_ns ts div 1000000"

text \<open>One round: the data bytes and the sum are set from the time.\<close>

definition set_tim_round :: "timespec \<Rightarrow> msg_set_tim \<Rightarrow> msg_set_tim" where
  "set_tim_round ts set_tim =
     (let cur_time = ucast (test_time_ms ts AND 0xFFFFFFFF) :: u32;
          set_tim = set_tim\<lparr>dat := [ucast (cur_time AND 0xFF), ucast (drop_bit 8 cur_time AND 0xFF),
            ucast (drop_bit 16 cur_time AND 0xFF), ucast (drop_bit 24 cur_time AND 0xFF)]\<rparr>
      in set_tim\<lparr>tim_sum := tim_len set_tim + cmd set_tim + dat set_tim ! 0 + dat set_tim ! 1 + dat set_tim ! 2 + dat set_tim ! 3\<rparr>)"

fun set_tim_rounds :: "timespec list \<Rightarrow> msg_set_tim \<Rightarrow> u8 list \<Rightarrow> u8 list" where
  "set_tim_rounds [] set_tim out = out"
| "set_tim_rounds (ts # clock) set_tim out =
     (let set_tim = set_tim_round ts set_tim in set_tim_rounds clock set_tim (out @ msg_image set_tim))"

text \<open>
  The program for as many rounds of its endless loop as there are readings of the clock, with the results of \<open>open\<close> and of \<open>tcsetattr\<close>. \<open>junk\<close> is what the stack held. The result
  is \<^const>\<open>None\<close> when the program ended before the loop.
\<close>

definition serial_test_main ::
  "int \<Rightarrow> termios \<Rightarrow> bool \<Rightarrow> msg_set_tim \<Rightarrow> timespec list \<Rightarrow> string list \<Rightarrow> ttys \<Rightarrow> u8 list option \<times> ttys" where
  "serial_test_main opened t accepted junk clock argv w =
     (if length argv < 2 then (None, w)
      else
        (let (fd, w) = serial_open opened t w in
         if fd < 0 then (None, w)
         else
           (let (_, w) = serial_set_conf accepted w fd 115200 8 1 (CHR ''n'');
                set_tim = junk\<lparr>sfd := 0x55, tim_len := 4, cmd := 1, eof := 0xAA\<rparr>
            in (Some (set_tim_rounds clock set_tim []), w))))"


section \<open>The receiver\<close>

text \<open>What the comments of the structure ask of a frame, and the time in it.\<close>

definition tim_frame :: "u8 list \<Rightarrow> bool" where
  "tim_frame f \<longleftrightarrow> length f = 9 \<and> f ! 0 = 0x55 \<and> f ! 1 = 4 \<and> f ! 2 = 1 \<and> f ! 8 = 0xAA \<and> f ! 7 = f ! 1 + f ! 2 + f ! 3 + f ! 4 + f ! 5 + f ! 6"

definition tim_value :: "u8 list \<Rightarrow> u32" where
  "tim_value f = ucast (f ! 3) OR push_bit 8 (ucast (f ! 4)) OR push_bit 16 (ucast (f ! 5)) OR push_bit 24 (ucast (f ! 6))"

fun tim_decode :: "u8 list \<Rightarrow> u32 option list" where
  "tim_decode (a # b # c # d # e # f # g # h # i # rest) =
     (let x = [a, b, c, d, e, f, g, h, i] in (if tim_frame x then Some (tim_value x) else None) # tim_decode rest)"
| "tim_decode _ = []"

definition tim_msg :: "msg_set_tim \<Rightarrow> bool" where
  "tim_msg m \<longleftrightarrow> sfd m = 0x55 \<and> tim_len m = 4 \<and> cmd m = 1 \<and> eof m = 0xAA"

lemma bit_byte: "bit (ucast (ucast (drop_bit k x AND 0xFF) :: u8) :: u32) m \<longleftrightarrow> m < 8 \<and> bit (x :: u32) (k + m)"
  by (auto simp: mask_byte bit_simps)

lemma le_bytes: "ucast (ucast (x AND 0xFF) :: u8) OR push_bit 8 (ucast (ucast (drop_bit 8 x AND 0xFF) :: u8)) OR
    push_bit 16 (ucast (ucast (drop_bit 16 x AND 0xFF) :: u8)) OR push_bit 24 (ucast (ucast (drop_bit 24 x AND 0xFF) :: u8)) = (x :: u32)"
proof (rule bit_word_eqI)
  fix n :: nat assume "n < LENGTH(32)"
  then consider "n < 8" | m where "n = 8 + m" "m < 8" | m where "n = 16 + m" "m < 8" | m where "n = 24 + m" "m < 8"
  proof -
    assume "n < LENGTH(32)"
    then have "n < 8 \<or> n = 8 + (n - 8) \<and> n - 8 < 8 \<or> n = 16 + (n - 16) \<and> n - 16 < 8 \<or> n = 24 + (n - 24) \<and> n - 24 < 8" by (simp; linarith)
    then show thesis using that by blast
  qed
  then show "bit (ucast (ucast (x AND 0xFF) :: u8) OR push_bit 8 (ucast (ucast (drop_bit 8 x AND 0xFF) :: u8)) OR
    push_bit 16 (ucast (ucast (drop_bit 16 x AND 0xFF) :: u8)) OR push_bit 24 (ucast (ucast (drop_bit 24 x AND 0xFF) :: u8)) :: u32) n = bit x n"
    using bit_byte [of 0 x] by cases (simp_all add: bit_or_iff bit_push_bit_iff bit_byte)
qed

lemma test_time_ms_value:
  assumes "clock_time ts"
  shows "ucast (test_time_ms ts AND 0xFFFFFFFF) = (of_int (ns_of ts div 1000000) :: u32)"
proof -
  have "test_time_ms ts = of_int (ns_of ts div 1000000)"
    using div_of_int_u64 [of "ns_of ts" 1000000] clock_time_ns [OF assms] by (simp add: test_time_ms_def test_time_ns_def ns_of_def)
  then show ?thesis using ucast_low_word by simp
qed

lemma set_tim_round_frame:
  assumes "tim_msg m" "clock_time ts"
  shows "tim_msg (set_tim_round ts m)" and "tim_frame (msg_image (set_tim_round ts m))"
    and "tim_value (msg_image (set_tim_round ts m)) = of_int (ns_of ts div 1000000)"
proof -
  show "tim_msg (set_tim_round ts m)" using assms(1) by (simp add: tim_msg_def set_tim_round_def Let_def)
  show "tim_frame (msg_image (set_tim_round ts m))"
    using assms(1) by (simp add: tim_msg_def tim_frame_def msg_image_def set_tim_round_def Let_def)
  show "tim_value (msg_image (set_tim_round ts m)) = of_int (ns_of ts div 1000000)"
    using test_time_ms_value [OF assms(2)] le_bytes [of "of_int (ns_of ts div 1000000)"]
    by (simp add: tim_value_def msg_image_def set_tim_round_def Let_def)
qed

lemma tim_decode_frame:
  "length x = 9 \<Longrightarrow> tim_decode (x @ rest) = (if tim_frame x then Some (tim_value x) else None) # tim_decode rest"
  by (auto simp: numeral_eq_Suc length_Suc_conv)

text \<open>A frame in which one byte is different is not accepted.\<close>

lemma tim_frame_corrupt:
  assumes "tim_frame x" "i < 9" "b \<noteq> x ! i"
  shows "\<not> tim_frame (x[i := b])"
proof -
  have "i \<in> {0, 1, 2, 3, 4, 5, 6, 7, 8}" using assms(2) by auto
  then show ?thesis using assms(1,3) by (auto simp: tim_frame_def)
qed

lemma tim_decode_frames:
  assumes "\<forall>x\<in>set fs. tim_frame x"
  shows "tim_decode (concat fs) = map (\<lambda>x. Some (tim_value x)) fs"
  using assms by (induction fs) (simp_all add: tim_decode_frame tim_frame_def)

lemma tim_decode_corrupt:
  assumes "\<forall>x\<in>set fs. tim_frame x" "i < length (concat fs)" "b \<noteq> concat fs ! i"
  shows "tim_decode ((concat fs)[i := b]) = (map (\<lambda>x. Some (tim_value x)) fs)[i div 9 := None]"
  using assms
proof (induction fs arbitrary: i)
  case (Cons f fs)
  have len: "length f = 9" using Cons.prems(1) by (simp add: tim_frame_def)
  show ?case
  proof (cases "i < 9")
    case True
    then have "\<not> tim_frame (f[i := b])" using tim_frame_corrupt [of f i b] Cons.prems len by (simp add: nth_append)
    then show ?thesis
      using True len Cons.prems(1) tim_decode_frame [of "f[i := b]" "concat fs"] by (simp add: list_update_append tim_decode_frames)
  next
    case False
    then have "tim_decode ((concat fs)[i - 9 := b]) = (map (\<lambda>x. Some (tim_value x)) fs)[(i - 9) div 9 := None]"
      using Cons.prems len by (intro Cons.IH) (simp_all add: nth_append)
    moreover have "i div 9 = Suc ((i - 9) div 9)" using False by (simp add: le_div_geq)
    ultimately show ?thesis
      using False len Cons.prems(1) tim_decode_frame [OF len] by (simp add: list_update_append)
  qed
qed simp

lemma set_tim_rounds_frames:
  assumes "tim_msg m" "\<forall>ts\<in>set clock. clock_time ts"
  shows "\<exists>fs. set_tim_rounds clock m out = out @ concat fs \<and> (\<forall>x\<in>set fs. tim_frame x) \<and>
    map tim_value fs = map (\<lambda>ts. of_int (ns_of ts div 1000000)) clock"
  using assms
proof (induction clock arbitrary: m out)
  case (Cons ts clock)
  let ?m = "set_tim_round ts m"
  note r = set_tim_round_frame [OF Cons.prems(1), of ts]
  obtain fs where "set_tim_rounds clock ?m (out @ msg_image ?m) = (out @ msg_image ?m) @ concat fs" "\<forall>x\<in>set fs. tim_frame x"
      "map tim_value fs = map (\<lambda>ts. of_int (ns_of ts div 1000000)) clock"
    using Cons.IH [of ?m "out @ msg_image ?m"] r(1) Cons.prems(2) by auto
  then show ?case using r(2,3) Cons.prems(2) by (intro exI [of _ "msg_image ?m # fs"]) (simp add: Let_def)
qed simp

text \<open>
  C12: The time on the line. Whatever the structure held on the stack, the program sets the line to 115200 bits per second in both directions, with eight data
  bits, one stop bit and no parity; and what it writes reads back, frame by frame, as the milliseconds
  of the clock modulo 2^32; and when one byte of it arrives as another one, whichever that is, just
  the frame it is in is rejected, and all others read back as before.
\<close>

theorem set_tim_frames_readable:
  assumes "2 \<le> length argv" and "0 \<le> opened" and "\<forall>ts\<in>set clock. clock_time ts"
  shows "\<exists>out w' t'. serial_test_main opened t True junk clock argv w = (Some out, w') \<and> w' opened = Some t' \<and>
    c_ispeed t' = 0x1002 \<and> c_ospeed t' = 0x1002 \<and> c_cflag t' AND CSIZE = CS8 \<and> \<not> bit (c_cflag t') 6 \<and> \<not> bit (c_cflag t') 8 \<and>
    tim_decode out = map (\<lambda>ts. Some (of_int (ns_of ts div 1000000))) clock \<and>
    (\<forall>i b. i < length out \<and> b \<noteq> out ! i \<longrightarrow> tim_decode (out[i := b]) = (tim_decode out)[i div 9 := None])"
proof -
  let ?m = "junk\<lparr>sfd := 0x55, tim_len := 4, cmd := 1, eof := 0xAA\<rparr>"
  obtain fs where fs: "set_tim_rounds clock ?m [] = concat fs" "\<forall>x\<in>set fs. tim_frame x"
      "map tim_value fs = map (\<lambda>ts. of_int (ns_of ts div 1000000)) clock"
    using set_tim_rounds_frames [of ?m clock "[]"] assms(3) by (auto simp: tim_msg_def)
  have dec: "tim_decode (concat fs) = map (\<lambda>ts. Some (of_int (ns_of ts div 1000000))) clock"
    using tim_decode_frames [OF fs(2)] arg_cong [OF fs(3), of "map Some"] by (simp add: comp_def)
  have "tim_decode ((concat fs)[i := b]) = (tim_decode (concat fs))[i div 9 := None]" if "i < length (concat fs)" "b \<noteq> concat fs ! i" for i b
    using tim_decode_corrupt [OF fs(2) that] tim_decode_frames [OF fs(2)] by simp
  moreover obtain w' t' where "serial_set_conf True (w(opened := Some t)) opened 115200 8 1 (CHR ''n'') = (0, w')" "w' opened = Some t'"
      "c_ispeed t' = 0x1002" "c_ospeed t' = 0x1002" "c_cflag t' AND CSIZE = CS8" "\<not> bit (c_cflag t') 6" "\<not> bit (c_cflag t') 8"
    using serial_set_conf_result [of "w(opened := Some t)" opened t 115200 "0x1002" 8 1 "CHR ''n''"] by (auto simp: m_map_table_def)
  ultimately show ?thesis
    using assms(1,2) fs(1) dec by (intro exI [of _ "concat fs"] exI [of _ w'] exI [of _ t']) (simp add: serial_test_main_def serial_open_def Let_def)
qed

definition demo_tim :: msg_set_tim where
  "demo_tim = \<lparr>sfd = 0, tim_len = 0, cmd = 0, dat = [], tim_sum = 0, eof = 0\<rparr>"

theorem set_tim_frames_readable_witness:
  "\<exists>out w'. serial_test_main 3 demo_tty True demo_tim [\<lparr>tv_sec = 1, tv_nsec = 5000000\<rparr>, \<lparr>tv_sec = 11, tv_nsec = 0\<rparr>] [''t'', ''tty''] Map.empty = (Some out, w') \<and>
    tim_decode out = [Some 1005, Some 11000]"
  using set_tim_frames_readable [of "[''t'', ''tty'']" 3 "[\<lparr>tv_sec = 1, tv_nsec = 5000000\<rparr>, \<lparr>tv_sec = 11, tv_nsec = 0\<rparr>]" demo_tty demo_tim Map.empty]
  by (auto simp: clock_time_def ns_of_def)

end
