(* ===== verification/I2c_Ctrl.thy ===== *)
theory I2c_Ctrl
  imports C_Prelude
begin

text \<open>
  \<^verbatim>\<open>linux/utils/src/i2c_ctrl.c\<close> and \<^verbatim>\<open>i2c_ctrl.h\<close>: register access to a device on an I2C bus. The
  kernel is a record of functions over a state \<open>'w\<close>: opening a bus, choosing the slave address,
  the combined transfer of \<open>I2C_RDWR\<close> (bytes to send to a slave address, number of bytes to
  receive), a plain write, and closing. The message buffer on the stack has four bytes: a
  transfer longer than that, which the kernel would run over the buffer, is undefined behaviour. A null
  \<open>ctrl\<close> is \<^const>\<open>None\<close> of the inner option type.
\<close>

section \<open>Data\<close>

record i2c_ctrl =
  i2c_num :: u32
  dev_addr :: u32
  reg_width :: u32
  data_width :: u32
  priv :: int

text \<open>\<open>k_rdwr fd addr sent n\<close> gives the result of the ioctl and the bytes received.\<close>

record 'w i2c_kernel =
  k_open :: "u32 \<Rightarrow> 'w \<Rightarrow> int \<times> 'w"
  k_slave :: "int \<Rightarrow> u32 \<Rightarrow> 'w \<Rightarrow> int \<times> 'w"
  k_rdwr :: "int \<Rightarrow> u32 \<Rightarrow> u8 list \<Rightarrow> nat \<Rightarrow> 'w \<Rightarrow> (int \<times> u8 list) \<times> 'w"
  k_write :: "int \<Rightarrow> u8 list \<Rightarrow> 'w \<Rightarrow> int \<times> 'w"
  k_close :: "int \<Rightarrow> 'w \<Rightarrow> int \<times> 'w"


section \<open>The code\<close>

definition i2c_init_ctrl :: "i2c_ctrl option \<Rightarrow> u32 \<Rightarrow> u32 \<Rightarrow> u32 \<Rightarrow> u32 \<Rightarrow> int \<times> i2c_ctrl option" where
  "i2c_init_ctrl ctrl num addr rw dw = (case ctrl of
     None \<Rightarrow> (- 1, None)
   | Some c \<Rightarrow> (0, Some (c\<lparr>i2c_num := num, dev_addr := drop_bit 1 addr, reg_width := rw, data_width := dw\<rparr>)))"

definition i2c_change_dev_addr ::
  "'w i2c_kernel \<Rightarrow> i2c_ctrl option \<Rightarrow> u32 \<Rightarrow> 'w \<Rightarrow> int \<times> i2c_ctrl option \<times> 'w" where
  "i2c_change_dev_addr k ctrl addr w = (case ctrl of
     None \<Rightarrow> (- 1, None, w)
   | Some c \<Rightarrow>
       (let (ret, w) = k_slave k (priv c) (drop_bit 1 addr) w
        in if ret < 0 then (- 1, Some c, w) else (ret, Some (c\<lparr>dev_addr := drop_bit 1 addr\<rparr>), w)))"

text \<open>
  The name \<open>/dev/i2c-%u\<close> is printed into 16 bytes: nine characters, the digits and the terminator, so
  a bus number of seven digits overruns the buffer.
\<close>

definition i2c_open :: "'w i2c_kernel \<Rightarrow> i2c_ctrl option \<Rightarrow> 'w \<Rightarrow> (int \<times> i2c_ctrl option \<times> 'w) option" where
  "i2c_open k ctrl w = (case ctrl of
     None \<Rightarrow> Some (- 1, None, w)
   | Some c \<Rightarrow>
       if i2c_num c \<ge> 1000000 then None
       else
         (let (fd, w) = k_open k (i2c_num c) w
          in if fd < 0 then Some (- 1, Some c, w)
             else
               (let (ret, w) = k_slave k fd (dev_addr c) w
                in if ret < 0 then Some (- 1, Some c, snd (k_close k fd w)) else Some (ret, Some (c\<lparr>priv := fd\<rparr>), w))))"

definition i2c_close :: "'w i2c_kernel \<Rightarrow> i2c_ctrl option \<Rightarrow> 'w \<Rightarrow> int \<times> 'w" where
  "i2c_close k ctrl w = (case ctrl of None \<Rightarrow> (- 1, w) | Some c \<Rightarrow> k_close k (priv c) w)"

text \<open>The bytes of a register address or a value: two bytes, high byte first, or the low byte only.\<close>

definition i2c_bytes :: "u32 \<Rightarrow> u32 \<Rightarrow> u8 list" where
  "i2c_bytes n x = (if n = 2 then [ucast (drop_bit 8 x AND 0xff), ucast (x AND 0xff)] else [ucast (x AND 0xff)])"

text \<open>
  The kernel sends \<open>reg_width\<close> bytes of the buffer and stores \<open>data_width\<close> bytes into it, both taken
  modulo 2^16, the type of a message length. \<open>data\<close> is the content of \<open>*data\<close> before.
\<close>

definition i2c_read ::
  "'w i2c_kernel \<Rightarrow> i2c_ctrl option \<Rightarrow> u32 \<Rightarrow> u32 \<Rightarrow> 'w \<Rightarrow> (int \<times> u32 \<times> 'w) option" where
  "i2c_read k ctrl reg data w = (case ctrl of
     None \<Rightarrow> Some (- 1, data, w)
   | Some c \<Rightarrow>
       (let n = unat (ucast (reg_width c) :: 16 word);
            m = unat (ucast (data_width c) :: 16 word);
            regs = i2c_bytes (reg_width c) reg;
            buf = regs @ replicate (4 - length regs) 0
        in if n > 4 \<or> m > 4 then None
           else
             (let ((ret, rx), w) = k_rdwr k (priv c) (dev_addr c) (take n buf) m w;
                  buf = take m rx @ drop (length (take m rx)) buf
              in if ret \<noteq> 2 then Some (- 1, data, w)
                 else if data_width c = 2
                 then Some (0, ucast (buf ! 1) OR push_bit 8 (ucast (buf ! 0)), w)
                 else Some (0, ucast (buf ! 0), w))))"

definition i2c_write :: "'w i2c_kernel \<Rightarrow> i2c_ctrl option \<Rightarrow> u32 \<Rightarrow> u32 \<Rightarrow> 'w \<Rightarrow> int \<times> 'w" where
  "i2c_write k ctrl reg data w = (case ctrl of
     None \<Rightarrow> (- 1, w)
   | Some c \<Rightarrow>
       (let (ret, w) = k_write k (priv c) (i2c_bytes (reg_width c) reg @ i2c_bytes (data_width c) data) w
        in if ret < 0 then (- 1, w) else (0, w)))"


section \<open>Properties\<close>

text \<open>Reading back the bytes gives the value, cut to the width.\<close>

lemma i2c_bytes_two:
  "ucast (i2c_bytes 2 x ! 1) OR push_bit 8 (ucast (i2c_bytes 2 x ! 0)) = take_bit 16 (x :: u32)"
proof (rule bit_word_eqI)
  fix n
  have "bit x (8 + (n - 8)) = bit x n" if "8 \<le> n" using that by simp
  then show "bit (ucast (i2c_bytes 2 x ! 1) OR push_bit 8 (ucast (i2c_bytes 2 x ! 0)) :: u32) n = bit (take_bit 16 x) n"
    by (auto simp: i2c_bytes_def mask_byte bit_simps)
qed

lemma i2c_bytes_one: "n \<noteq> 2 \<Longrightarrow> ucast (i2c_bytes n x ! 0) = take_bit 8 (x :: u32)"
  by (rule bit_word_eqI) (auto simp: i2c_bytes_def mask_byte bit_simps)

text \<open>
  A device with registers: what was written to a register, after its \<open>n\<close> address bytes, is what the
  combined transfer reads from it.
\<close>

definition register_device :: "'w i2c_kernel \<Rightarrow> int \<Rightarrow> u32 \<Rightarrow> nat \<Rightarrow> bool" where
  "register_device k fd a n \<longleftrightarrow> (\<forall>r v w w1 ret. length r = n \<and> k_write k fd (r @ v) w = (ret, w1) \<and> 0 \<le> ret \<longrightarrow>
     k_rdwr k fd a r (length v) w1 = ((2, v), w1))"

text \<open>
  C32: Reading back. On a device with registers, for register addresses and values of one or two
  bytes, \<open>i2c_read\<close> after a successful \<open>i2c_write\<close> succeeds and returns the value written, cut to
  the width of the device, in the byte order it was sent.
\<close>

theorem i2c_read_after_write:
  assumes "register_device k (priv c) (dev_addr c) (unat (reg_width c))"
    and "reg_width c \<in> {1, 2}" and "data_width c \<in> {1, 2}"
    and "i2c_write k (Some c) reg data w = (0, w1)"
  shows "i2c_read k (Some c) reg old w1 = Some (0, take_bit (8 * unat (data_width c)) data, w1)"
proof -
  let ?r = "i2c_bytes (reg_width c) reg" and ?v = "i2c_bytes (data_width c) data"
  have len: "length ?r = unat (reg_width c)" "length ?v = unat (data_width c)"
    using assms(2,3) by (auto simp: i2c_bytes_def)
  obtain ret where ret: "k_write k (priv c) (?r @ ?v) w = (ret, w1)" "0 \<le> ret"
    using assms(4) by (auto simp: i2c_write_def split: prod.splits if_splits)
  then have "k_rdwr k (priv c) (dev_addr c) ?r (length ?v) w1 = ((2, ?v), w1)"
    using assms(1) len(1) unfolding register_device_def by blast
  then have rdwr: "k_rdwr k (priv c) (dev_addr c) ?r (unat (data_width c)) w1 = ((2, ?v), w1)"
    by (simp only: len(2))
  have two: "ucast (ucast (data AND 0xff) :: u8) OR push_bit 8 (ucast (ucast (drop_bit 8 data AND 0xff) :: u8)) = take_bit 16 data"
    using i2c_bytes_two [of data] by (simp add: i2c_bytes_def)
  have one: "ucast (ucast (data AND 0xff) :: u8) = take_bit 8 data"
    using i2c_bytes_one [of 1 data] by (simp add: i2c_bytes_def)
  show ?thesis
    using assms(2,3) rdwr
    by (auto simp: i2c_read_def i2c_bytes_def two [unfolded one] one Let_def)
qed

text \<open>A device with one register that keeps the last message; its state is that message.\<close>

definition demo_kernel :: "u8 list i2c_kernel" where
  "demo_kernel = \<lparr>k_open = (\<lambda>n w. (3, w)), k_slave = (\<lambda>fd a w. (0, w)),
     k_rdwr = (\<lambda>fd a sent n w. ((2, drop (length sent) w), w)),
     k_write = (\<lambda>fd bs w. (int (length bs), bs)), k_close = (\<lambda>fd w. (0, w))\<rparr>"

definition demo_ctrl :: i2c_ctrl where
  "demo_ctrl = \<lparr>i2c_num = 0, dev_addr = 0x1a, reg_width = 2, data_width = 1, priv = 3\<rparr>"

theorem i2c_read_after_write_witness:
  "i2c_read demo_kernel (Some demo_ctrl) 0x3012 0 [0x30, 0x12, 0xcd] =
    Some (0, take_bit (8 * unat (data_width demo_ctrl)) 0xabcd, [0x30, 0x12, 0xcd])"
proof (rule i2c_read_after_write [of _ _ _ _ "[]"])
  show "register_device demo_kernel (priv demo_ctrl) (dev_addr demo_ctrl) (unat (reg_width demo_ctrl))"
    by (auto simp: register_device_def demo_kernel_def)
  show "i2c_write demo_kernel (Some demo_ctrl) 0x3012 0xabcd [] = (0, [0x30, 0x12, 0xcd])"
    by (simp add: i2c_write_def demo_kernel_def demo_ctrl_def i2c_bytes_def)
qed (simp_all add: demo_ctrl_def)

end
