(* ===== verification/I2c_Bypass.thy ===== *)
theory I2c_Bypass
  imports I2c_Ctrl
begin

text \<open>
  \<^verbatim>\<open>linux/utils/test/sc132_xchip_reg.c\<close>: two programs that read a register of an image sensor behind a bridge chip. The bridge passes
  transfers on to the sensor while its bypass is on. The first method has an open descriptor for each chip, the
  second changes the slave address of one. The descriptor in a new control structure is whatever the stack held.
\<close>

section \<open>The code\<close>

definition XCHIP_I2C_ADDR :: u32 where
  "XCHIP_I2C_ADDR = 0x36"

definition SC132_I2C_ADDR :: u32 where
  "SC132_I2C_ADDR = 0x60"

definition xc9080_i2c_bypass_on_chn :: "'w i2c_kernel \<Rightarrow> i2c_ctrl option \<Rightarrow> u8 \<Rightarrow> 'w \<Rightarrow> 'w" where
  "xc9080_i2c_bypass_on_chn k ctrl chn w =
     (let (_, w) = i2c_write k ctrl 0xfffd 0x80 w;
          (_, w) = i2c_write k ctrl 0xfffe 0x50 w;
          (_, w) = i2c_write k ctrl 0x004d (scast chn) w
      in w)"

definition xc9080_i2c_bypass_off :: "'w i2c_kernel \<Rightarrow> i2c_ctrl option \<Rightarrow> 'w \<Rightarrow> 'w" where
  "xc9080_i2c_bypass_off k ctrl w =
     (let (_, w) = i2c_write k ctrl 0xfffd 0x80 w;
          (_, w) = i2c_write k ctrl 0xfffe 0x50 w;
          (_, w) = i2c_write k ctrl 0x004d 0x00 w
      in w)"

text \<open>The result has the data that is printed; \<open>x\<close> and \<open>s\<close> are the control structures on the stack.\<close>

definition sc132_xchip_read_method1 ::
  "'w i2c_kernel \<Rightarrow> i2c_ctrl \<Rightarrow> i2c_ctrl \<Rightarrow> u32 \<Rightarrow> 'w \<Rightarrow> (u32 option \<times> 'w) option" where
  "sc132_xchip_read_method1 k x s reg_addr w = do {
     let (_, xchip_ctrl) = i2c_init_ctrl (Some x) 2 XCHIP_I2C_ADDR 2 1;
     let (_, scl132_ctrl) = i2c_init_ctrl (Some s) 2 SC132_I2C_ADDR 2 1;
     (_, xchip_ctrl, w) \<leftarrow> i2c_open k xchip_ctrl w;
     (_, scl132_ctrl, w) \<leftarrow> i2c_open k scl132_ctrl w;
     let w = xc9080_i2c_bypass_on_chn k xchip_ctrl 3 w;
     (_, data, w) \<leftarrow> i2c_read k scl132_ctrl reg_addr 0 w;
     let w = xc9080_i2c_bypass_off k xchip_ctrl w;
     let (_, w) = i2c_close k xchip_ctrl w;
     let (_, w) = i2c_close k scl132_ctrl w;
     Some (Some data, w) }"

definition sc132_xchip_read_method2 ::
  "'w i2c_kernel \<Rightarrow> i2c_ctrl \<Rightarrow> u32 \<Rightarrow> 'w \<Rightarrow> (u32 option \<times> 'w) option" where
  "sc132_xchip_read_method2 k c reg_addr w = do {
     let (_, i2c_ctrl) = i2c_init_ctrl (Some c) 2 XCHIP_I2C_ADDR 2 1;
     (ret, i2c_ctrl, w) \<leftarrow> i2c_open k i2c_ctrl w;
     (if 0 \<noteq> ret then Some (None, w)
      else do {
        let w = xc9080_i2c_bypass_on_chn k i2c_ctrl 3 w;
        let (_, i2c_ctrl, w) = i2c_change_dev_addr k i2c_ctrl SC132_I2C_ADDR w;
        (_, data, w) \<leftarrow> i2c_read k i2c_ctrl reg_addr 0 w;
        let (_, i2c_ctrl, w) = i2c_change_dev_addr k i2c_ctrl XCHIP_I2C_ADDR w;
        let w = xc9080_i2c_bypass_off k i2c_ctrl w;
        let (_, w) = i2c_close k i2c_ctrl w;
        Some (Some data, w) }) }"


section \<open>The kernel\<close>

text \<open>
  The open descriptors with their bus and slave address, and the chips: \<open>put bus slave bytes\<close> and \<open>get bus slave bytes n\<close> are what they make of a
  write and of a combined transfer, whatever that is.
\<close>

record 'd bus_world =
  bw_fds :: "int \<rightharpoonup> u32 \<times> u32"
  bw_chips :: 'd

definition bus_kernel ::
  "(int set \<Rightarrow> int) \<Rightarrow> (u32 \<Rightarrow> u32 \<Rightarrow> u8 list \<Rightarrow> 'd \<Rightarrow> int \<times> 'd) \<Rightarrow>
   (u32 \<Rightarrow> u32 \<Rightarrow> u8 list \<Rightarrow> nat \<Rightarrow> 'd \<Rightarrow> (int \<times> u8 list) \<times> 'd) \<Rightarrow> 'd bus_world i2c_kernel" where
  "bus_kernel alloc put get = \<lparr>
     k_open = (\<lambda>bus w. let fd = alloc (dom (bw_fds w)) in (fd, w\<lparr>bw_fds := (bw_fds w)(fd \<mapsto> (bus, 0))\<rparr>)),
     k_slave = (\<lambda>fd a w. case bw_fds w fd of
         None \<Rightarrow> (- 1, w) | Some (bus, _) \<Rightarrow> (0, w\<lparr>bw_fds := (bw_fds w)(fd \<mapsto> (bus, a))\<rparr>)),
     k_rdwr = (\<lambda>fd a sent n w. case bw_fds w fd of
         None \<Rightarrow> ((- 1, []), w) | Some (bus, _) \<Rightarrow> (case get bus a sent n (bw_chips w) of (r, d) \<Rightarrow> (r, w\<lparr>bw_chips := d\<rparr>))),
     k_write = (\<lambda>fd bytes w. case bw_fds w fd of
         None \<Rightarrow> (- 1, w) | Some (bus, a) \<Rightarrow> (case put bus a bytes (bw_chips w) of (r, d) \<Rightarrow> (r, w\<lparr>bw_chips := d\<rparr>))),
     k_close = (\<lambda>fd w. if fd \<in> dom (bw_fds w) then (0, w\<lparr>bw_fds := (bw_fds w)(fd := None)\<rparr>) else (- 1, w))\<rparr>"

text \<open>The transfers of both methods, on the chips alone.\<close>

definition chip_writes :: "(u32 \<Rightarrow> u32 \<Rightarrow> u8 list \<Rightarrow> 'd \<Rightarrow> int \<times> 'd) \<Rightarrow> u8 \<Rightarrow> 'd \<Rightarrow> 'd" where
  "chip_writes put v d = fold (\<lambda>bytes d. snd (put 2 0x1b bytes d)) [[0xff, 0xfd, 0x80], [0xff, 0xfe, 0x50], [0, 0x4d, v]] d"

definition chip_session ::
  "(u32 \<Rightarrow> u32 \<Rightarrow> u8 list \<Rightarrow> 'd \<Rightarrow> int \<times> 'd) \<Rightarrow> (u32 \<Rightarrow> u32 \<Rightarrow> u8 list \<Rightarrow> nat \<Rightarrow> 'd \<Rightarrow> (int \<times> u8 list) \<times> 'd) \<Rightarrow>
   u32 \<Rightarrow> 'd \<Rightarrow> u32 \<times> 'd" where
  "chip_session put get reg d =
     (let ((ret, rx), d) = get 2 0x30 (i2c_bytes 2 reg) 1 (chip_writes put 3 d);
          data = (if ret \<noteq> 2 then 0 else ucast ((take 1 rx @ drop (length (take 1 rx)) (i2c_bytes 2 reg)) ! 0))
      in (data, chip_writes put 0 d))"

lemma addresses: "drop_bit (Suc 0) XCHIP_I2C_ADDR = 0x1b" "drop_bit (Suc 0) SC132_I2C_ADDR = 0x30"
  by (simp_all add: XCHIP_I2C_ADDR_def SC132_I2C_ADDR_def)

lemma write_bytes:
  "i2c_bytes 2 0xfffd = [0xff, 0xfd]" "i2c_bytes 2 0xfffe = [0xff, 0xfe]" "i2c_bytes 2 0x4d = [0, 0x4d]"
  "i2c_bytes 1 0x80 = [0x80]" "i2c_bytes 1 0x50 = [0x50]" "i2c_bytes 1 3 = [3]" "i2c_bytes 1 0 = [0]"
  by (simp_all add: i2c_bytes_def)

lemma bus_write:
  assumes "bw_fds w (priv c) = Some (bus, a)"
  shows "snd (i2c_write (bus_kernel alloc put get) (Some c) reg v w) =
    w\<lparr>bw_chips := snd (put bus a (i2c_bytes (reg_width c) reg @ i2c_bytes (data_width c) v) (bw_chips w))\<rparr>"
  using assms by (auto simp: i2c_write_def bus_kernel_def split: prod.split)

lemma bypass_writes:
  assumes "bw_fds w (priv c) = Some (2, 0x1b)" "reg_width c = 2" "data_width c = 1"
  shows "xc9080_i2c_bypass_on_chn (bus_kernel alloc put get) (Some c) 3 w = w\<lparr>bw_chips := chip_writes put 3 (bw_chips w)\<rparr>"
    and "xc9080_i2c_bypass_off (bus_kernel alloc put get) (Some c) w = w\<lparr>bw_chips := chip_writes put 0 (bw_chips w)\<rparr>"
  using assms by (simp_all add: xc9080_i2c_bypass_on_chn_def xc9080_i2c_bypass_off_def chip_writes_def case_prod_beta bus_write write_bytes)

lemma bus_read:
  assumes "bw_fds w (priv c) = Some (2, a)" "dev_addr c = 0x30" "reg_width c = 2" "data_width c = 1"
    and "get 2 0x30 (i2c_bytes 2 reg) 1 (bw_chips w) = ((ret, rx), d)"
  shows "\<exists>r. i2c_read (bus_kernel alloc put get) (Some c) reg 0 w =
    Some (r, if ret \<noteq> 2 then 0 else ucast ((take 1 rx @ drop (length (take 1 rx)) (i2c_bytes 2 reg)) ! 0), w\<lparr>bw_chips := d\<rparr>)"
proof -
  have l: "length (i2c_bytes 2 reg) = 2" by (simp add: i2c_bytes_def)
  then have "(take 1 rx @ drop (length (take 1 rx)) (i2c_bytes 2 reg @ ys)) ! 0 = (take 1 rx @ drop (length (take 1 rx)) (i2c_bytes 2 reg)) ! 0" for ys
    by (cases rx) (auto simp: nth_append)
  then show ?thesis using assms l by (auto simp: i2c_read_def bus_kernel_def)
qed

lemma bus_open:
  assumes "fd_choice alloc" "finite (dom (bw_fds w))" "i2c_num c = 2"
  shows "\<exists>fd. bw_fds w fd = None \<and> i2c_open (bus_kernel alloc put get) (Some c) w =
    Some (0, Some (c\<lparr>priv := fd\<rparr>), w\<lparr>bw_fds := (bw_fds w)(fd \<mapsto> (2, dev_addr c))\<rparr>)"
proof -
  let ?fd = "alloc (dom (bw_fds w))"
  have "0 \<le> ?fd" "bw_fds w ?fd = None" using assms(1,2) by (auto simp: fd_choice_def domIff)
  then show ?thesis using assms(3) by (intro exI [of _ ?fd]) (simp add: i2c_open_def bus_kernel_def Let_def)
qed

lemma bus_close:
  "bw_fds w (priv c) = Some x \<Longrightarrow> i2c_close (bus_kernel alloc put get) (Some c) w = (0, w\<lparr>bw_fds := (bw_fds w)(priv c := None)\<rparr>)"
  by (auto simp: i2c_close_def bus_kernel_def)

lemma bus_change:
  "bw_fds w (priv c) = Some (2, a) \<Longrightarrow> i2c_change_dev_addr (bus_kernel alloc put get) (Some c) addr w =
    (0, Some (c\<lparr>dev_addr := drop_bit 1 addr\<rparr>), w\<lparr>bw_fds := (bw_fds w)(priv c \<mapsto> (2, drop_bit 1 addr))\<rparr>)"
  by (simp add: i2c_change_dev_addr_def bus_kernel_def)

lemma method1_session:
  assumes "fd_choice alloc" "finite (dom (bw_fds w))" "chip_session put get reg (bw_chips w) = (data, d)"
  shows "sc132_xchip_read_method1 (bus_kernel alloc put get) x s reg w = Some (Some data, w\<lparr>bw_chips := d\<rparr>)"
proof -
  let ?k = "bus_kernel alloc put get"
  let ?x = "x\<lparr>i2c_num := 2, dev_addr := 0x1b, reg_width := 2, data_width := 1\<rparr>"
  let ?s = "s\<lparr>i2c_num := 2, dev_addr := 0x30, reg_width := 2, data_width := 1\<rparr>"
  obtain fx where fx: "bw_fds w fx = None" "i2c_open ?k (Some ?x) w = Some (0, Some (?x\<lparr>priv := fx\<rparr>), w\<lparr>bw_fds := (bw_fds w)(fx \<mapsto> (2, 0x1b))\<rparr>)"
    using bus_open [OF assms(1,2), of ?x put get] by auto
  let ?w1 = "w\<lparr>bw_fds := (bw_fds w)(fx \<mapsto> (2, 0x1b))\<rparr>"
  have "\<exists>fd. bw_fds ?w1 fd = None \<and>
      i2c_open ?k (Some ?s) ?w1 = Some (0, Some (?s\<lparr>priv := fd\<rparr>), ?w1\<lparr>bw_fds := (bw_fds ?w1)(fd \<mapsto> (2, 0x30))\<rparr>)"
    using bus_open [OF assms(1), of ?w1 ?s put get] assms(2) by simp
  then obtain fs where fs: "bw_fds ?w1 fs = None"
      "i2c_open ?k (Some ?s) ?w1 = Some (0, Some (?s\<lparr>priv := fs\<rparr>), ?w1\<lparr>bw_fds := (bw_fds ?w1)(fs \<mapsto> (2, 0x30))\<rparr>)"
    by blast
  then have ne: "fs \<noteq> fx" "bw_fds w fs = None" by (auto split: if_splits)
  let ?w2 = "w\<lparr>bw_fds := (bw_fds w)(fx \<mapsto> (2, 0x1b), fs \<mapsto> (2, 0x30)), bw_chips := chip_writes put 3 (bw_chips w)\<rparr>"
  obtain ret rx e where get: "get 2 0x30 (i2c_bytes 2 reg) 1 (bw_chips ?w2) = ((ret, rx), e)" by (metis surj_pair)
  then have dd: "data = (if ret \<noteq> 2 then 0 else ucast ((take 1 rx @ drop (length (take 1 rx)) (i2c_bytes 2 reg)) ! 0))" "d = chip_writes put 0 e"
    using assms(3) by (auto simp: chip_session_def)
  obtain r where "i2c_read ?k (Some (?s\<lparr>priv := fs\<rparr>)) reg 0 ?w2 = Some (r, data, ?w2\<lparr>bw_chips := e\<rparr>)"
    using bus_read [of ?w2 "?s\<lparr>priv := fs\<rparr>" "0x30" get reg ret rx e alloc put] get dd(1) by auto
  then show ?thesis
    using fx fs(2) ne dd(2)
    by (simp add: sc132_xchip_read_method1_def i2c_init_ctrl_def addresses bypass_writes bus_close fun_upd_idem)
qed

lemma method2_session:
  assumes "fd_choice alloc" "finite (dom (bw_fds w))" "chip_session put get reg (bw_chips w) = (data, d)"
  shows "sc132_xchip_read_method2 (bus_kernel alloc put get) c reg w = Some (Some data, w\<lparr>bw_chips := d\<rparr>)"
proof -
  let ?k = "bus_kernel alloc put get"
  let ?c = "c\<lparr>i2c_num := 2, dev_addr := 0x1b, reg_width := 2, data_width := 1\<rparr>"
  obtain fd where fd: "bw_fds w fd = None" "i2c_open ?k (Some ?c) w = Some (0, Some (?c\<lparr>priv := fd\<rparr>), w\<lparr>bw_fds := (bw_fds w)(fd \<mapsto> (2, 0x1b))\<rparr>)"
    using bus_open [OF assms(1,2), of ?c put get] by auto
  let ?w2 = "w\<lparr>bw_chips := chip_writes put 3 (bw_chips w), bw_fds := (bw_fds w)(fd \<mapsto> (2, 0x30))\<rparr>"
  let ?s = "?c\<lparr>priv := fd, dev_addr := 0x30\<rparr>"
  obtain ret rx e where get: "get 2 0x30 (i2c_bytes 2 reg) 1 (bw_chips ?w2) = ((ret, rx), e)" by (metis surj_pair)
  then have dd: "data = (if ret \<noteq> 2 then 0 else ucast ((take 1 rx @ drop (length (take 1 rx)) (i2c_bytes 2 reg)) ! 0))" "d = chip_writes put 0 e"
    using assms(3) by (auto simp: chip_session_def)
  obtain r where "i2c_read ?k (Some ?s) reg 0 ?w2 = Some (r, data, ?w2\<lparr>bw_chips := e\<rparr>)"
    using bus_read [of ?w2 ?s "0x30" get reg ret rx e alloc put] get dd(1) by auto
  then show ?thesis
    using fd dd(2)
    by (simp add: sc132_xchip_read_method2_def i2c_init_ctrl_def addresses bypass_writes bus_close bus_change fun_upd_idem)
qed


section \<open>The two methods\<close>

text \<open>
  C11: The two ways to read the sensor. On a bus that opens, whatever the chips do with the bytes they are sent, whichever descriptors are open
  and whatever the control structures held, both methods print the same data, what the sensor answers between the three
  writes that turn the bypass on and the three that turn it off, make just these transfers on the chips, and
  leave the same descriptors open as before.
\<close>

theorem sc132_methods_agree:
  assumes "fd_choice alloc" and "finite (dom (bw_fds w))"
  shows "let (data, d) = chip_session put get reg (bw_chips w) in
    sc132_xchip_read_method1 (bus_kernel alloc put get) x s reg w = Some (Some data, w\<lparr>bw_chips := d\<rparr>) \<and>
    sc132_xchip_read_method2 (bus_kernel alloc put get) c reg w = Some (Some data, w\<lparr>bw_chips := d\<rparr>)"
  using method1_session [OF assms] method2_session [OF assms] by (cases "chip_session put get reg (bw_chips w)") simp

text \<open>
  A bridge that passes the sensor on while register 0x4d of page 0x8050 is 3, with sensor registers that hold the low byte of their address; the log has
  the slaves that were addressed.
\<close>

definition demo_put :: "u32 \<Rightarrow> u32 \<Rightarrow> u8 list \<Rightarrow> u8 \<times> u32 list \<Rightarrow> int \<times> u8 \<times> u32 list" where
  "demo_put bus a bytes d = (3, if take 2 bytes = [0, 0x4d] then bytes ! 2 else fst d, snd d @ [a])"

definition demo_get :: "u32 \<Rightarrow> u32 \<Rightarrow> u8 list \<Rightarrow> nat \<Rightarrow> u8 \<times> u32 list \<Rightarrow> (int \<times> u8 list) \<times> u8 \<times> u32 list" where
  "demo_get bus a sent n d = ((if fst d = 3 then (2, [sent ! 1]) else (- 1, [])), fst d, snd d @ [a])"

theorem sc132_methods_agree_witness:
  "sc132_xchip_read_method1 (bus_kernel demo_alloc demo_put demo_get) demo_ctrl demo_ctrl 0x3e01 \<lparr>bw_fds = Map.empty, bw_chips = (0, [])\<rparr> =
    Some (Some 1, \<lparr>bw_fds = Map.empty, bw_chips = (0, [0x1b, 0x1b, 0x1b, 0x30, 0x1b, 0x1b, 0x1b])\<rparr>) \<and>
   sc132_xchip_read_method2 (bus_kernel demo_alloc demo_put demo_get) demo_ctrl 0x3e01 \<lparr>bw_fds = Map.empty, bw_chips = (0, [])\<rparr> =
    Some (Some 1, \<lparr>bw_fds = Map.empty, bw_chips = (0, [0x1b, 0x1b, 0x1b, 0x30, 0x1b, 0x1b, 0x1b])\<rparr>)"
proof -
  have "chip_session demo_put demo_get 0x3e01 (0, []) = (1, 0, [0x1b, 0x1b, 0x1b, 0x30, 0x1b, 0x1b, 0x1b])"
    by (simp add: chip_session_def chip_writes_def demo_put_def demo_get_def i2c_bytes_def)
  then show ?thesis
    using sc132_methods_agree [OF demo_alloc_choice, of "\<lparr>bw_fds = Map.empty, bw_chips = (0, [])\<rparr>" demo_put demo_get "0x3e01" demo_ctrl demo_ctrl demo_ctrl] by simp
qed

text \<open>
  When the bus does not open, the second method reports it and makes no transfer; the first goes on, and writes to whatever descriptor the
  structure held.
\<close>

lemma sc132_bus_missing:
  assumes "\<And>w. k_open k 2 w = (- 1, w)"
  shows "sc132_xchip_read_method2 k c reg w = Some (None, w)"
    and "\<exists>x'. priv x' = priv x \<and> sc132_xchip_read_method1 k x s reg w = do {
      (_, data, w) \<leftarrow> i2c_read k (Some (s\<lparr>i2c_num := 2, dev_addr := 0x30, reg_width := 2, data_width := 1\<rparr>)) reg 0
        (xc9080_i2c_bypass_on_chn k (Some x') 3 w);
      let (_, w) = i2c_close k (Some x') (xc9080_i2c_bypass_off k (Some x') w);
      Some (Some data, snd (i2c_close k (Some (s\<lparr>i2c_num := 2, dev_addr := 0x30, reg_width := 2, data_width := 1\<rparr>)) w)) }"
proof -
  show "sc132_xchip_read_method2 k c reg w = Some (None, w)"
    using assms by (simp add: sc132_xchip_read_method2_def i2c_init_ctrl_def i2c_open_def)
  show "\<exists>x'. priv x' = priv x \<and> sc132_xchip_read_method1 k x s reg w = do {
      (_, data, w) \<leftarrow> i2c_read k (Some (s\<lparr>i2c_num := 2, dev_addr := 0x30, reg_width := 2, data_width := 1\<rparr>)) reg 0
        (xc9080_i2c_bypass_on_chn k (Some x') 3 w);
      let (_, w) = i2c_close k (Some x') (xc9080_i2c_bypass_off k (Some x') w);
      Some (Some data, snd (i2c_close k (Some (s\<lparr>i2c_num := 2, dev_addr := 0x30, reg_width := 2, data_width := 1\<rparr>)) w)) }"
    using assms
    by (intro exI [of _ "x\<lparr>i2c_num := 2, dev_addr := 0x1b, reg_width := 2, data_width := 1\<rparr>"])
      (simp add: sc132_xchip_read_method1_def i2c_init_ctrl_def i2c_open_def addresses case_prod_beta)
qed

end
