(* ===== verification/C_Strings.thy ===== *)
theory C_Strings
  imports C_Prelude
begin

text \<open>
  Strings as the C library reads and writes them: a string is the sequence of its characters
  without the terminating NUL. The numbers are those of \<open>printf\<close> with \<open>%d\<close> and \<open>%02x\<close>, of \<open>sscanf\<close> with \<open>%d\<close>
  and of \<open>atoi\<close>; the comparison is that of \<open>strncmp\<close>.
\<close>

named_theorems string_simps

section \<open>Buffers and lines\<close>

text \<open>\<open>fgets\<close> with room for \<open>n\<close> characters: up to the end of the line, which is included.\<close>

fun fgets :: "nat \<Rightarrow> string \<Rightarrow> string \<times> string" where
  "fgets 0 s = ([], s)"
| "fgets (Suc n) [] = ([], [])"
| "fgets (Suc n) (c # cs) =
     (if c = CHR ''\<newline>'' then ([c], cs) else (let (a, b) = fgets n cs in (c # a, b)))"

definition NUL :: char where
  "NUL = CHR 0x00"

text \<open>The string at the start of a buffer, up to its terminator.\<close>

definition c_string :: "string \<Rightarrow> string" where
  "c_string buf = takeWhile (\<lambda>c. c \<noteq> NUL) buf"

definition strcpy_at :: "string \<Rightarrow> nat \<Rightarrow> string \<Rightarrow> string option" where
  "strcpy_at buf offset s =
     (if offset + length s < length buf then Some (take offset buf @ s @ [NUL] @ drop (offset + length s + 1) buf) else None)"

lemma fgets_append: "fgets n s = (a, b) \<Longrightarrow> s = a @ b"
  by (induction n s arbitrary: a b rule: fgets.induct) (auto split: if_splits prod.splits)

lemma fgets_nonempty: "fgets n s = (a, b) \<Longrightarrow> 0 < n \<Longrightarrow> s \<noteq> [] \<Longrightarrow> a \<noteq> []"
  by (cases "(n, s)" rule: fgets.cases) (auto split: if_splits prod.splits)

declare fgets.simps [simp del]

lemma c_string_id: "NUL \<notin> set s \<Longrightarrow> c_string s = s"
  by (induction s) (auto simp: c_string_def)

lemma c_string_append: "NUL \<notin> set s \<Longrightarrow> c_string (s @ t) = s @ c_string t"
  by (induction s) (auto simp: c_string_def)

lemma c_string_NUL [simp]: "c_string (NUL # t) = []"
  by (simp add: c_string_def)

section \<open>Digits\<close>

definition digit_char :: "nat \<Rightarrow> char" where
  "digit_char d = char_of (if d < 10 then 48 + d else 87 + d)"

definition digit_val :: "char \<Rightarrow> nat option" where
  "digit_val c = (let n = of_char c :: nat in
     if 48 \<le> n \<and> n \<le> 57 then Some (n - 48) else if 97 \<le> n \<and> n \<le> 102 then Some (n - 87) else None)"

definition is_digit :: "char \<Rightarrow> bool" where
  "is_digit c \<longleftrightarrow> 48 \<le> (of_char c :: nat) \<and> (of_char c :: nat) \<le> 57"

fun digits :: "nat \<Rightarrow> nat \<Rightarrow> string" where
  "digits b n = (if n < b \<or> b < 2 then [digit_char n] else digits b (n div b) @ [digit_char (n mod b)])"

declare digits.simps [simp del]

lemma digits_small [simp]: "n < b \<Longrightarrow> digits b n = [digit_char n]"
  by (subst digits.simps) simp

lemma digits_step: "b \<le> n \<Longrightarrow> 2 \<le> b \<Longrightarrow> digits b n = digits b (n div b) @ [digit_char (n mod b)]"
  by (subst digits.simps) simp

lemma of_digit_char [simp]:
  "d < 16 \<Longrightarrow> (of_char (digit_char d) :: nat) = (if d < 10 then 48 + d else 87 + d)"
  by (simp add: digit_char_def)

lemma digit_val_char [simp]: "d < 16 \<Longrightarrow> digit_val (digit_char d) = Some d"
  by (simp add: digit_val_def)

lemma is_digit_char [simp]: "d < 10 \<Longrightarrow> is_digit (digit_char d)"
  by (simp add: is_digit_def)

section \<open>Decimal numbers\<close>

text \<open>The output of \<open>%d\<close>, and the value of a sequence of digits read from the left.\<close>

definition print_int :: "int \<Rightarrow> string" where
  "print_int i = (if i < 0 then CHR ''-'' # digits 10 (nat (- i)) else digits 10 (nat i))"

fun scan_digits :: "nat \<Rightarrow> string \<Rightarrow> nat" where
  "scan_digits acc [] = acc"
| "scan_digits acc (c # cs) = (if is_digit c then scan_digits (acc * 10 + (of_char c - 48)) cs else acc)"

definition is_space :: "char \<Rightarrow> bool" where
  "is_space c \<longleftrightarrow> of_char c \<in> {9, 10, 11, 12, 13, 32 :: nat}"

text \<open>
  \<open>sscanf (s, "%d", ...)\<close>: white space, a sign, digits. \<^const>\<open>None\<close> is that nothing is converted. Numbers
  that do not fit are beyond what the C library defines, and callers exclude them.
\<close>

definition scan_int :: "string \<Rightarrow> int option" where
  "scan_int s = (let t = dropWhile is_space s in case t of
     [] \<Rightarrow> None
   | c # cs \<Rightarrow>
       if c = CHR ''-'' \<or> c = CHR ''+''
       then (case cs of [] \<Rightarrow> None | d # _ \<Rightarrow>
         if is_digit d then Some ((if c = CHR ''-'' then - 1 else 1) * int (scan_digits 0 cs)) else None)
       else if is_digit c then Some (int (scan_digits 0 t)) else None)"

definition atoi :: "string \<Rightarrow> int" where
  "atoi s = (case scan_int s of None \<Rightarrow> 0 | Some i \<Rightarrow> i)"

lemma digits_decimal: "\<forall>c\<in>set (digits 10 n). is_digit c"
proof (induction n rule: less_induct)
  case (less n)
  show ?case
  proof (cases "n < 10")
    case False
    then show ?thesis using less.IH [of "n div 10"] by (simp add: digits_step)
  qed simp
qed

lemma digits_Cons: "\<exists>c cs. digits 10 n = c # cs \<and> is_digit c"
  using digits_decimal [of n] by (cases "digits 10 n") (auto simp: digits.simps [of 10 n] split: if_splits)

lemma scan_digits_append:
  "\<forall>c\<in>set xs. is_digit c \<Longrightarrow> scan_digits acc (xs @ ys) = scan_digits (scan_digits acc xs) ys"
  by (induction xs arbitrary: acc) auto

lemma scan_digits_stop: "ys = [] \<or> \<not> is_digit (hd ys) \<Longrightarrow> scan_digits acc ys = acc"
  by (cases ys) auto

lemma scan_digits_print:
  assumes "ys = [] \<or> \<not> is_digit (hd ys)"
  shows "scan_digits 0 (digits 10 n @ ys) = n"
  using assms
proof (induction n arbitrary: ys rule: less_induct)
  case (less n)
  show ?case
  proof (cases "n < 10")
    case True
    then show ?thesis using less.prems by (simp add: scan_digits_stop)
  next
    case False
    then have "scan_digits 0 (digits 10 (n div 10)) = n div 10" using less.IH [of "n div 10" "[]"] by simp
    then show ?thesis using False less.prems
      by (simp add: digits_step scan_digits_append digits_decimal scan_digits_stop)
  qed
qed

lemma digit_not_special: "is_digit c \<Longrightarrow> \<not> is_space c \<and> c \<noteq> CHR ''-'' \<and> c \<noteq> CHR ''+''"
  by (auto simp: is_digit_def is_space_def)

text \<open>Reading back what was printed, with anything but a digit behind it.\<close>

theorem scan_int_print:
  assumes "ys = [] \<or> \<not> is_digit (hd ys)"
  shows "scan_int (print_int i @ ys) = Some i"
proof -
  obtain c cs where c: "digits 10 (nat \<bar>i\<bar>) = c # cs" "is_digit c" using digits_Cons by blast
  have d: "scan_digits 0 (c # cs @ ys) = nat \<bar>i\<bar>" using scan_digits_print [OF assms, of "nat \<bar>i\<bar>"] c(1) by simp
  have sp: "\<not> is_space (CHR ''-'')" by (simp add: is_space_def)
  show ?thesis
    using c d sp digit_not_special [OF c(2)]
    by (cases "i < 0") (simp_all add: print_int_def scan_int_def del: scan_digits.simps)
qed

lemma atoi_print [string_simps]: "atoi (print_int i) = i"
  using scan_int_print [of "[]" i] by (simp add: atoi_def)

lemma print_int_nonempty [simp]: "print_int i \<noteq> []"
  using digits_Cons [of "nat i"] by (auto simp: print_int_def)

lemma digits_length: "n < 10 ^ Suc k \<Longrightarrow> length (digits 10 n) \<le> Suc k"
proof (induction k arbitrary: n)
  case (Suc k)
  show ?case
  proof (cases "n < 10")
    case False
    have "n div 10 < 10 ^ Suc k" using Suc.prems by (simp add: less_mult_imp_div_less mult.commute)
    then show ?thesis using False Suc.IH [of "n div 10"] by (simp add: digits_step)
  qed simp
qed simp

lemma print_int_length: "int_ok i \<Longrightarrow> length (print_int i) \<le> 11"
proof -
  assume "int_ok i"
  then have "nat (- i) < 10 ^ Suc 9" "nat i < 10 ^ Suc 9"
    by (auto simp: cint_simps nat_less_iff)
  then show ?thesis using digits_length [of "nat (- i)" 9] digits_length [of "nat i" 9] by (simp add: print_int_def)
qed

lemma print_int_eq [string_simps]: "print_int i = print_int j \<longleftrightarrow> i = j"
  using atoi_print by metis


section \<open>Hexadecimal bytes\<close>

text \<open>\<open>%02x\<close> of an unsigned number.\<close>

definition print_hex2 :: "nat \<Rightarrow> string" where
  "print_hex2 n = (if n < 16 then CHR ''0'' # digits 16 n else digits 16 n)"

fun read_hex :: "string \<Rightarrow> nat list option" where
  "read_hex [] = Some []"
| "read_hex [c] = None"
| "read_hex (c # d # cs) = (case (digit_val c, digit_val d, read_hex cs) of
     (Some x, Some y, Some bs) \<Rightarrow> Some ((16 * x + y) # bs) | _ \<Rightarrow> None)"

lemma digit_char_0: "digit_char 0 = CHR ''0''"
  unfolding digit_char_def by (subst char_of_eq_iff) simp

lemma print_hex2_byte: "n < 256 \<Longrightarrow> print_hex2 n = [digit_char (n div 16), digit_char (n mod 16)]"
  by (auto simp: print_hex2_def digits_step digit_char_0)

lemma read_hex_print:
  "\<forall>b\<in>set bs. b < 256 \<Longrightarrow> read_hex (concat (map print_hex2 bs)) = Some bs"
  by (induction bs) (auto simp: print_hex2_byte)

lemma length_hex_print: "\<forall>b\<in>set bs. b < 256 \<Longrightarrow> length (concat (map print_hex2 bs)) = 2 * length bs"
  by (induction bs) (auto simp: print_hex2_byte)


section \<open>Comparison\<close>

text \<open>\<open>strncmp (a, b, n) == 0\<close>; a negative \<open>n\<close> is converted to a huge unsigned number.\<close>

definition strncmp_eq :: "string \<Rightarrow> string \<Rightarrow> int \<Rightarrow> bool" where
  "strncmp_eq a b n \<longleftrightarrow> (if n < 0 then a = b else take (nat n) a = take (nat n) b)"

end
