(* ===== verification/Gpio.thy ===== *)
theory Gpio
  imports C_Strings
begin

text \<open>
  \<^verbatim>\<open>linux/gpio/gpio_base.c\<close> and \<^verbatim>\<open>linux/gpio/gpio_ctrl.c\<close>: general-purpose pins through the files below
  \<^verbatim>\<open>/sys/class/gpio\<close>. The kernel keeps a line for every pin it has; the files \<open>export\<close> and \<open>unexport\<close> make the
  files of a line appear and disappear, and the files \<open>direction\<close>, \<open>edge\<close> and \<open>value\<close> of an exported line show and
  change its settings, as the kernel documents it: \<open>value\<close> can be written for an output only, a line
  with an interrupt edge cannot become an output, and an output cannot get an edge. The results of
  \<open>write\<close> are ignored by the code, so a refused write is one without effect.
\<close>

section \<open>The files of the kernel\<close>

datatype gpio_direction = GPIO_DIR_INPUT | GPIO_DIR_OUTPUT | GPIO_DIR_BUTT

datatype gpio_edge = GPIO_EDGE_NONE | GPIO_EDGE_RISING | GPIO_EDGE_FALLING | GPIO_EDGE_BOTH | GPIO_EDGE_BUTT

text \<open>\<open>gl_irq\<close> says whether the line can raise interrupts; the file \<open>edge\<close> exists only then.\<close>

record gpio_line =
  gl_exported :: bool
  gl_out :: bool
  gl_edge :: gpio_edge
  gl_level :: bool
  gl_irq :: bool

type_synonym gpios = "int \<Rightarrow> gpio_line option"

datatype gpio_file = Export_File | Unexport_File | Direction_File int | Edge_File int | Value_File int

definition GPIO_BASE_DIR :: string where
  "GPIO_BASE_DIR = ''/sys/class/gpio''"

definition gpio_path :: "gpio_file \<Rightarrow> string" where
  "gpio_path f = GPIO_BASE_DIR @ (case f of
     Export_File \<Rightarrow> ''/export''
   | Unexport_File \<Rightarrow> ''/unexport''
   | Direction_File n \<Rightarrow> ''/gpio'' @ print_int n @ ''/direction''
   | Edge_File n \<Rightarrow> ''/gpio'' @ print_int n @ ''/edge''
   | Value_File n \<Rightarrow> ''/gpio'' @ print_int n @ ''/value'')"

definition gpio_exported :: "gpios \<Rightarrow> int \<Rightarrow> gpio_line option" where
  "gpio_exported w n = (case w n of None \<Rightarrow> None | Some l \<Rightarrow> if gl_exported l then Some l else None)"

definition sysfs_exists :: "gpios \<Rightarrow> gpio_file \<Rightarrow> bool" where
  "sysfs_exists w f = (case f of
     Export_File \<Rightarrow> True
   | Unexport_File \<Rightarrow> True
   | Direction_File n \<Rightarrow> gpio_exported w n \<noteq> None
   | Value_File n \<Rightarrow> gpio_exported w n \<noteq> None
   | Edge_File n \<Rightarrow> (case gpio_exported w n of None \<Rightarrow> False | Some l \<Rightarrow> gl_irq l))"

definition edge_name :: "gpio_edge \<Rightarrow> string" where
  "edge_name e = (case e of
     GPIO_EDGE_NONE \<Rightarrow> ''none'' | GPIO_EDGE_RISING \<Rightarrow> ''rising'' | GPIO_EDGE_FALLING \<Rightarrow> ''falling''
   | GPIO_EDGE_BOTH \<Rightarrow> ''both'' | GPIO_EDGE_BUTT \<Rightarrow> [])"

definition edge_of_name :: "string \<Rightarrow> gpio_edge option" where
  "edge_of_name s =
     (if s = ''none'' then Some GPIO_EDGE_NONE else if s = ''rising'' then Some GPIO_EDGE_RISING
      else if s = ''falling'' then Some GPIO_EDGE_FALLING else if s = ''both'' then Some GPIO_EDGE_BOTH else None)"

definition line_write :: "gpio_file \<Rightarrow> string \<Rightarrow> gpio_line \<Rightarrow> gpio_line" where
  "line_write f s l = (case f of
     Export_File \<Rightarrow> l\<lparr>gl_exported := True\<rparr>
   | Unexport_File \<Rightarrow> l\<lparr>gl_exported := False, gl_edge := GPIO_EDGE_NONE\<rparr>
   | Direction_File n \<Rightarrow>
       if s = ''in'' then l\<lparr>gl_out := False\<rparr>
       else if s = ''out'' \<and> gl_edge l = GPIO_EDGE_NONE then l\<lparr>gl_out := True, gl_level := False\<rparr>
       else l
   | Edge_File n \<Rightarrow> (case edge_of_name s of
         None \<Rightarrow> l
       | Some e \<Rightarrow> if gl_out l \<and> e \<noteq> GPIO_EDGE_NONE then l else l\<lparr>gl_edge := e\<rparr>)
   | Value_File n \<Rightarrow> (case scan_int s of
         None \<Rightarrow> l
       | Some v \<Rightarrow> if gl_out l then l\<lparr>gl_level := v \<noteq> 0\<rparr> else l))"

text \<open>\<open>export\<close> and \<open>unexport\<close> take the number of the line as text; the other files belong to a line.\<close>

definition file_line :: "gpio_file \<Rightarrow> string \<Rightarrow> int option" where
  "file_line f s = (case f of
     Export_File \<Rightarrow> scan_int s | Unexport_File \<Rightarrow> scan_int s
   | Direction_File n \<Rightarrow> Some n | Edge_File n \<Rightarrow> Some n | Value_File n \<Rightarrow> Some n)"

definition sysfs_write :: "gpio_file \<Rightarrow> string \<Rightarrow> gpios \<Rightarrow> gpios" where
  "sysfs_write f s w = (case file_line f s of
     None \<Rightarrow> w
   | Some n \<Rightarrow> w(n := map_option (line_write f s) (w n)))"

text \<open>What \<open>read\<close> delivers, a line of text with its newline.\<close>

definition sysfs_read :: "gpio_file \<Rightarrow> gpio_line \<Rightarrow> string" where
  "sysfs_read f l = (case f of
     Direction_File n \<Rightarrow> if gl_out l then ''out\<newline>'' else ''in\<newline>''
   | Edge_File n \<Rightarrow> edge_name (gl_edge l) @ ''\<newline>''
   | Value_File n \<Rightarrow> if gl_level l then ''1\<newline>'' else ''0\<newline>''
   | _ \<Rightarrow> [])"

text \<open>\<open>access\<close> refuses a mode that is not made up of the three permission bits.\<close>

definition sysfs_access :: "gpios \<Rightarrow> int \<Rightarrow> int \<Rightarrow> int" where
  "sysfs_access w n mode = (if mode < 0 \<or> 7 < mode then - 1 else if gpio_exported w n = None then - 1 else 0)"


section \<open>gpio\_base.c\<close>

definition GPIO_BASE_RET_OK :: int where "GPIO_BASE_RET_OK = 1"
definition GPIO_BASE_RET_FAIL :: int where "GPIO_BASE_RET_FAIL = - 1"

text \<open>\<open>opens\<close> says for which files \<open>open\<close> is permitted.\<close>

type_synonym permits = "gpio_file \<Rightarrow> bool"

definition gpio_open :: "permits \<Rightarrow> gpios \<Rightarrow> gpio_file \<Rightarrow> bool" where
  "gpio_open opens w f \<longleftrightarrow> opens f \<and> sysfs_exists w f"

definition gpio_base_export :: "permits \<Rightarrow> int \<Rightarrow> gpios \<Rightarrow> int \<times> gpios" where
  "gpio_base_export opens ngpio w =
     (if \<not> gpio_open opens w Export_File then (GPIO_BASE_RET_FAIL, w)
      else (GPIO_BASE_RET_OK, sysfs_write Export_File (print_int ngpio) w))"

definition gpio_base_unexport :: "permits \<Rightarrow> int \<Rightarrow> gpios \<Rightarrow> int \<times> gpios" where
  "gpio_base_unexport opens ngpio w =
     (if \<not> gpio_open opens w Unexport_File then (GPIO_BASE_RET_FAIL, w)
      else (GPIO_BASE_RET_OK, sysfs_write Unexport_File (print_int ngpio) w))"

text \<open>The mode is the octal constant 0666.\<close>

definition gpio_base_is_exist :: "int \<Rightarrow> gpios \<Rightarrow> int" where
  "gpio_base_is_exist ngpio w = (if sysfs_access w ngpio (6 * 64 + 6 * 8 + 6) = 0 then 1 else 0)"

definition gpio_base_set_direction :: "permits \<Rightarrow> int \<Rightarrow> gpio_direction \<Rightarrow> gpios \<Rightarrow> int \<times> gpios" where
  "gpio_base_set_direction opens ngpio dir w =
     (if dir = GPIO_DIR_BUTT then (GPIO_BASE_RET_FAIL, w)
      else if \<not> gpio_open opens w (Direction_File ngpio) then (GPIO_BASE_RET_FAIL, w)
      else (GPIO_BASE_RET_OK, sysfs_write (Direction_File ngpio)
        (case dir of GPIO_DIR_INPUT \<Rightarrow> ''in'' | GPIO_DIR_OUTPUT \<Rightarrow> ''out'' | GPIO_DIR_BUTT \<Rightarrow> []) w))"

definition gpio_read :: "permits \<Rightarrow> gpios \<Rightarrow> int \<Rightarrow> gpio_file \<Rightarrow> string option" where
  "gpio_read opens w n f =
     (if gpio_open opens w f then map_option (sysfs_read f) (gpio_exported w n) else None)"

definition gpio_base_get_direction :: "permits \<Rightarrow> int \<Rightarrow> gpios \<Rightarrow> gpio_direction" where
  "gpio_base_get_direction opens ngpio w = (case gpio_read opens w ngpio (Direction_File ngpio) of
     None \<Rightarrow> GPIO_DIR_BUTT
   | Some str \<Rightarrow>
       (let len = int (length str) in
        if strncmp_eq str ''in'' (len - 1) then GPIO_DIR_INPUT
        else if strncmp_eq str ''out'' (len - 1) then GPIO_DIR_OUTPUT else GPIO_DIR_BUTT))"

definition gpio_base_set_edge :: "permits \<Rightarrow> int \<Rightarrow> gpio_edge \<Rightarrow> gpios \<Rightarrow> int \<times> gpios" where
  "gpio_base_set_edge opens ngpio edge w =
     (if edge = GPIO_EDGE_BUTT then (GPIO_BASE_RET_FAIL, w)
      else if \<not> gpio_open opens w (Edge_File ngpio) then (GPIO_BASE_RET_FAIL, w)
      else (GPIO_BASE_RET_OK, sysfs_write (Edge_File ngpio) (edge_name edge) w))"

text \<open>\<^const>\<open>Inl\<close> is the error number that the code returns in place of an edge.\<close>

definition gpio_base_get_edge :: "permits \<Rightarrow> int \<Rightarrow> gpios \<Rightarrow> int + gpio_edge" where
  "gpio_base_get_edge opens ngpio w = (case gpio_read opens w ngpio (Edge_File ngpio) of
     None \<Rightarrow> Inl GPIO_BASE_RET_FAIL
   | Some str \<Rightarrow>
       (let len = int (length str) in
        Inr (if strncmp_eq str ''none'' (len - 1) then GPIO_EDGE_NONE
             else if strncmp_eq str ''rising'' (len - 1) then GPIO_EDGE_RISING
             else if strncmp_eq str ''falling'' (len - 1) then GPIO_EDGE_FALLING
             else if strncmp_eq str ''both'' (len - 1) then GPIO_EDGE_BOTH else GPIO_EDGE_BUTT)))"

definition gpio_base_set_value :: "permits \<Rightarrow> int \<Rightarrow> int \<Rightarrow> gpios \<Rightarrow> int \<times> gpios" where
  "gpio_base_set_value opens ngpio value w =
     (if \<not> gpio_open opens w (Value_File ngpio) then (GPIO_BASE_RET_FAIL, w)
      else (GPIO_BASE_RET_OK, sysfs_write (Value_File ngpio) (print_int value) w))"

definition gpio_base_get_value :: "permits \<Rightarrow> int \<Rightarrow> gpios \<Rightarrow> int" where
  "gpio_base_get_value opens ngpio w = (case gpio_read opens w ngpio (Value_File ngpio) of
     None \<Rightarrow> GPIO_BASE_RET_FAIL
   | Some str \<Rightarrow> (case scan_int str of None \<Rightarrow> 0 | Some v \<Rightarrow> v))"

text \<open>\<open>newfd\<close> is the descriptor \<open>open\<close> would hand out.\<close>

definition gpio_base_open :: "permits \<Rightarrow> int \<Rightarrow> int \<Rightarrow> gpios \<Rightarrow> int" where
  "gpio_base_open opens newfd ngpio w = (if gpio_open opens w (Value_File ngpio) then newfd else - 1)"

definition gpio_base_close :: "int \<Rightarrow> int" where
  "gpio_base_close fdesc = (if fdesc < 0 then GPIO_BASE_RET_FAIL else GPIO_BASE_RET_OK)"


section \<open>gpio\_ctrl.c\<close>

definition gpio_ensure :: "permits \<Rightarrow> int \<Rightarrow> gpios \<Rightarrow> gpios" where
  "gpio_ensure opens ngpio w = (if gpio_base_is_exist ngpio w = 0 then snd (gpio_base_export opens ngpio w) else w)"

definition gpio_ctrl_set_value :: "permits \<Rightarrow> int \<Rightarrow> int \<Rightarrow> gpios \<Rightarrow> int \<times> gpios" where
  "gpio_ctrl_set_value opens ngpio value w =
     (let w = gpio_ensure opens ngpio w;
          w = (if gpio_base_get_direction opens ngpio w = GPIO_DIR_INPUT
               then (let w = (if gpio_base_get_edge opens ngpio w \<noteq> Inr GPIO_EDGE_NONE
                              then snd (gpio_base_set_edge opens ngpio GPIO_EDGE_NONE w) else w)
                     in snd (gpio_base_set_direction opens ngpio GPIO_DIR_OUTPUT w))
               else w);
          w = snd (gpio_base_set_value opens ngpio value w)
      in (0, w))"

definition gpio_ctrl_get_value :: "permits \<Rightarrow> int \<Rightarrow> gpios \<Rightarrow> int \<times> gpios" where
  "gpio_ctrl_get_value opens ngpio w =
     (let w = gpio_ensure opens ngpio w in (gpio_base_get_value opens ngpio w, w))"

definition gpio_ctrl_set_edge :: "permits \<Rightarrow> int \<Rightarrow> gpio_edge \<Rightarrow> gpios \<Rightarrow> int \<times> gpios" where
  "gpio_ctrl_set_edge opens ngpio edge w =
     (let w = gpio_ensure opens ngpio w;
          w = (if gpio_base_get_direction opens ngpio w = GPIO_DIR_OUTPUT
               then snd (gpio_base_set_direction opens ngpio GPIO_DIR_INPUT w) else w);
          w = snd (gpio_base_set_edge opens ngpio edge w)
      in (0, w))"


section \<open>Properties\<close>

text \<open>
  The names that \<open>snprintf\<close> builds fit into the 64 bytes of the functions with their terminator, for
  every number of type \<open>int\<close>, and different files have different names: representing an open file by
  number and kind instead of its name loses nothing.
\<close>

lemma gpio_path_fits:
  assumes "\<And>n. f = Direction_File n \<or> f = Edge_File n \<or> f = Value_File n \<Longrightarrow> int_ok n"
  shows "length (gpio_path f) < 64"
  using assms print_int_length by (cases f) (fastforce simp: gpio_path_def GPIO_BASE_DIR_def)+

lemma gpio_path_number:
  "gpio_path (Direction_File n) = gpio_path (Direction_File m) \<longleftrightarrow> n = m"
  "gpio_path (Edge_File n) = gpio_path (Edge_File m) \<longleftrightarrow> n = m"
  "gpio_path (Value_File n) = gpio_path (Value_File m) \<longleftrightarrow> n = m"
  by (auto simp: gpio_path_def string_simps)

text \<open>The state of a line that the kernel maintains.\<close>

definition line_ok :: "gpio_line \<Rightarrow> bool" where
  "line_ok l \<longleftrightarrow> gl_edge l \<noteq> GPIO_EDGE_BUTT \<and>
     (gl_out l \<or> \<not> gl_irq l \<or> \<not> gl_exported l \<longrightarrow> gl_edge l = GPIO_EDGE_NONE)"

definition all_files :: permits where
  "all_files f = True"

lemmas gpio_kernel_defs = gpio_open_def all_files_def sysfs_exists_def gpio_exported_def sysfs_write_def line_write_def
  file_line_def gpio_read_def sysfs_read_def

lemma edge_of_name_edge [simp]: "edge_of_name (edge_name e) = (if e = GPIO_EDGE_BUTT then None else Some e)"
  by (cases e) (simp_all add: edge_of_name_def edge_name_def)

lemma scan_print [simp]: "scan_int (print_int i) = Some i"
  using scan_int_print [of "[]" i] by simp

lemma is_digit_newline [simp]: "\<not> is_digit (CHR ''\<newline>'')"
  by (simp add: is_digit_def)

lemma scan_level [simp]: "scan_int ''1\<newline>'' = Some 1" "scan_int ''0\<newline>'' = Some 0"
  by (simp_all add: scan_int_def is_space_def is_digit_def)

text \<open>The question whether a line is exported is always answered with no.\<close>

lemma gpio_base_is_exist_never: "gpio_base_is_exist n w = 0"
  by (simp add: gpio_base_is_exist_def sysfs_access_def)

lemma gpio_ensure_exports:
  "w n = Some l \<Longrightarrow> gpio_ensure all_files n w = w(n \<mapsto> l\<lparr>gl_exported := True\<rparr>)"
  by (simp add: gpio_ensure_def gpio_base_is_exist_never gpio_base_export_def gpio_kernel_defs)

lemma gpio_get_direction:
  "w n = Some l \<Longrightarrow> gl_exported l \<Longrightarrow>
    gpio_base_get_direction all_files n w = (if gl_out l then GPIO_DIR_OUTPUT else GPIO_DIR_INPUT)"
  by (simp add: gpio_base_get_direction_def gpio_kernel_defs strncmp_eq_def)

lemma gpio_get_edge:
  assumes "w n = Some l" "gl_exported l" "gl_edge l \<noteq> GPIO_EDGE_BUTT"
  shows "gpio_base_get_edge all_files n w = (if gl_irq l then Inr (gl_edge l) else Inl (- 1))"
  using assms
  by (cases "gl_edge l") (simp_all add: gpio_base_get_edge_def gpio_kernel_defs strncmp_eq_def edge_name_def GPIO_BASE_RET_FAIL_def)

lemma gpio_set_direction:
  "w n = Some l \<Longrightarrow> gl_exported l \<Longrightarrow> gpio_base_set_direction all_files n GPIO_DIR_INPUT w = (1, w(n \<mapsto> l\<lparr>gl_out := False\<rparr>))"
  "w n = Some l \<Longrightarrow> gl_exported l \<Longrightarrow> gl_edge l = GPIO_EDGE_NONE \<Longrightarrow>
    gpio_base_set_direction all_files n GPIO_DIR_OUTPUT w = (1, w(n \<mapsto> l\<lparr>gl_out := True, gl_level := False\<rparr>))"
  by (simp_all add: gpio_base_set_direction_def gpio_kernel_defs GPIO_BASE_RET_OK_def)

lemma gpio_set_edge:
  "w n = Some l \<Longrightarrow> gl_exported l \<Longrightarrow> gl_irq l \<Longrightarrow> e \<noteq> GPIO_EDGE_BUTT \<Longrightarrow> \<not> gl_out l \<Longrightarrow>
    gpio_base_set_edge all_files n e w = (1, w(n \<mapsto> l\<lparr>gl_edge := e\<rparr>))"
  "w n = Some l \<Longrightarrow> \<not> gl_irq l \<Longrightarrow> gpio_base_set_edge all_files n e w = (- 1, w)"
  by (simp_all add: gpio_base_set_edge_def gpio_kernel_defs GPIO_BASE_RET_OK_def GPIO_BASE_RET_FAIL_def)

lemma gpio_set_value:
  "w n = Some l \<Longrightarrow> gl_exported l \<Longrightarrow> gl_out l \<Longrightarrow>
    gpio_base_set_value all_files n v w = (1, w(n \<mapsto> l\<lparr>gl_level := v \<noteq> 0\<rparr>))"
  by (simp add: gpio_base_set_value_def gpio_kernel_defs GPIO_BASE_RET_OK_def)

lemma gpio_get_value:
  "w n = Some l \<Longrightarrow> gl_exported l \<Longrightarrow> gpio_base_get_value all_files n w = (if gl_level l then 1 else 0)"
  by (simp add: gpio_base_get_value_def gpio_kernel_defs)

lemmas gpio_ops = gpio_ensure_exports gpio_get_direction gpio_get_edge gpio_set_direction gpio_set_edge gpio_set_value
  gpio_get_value

lemma gpio_ctrl_set_value_line:
  assumes "w n = Some l" "line_ok l"
  shows "gpio_ctrl_set_value all_files n v w =
    (0, w(n \<mapsto> l\<lparr>gl_exported := True, gl_out := True, gl_edge := GPIO_EDGE_NONE, gl_level := v \<noteq> 0\<rparr>))"
proof -
  obtain ex out ed lev irq where l: "l = \<lparr>gl_exported = ex, gl_out = out, gl_edge = ed, gl_level = lev, gl_irq = irq\<rparr>"
    by (cases l)
  have edge: "gl_edge l \<noteq> GPIO_EDGE_BUTT" "gl_out l \<or> \<not> gl_irq l \<Longrightarrow> gl_edge l = GPIO_EDGE_NONE"
    using assms(2) by (auto simp: line_ok_def)
  consider "gl_out l" | "\<not> gl_out l" "gl_irq l" "gl_edge l \<noteq> GPIO_EDGE_NONE" | "\<not> gl_out l" "gl_irq l" "gl_edge l = GPIO_EDGE_NONE"
    | "\<not> gl_out l" "\<not> gl_irq l" by blast
  then show ?thesis
    using assms(1) edge by cases (simp_all add: l gpio_ctrl_set_value_def gpio_ops Let_def)
qed

lemma gpio_ctrl_set_edge_line:
  assumes "w n = Some l" "line_ok l" "gl_irq l" "e \<noteq> GPIO_EDGE_BUTT"
  shows "gpio_ctrl_set_edge all_files n e w = (0, w(n \<mapsto> l\<lparr>gl_exported := True, gl_out := False, gl_edge := e\<rparr>))"
  using assms(1,3,4) by (cases l; cases "gl_out l") (simp_all add: gpio_ctrl_set_edge_def gpio_ops)

text \<open>
  C30: Driving a pin. Whatever the state of the line was (not exported, an input with or without an
  interrupt edge, an output), after \<open>gpio_ctrl_set_value\<close> it is an exported output without an edge at the
  level asked for, \<open>gpio_ctrl_get_value\<close> reads that level back, and no other line has changed.
\<close>

theorem gpio_ctrl_set_value_drives:
  assumes "w n = Some l" and "line_ok l"
  shows "\<exists>w'. gpio_ctrl_set_value all_files n v w = (0, w') \<and> (\<forall>m. m \<noteq> n \<longrightarrow> w' m = w m) \<and>
    gpio_base_get_direction all_files n w' = GPIO_DIR_OUTPUT \<and>
    gpio_ctrl_get_value all_files n w' = (if v \<noteq> 0 then 1 else 0, w') \<and> (\<exists>l'. w' n = Some l' \<and> line_ok l')"
  unfolding gpio_ctrl_set_value_line [where w = w and n = n and l = l, OF assms]
  by (auto simp: gpio_ctrl_get_value_def gpio_ops line_ok_def)

definition demo_input :: gpio_line where
  "demo_input = \<lparr>gl_exported = True, gl_out = False, gl_edge = GPIO_EDGE_BOTH, gl_level = False, gl_irq = True\<rparr>"

theorem gpio_ctrl_set_value_drives_witness:
  "\<exists>w'. gpio_ctrl_set_value all_files 17 5 [17 \<mapsto> demo_input] = (0, w') \<and> gpio_ctrl_get_value all_files 17 w' = (1, w')"
  using gpio_ctrl_set_value_drives [of "[17 \<mapsto> demo_input]" 17 demo_input 5]
  by (auto simp: line_ok_def demo_input_def)

text \<open>
  Watching a pin. For a line that can raise interrupts, \<open>gpio_ctrl_set_edge\<close> makes it an input with the
  edge asked for, whatever it was before, and \<open>gpio_base_get_edge\<close> and \<open>gpio_base_get_direction\<close> report that;
  driving the pin afterwards takes the edge away again.
\<close>

theorem gpio_ctrl_set_edge_watches:
  assumes "w n = Some l" and "line_ok l" and "gl_irq l" and "e \<noteq> GPIO_EDGE_BUTT"
  shows "\<exists>w'. gpio_ctrl_set_edge all_files n e w = (0, w') \<and> (\<forall>m. m \<noteq> n \<longrightarrow> w' m = w m) \<and>
    gpio_base_get_edge all_files n w' = Inr e \<and> gpio_base_get_direction all_files n w' = GPIO_DIR_INPUT \<and>
    gpio_base_get_edge all_files n (snd (gpio_ctrl_set_value all_files n v w')) = Inr GPIO_EDGE_NONE"
proof -
  let ?l = "l\<lparr>gl_exported := True, gl_out := False, gl_edge := e\<rparr>"
  have "line_ok ?l" using assms(3,4) by (simp add: line_ok_def)
  then have "gpio_ctrl_set_value all_files n v (w(n \<mapsto> ?l)) =
      (0, w(n \<mapsto> ?l\<lparr>gl_exported := True, gl_out := True, gl_edge := GPIO_EDGE_NONE, gl_level := v \<noteq> 0\<rparr>))"
    by (subst gpio_ctrl_set_value_line [of _ n ?l]) simp_all
  then show ?thesis
    unfolding gpio_ctrl_set_edge_line [where w = w and n = n and l = l, OF assms] using assms(3,4) by (auto simp: gpio_ops)
qed

definition demo_output :: gpio_line where
  "demo_output = \<lparr>gl_exported = False, gl_out = True, gl_edge = GPIO_EDGE_NONE, gl_level = True, gl_irq = True\<rparr>"

theorem gpio_ctrl_set_edge_watches_witness:
  "\<exists>w'. gpio_ctrl_set_edge all_files 17 GPIO_EDGE_FALLING [17 \<mapsto> demo_output] = (0, w') \<and> gpio_base_get_edge all_files 17 w' = Inr GPIO_EDGE_FALLING"
  using gpio_ctrl_set_edge_watches [of "[17 \<mapsto> demo_output]" 17 demo_output GPIO_EDGE_FALLING]
  by (auto simp: line_ok_def demo_output_def)

text \<open>Every operation keeps the lines well-formed and adds or removes none.\<close>

lemma line_write_ok: "line_ok l \<Longrightarrow> gl_exported l \<or> f = Export_File \<or> f = Unexport_File \<Longrightarrow>
    (case f of Edge_File _ \<Rightarrow> gl_irq l | _ \<Rightarrow> True) \<Longrightarrow> line_ok (line_write f s l)"
  by (auto simp: line_ok_def line_write_def edge_of_name_def split: gpio_file.splits option.splits)

end
