(* ===== verification/Gpio_Irq.thy ===== *)
theory Gpio_Irq
  imports Gpio
begin

text \<open>
  \<^verbatim>\<open>linux/gpio/gpio_irq.c\<close>: a pin watched for edges. The descriptor of the file \<open>value\<close> is kept open between the
  calls, so the state has a table of the open descriptors with the mode and the position of each. The
  file uses three names it does not declare; they stand for the only things they can mean:
  \<open>ngpio\<close> in \<open>gpio_irq_create\<close> is \<open>gpio_irq->ngpio\<close>, \<open>timeout\<close> in \<open>gpio_irq_monitor\<close> is the \<open>tv\<close> set just before, and
  \<open>GPIO_BASE_DIR\<close> is the directory of \<^verbatim>\<open>gpio_base.c\<close>.
\<close>

section \<open>Open descriptors\<close>

datatype open_mode = O_RDONLY | O_WRONLY

record gpio_fd =
  gf_file :: gpio_file
  gf_mode :: open_mode
  gf_pos :: nat

text \<open>\<open>ie_app\<close> is whatever the callback keeps.\<close>

record 'a irq_env =
  ie_lines :: gpios
  ie_fds :: "int \<rightharpoonup> gpio_fd"
  ie_app :: 'a

text \<open>\<open>read\<close> fails on a descriptor that is not open for reading and on a line whose files are gone.\<close>

definition fd_line :: "gpio_fd \<Rightarrow> gpios \<Rightarrow> gpio_line option" where
  "fd_line d w = (case file_line (gf_file d) [] of None \<Rightarrow> None | Some n \<Rightarrow> gpio_exported w n)"

definition fd_content :: "int \<Rightarrow> nat \<Rightarrow> 'a irq_env \<Rightarrow> string option" where
  "fd_content fdesc n e = (case ie_fds e fdesc of
     None \<Rightarrow> None
   | Some d \<Rightarrow> if gf_mode d = O_WRONLY then None
       else map_option (\<lambda>l. take n (drop (gf_pos d) (sysfs_read (gf_file d) l))) (fd_line d (ie_lines e)))"

definition fd_read :: "int \<Rightarrow> nat \<Rightarrow> 'a irq_env \<Rightarrow> string option \<times> 'a irq_env" where
  "fd_read fdesc n e = (case fd_content fdesc n e of
     None \<Rightarrow> (None, e)
   | Some s \<Rightarrow> (Some s, e\<lparr>ie_fds := (ie_fds e)(fdesc := map_option (gf_pos_update ((+) (length s))) (ie_fds e fdesc))\<rparr>))"

definition fd_seek :: "int \<Rightarrow> nat \<Rightarrow> 'a irq_env \<Rightarrow> 'a irq_env" where
  "fd_seek fdesc p e = e\<lparr>ie_fds := (ie_fds e)(fdesc := map_option (gf_pos_update (\<lambda>_. p)) (ie_fds e fdesc))\<rparr>"


section \<open>gpio\_irq.c\<close>

text \<open>The callback may do anything to the state, \<open>'e\<close> below.\<close>

record 'e gpio_irq_t =
  gi_fd :: int
  gi_ngpio :: int
  gi_irq_param :: int
  gi_func :: "int \<Rightarrow> int \<Rightarrow> 'e \<Rightarrow> 'e"

definition register_gpio_irq ::
  "'e gpio_irq_t \<Rightarrow> int \<Rightarrow> (int \<Rightarrow> int \<Rightarrow> 'e \<Rightarrow> 'e) \<Rightarrow> int \<Rightarrow> int \<times> 'e gpio_irq_t" where
  "register_gpio_irq q ngpio func irq_param = (0, q\<lparr>gi_ngpio := ngpio, gi_irq_param := irq_param, gi_func := func\<rparr>)"

definition gpio_irq_create ::
  "permits \<Rightarrow> int \<Rightarrow> 'e gpio_irq_t \<Rightarrow> gpio_edge \<Rightarrow> 'a irq_env \<Rightarrow> int \<times> 'e gpio_irq_t \<times> 'a irq_env" where
  "gpio_irq_create opens newfd q edge e =
     (let n = gi_ngpio q;
          w = gpio_ensure opens n (ie_lines e);
          w = snd (gpio_base_set_direction opens n GPIO_DIR_INPUT w);
          w = snd (gpio_base_set_edge opens n edge w);
          e = e\<lparr>ie_lines := w\<rparr>
      in if \<not> gpio_open opens w (Value_File n) then (- 1, q, e)
         else (let e = e\<lparr>ie_fds := (ie_fds e)(newfd \<mapsto> \<lparr>gf_file = Value_File n, gf_mode = O_WRONLY, gf_pos = 0\<rparr>)\<rparr>;
                   e = snd (fd_read newfd 64 e);
                   e = fd_seek newfd 0 e
               in (0, q\<lparr>gi_fd := newfd\<rparr>, e)))"

definition gpio_irq_destroy :: "'e gpio_irq_t \<Rightarrow> 'a irq_env \<Rightarrow> int \<times> 'a irq_env" where
  "gpio_irq_destroy q e = (0, e\<lparr>ie_fds := (ie_fds e)(gi_fd q := None)\<rparr>)"

text \<open>
  \<open>ret\<close> and \<open>isset\<close> are what \<open>select\<close> delivers. \<open>atoi\<close> is run on a buffer of four bytes that was cleared before
  the read: \<^const>\<open>None\<close> is a buffer that the read filled completely, so that it has no terminator.
\<close>

definition gpio_irq_monitor ::
  "int \<Rightarrow> bool \<Rightarrow> 'a irq_env gpio_irq_t \<Rightarrow> 'a irq_env \<Rightarrow> (int \<times> 'a irq_env) option" where
  "gpio_irq_monitor ret isset q e =
     (if ret < 0 then Some (ret, e)
      else if 0 = ret then Some (ret, e)
      else if isset
        then (let (r, e) = fd_read (gi_fd q) 4 e;
                  buf = (case r of None \<Rightarrow> [] | Some s \<Rightarrow> s);
                  e = fd_seek (gi_fd q) 0 e
              in if 4 \<le> length buf then None
                 else Some (ret, gi_func q (gi_irq_param q) (case scan_int buf of None \<Rightarrow> 0 | Some v \<Rightarrow> v) e))
      else Some (ret, e))"


section \<open>Properties\<close>

lemma scan_int_Nil [simp]: "scan_int [] = None"
  by (simp add: scan_int_def)

lemma fd_seek_same:
  "ie_fds e fdesc = Some d \<Longrightarrow> gf_pos d = p \<Longrightarrow> fd_seek fdesc p e = e"
  "ie_fds e fdesc = None \<Longrightarrow> fd_seek fdesc p e = e"
  by (cases e; cases d; simp add: fd_seek_def fun_upd_idem)+

lemma fd_seek_read:
  "ie_fds e fdesc = Some d \<Longrightarrow> gf_pos d = 0 \<Longrightarrow> fd_seek fdesc 0 (snd (fd_read fdesc n e)) = e"
  by (cases e; cases d) (simp add: fd_seek_def fd_read_def fun_upd_idem split: option.splits)

lemma fd_read_write_only:
  "ie_fds e fdesc = Some d \<Longrightarrow> gf_mode d = O_WRONLY \<Longrightarrow> fd_read fdesc n e = (None, e)"
  by (simp add: fd_read_def fd_content_def)

lemma gpio_irq_create_line:
  assumes "ie_lines e (gi_ngpio q) = Some l" "gl_irq l" "edge \<noteq> GPIO_EDGE_BUTT"
  shows "gpio_irq_create all_files newfd q edge e = (0, q\<lparr>gi_fd := newfd\<rparr>,
    e\<lparr>ie_lines := (ie_lines e)(gi_ngpio q \<mapsto> l\<lparr>gl_exported := True, gl_out := False, gl_edge := edge\<rparr>),
      ie_fds := (ie_fds e)(newfd \<mapsto> \<lparr>gf_file = Value_File (gi_ngpio q), gf_mode = O_WRONLY, gf_pos = 0\<rparr>)\<rparr>)"
  using assms
  by (cases l) (simp add: gpio_irq_create_def gpio_ops Let_def fd_seek_read gpio_open_def all_files_def sysfs_exists_def gpio_exported_def)

text \<open>
  With a descriptor that can be read, \<open>gpio_irq_monitor\<close> would hand the level of the line to the callback.
\<close>

lemma gpio_irq_monitor_readable:
  assumes "ie_fds e (gi_fd q) = Some \<lparr>gf_file = Value_File n, gf_mode = O_RDONLY, gf_pos = 0\<rparr>"
    and "ie_lines e n = Some l" "gl_exported l" "0 < ret"
  shows "gpio_irq_monitor ret True q e = Some (ret, gi_func q (gi_irq_param q) (if gl_level l then 1 else 0) e)"
proof -
  have "fd_content (gi_fd q) 4 e = Some (if gl_level l then ''1\<newline>'' else ''0\<newline>'')"
    using assms by (simp add: fd_content_def fd_line_def file_line_def gpio_exported_def sysfs_read_def)
  then have "fst (fd_read (gi_fd q) 4 e) = Some (if gl_level l then ''1\<newline>'' else ''0\<newline>'')"
    by (simp add: fd_read_def)
  then show ?thesis
    using fd_seek_read [OF assms(1)] assms(4) by (simp add: gpio_irq_monitor_def split_def)
qed

text \<open>
  C31: Watching a pin. On a line that can raise interrupts, registering a callback and creating the watch
  makes the line an exported input with the edge asked for and changes no other line. But the
  descriptor it keeps is open for writing only: however the lines change afterwards, as long as the
  descriptor stays open every call of \<open>gpio_irq_monitor\<close> that \<open>select\<close> lets through calls the registered callback with
  its parameter and the value 0, at a high level too, and leaves the rest as it was. Timeouts and errors
  of \<open>select\<close> are reported without a call.
\<close>

theorem gpio_irq_reports_zero:
  assumes "ie_lines e n = Some l" and "gl_irq l" and "edge \<noteq> GPIO_EDGE_BUTT"
    and reg: "register_gpio_irq q n func param = (r, q1)"
    and cre: "gpio_irq_create all_files newfd q1 edge e = (r', q2, e')"
  shows "r' = 0 \<and> gpio_base_get_direction all_files n (ie_lines e') = GPIO_DIR_INPUT \<and>
      gpio_base_get_edge all_files n (ie_lines e') = Inr edge \<and> (\<forall>m. m \<noteq> n \<longrightarrow> ie_lines e' m = ie_lines e m) \<and>
      (\<forall>e2 ret. ie_fds e2 newfd = ie_fds e' newfd \<longrightarrow>
         gpio_irq_monitor ret True q2 e2 = Some (ret, if 0 < ret then func param 0 e2 else e2))"
proof -
  have q1: "gi_ngpio q1 = n" "gi_irq_param q1 = param" "gi_func q1 = func"
    using reg by (auto simp: register_gpio_irq_def)
  have line: "ie_lines e (gi_ngpio q1) = Some l" using assms(1) q1 by simp
  note c = gpio_irq_create_line [where newfd = newfd, OF line assms(2,3)]
  have mon: "gpio_irq_monitor ret True q2 e2 = Some (ret, if 0 < ret then func param 0 e2 else e2)"
    if "ie_fds e2 newfd = Some \<lparr>gf_file = Value_File n, gf_mode = O_WRONLY, gf_pos = 0\<rparr>" for e2 ret
    using that cre c q1 fd_read_write_only [OF that] fd_seek_same(1) [OF that, of 0]
    by (auto simp: gpio_irq_monitor_def)
  show ?thesis
    using cre c q1 mon assms(1-3) by (auto simp: gpio_ops)
qed

text \<open>A pin at a high level, a callback that keeps what it is given.\<close>

definition demo_irq_env :: "int list irq_env" where
  "demo_irq_env = \<lparr>ie_lines = [17 \<mapsto> demo_output], ie_fds = Map.empty, ie_app = []\<rparr>"

definition demo_callback :: "int \<Rightarrow> int \<Rightarrow> int list irq_env \<Rightarrow> int list irq_env" where
  "demo_callback p v e = e\<lparr>ie_app := [p, v]\<rparr>"

definition demo_irq :: "int list irq_env gpio_irq_t" where
  "demo_irq = \<lparr>gi_fd = 0, gi_ngpio = 0, gi_irq_param = 0, gi_func = (\<lambda>_ _ e. e)\<rparr>"

theorem gpio_irq_reports_zero_witness:
  "case gpio_irq_create all_files 5 (snd (register_gpio_irq demo_irq 17 demo_callback 99)) GPIO_EDGE_RISING demo_irq_env of
     (r, q, e) \<Rightarrow> r = 0 \<and> gpio_base_get_value all_files 17 (ie_lines e) = 1 \<and>
       map_option (ie_app \<circ> snd) (gpio_irq_monitor 1 True q e) = Some [99, 0]"
proof -
  obtain r q e where c: "gpio_irq_create all_files 5 (snd (register_gpio_irq demo_irq 17 demo_callback 99)) GPIO_EDGE_RISING demo_irq_env
      = (r, q, e)"
    by (cases "gpio_irq_create all_files 5 (snd (register_gpio_irq demo_irq 17 demo_callback 99)) GPIO_EDGE_RISING demo_irq_env")
  have l: "ie_lines demo_irq_env 17 = Some demo_output" "gl_irq demo_output"
    by (simp_all add: demo_irq_env_def demo_output_def)
  have "r = 0 \<and> gpio_irq_monitor 1 True q e = Some (1, demo_callback 99 0 e)"
    using gpio_irq_reports_zero [where func = demo_callback and param = 99 and q = demo_irq,
        OF l(1) l(2) _ surjective_pairing c] by auto
  moreover have "gpio_base_get_value all_files 17 (ie_lines e) = 1"
    using c gpio_irq_create_line [of demo_irq_env "snd (register_gpio_irq demo_irq 17 demo_callback 99)" demo_output GPIO_EDGE_RISING 5]
    by (auto simp: demo_irq_env_def register_gpio_irq_def demo_output_def gpio_ops)
  ultimately show ?thesis
    using c by (simp add: demo_callback_def)
qed

text \<open>Destroying the watch closes the descriptor and leaves the line exported, with its edge.\<close>

lemma gpio_irq_destroy_keeps_line:
  assumes "ie_lines e (gi_ngpio q) = Some l" "gl_irq l" "edge \<noteq> GPIO_EDGE_BUTT" "ie_fds e newfd = None"
  shows "case gpio_irq_create all_files newfd q edge e of (_, q', e') \<Rightarrow>
    ie_fds (snd (gpio_irq_destroy q' e')) = ie_fds e \<and>
    gpio_base_get_edge all_files (gi_ngpio q) (ie_lines (snd (gpio_irq_destroy q' e'))) = Inr edge"
  using assms gpio_irq_create_line [of e q l edge newfd]
  by (auto simp: gpio_irq_destroy_def gpio_ops fun_upd_idem)

end
