(* ===== verification/Ipc_Lock.thy ===== *)
theory Ipc_Lock
  imports C_Prelude
begin

text \<open>
  The interface of the locks in \<^verbatim>\<open>ipc_competition\<close> (\<open>ipc_lock_t\<close> in \<^verbatim>\<open>ipc_test_common.h\<close>), as its client, a
  set of processes that compete for a critical section, uses it. The state \<open>'w\<close> is what the processes
  share. An operation of process \<open>p\<close> returns a result and the new state; \<^const>\<open>None\<close> means that it
  does not return: it waits, or runs into undefined behaviour.
\<close>

type_synonym pid = nat
type_synonym 'w ipc_op = "pid \<Rightarrow> 'w \<Rightarrow> (int \<times> 'w) option"

text \<open>
  The runs of the processes: in every step one process that is outside calls \<open>lock\<close>, and is inside when
  the result is 0, or one that is inside calls \<open>unlock\<close> and is outside whatever the result. The set
  holds the processes that are inside.
\<close>

inductive lock_run :: "'w ipc_op \<Rightarrow> 'w ipc_op \<Rightarrow> 'w \<Rightarrow> 'w \<Rightarrow> pid set \<Rightarrow> bool"
  for lock unlock w0 where
  start: "lock_run lock unlock w0 w0 {}"
| enter: "lock_run lock unlock w0 w inside \<Longrightarrow> p \<notin> inside \<Longrightarrow> lock p w = Some (0, w') \<Longrightarrow>
    lock_run lock unlock w0 w' (insert p inside)"
| fail: "lock_run lock unlock w0 w inside \<Longrightarrow> p \<notin> inside \<Longrightarrow> lock p w = Some (r, w') \<Longrightarrow> r \<noteq> 0 \<Longrightarrow>
    lock_run lock unlock w0 w' inside"
| leave: "lock_run lock unlock w0 w inside \<Longrightarrow> p \<in> inside \<Longrightarrow> unlock p w = Some (r, w') \<Longrightarrow>
    lock_run lock unlock w0 w' (inside - {p})"

text \<open>What a lock promises: \<open>ok\<close> are the states its provider maintains, \<open>holder\<close> is who has the lock.\<close>

locale ipc_lock =
  fixes lock :: "'w ipc_op"
    and unlock :: "'w ipc_op"
    and ok :: "'w \<Rightarrow> bool"
    and holder :: "'w \<Rightarrow> pid option"
  assumes lock_law: "\<lbrakk>ok w; holder w \<noteq> Some p; lock p w = Some (r, w')\<rbrakk> \<Longrightarrow>
      ok w' \<and> (if r = 0 then holder w = None \<and> holder w' = Some p else holder w' = holder w)"
    and lock_free: "\<lbrakk>ok w; holder w = None\<rbrakk> \<Longrightarrow> \<exists>w'. lock p w = Some (0, w')"
    and unlock_law: "\<lbrakk>ok w; holder w = Some p\<rbrakk> \<Longrightarrow> \<exists>w'. unlock p w = Some (0, w') \<and> ok w' \<and> holder w' = None"
begin

lemma run_invariant:
  assumes "lock_run lock unlock w0 w inside" "ok w0" "holder w0 = None"
  shows "ok w \<and> inside = set_option (holder w)"
  using assms
proof (induction rule: lock_run.induct)
  case (enter w inside p w')
  then show ?case using lock_law [of w p 0 w'] by auto
next
  case (fail w inside p r w')
  then show ?case using lock_law [of w p r w'] by auto
next
  case (leave w inside p r w')
  then show ?case using unlock_law [of w p] by auto
qed simp

lemma mutual_exclusion:
  assumes "lock_run lock unlock w0 w inside" "ok w0" "holder w0 = None"
  shows "\<forall>p\<in>inside. \<forall>q\<in>inside. p = q"
  using run_invariant [OF assms] by auto

lemma not_stuck:
  assumes "lock_run lock unlock w0 w inside" "ok w0" "holder w0 = None"
  shows "if inside = {} then \<exists>w'. lock p w = Some (0, w') else \<exists>q\<in>inside. \<exists>w'. unlock q w = Some (0, w')"
  using run_invariant [OF assms] lock_free [of w p] unlock_law [of w] by (cases "holder w") auto

end

text \<open>
  Runs in which processes may also end at any moment, inside or outside the critical section, without
  calling \<open>unlock\<close>: \<open>crash p\<close> is what the kernel then does to the shared state. The number \<open>p\<close> may come back
  later as a new process.
\<close>

inductive robust_run :: "'w ipc_op \<Rightarrow> 'w ipc_op \<Rightarrow> (pid \<Rightarrow> 'w \<Rightarrow> 'w) \<Rightarrow> 'w \<Rightarrow> 'w \<Rightarrow> pid set \<Rightarrow> bool"
  for lock unlock crash w0 where
  start: "robust_run lock unlock crash w0 w0 {}"
| enter: "robust_run lock unlock crash w0 w inside \<Longrightarrow> p \<notin> inside \<Longrightarrow> lock p w = Some (0, w') \<Longrightarrow>
    robust_run lock unlock crash w0 w' (insert p inside)"
| fail: "robust_run lock unlock crash w0 w inside \<Longrightarrow> p \<notin> inside \<Longrightarrow> lock p w = Some (r, w') \<Longrightarrow> r \<noteq> 0 \<Longrightarrow>
    robust_run lock unlock crash w0 w' inside"
| leave: "robust_run lock unlock crash w0 w inside \<Longrightarrow> p \<in> inside \<Longrightarrow> unlock p w = Some (r, w') \<Longrightarrow>
    robust_run lock unlock crash w0 w' (inside - {p})"
| crash: "robust_run lock unlock crash w0 w inside \<Longrightarrow> robust_run lock unlock crash w0 (crash p w) (inside - {p})"

lemma lock_run_robust: "lock_run lock unlock w0 w inside \<Longrightarrow> robust_run lock unlock crash w0 w inside"
  by (induction rule: lock_run.induct) (auto intro: robust_run.intros)

lemma robust_run_die_inside:
  assumes "lock p w0 = Some (0, w1)"
  shows "robust_run lock unlock crash w0 (crash p w1) {}"
proof -
  have "robust_run lock unlock crash w0 w1 {p}" using assms by (auto intro: robust_run.intros)
  from robust_run.crash [OF this, of p] show ?thesis by simp
qed

text \<open>A lock that survives its users: the end of a process gives the lock free if it had it, and nothing else.\<close>

locale robust_lock = ipc_lock lock unlock ok holder
  for lock :: "'w ipc_op" and unlock :: "'w ipc_op" and ok :: "'w \<Rightarrow> bool" and holder :: "'w \<Rightarrow> pid option" +
  fixes crash :: "pid \<Rightarrow> 'w \<Rightarrow> 'w"
  assumes crash_law: "ok w \<Longrightarrow> ok (crash p w) \<and> holder (crash p w) = (if holder w = Some p then None else holder w)"
begin

lemma robust_invariant:
  assumes "robust_run lock unlock crash w0 w inside" "ok w0" "holder w0 = None"
  shows "ok w \<and> inside = set_option (holder w)"
  using assms
proof (induction rule: robust_run.induct)
  case (enter w inside p w')
  then show ?case using lock_law [of w p 0 w'] by auto
next
  case (fail w inside p r w')
  then show ?case using lock_law [of w p r w'] by auto
next
  case (leave w inside p r w')
  then show ?case using unlock_law [of w p] by auto
next
  case (crash w inside p)
  then show ?case using crash_law [of w p] by auto
qed simp

lemma robust_exclusion:
  assumes "robust_run lock unlock crash w0 w inside" "ok w0" "holder w0 = None"
  shows "(\<forall>p\<in>inside. \<forall>q\<in>inside. p = q) \<and>
    (if inside = {} then \<exists>w'. lock p w = Some (0, w') else \<exists>q\<in>inside. \<exists>w'. unlock q w = Some (0, w'))"
  using robust_invariant [OF assms] lock_free [of w p] unlock_law [of w] by (cases "holder w") auto

end

end
