(* ===== verification/Robust_Mutex.thy ===== *)
theory Robust_Mutex
  imports Ipc_Lock
begin

text \<open>
  A process-shared robust mutex of the default type, by the rules of POSIX: a lock call waits while a
  process has the mutex (itself included), which is \<^const>\<open>None\<close>; when the owner died, the next lock call
  gets the mutex with \<open>EOWNERDEAD\<close> and has to make it consistent before it unlocks, or the mutex can
  never be locked again. \<^verbatim>\<open>ipc_mutex.c\<close> and \<^verbatim>\<open>shm_mutex.c\<close> use it.
\<close>

section \<open>The mutex\<close>

datatype robust_mutex = Unlocked | Locked pid | Owner_Dead | Inconsistent pid | Not_Recoverable | Destroyed

definition EOWNERDEAD :: int where "EOWNERDEAD = 130"
definition ENOTRECOVERABLE :: int where "ENOTRECOVERABLE = 131"
definition EPERM :: int where "EPERM = 1"

lemmas mutex_errors = EOWNERDEAD_def ENOTRECOVERABLE_def EPERM_def

definition pthread_mutex_lock :: "pid \<Rightarrow> robust_mutex \<Rightarrow> (int \<times> robust_mutex) option" where
  "pthread_mutex_lock p m = (case m of
     Unlocked \<Rightarrow> Some (0, Locked p)
   | Owner_Dead \<Rightarrow> Some (EOWNERDEAD, Inconsistent p)
   | Not_Recoverable \<Rightarrow> Some (ENOTRECOVERABLE, m)
   | _ \<Rightarrow> None)"

definition pthread_mutex_consistent :: "pid \<Rightarrow> robust_mutex \<Rightarrow> robust_mutex" where
  "pthread_mutex_consistent p m = (if m = Inconsistent p then Locked p else m)"

definition consistent_result :: "pid \<Rightarrow> robust_mutex \<Rightarrow> int" where
  "consistent_result p m = (if m = Inconsistent p then 0 else 22)"

definition pthread_mutex_unlock :: "pid \<Rightarrow> robust_mutex \<Rightarrow> int \<times> robust_mutex" where
  "pthread_mutex_unlock p m =
     (if m = Locked p then (0, Unlocked) else if m = Inconsistent p then (0, Not_Recoverable) else (EPERM, m))"

text \<open>What the kernel does with the mutex when a process ends.\<close>

definition mutex_exit :: "pid \<Rightarrow> robust_mutex \<Rightarrow> robust_mutex" where
  "mutex_exit p m = (if m = Locked p \<or> m = Inconsistent p then Owner_Dead else m)"

end
