(* ===== verification/Ipc_Mutex.thy ===== *)
theory Ipc_Mutex
  imports Robust_Mutex
begin

text \<open>
  \<^verbatim>\<open>ipc_competition/ipc_mutex.c\<close>: a lock from a robust POSIX mutex in a named shared-memory object, which
  also counts its users. Names lead to objects, and a handle is the number of the object it maps:
  an object stays usable through its handles after its name is removed. Each function is one step here: this is what it does when no other
  process is in the middle of a call; \<open>Ipc_Mutex_Steps\<close> takes the functions apart. Waiting and undefined behaviour are \<^const>\<open>None\<close>.
\<close>

section \<open>The code\<close>

definition MAX_SHM_NAME_LEN :: nat where
  "MAX_SHM_NAME_LEN = 128"

text \<open>\<open>short\<close> counters are \<^typ>\<open>16 word\<close>; \<open>im_name\<close> is the name stored behind the struct.\<close>

record ipc_mutex =
  im_mutex :: robust_mutex
  im_refcnt :: "16 word"
  im_name :: string

record shms =
  sh_name :: "string \<Rightarrow> nat option"
  sh_obj :: "nat \<Rightarrow> ipc_mutex option"

text \<open>
  \<open>opened\<close>, \<open>sized\<close> and \<open>mapped\<close> tell whether \<open>shm_open\<close>, \<open>ftruncate\<close> and \<open>mmap\<close> succeed. The name is measured before
  it is compared with NULL, and a failed \<open>mmap\<close>, which does not return NULL, is not noticed: both
  end in a wild access.
\<close>

definition ipc_mutex_create ::
  "bool \<Rightarrow> bool \<Rightarrow> bool \<Rightarrow> nat \<Rightarrow> string option \<Rightarrow> shms \<Rightarrow> (nat option \<times> shms) option" where
  "ipc_mutex_create opened sized mapped newobj name w = (case name of
     None \<Rightarrow> None
   | Some n \<Rightarrow>
       if MAX_SHM_NAME_LEN \<le> length (''/dev/shm/'' @ n) then None
       else if \<not> opened then Some (None, w)
       else (case sh_name w n of
           None \<Rightarrow>
             if \<not> sized then Some (None, w)
             else if \<not> mapped then None
             else Some (Some newobj, w\<lparr>sh_name := (sh_name w)(n \<mapsto> newobj),
               sh_obj := (sh_obj w)(newobj \<mapsto> \<lparr>im_mutex = Unlocked, im_refcnt = 0 + 1, im_name = n\<rparr>)\<rparr>)
         | Some i \<Rightarrow>
             if \<not> mapped then None
             else do {
               m \<leftarrow> sh_obj w i;
               Some (Some i, w\<lparr>sh_obj := (sh_obj w)(i \<mapsto> m\<lparr>im_refcnt := im_refcnt m + 1\<rparr>)\<rparr>) }))"

text \<open>The loop around \<open>pthread_mutex_lock\<close>.\<close>

partial_function (option) mutex_lock_loop :: "pid \<Rightarrow> ipc_mutex \<Rightarrow> (int \<times> ipc_mutex) option" where
  "mutex_lock_loop p m = do {
     (ret, x) \<leftarrow> pthread_mutex_lock p (im_mutex m);
     (if ret = EOWNERDEAD
      then mutex_lock_loop p
        (m\<lparr>im_mutex := snd (pthread_mutex_unlock p (pthread_mutex_consistent p x)), im_refcnt := im_refcnt m - 1\<rparr>)
      else Some (ret, m\<lparr>im_mutex := x\<rparr>)) }"

definition ipc_mutex_lock :: "nat option \<Rightarrow> pid \<Rightarrow> shms \<Rightarrow> (int \<times> shms) option" where
  "ipc_mutex_lock handle p w = (case handle of
     None \<Rightarrow> Some (- 1, w)
   | Some i \<Rightarrow> do {
       m \<leftarrow> sh_obj w i;
       (ret, m') \<leftarrow> mutex_lock_loop p m;
       Some (if ret \<noteq> 0 then - 1 else 0, w\<lparr>sh_obj := (sh_obj w)(i \<mapsto> m')\<rparr>) })"

definition ipc_mutex_unlock :: "nat option \<Rightarrow> pid \<Rightarrow> shms \<Rightarrow> (int \<times> shms) option" where
  "ipc_mutex_unlock handle p w = (case handle of
     None \<Rightarrow> Some (- 1, w)
   | Some i \<Rightarrow> do {
       m \<leftarrow> sh_obj w i;
       let (ret, x) = pthread_mutex_unlock p (im_mutex m);
       Some (if ret \<noteq> 0 then - 1 else 0, w\<lparr>sh_obj := (sh_obj w)(i \<mapsto> m\<lparr>im_mutex := x\<rparr>)\<rparr>) })"

text \<open>
  The last user destroys the mutex and removes the name stored in the object, whatever that name
  leads to.
\<close>

definition ipc_mutex_destroy :: "nat option \<Rightarrow> shms \<Rightarrow> (int \<times> shms) option" where
  "ipc_mutex_destroy handle w = (case handle of
     None \<Rightarrow> Some (- 1, w)
   | Some i \<Rightarrow> do {
       m \<leftarrow> sh_obj w i;
       let m = m\<lparr>im_refcnt := im_refcnt m - 1\<rparr>;
       if im_refcnt m \<noteq> 0 then Some (0, w\<lparr>sh_obj := (sh_obj w)(i \<mapsto> m)\<rparr>)
       else (let w = w\<lparr>sh_obj := (sh_obj w)(i \<mapsto> m\<lparr>im_mutex := Destroyed\<rparr>)\<rparr> in
         if sh_name w (im_name m) = None then Some (- 1, w)
         else Some (0, w\<lparr>sh_name := (sh_name w)(im_name m := None)\<rparr>)) })"

text \<open>A process ends: the kernel marks the mutexes it has.\<close>

definition process_exit :: "pid \<Rightarrow> shms \<Rightarrow> shms" where
  "process_exit p w =
     w\<lparr>sh_obj := (\<lambda>i. map_option (\<lambda>m. m\<lparr>im_mutex := mutex_exit p (im_mutex m)\<rparr>) (sh_obj w i))\<rparr>"


section \<open>The lock contract\<close>

lemma mutex_lock_loop_cases:
  "im_mutex m = Unlocked \<Longrightarrow> mutex_lock_loop p m = Some (0, m\<lparr>im_mutex := Locked p\<rparr>)"
  "im_mutex m = Locked q \<Longrightarrow> mutex_lock_loop p m = None"
  "im_mutex m = Owner_Dead \<Longrightarrow> mutex_lock_loop p m = Some (0, m\<lparr>im_mutex := Locked p, im_refcnt := im_refcnt m - 1\<rparr>)"
  by (subst mutex_lock_loop.simps; simp add: pthread_mutex_lock_def mutex_errors pthread_mutex_unlock_def
      pthread_mutex_consistent_def; subst mutex_lock_loop.simps; simp add: pthread_mutex_lock_def mutex_errors)+

definition mutex_shared :: "nat \<Rightarrow> shms \<Rightarrow> bool" where
  "mutex_shared n w \<longleftrightarrow> (case sh_obj w n of
     None \<Rightarrow> False
   | Some m \<Rightarrow> (case im_mutex m of Unlocked \<Rightarrow> True | Locked _ \<Rightarrow> True | Owner_Dead \<Rightarrow> True | _ \<Rightarrow> False))"

definition mutex_holder :: "nat \<Rightarrow> shms \<Rightarrow> pid option" where
  "mutex_holder n w = (case sh_obj w n of
     None \<Rightarrow> None
   | Some m \<Rightarrow> (case im_mutex m of Locked p \<Rightarrow> Some p | _ \<Rightarrow> None))"

lemmas mutex_defs = mutex_shared_def mutex_holder_def ipc_mutex_lock_def ipc_mutex_unlock_def

interpretation mutex: ipc_lock "ipc_mutex_lock (Some n)" "ipc_mutex_unlock (Some n)" "mutex_shared n" "mutex_holder n" for n
proof unfold_locales
  fix w p r w'
  assume "mutex_shared n w" "mutex_holder n w \<noteq> Some p" "ipc_mutex_lock (Some n) p w = Some (r, w')"
  then show "mutex_shared n w' \<and>
      (if r = 0 then mutex_holder n w = None \<and> mutex_holder n w' = Some p else mutex_holder n w' = mutex_holder n w)"
    by (auto simp: mutex_defs mutex_lock_loop_cases split: option.splits robust_mutex.splits)
next
  fix w p
  assume "mutex_shared n w" "mutex_holder n w = None"
  then show "\<exists>w'. ipc_mutex_lock (Some n) p w = Some (0, w')"
    by (auto simp: mutex_defs mutex_lock_loop_cases split: option.splits robust_mutex.splits)
next
  fix w p
  assume "mutex_shared n w" "mutex_holder n w = Some p"
  then obtain m where "sh_obj w n = Some m" "im_mutex m = Locked p"
    by (auto simp: mutex_defs split: option.splits robust_mutex.splits)
  then show "\<exists>w'. ipc_mutex_unlock (Some n) p w = Some (0, w') \<and> mutex_shared n w' \<and> mutex_holder n w' = None"
    by (simp add: mutex_defs pthread_mutex_unlock_def)
qed

interpretation mutex_robust: robust_lock "ipc_mutex_lock (Some n)" "ipc_mutex_unlock (Some n)" "mutex_shared n" "mutex_holder n"
    process_exit for n
  by unfold_locales (auto simp: mutex_shared_def mutex_holder_def process_exit_def mutex_exit_def
      split: option.splits robust_mutex.splits)

text \<open>
  Mutual exclusion with the shared mutex: however the calls of the processes interleave, and
  wherever some of them end without unlocking, never more than one process is inside, and some call
  can always go on.
\<close>

theorem ipc_mutex_mutual_exclusion:
  assumes "robust_run (ipc_mutex_lock (Some n)) (ipc_mutex_unlock (Some n)) process_exit w0 w inside"
    and "mutex_shared n w0" and "mutex_holder n w0 = None"
  shows "(\<forall>p\<in>inside. \<forall>q\<in>inside. p = q) \<and>
    (if inside = {} then \<exists>w'. ipc_mutex_lock (Some n) p w = Some (0, w')
     else \<exists>q\<in>inside. \<exists>w'. ipc_mutex_unlock (Some n) q w = Some (0, w'))"
  using mutex_robust.robust_exclusion [OF assms, of p] .

text \<open>In the witness process 2 takes the mutex and dies inside, and process 1 enters after it.\<close>

theorem ipc_mutex_mutual_exclusion_witness:
  "\<exists>w. robust_run (ipc_mutex_lock (Some 3)) (ipc_mutex_unlock (Some 3)) process_exit
      \<lparr>sh_name = [''m'' \<mapsto> 3], sh_obj = [3 \<mapsto> \<lparr>im_mutex = Unlocked, im_refcnt = 2, im_name = ''m''\<rparr>]\<rparr> w {1} \<and>
    (\<forall>p\<in>{1 :: nat}. \<forall>q\<in>{1}. p = q) \<and>
    (if {1 :: nat} = {} then \<exists>w'. ipc_mutex_lock (Some 3) 2 w = Some (0, w')
     else \<exists>q\<in>{1}. \<exists>w'. ipc_mutex_unlock (Some 3) q w = Some (0, w'))"
proof -
  let ?w0 = "\<lparr>sh_name = [''m'' \<mapsto> 3], sh_obj = [3 \<mapsto> \<lparr>im_mutex = Unlocked, im_refcnt = 2, im_name = ''m''\<rparr>]\<rparr>"
  have init: "mutex_shared 3 ?w0" "mutex_holder 3 ?w0 = None" by (simp_all add: mutex_defs)
  obtain w1 where "ipc_mutex_lock (Some 3) 2 ?w0 = Some (0, w1)" using mutex.lock_free [OF init] by blast
  then have run1: "robust_run (ipc_mutex_lock (Some 3)) (ipc_mutex_unlock (Some 3)) process_exit ?w0 (process_exit 2 w1) {}"
    by (rule robust_run_die_inside)
  then obtain w2 where "ipc_mutex_lock (Some 3) 1 (process_exit 2 w1) = Some (0, w2)"
    using ipc_mutex_mutual_exclusion [OF run1 init, of 1] by auto
  then have run: "robust_run (ipc_mutex_lock (Some 3)) (ipc_mutex_unlock (Some 3)) process_exit ?w0 w2 {1}"
    using robust_run.enter [OF run1, where p = 1] by simp
  from ipc_mutex_mutual_exclusion [OF run init, of 2] show ?thesis using run by blast
qed

text \<open>
  The user count and crashes. Two processes create the lock and one of them ends without calling
  \<open>ipc_mutex_destroy\<close>. If it ended inside the critical section, the next \<open>ipc_mutex_lock\<close> of the other
  process corrects the count, and its \<open>ipc_mutex_destroy\<close> removes the object. If it ended outside, nothing
  corrects the count, and the object is left behind.
\<close>

theorem ipc_mutex_crash_cleanup:
  assumes "sh_name w n = None" and "length n < 119"
  shows "\<exists>w1 w2. ipc_mutex_create True True True i (Some n) w = Some (Some i, w1) \<and>
    ipc_mutex_create True True True j (Some n) w1 = Some (Some i, w2) \<and>
    (\<exists>w3 w4 w5 w6. ipc_mutex_lock (Some i) 1 w2 = Some (0, w3) \<and>
      ipc_mutex_lock (Some i) 2 (process_exit 1 w3) = Some (0, w4) \<and>
      ipc_mutex_unlock (Some i) 2 w4 = Some (0, w5) \<and> ipc_mutex_destroy (Some i) w5 = Some (0, w6) \<and> sh_name w6 n = None) \<and>
    (\<exists>w4 w5 w6. ipc_mutex_lock (Some i) 2 (process_exit 1 w2) = Some (0, w4) \<and>
      ipc_mutex_unlock (Some i) 2 w4 = Some (0, w5) \<and> ipc_mutex_destroy (Some i) w5 = Some (0, w6) \<and> sh_name w6 n = Some i)"
  using assms
  by (simp add: ipc_mutex_create_def MAX_SHM_NAME_LEN_def ipc_mutex_lock_def ipc_mutex_unlock_def ipc_mutex_destroy_def
      process_exit_def mutex_exit_def mutex_lock_loop_cases pthread_mutex_unlock_def)

theorem ipc_mutex_crash_cleanup_witness:
  "\<exists>w1. ipc_mutex_create True True True 3 (Some ''m'') \<lparr>sh_name = Map.empty, sh_obj = Map.empty\<rparr> = Some (Some 3, w1)"
  using ipc_mutex_crash_cleanup [of "\<lparr>sh_name = Map.empty, sh_obj = Map.empty\<rparr>" "''m''" 3] by auto

end
