(* ===== verification/Ipc_Mutex_Life.thy ===== *)
theory Ipc_Mutex_Life
  imports Ipc_Mutex
begin

text \<open>
  The whole life of the lock of \<^verbatim>\<open>ipc_competition/ipc_mutex.c\<close>: processes create it by name, lock, unlock and
  destroy it, and end at any moment. The user count kept beside the mutex decides who destroys it; here
  it is shown that it never does so too early, as long as calls do not overlap: every function is one step. When calls of \<open>ipc_mutex_create\<close> and \<open>ipc_mutex_destroy\<close> overlap
  this is not so, as \<open>Ipc_Mutex_Steps\<close> shows.
\<close>

section \<open>Runs\<close>

text \<open>
  \<open>hs\<close> has the handle of every process that has one, \<open>inside\<close> are the processes between a successful lock and
  its unlock, and \<open>k\<close> counts the successful calls of \<open>ipc_mutex_create\<close>. A process keeps at most one handle, does
  not lock again inside, and destroys its handle outside; \<open>j\<close> is an object number that is not in use.
\<close>

inductive mutex_life :: "string \<Rightarrow> shms \<Rightarrow> shms \<Rightarrow> (pid \<rightharpoonup> nat) \<Rightarrow> pid set \<Rightarrow> nat \<Rightarrow> bool"
  for n w0 where
  start: "mutex_life n w0 w0 Map.empty {} 0"
| create: "mutex_life n w0 w hs inside k \<Longrightarrow> hs p = None \<Longrightarrow> sh_obj w j = None \<Longrightarrow>
    ipc_mutex_create opened sized mapped j (Some n) w = Some (Some i, w') \<Longrightarrow> mutex_life n w0 w' (hs(p \<mapsto> i)) inside (Suc k)"
| create_fails: "mutex_life n w0 w hs inside k \<Longrightarrow> hs p = None \<Longrightarrow>
    ipc_mutex_create opened sized mapped j (Some n) w = Some (None, w') \<Longrightarrow> mutex_life n w0 w' hs inside k"
| enter: "mutex_life n w0 w hs inside k \<Longrightarrow> hs p = Some i \<Longrightarrow> p \<notin> inside \<Longrightarrow>
    ipc_mutex_lock (Some i) p w = Some (r, w') \<Longrightarrow> mutex_life n w0 w' hs (if r = 0 then insert p inside else inside) k"
| leave: "mutex_life n w0 w hs inside k \<Longrightarrow> hs p = Some i \<Longrightarrow> p \<in> inside \<Longrightarrow>
    ipc_mutex_unlock (Some i) p w = Some (r, w') \<Longrightarrow> mutex_life n w0 w' hs (inside - {p}) k"
| destroy: "mutex_life n w0 w hs inside k \<Longrightarrow> hs p = Some i \<Longrightarrow> p \<notin> inside \<Longrightarrow>
    ipc_mutex_destroy (Some i) w = Some (r, w') \<Longrightarrow> mutex_life n w0 w' (hs(p := None)) inside k"
| crash: "mutex_life n w0 w hs inside k \<Longrightarrow> mutex_life n w0 (process_exit p w) (hs(p := None)) (inside - {p}) k"


section \<open>The invariant\<close>

text \<open>
  Who is inside is what the mutex says. A count is at least the number of handles; a process that died
  with the mutex is still counted, until the next lock notices.
\<close>

definition owners_ok :: "robust_mutex \<Rightarrow> pid set \<Rightarrow> bool" where
  "owners_ok x inside \<longleftrightarrow> (case x of
     Unlocked \<Rightarrow> inside = {} | Owner_Dead \<Rightarrow> inside = {} | Locked p \<Rightarrow> inside = {p} | _ \<Rightarrow> False)"

definition mutex_counts :: "ipc_mutex \<Rightarrow> (pid \<rightharpoonup> nat) \<Rightarrow> nat \<Rightarrow> bool" where
  "mutex_counts m hs k \<longleftrightarrow> finite (dom hs) \<and>
     card (dom hs) + (if im_mutex m = Owner_Dead then 1 else 0) \<le> unat (im_refcnt m) \<and> unat (im_refcnt m) \<le> k"

definition life_ok :: "string \<Rightarrow> shms \<Rightarrow> (pid \<rightharpoonup> nat) \<Rightarrow> pid set \<Rightarrow> nat \<Rightarrow> bool" where
  "life_ok n w hs inside k \<longleftrightarrow> inside \<subseteq> dom hs \<and> (case sh_name w n of
     None \<Rightarrow> hs = Map.empty
   | Some i \<Rightarrow> ran hs \<subseteq> {i} \<and> (\<exists>m. sh_obj w i = Some m \<and> im_name m = n \<and> owners_ok (im_mutex m) inside \<and> mutex_counts m hs k))"

lemma life_ok_none: "sh_name w n = None \<Longrightarrow> life_ok n w hs inside k \<longleftrightarrow> hs = Map.empty \<and> inside = {}"
  by (auto simp: life_ok_def)

lemma life_ok_some:
  "sh_name w n = Some i \<Longrightarrow> sh_obj w i = Some m \<Longrightarrow> life_ok n w hs inside k \<longleftrightarrow>
    inside \<subseteq> dom hs \<and> ran hs \<subseteq> {i} \<and> im_name m = n \<and> owners_ok (im_mutex m) inside \<and> mutex_counts m hs k"
  by (auto simp: life_ok_def)

lemma life_handle:
  assumes "life_ok n w hs inside k" "hs p = Some i"
  obtains m where "sh_name w n = Some i" "sh_obj w i = Some m" "im_name m = n" "owners_ok (im_mutex m) inside" "mutex_counts m hs k"
    "inside \<subseteq> dom hs" "ran hs \<subseteq> {i}"
proof -
  have "i \<in> ran hs" using assms(2) by (simp add: ranI)
  with assms(1) that show ?thesis by (auto simp: life_ok_def split: option.splits)
qed

lemma refcnt_up: "unat (r :: 16 word) \<le> k \<Longrightarrow> Suc k < 65536 \<Longrightarrow> unat (r + 1) = Suc (unat r)"
  by (subst unat_word_ariths) simp

lemma refcnt_down: "0 < unat (r :: 16 word) \<Longrightarrow> unat (r - 1) = unat r - 1"
  by (rule unat_minus_one) auto

lemma mutex_counts_create:
  assumes "mutex_counts m hs k" "hs p = None" "Suc k < 65536"
  shows "mutex_counts (m\<lparr>im_refcnt := im_refcnt m + 1\<rparr>) (hs(p \<mapsto> i)) (Suc k)"
proof -
  have "p \<notin> dom hs" using assms(2) by blast
  then show ?thesis using assms refcnt_up [of "im_refcnt m" k] by (auto simp: mutex_counts_def)
qed

lemma life_create:
  assumes "life_ok n w hs inside k" "hs p = None" "Suc k < 65536"
    and c: "ipc_mutex_create opened sized mapped j (Some n) w = Some (Some i, w')"
  shows "life_ok n w' (hs(p \<mapsto> i)) inside (Suc k)"
proof (cases "sh_name w n")
  case None
  then have w': "i = j" "w' = w\<lparr>sh_name := (sh_name w)(n \<mapsto> j),
      sh_obj := (sh_obj w)(j \<mapsto> \<lparr>im_mutex = Unlocked, im_refcnt = 0 + 1, im_name = n\<rparr>)\<rparr>"
    using c by (auto simp: ipc_mutex_create_def split: if_splits)
  have "hs = Map.empty" "inside = {}" using assms(1) None by (simp_all add: life_ok_none)
  then show ?thesis
    using w' by (simp add: life_ok_def owners_ok_def mutex_counts_def)
next
  case (Some i')
  then obtain m where m: "sh_obj w i' = Some m" "i = i'"
      "w' = w\<lparr>sh_obj := (sh_obj w)(i' \<mapsto> m\<lparr>im_refcnt := im_refcnt m + 1\<rparr>)\<rparr>"
    using c by (auto simp: ipc_mutex_create_def split: if_splits option.splits Option.bind_splits)
  have "mutex_counts (m\<lparr>im_refcnt := im_refcnt m + 1\<rparr>) (hs(p \<mapsto> i)) (Suc k)"
    using assms(1-3) life_ok_some [OF Some m(1)] by (intro mutex_counts_create) auto
  then show ?thesis
    using assms(1,2) life_ok_some [OF Some m(1)] m Some by (auto simp: life_ok_def)
qed

lemma life_lock:
  assumes "life_ok n w hs inside k" "hs p = Some i"
  shows "if inside = {} then \<exists>w'. ipc_mutex_lock (Some i) p w = Some (0, w') \<and> life_ok n w' hs {p} k
    else ipc_mutex_lock (Some i) p w = None"
proof -
  obtain m where m: "sh_name w n = Some i" "sh_obj w i = Some m" "im_name m = n" "owners_ok (im_mutex m) inside"
      "mutex_counts m hs k" "ran hs \<subseteq> {i}"
    using life_handle [OF assms(1,2)] by metis
  consider "im_mutex m = Unlocked" "inside = {}" | "im_mutex m = Owner_Dead" "inside = {}"
    | q where "im_mutex m = Locked q" "inside = {q}"
    using m(4) by (cases "im_mutex m") (auto simp: owners_ok_def)
  then show ?thesis
  proof cases
    case 1
    then show ?thesis using m assms(2)
      by (auto simp: ipc_mutex_lock_def mutex_lock_loop_cases life_ok_def owners_ok_def mutex_counts_def)
  next
    case 2
    then have "0 < unat (im_refcnt m)" using m(5) by (auto simp: mutex_counts_def)
    with 2 show ?thesis using m assms(2) refcnt_down [of "im_refcnt m"]
      by (auto simp: ipc_mutex_lock_def mutex_lock_loop_cases life_ok_def owners_ok_def mutex_counts_def)
  next
    case 3
    then show ?thesis using m by (simp add: ipc_mutex_lock_def mutex_lock_loop_cases)
  qed
qed

lemma life_unlock:
  assumes "life_ok n w hs inside k" "hs p = Some i" "p \<in> inside"
  shows "inside = {p} \<and> (\<exists>w'. ipc_mutex_unlock (Some i) p w = Some (0, w') \<and> life_ok n w' hs {} k)"
proof -
  obtain m where m: "sh_name w n = Some i" "sh_obj w i = Some m" "im_name m = n" "owners_ok (im_mutex m) inside"
      "mutex_counts m hs k" "ran hs \<subseteq> {i}"
    using life_handle [OF assms(1,2)] by metis
  have "im_mutex m = Locked p \<and> inside = {p}"
    using m(4) assms(3) by (cases "im_mutex m") (auto simp: owners_ok_def)
  then show ?thesis
    using m by (auto simp: ipc_mutex_unlock_def pthread_mutex_unlock_def life_ok_def owners_ok_def mutex_counts_def)
qed

text \<open>The last user finds the mutex unlocked, and no other handle is left behind.\<close>

lemma life_destroy:
  assumes "life_ok n w hs inside k" "hs p = Some i" "p \<notin> inside"
  shows "\<exists>w'. ipc_mutex_destroy (Some i) w = Some (0, w') \<and> life_ok n w' (hs(p := None)) inside k"
proof -
  obtain m where m: "sh_name w n = Some i" "sh_obj w i = Some m" "im_name m = n" "owners_ok (im_mutex m) inside"
      "mutex_counts m hs k" "inside \<subseteq> dom hs" "ran hs \<subseteq> {i}"
    using life_handle [OF assms(1,2)] by metis
  have p: "p \<in> dom hs" using assms(2) by blast
  then have card: "0 < card (dom hs)" "card (dom hs - {p}) = card (dom hs) - 1"
    using m(5) by (auto simp: mutex_counts_def card_gt_0_iff)
  have r: "unat (im_refcnt m - 1) = unat (im_refcnt m) - 1"
    using m(5) card(1) by (intro refcnt_down) (auto simp: mutex_counts_def)
  have ran: "ran (hs(p := None)) \<subseteq> {i}" using m(7) by (auto simp: ran_def)
  show ?thesis
  proof (cases "im_refcnt m - 1 = 0")
    case True
    then have "card (dom hs - {p}) = 0" "im_mutex m \<noteq> Owner_Dead"
      using m(5) r card by (auto simp: mutex_counts_def split: if_splits)
    then have "dom (hs(p := None)) = {}" using m(5) by (auto simp: mutex_counts_def)
    moreover have "inside \<subseteq> dom (hs(p := None))" using m(6) assms(3) by auto
    ultimately have "hs(p := None) = Map.empty \<and> inside = {}" by (simp del: dom_fun_upd)
    then show ?thesis using True m(1-3) by (auto simp: ipc_mutex_destroy_def Let_def life_ok_none)
  next
    case False
    have "mutex_counts (m\<lparr>im_refcnt := im_refcnt m - 1\<rparr>) (hs(p := None)) k"
      using m(5) r card p by (auto simp: mutex_counts_def split: if_splits)
    then show ?thesis using False m ran assms(3) by (auto simp: ipc_mutex_destroy_def Let_def life_ok_def)
  qed
qed

lemma owners_exit: "owners_ok x inside \<Longrightarrow> owners_ok (mutex_exit p x) (inside - {p})"
  by (cases x) (auto simp: owners_ok_def mutex_exit_def)

lemma life_crash:
  assumes "life_ok n w hs inside k"
  shows "life_ok n (process_exit p w) (hs(p := None)) (inside - {p}) k"
proof (cases "sh_name w n")
  case None
  then show ?thesis using assms by (simp add: life_ok_none process_exit_def)
next
  case (Some i)
  then obtain m where m: "sh_obj w i = Some m" "im_name m = n" "owners_ok (im_mutex m) inside" "mutex_counts m hs k"
      "inside \<subseteq> dom hs" "ran hs \<subseteq> {i}"
    using assms by (auto simp: life_ok_def)
  have dead: "mutex_exit p (im_mutex m) = Owner_Dead \<Longrightarrow> im_mutex m = Owner_Dead \<or> p \<in> dom hs"
    using m(3,5) by (cases "im_mutex m") (auto simp: mutex_exit_def owners_ok_def split: if_splits)
  have "mutex_counts (m\<lparr>im_mutex := mutex_exit p (im_mutex m)\<rparr>) (hs(p := None)) k"
  proof (cases "p \<in> dom hs")
    case True
    then have "card (dom hs - {p}) = card (dom hs) - 1" "0 < card (dom hs)"
      using m(4) by (auto simp: mutex_counts_def card_gt_0_iff)
    moreover have "im_mutex m = Owner_Dead \<Longrightarrow> mutex_exit p (im_mutex m) = Owner_Dead" by (simp add: mutex_exit_def)
    ultimately show ?thesis using m(4) by (auto simp: mutex_counts_def split: if_splits)
  next
    case False
    then show ?thesis using m(4) dead by (auto simp: mutex_counts_def split: if_splits)
  qed
  moreover have "ran (hs(p := None)) \<subseteq> {i}" using m(6) by (auto simp: ran_def)
  ultimately show ?thesis
    using Some m owners_exit [OF m(3)] by (auto simp: life_ok_def process_exit_def)
qed

lemma create_fails_same: "ipc_mutex_create opened sized mapped j (Some n) w = Some (None, w') \<Longrightarrow> w' = w"
  by (auto simp: ipc_mutex_create_def split: if_splits option.splits Option.bind_splits)

lemma life_invariant:
  assumes "mutex_life n w0 w hs inside k" "sh_name w0 n = None" "k < 65536"
  shows "life_ok n w hs inside k"
  using assms
proof (induction rule: mutex_life.induct)
  case start
  then show ?case by (simp add: life_ok_none)
next
  case (create w hs inside k p j opened sized mapped i w')
  then have "life_ok n w hs inside k" by simp
  then show ?case by (rule life_create) (use create in simp_all)
next
  case (create_fails w hs inside k p opened sized mapped j w')
  then show ?case using create_fails_same by blast
next
  case (enter w hs inside k p i r w')
  then show ?case using life_lock [of n w hs inside k p i] by (auto split: if_splits)
next
  case (leave w hs inside k p i r w')
  then show ?case using life_unlock [of n w hs inside k p i] by auto
next
  case (destroy w hs inside k p i r w')
  then have "life_ok n w hs inside k" by simp
  from life_destroy [OF this destroy.hyps(2,3)] destroy.hyps(4)
  have "life_ok n w' (hs(p := None)) inside k" by auto
  then show ?case .
next
  case (crash w hs inside k p)
  then have "life_ok n w hs inside k" by simp
  then show ?case by (rule life_crash)
qed


section \<open>Properties\<close>

text \<open>
  The life of the shared mutex, with calls that do not overlap. Any number of processes create the lock under one name, lock,
  unlock and destroy it in any order, and end at any moment, inside or outside. As long as fewer than
  65536 calls of \<open>ipc_mutex_create\<close> have succeeded, the user count never lets the mutex go while it is in use: all
  handles lead to the same mutex, the one behind the name; never more than one process is inside; a
  process with a handle can lock whenever nobody is inside, and waits otherwise; the process inside can unlock; and
  \<open>ipc_mutex_destroy\<close> succeeds for everyone outside.
\<close>

theorem ipc_mutex_lifecycle:
  assumes "mutex_life n w0 w hs inside k" and "sh_name w0 n = None" and "k < 65536"
  shows "(\<forall>p\<in>inside. \<forall>q\<in>inside. p = q) \<and> inside \<subseteq> dom hs \<and>
    (\<forall>p i. hs p = Some i \<longrightarrow> sh_name w n = Some i \<and>
      (if p \<in> inside then \<exists>w'. ipc_mutex_unlock (Some i) p w = Some (0, w')
       else (\<exists>w'. ipc_mutex_destroy (Some i) w = Some (0, w')) \<and>
         (if inside = {} then \<exists>w'. ipc_mutex_lock (Some i) p w = Some (0, w') else ipc_mutex_lock (Some i) p w = None)))"
proof -
  have ok: "life_ok n w hs inside k" by (rule life_invariant) (rule assms)+
  then have sub: "inside \<subseteq> dom hs" by (simp add: life_ok_def)
  have "p = q" if pq: "p \<in> inside" "q \<in> inside" for p q
  proof -
    obtain i where "hs p = Some i" using sub pq(1) by blast
    from life_unlock [OF ok this pq(1)] show ?thesis using pq(2) by blast
  qed
  moreover have "sh_name w n = Some i" if "hs p = Some i" for p i
    using life_handle [OF ok that] by metis
  moreover have "\<exists>w'. ipc_mutex_unlock (Some i) p w = Some (0, w')" if "hs p = Some i" "p \<in> inside" for p i
    using life_unlock [OF ok that] by blast
  moreover have "\<exists>w'. ipc_mutex_destroy (Some i) w = Some (0, w')" if "hs p = Some i" "p \<notin> inside" for p i
    using life_destroy [OF ok that] by blast
  moreover have "if inside = {} then \<exists>w'. ipc_mutex_lock (Some i) p w = Some (0, w') else ipc_mutex_lock (Some i) p w = None"
    if "hs p = Some i" "p \<notin> inside" for p i
    using life_lock [OF ok that(1)] by (simp split: if_splits) blast
  ultimately show ?thesis using sub by simp
qed

text \<open>In the witness processes 1 and 2 create the lock, process 1 dies inside, and process 2 enters.\<close>

theorem ipc_mutex_lifecycle_witness:
  "\<exists>w. mutex_life ''m'' \<lparr>sh_name = Map.empty, sh_obj = Map.empty\<rparr> w [2 \<mapsto> 3] {2} 2 \<and> sh_name w ''m'' = Some 3 \<and>
    (\<exists>w'. ipc_mutex_unlock (Some 3) 2 w = Some (0, w'))"
proof -
  let ?w0 = "\<lparr>sh_name = Map.empty, sh_obj = Map.empty\<rparr>" let ?life = "mutex_life ''m'' ?w0"
  have n0: "sh_name ?w0 ''m'' = None" by simp
  have "ipc_mutex_create True True True 3 (Some ''m'') ?w0 = Some (Some 3,
      \<lparr>sh_name = [''m'' \<mapsto> 3], sh_obj = [3 \<mapsto> \<lparr>im_mutex = Unlocked, im_refcnt = 1, im_name = ''m''\<rparr>]\<rparr>)"
    by (simp add: ipc_mutex_create_def MAX_SHM_NAME_LEN_def)
  from mutex_life.create [OF mutex_life.start _ _ this, of 1]
  have 1: "?life \<lparr>sh_name = [''m'' \<mapsto> 3], sh_obj = [3 \<mapsto> \<lparr>im_mutex = Unlocked, im_refcnt = 1, im_name = ''m''\<rparr>]\<rparr> [1 \<mapsto> 3] {} (Suc 0)"
    by simp
  obtain w2 where "ipc_mutex_create True True True 4 (Some ''m'')
      \<lparr>sh_name = [''m'' \<mapsto> 3], sh_obj = [3 \<mapsto> \<lparr>im_mutex = Unlocked, im_refcnt = 1, im_name = ''m''\<rparr>]\<rparr> = Some (Some 3, w2)"
    by (simp add: ipc_mutex_create_def MAX_SHM_NAME_LEN_def)
  from mutex_life.create [OF 1 _ _ this, of 2] have 2: "?life w2 [1 \<mapsto> 3, 2 \<mapsto> 3] {} 2" by (simp add: numeral_2_eq_2)
  obtain w3 where "ipc_mutex_lock (Some 3) 1 w2 = Some (0, w3)"
    using ipc_mutex_lifecycle [OF 2 n0] by fastforce
  from mutex_life.enter [OF 2 _ _ this] have 3: "?life w3 [1 \<mapsto> 3, 2 \<mapsto> 3] {1} 2" by simp
  from mutex_life.crash [OF 3, of 1] have 4: "?life (process_exit 1 w3) [2 \<mapsto> 3] {} 2"
    by (simp add: fun_upd_twist)
  obtain w5 where "ipc_mutex_lock (Some 3) 2 (process_exit 1 w3) = Some (0, w5)"
    using ipc_mutex_lifecycle [OF 4 n0] by fastforce
  from mutex_life.enter [OF 4 _ _ this] have 5: "?life w5 [2 \<mapsto> 3] {2} 2" by simp
  from ipc_mutex_lifecycle [OF 5 n0] have "sh_name w5 ''m'' = Some 3 \<and> (\<exists>w'. ipc_mutex_unlock (Some 3) 2 w5 = Some (0, w'))"
    by fastforce
  with 5 show ?thesis by blast
qed

end
