(* ===== verification/File_Mkdir.thy ===== *)
theory File_Mkdir
  imports C_Prelude
begin

text \<open>
  \<^verbatim>\<open>ipc_competition/file_mkdir.c\<close>: creation of the directories on the way to a file. The file system
  maps the sequence of names that leads to a node to what it is; the root is the empty sequence, and
  an open directory is such a sequence. What else decides about a system call (permissions, the length of names, space, what other processes do
  meanwhile) is the argument \<open>fs_env\<close>. Each path is asked about at most once in a call of \<open>fs_mkdirs\<close>, so that functions of the path
  cover every sequence of answers. The code
  walks the path character by character; the model keeps the current name and the characters that
  remain.
\<close>

section \<open>The file system\<close>

datatype node = Dir | File | Symlink

type_synonym fs = "string list \<Rightarrow> node option"

definition ENOENT :: int where "ENOENT = 2"
definition EEXIST :: int where "EEXIST = 17"
definition EINVAL :: int where "EINVAL = 22"
definition ELOOP :: int where "ELOOP = 40"
definition ENOTDIR :: int where "ENOTDIR = 20"

lemmas fs_errors = ENOENT_def EEXIST_def EINVAL_def ELOOP_def ENOTDIR_def

text \<open>
  The numbers are error numbers, 0 for no error. \<open>fe_race\<close> is what another process puts at a path between the calls of \<open>fstatat\<close> and \<open>mkdirat\<close>.
  A directory may be made with a mode under which it cannot be opened: \<open>fe_open\<close> is also given the mode if the path was just made.
\<close>

record fs_env =
  fe_strdup :: bool
  fe_root :: int
  fe_stat :: "string list \<Rightarrow> int"
  fe_race :: "string list \<Rightarrow> node option"
  fe_mkdir :: "string list \<Rightarrow> u32 \<Rightarrow> int"
  fe_open :: "string list \<Rightarrow> u32 option \<Rightarrow> int"
  fe_creat :: bool

definition is_directory :: "fs \<Rightarrow> string list \<Rightarrow> bool" where
  "is_directory s dir \<longleftrightarrow> dir = [] \<or> s dir = Some Dir"

text \<open>The calls of the code on a name in the directory behind a descriptor; a file can be open as well, which is noticed here.\<close>

definition fstatat :: "fs_env \<Rightarrow> fs \<Rightarrow> string list \<Rightarrow> string \<Rightarrow> int + node" where
  "fstatat e s dir name =
     (if \<not> is_directory s dir then Inl ENOTDIR
      else if fe_stat e (dir @ [name]) \<noteq> 0 then Inl (fe_stat e (dir @ [name]))
      else (case s (dir @ [name]) of None \<Rightarrow> Inl ENOENT | Some n \<Rightarrow> Inr n))"

definition mkdirat :: "fs_env \<Rightarrow> u32 \<Rightarrow> fs \<Rightarrow> string list \<Rightarrow> string \<Rightarrow> int \<times> fs" where
  "mkdirat e mode s dir name =
     (let s = (case fe_race e (dir @ [name]) of None \<Rightarrow> s | Some n \<Rightarrow> s(dir @ [name] \<mapsto> n)) in
      if s (dir @ [name]) \<noteq> None then (EEXIST, s)
      else if fe_mkdir e (dir @ [name]) mode \<noteq> 0 then (fe_mkdir e (dir @ [name]) mode, s)
      else (0, s(dir @ [name] \<mapsto> Dir)))"

definition openat_nofollow :: "fs_env \<Rightarrow> fs \<Rightarrow> string list \<Rightarrow> string \<Rightarrow> u32 option \<Rightarrow> int" where
  "openat_nofollow e s dir name made = (case s (dir @ [name]) of
     None \<Rightarrow> ENOENT
   | Some Symlink \<Rightarrow> ELOOP
   | Some _ \<Rightarrow> fe_open e (dir @ [name]) made)"

text \<open>The names of a path: the parts between slashes that are not empty.\<close>

fun split_path :: "string \<Rightarrow> string \<Rightarrow> string list" where
  "split_path acc [] = (if acc = [] then [] else [acc])"
| "split_path acc (c # cs) =
     (if c = CHR ''/'' then (if acc = [] then split_path [] cs else acc # split_path [] cs)
      else split_path (acc @ [c]) cs)"

definition path_names :: "string \<Rightarrow> string list" where
  "path_names path = split_path [] path"


section \<open>The code\<close>

text \<open>
  What happens to one name, from \<open>fstatat\<close> to \<open>openat\<close>: it is looked up without following a symbolic link, created when
  it is missing, and opened. The number is 0, or the negative error number with which the function ends.
\<close>

definition enter_segment :: "fs_env \<Rightarrow> u32 \<Rightarrow> fs \<Rightarrow> string list \<Rightarrow> string \<Rightarrow> int \<times> fs" where
  "enter_segment e mode s dir segment =
     (let (res, s, made) =
        (case fstatat e s dir segment of
           Inl err \<Rightarrow>
             if err = ENOENT
             then (let (err, s) = mkdirat e mode s dir segment in
                   if err \<noteq> 0 then (if err = EEXIST then (0, s, None) else (- err, s, None))
                   else (0, s, Some mode))
             else (- err, s, None)
         | Inr n \<Rightarrow>
             if n = Symlink then (- ELOOP, s, None)
             else if n \<noteq> Dir then (- ENOTDIR, s, None)
             else (0, s, None))
      in if res \<noteq> 0 then (res, s)
         else (let err = openat_nofollow e s dir segment made in if err \<noteq> 0 then (- err, s) else (0, s)))"

text \<open>
  The loop: \<open>dir\<close> is the directory behind \<open>fd\<close>, \<open>segment\<close> the name read so far, then the rest of the
  path.
\<close>

function mkdirs_loop :: "fs_env \<Rightarrow> u32 \<Rightarrow> fs \<Rightarrow> string list \<Rightarrow> string \<Rightarrow> string \<Rightarrow> int \<times> fs" where
  "mkdirs_loop e mode s dir segment [] = (0, s)"
| "mkdirs_loop e mode s dir segment (c # cs) =
     (if c \<noteq> CHR ''/'' then mkdirs_loop e mode s dir (segment @ [c]) cs
      else if segment = ''..'' \<or> segment = ''.'' \<or> segment = [] then (- EINVAL, s)
      else
        (let (res, s) = enter_segment e mode s dir segment in
         if res \<noteq> 0 then (res, s)
         else mkdirs_loop e mode s (dir @ [segment]) [] (dropWhile (\<lambda>d. d = CHR ''/'') cs)))"
  by pat_completeness auto
termination
  by (relation "measure (\<lambda>(e, mode, s, dir, segment, cs). length cs)")
    (auto simp: less_Suc_eq_le length_dropWhile_le)

text \<open>The result of \<open>strdup\<close> is not tested, and read through.\<close>

definition fs_mkdirs :: "fs_env \<Rightarrow> u32 \<Rightarrow> fs \<Rightarrow> string \<Rightarrow> (int \<times> fs) option" where
  "fs_mkdirs e mode s path =
     (if \<not> fe_strdup e then None
      else (case path of
          [] \<Rightarrow> Some (- EINVAL, s)
        | c # cs \<Rightarrow>
            if c \<noteq> CHR ''/'' then Some (- EINVAL, s)
            else if fe_root e \<noteq> 0 then Some (- fe_root e, s)
            else Some (mkdirs_loop e mode s [] [] cs)))"

text \<open>
  \<open>creat\<close> makes or truncates a file in an existing directory, following no link here; \<open>fe_creat\<close> is whether it is permitted. On success the function has no return
  statement: the result is \<^const>\<open>None\<close>, a value that must not be used.
\<close>

definition fs_create_file :: "fs_env \<Rightarrow> fs \<Rightarrow> string \<Rightarrow> int option \<times> fs" where
  "fs_create_file e s name =
     (let p = path_names name in
      if \<not> fe_creat e \<or> p = [] \<or> \<not> is_directory s (butlast p) \<or> s p = Some Dir \<or> s p = Some Symlink then (Some (- 1), s)
      else (None, s(p := Some File)))"


section \<open>Properties\<close>

text \<open>The names that may appear in a path, and the path they make up.\<close>

definition name_ok :: "string \<Rightarrow> bool" where
  "name_ok n \<longleftrightarrow> n \<noteq> [] \<and> n \<noteq> ''.'' \<and> n \<noteq> ''..'' \<and> CHR ''/'' \<notin> set n"

fun path_of :: "string list \<Rightarrow> string \<Rightarrow> string" where
  "path_of [] lst = lst"
| "path_of (n # ns) lst = n @ CHR ''/'' # path_of ns lst"

text \<open>All proper and improper prefixes below \<open>dir\<close>.\<close>

fun below :: "string list \<Rightarrow> string list \<Rightarrow> string list list" where
  "below dir [] = []"
| "below dir (n # ns) = (dir @ [n]) # below (dir @ [n]) ns"

lemma mkdirs_loop_name:
  "CHR ''/'' \<notin> set n \<Longrightarrow> mkdirs_loop e mode s dir seg (n @ rest) = mkdirs_loop e mode s dir (seg @ n) rest"
  by (induction n arbitrary: seg) auto

lemma below_length: "p \<in> set (below dir ns) \<Longrightarrow> length dir < length p"
  by (induction ns arbitrary: dir) fastforce+

lemma below_append: "below dir (ms @ ns) = below dir ms @ below (dir @ ms) ns"
  by (induction ms arbitrary: dir) auto

lemma path_of_no_slash: "list_all name_ok ns \<Longrightarrow> CHR ''/'' \<notin> set lst \<Longrightarrow>
    dropWhile (\<lambda>d. d = CHR ''/'') (path_of ns lst) = path_of ns lst"
  by (cases ns; cases lst) (auto simp: name_ok_def dropWhile_append3 neq_Nil_conv)

text \<open>One name of the path is one \<^const>\<open>enter_segment\<close>.\<close>

lemma mkdirs_loop_segment:
  assumes "name_ok n" "list_all name_ok ns" "CHR ''/'' \<notin> set lst"
  shows "mkdirs_loop e mode s dir [] (path_of (n # ns) lst) =
    (let (res, s) = enter_segment e mode s dir n in if res \<noteq> 0 then (res, s) else mkdirs_loop e mode s (dir @ [n]) [] (path_of ns lst))"
  using assms by (cases "enter_segment e mode s dir n") (auto simp: mkdirs_loop_name name_ok_def path_of_no_slash)

text \<open>
  What keeps the code from going on behind a path, as an error number, and 0 if nothing does: it cannot be looked at, it is there and no directory, it is missing and
  cannot be made, somebody else made something that cannot be opened, or it cannot be opened.
\<close>

definition obstacle :: "fs_env \<Rightarrow> u32 \<Rightarrow> fs \<Rightarrow> string list \<Rightarrow> int" where
  "obstacle e mode s p =
     (if fe_stat e p \<noteq> 0 then fe_stat e p
      else (case s p of
          Some Dir \<Rightarrow> fe_open e p None
        | Some File \<Rightarrow> ENOTDIR
        | Some Symlink \<Rightarrow> ELOOP
        | None \<Rightarrow> (case fe_race e p of
              None \<Rightarrow> if fe_mkdir e p mode \<noteq> 0 then fe_mkdir e p mode else fe_open e p (Some mode)
            | Some Symlink \<Rightarrow> ELOOP
            | Some n \<Rightarrow> fe_open e p None)))"

text \<open>\<open>fstatat\<close> says that nothing is there only where nothing is, and \<open>mkdirat\<close> that something is only where something is.\<close>

definition env_honest :: "fs_env \<Rightarrow> bool" where
  "env_honest e \<longleftrightarrow> (\<forall>p. fe_stat e p \<noteq> ENOENT) \<and> (\<forall>p m. fe_mkdir e p m \<noteq> EEXIST)"

lemmas segment_defs = enter_segment_def fstatat_def obstacle_def mkdirat_def openat_nofollow_def fs_errors Let_def

lemma enter_segment_result:
  assumes "env_honest e" "is_directory s dir" "enter_segment e mode s dir n = (res, s')" "fe_race e (dir @ [n]) \<noteq> Some File"
  shows "res = - obstacle e mode s (dir @ [n]) \<and> (\<forall>p. p \<noteq> dir @ [n] \<longrightarrow> s' p = s p) \<and> (res = 0 \<longrightarrow> s' (dir @ [n]) = Some Dir)"
proof (cases "fe_stat e (dir @ [n]) = 0")
  case False
  moreover have "fe_stat e (dir @ [n]) \<noteq> 2" using assms(1) by (simp add: env_honest_def ENOENT_def)
  ultimately show ?thesis using assms(2,3) by (auto simp: segment_defs)
next
  case ok: True
  have mk: "fe_mkdir e (dir @ [n]) mode \<noteq> 17" using assms(1) by (simp add: env_honest_def EEXIST_def)
  show ?thesis
  proof (cases "s (dir @ [n])")
    case None
    show ?thesis
    proof (cases "fe_race e (dir @ [n])")
      case none: None
      then show ?thesis using assms(2,3) ok mk None by (auto simp: segment_defs split: if_splits)
    next
      case (Some r)
      then show ?thesis using assms(2-4) ok None by (cases r) (auto simp: segment_defs split: if_splits)
    qed
  next
    case (Some m)
    then show ?thesis using assms(2,3) ok by (cases m) (auto simp: segment_defs split: if_splits)
  qed
qed

text \<open>Where the walk along the paths ends: at the end, or at the first obstacle.\<close>

definition walk_result :: "fs_env \<Rightarrow> u32 \<Rightarrow> fs \<Rightarrow> string list list \<Rightarrow> int \<times> fs \<Rightarrow> bool" where
  "walk_result e mode s ps r \<longleftrightarrow> (case find (\<lambda>p. obstacle e mode s p \<noteq> 0) ps of
     None \<Rightarrow> fst r = 0 \<and> (\<forall>p. snd r p = (if p \<in> set ps then Some Dir else s p))
   | Some q \<Rightarrow> fst r = - obstacle e mode s q \<and>
       (\<forall>p. p \<noteq> q \<longrightarrow> snd r p = (if p \<in> set (takeWhile (\<lambda>p. p \<noteq> q) ps) then Some Dir else s p)))"

lemma obstacle_cong: "s p = s' p \<Longrightarrow> obstacle e mode s p = obstacle e mode s' p"
  by (simp add: obstacle_def)

lemma mkdirs_loop_result:
  assumes "env_honest e" "list_all name_ok ns" "CHR ''/'' \<notin> set lst" "is_directory s dir"
    and "\<forall>p\<in>set (below dir ns). fe_race e p \<noteq> Some File"
  shows "walk_result e mode s (below dir ns) (mkdirs_loop e mode s dir [] (path_of ns lst))"
  using assms(2,4,5)
proof (induction ns arbitrary: dir s)
  case Nil
  then show ?case using mkdirs_loop_name [of lst e mode s dir "[]" "[]"] assms(3) by (simp add: walk_result_def)
next
  case (Cons n ns)
  let ?d = "dir @ [n]"
  obtain res s1 where seg: "enter_segment e mode s dir n = (res, s1)" by fastforce
  have r: "res = - obstacle e mode s ?d" "\<And>p. p \<noteq> ?d \<Longrightarrow> s1 p = s p" "res = 0 \<longrightarrow> s1 ?d = Some Dir"
    using enter_segment_result [OF assms(1) Cons.prems(2) seg] Cons.prems(3) by auto
  have loop: "mkdirs_loop e mode s dir [] (path_of (n # ns) lst) = (if res \<noteq> 0 then (res, s1) else mkdirs_loop e mode s1 ?d [] (path_of ns lst))"
    using mkdirs_loop_segment [of n ns lst e mode s dir] Cons.prems(1) assms(3) seg by simp
  show ?case
  proof (cases "res = 0")
    case False
    then show ?thesis using r loop by (simp add: walk_result_def)
  next
    case True
    have far: "p \<noteq> ?d" if "p \<in> set (below ?d ns)" for p using below_length [OF that] by auto
    have same: "find (\<lambda>p. obstacle e mode s1 p \<noteq> 0) (below ?d ns) = find (\<lambda>p. obstacle e mode s p \<noteq> 0) (below ?d ns)"
      using far r(2) by (intro find_cong) (simp_all add: obstacle_cong [of s1 _ s])
    have "walk_result e mode s1 (below ?d ns) (mkdirs_loop e mode s1 ?d [] (path_of ns lst))"
      using Cons.prems r(3) True by (intro Cons.IH) (simp_all add: is_directory_def)
    moreover have "walk_result e mode s (?d # below ?d ns) x" if "walk_result e mode s1 (below ?d ns) x" for x
    proof (cases "find (\<lambda>p. obstacle e mode s p \<noteq> 0) (below ?d ns)")
      case None
      then show ?thesis using that same r True by (auto simp: walk_result_def)
    next
      case (Some q)
      then have q: "q \<in> set (below ?d ns)" by (auto simp: find_Some_iff)
      then have "obstacle e mode s1 q = obstacle e mode s q" "?d \<noteq> q" using far r(2) obstacle_cong [of s1 q s] by auto
      then show ?thesis using that same Some r True by (auto simp: walk_result_def)
    qed
    ultimately show ?thesis using loop True by simp
  qed
qed

text \<open>
  C33: \<open>fs_mkdirs\<close> on an absolute path of valid names, whatever the system answers to its calls, as long as no other process puts a file in the way in the middle of the call. If every name that is followed by a slash can be looked at, is a
  directory, or is missing and can be made, by this process or by another one meanwhile, and can then be opened, it returns 0 and has made a directory of each of these names; the last name and everything
  else in the file system are left alone. Otherwise it stops at the first name where that is not so and returns the negative number of the error that occurred there; the
  directories before that name are made, and everything behind it is left alone.
\<close>

theorem fs_mkdirs_creates_all:
  assumes "env_honest e" and "fe_strdup e" and "fe_root e = 0" and "list_all name_ok ns" and "CHR ''/'' \<notin> set lst"
    and "list_all (\<lambda>p. fe_race e p \<noteq> Some File) (below [] ns)"
  shows "\<exists>res s'. fs_mkdirs e mode s (CHR ''/'' # path_of ns lst) = Some (res, s') \<and>
    (case find (\<lambda>p. obstacle e mode s p \<noteq> 0) (below [] ns) of
       None \<Rightarrow> res = 0 \<and> (\<forall>p. s' p = (if p \<in> set (below [] ns) then Some Dir else s p))
     | Some q \<Rightarrow> res = - obstacle e mode s q \<and>
         (\<forall>p. p \<noteq> q \<longrightarrow> s' p = (if p \<in> set (takeWhile (\<lambda>p. p \<noteq> q) (below [] ns)) then Some Dir else s p)))"
proof -
  obtain res s' where r: "mkdirs_loop e mode s [] [] (path_of ns lst) = (res, s')" by fastforce
  have "walk_result e mode s (below [] ns) (res, s')"
    using mkdirs_loop_result [OF assms(1,4,5), of s "[]" mode] assms(6) r by (simp add: is_directory_def list_all_iff)
  then show ?thesis using assms(2,3) r by (simp add: fs_mkdirs_def walk_result_def split: option.splits)
qed

text \<open>A system that permits everything, and one on which \<open>/tmp/a\<close> is made with a mode under which it cannot be opened.\<close>

definition demo_fs_env :: fs_env where
  "demo_fs_env = \<lparr>fe_strdup = True, fe_root = 0, fe_stat = (\<lambda>_. 0), fe_race = (\<lambda>_. None), fe_mkdir = (\<lambda>_ _. 0), fe_open = (\<lambda>_ _. 0), fe_creat = True\<rparr>"

definition demo_closed_env :: fs_env where
  "demo_closed_env = demo_fs_env\<lparr>fe_open := (\<lambda>p m. if m = Some 0 then 13 else 0)\<rparr>"

theorem fs_mkdirs_creates_all_witness:
  "(\<exists>s'. fs_mkdirs demo_fs_env 0x1f8 [[] \<mapsto> Dir, [''tmp''] \<mapsto> Dir] ''/tmp/a/lock'' = Some (0, s') \<and> s' [''tmp'', ''a''] = Some Dir \<and>
      s' [''tmp'', ''a'', ''lock''] = None) \<and>
    (\<exists>s'. fs_mkdirs demo_closed_env 0 [[] \<mapsto> Dir, [''tmp''] \<mapsto> Dir] ''/tmp/a/lock'' = Some (- 13, s'))"
proof -
  have names: "list_all name_ok [''tmp'', ''a'']" "CHR ''/'' \<notin> set ''lock''" by (auto simp: name_ok_def)
  have "env_honest demo_fs_env" "env_honest demo_closed_env" by (simp_all add: env_honest_def demo_fs_env_def demo_closed_env_def fs_errors)
  note ok = fs_mkdirs_creates_all [OF this(1) _ _ names, of "0x1f8" "[[] \<mapsto> Dir, [''tmp''] \<mapsto> Dir]"]
    and closed = fs_mkdirs_creates_all [OF this(2) _ _ names, of 0 "[[] \<mapsto> Dir, [''tmp''] \<mapsto> Dir]"]
  show ?thesis
    using ok closed by (auto simp: demo_fs_env_def demo_closed_env_def obstacle_def simp del: mkdirs_loop.simps)
qed

text \<open>
  A race the code ignores: if another process makes a file of the last name between the two calls, \<open>fs_mkdirs\<close> takes it for a directory and
  returns 0.
\<close>

lemma fs_mkdirs_raced_file:
  assumes "env_honest e" "fe_strdup e" "fe_root e = 0" "name_ok n" "CHR ''/'' \<notin> set lst" "s [n] = None" "fe_stat e [n] = 0"
    and "fe_race e [n] = Some File" "fe_open e [n] None = 0"
  shows "\<exists>s'. fs_mkdirs e mode s (CHR ''/'' # path_of [n] lst) = Some (0, s') \<and> s' [n] = Some File"
proof -
  have "enter_segment e mode s [] n = (0, s([n] \<mapsto> File))"
    using assms(6-9) by (simp add: segment_defs is_directory_def)
  moreover have "mkdirs_loop e mode s' dir [] lst = (0, s')" for s' dir
    using mkdirs_loop_name [of lst e mode s' dir "[]" "[]"] assms(5) by simp
  ultimately have "mkdirs_loop e mode s [] [] (path_of [n] lst) = (0, s([n] \<mapsto> File))"
    using mkdirs_loop_segment [of n "[]" lst e mode s "[]"] assms(4,5) by simp
  then show ?thesis using assms(2,3) by (simp add: fs_mkdirs_def)
qed

end
