(* ===== verification/Ipc_Semsv.thy ===== *)
theory Ipc_Semsv
  imports Ipc_Lock File_Mkdir
begin

text \<open>
  \<^verbatim>\<open>ipc_competition/ipc_semsv.c\<close>: a lock from a System V semaphore. The kernel keeps the file system, the
  identifier behind each key, and for each identifier the value, the process of the last
  successful \<open>semop\<close> and the adjustment every process has for \<open>SEM_UNDO\<close>. A handle lives in the memory of one
  process, and \<open>ipc_semsv_lock\<close> may replace its contents, so the operations return the handle as
  well. Waiting and undefined behaviour are \<^const>\<open>None\<close>; each call is one step of the kernel.
\<close>

section \<open>The kernel\<close>

record sem =
  sem_val :: int
  sem_pid :: pid
  sem_adj :: "pid \<Rightarrow> int"

record sem_kernel =
  sk_fs :: fs
  sk_key :: "int \<Rightarrow> int option"
  sk_sem :: "int \<Rightarrow> sem option"

definition ENOSPC :: int where "ENOSPC = 28"
definition ERANGE :: int where "ERANGE = 34"

text \<open>\<open>semop\<close> with one operation of amount \<open>d\<close> and \<open>SEM_UNDO\<close>; the result has the error number.\<close>

definition semop :: "pid \<Rightarrow> int \<Rightarrow> int \<Rightarrow> sem_kernel \<Rightarrow> (int \<times> int \<times> sem_kernel) option" where
  "semop p i d w = (case sk_sem w i of
     None \<Rightarrow> Some (- 1, EINVAL, w)
   | Some s \<Rightarrow>
       if sem_val s + d < 0 then None
       else if 32767 < sem_val s + d then Some (- 1, ERANGE, w)
       else Some (0, 0, w\<lparr>sk_sem := (sk_sem w)(i := Some
         \<lparr>sem_val = sem_val s + d, sem_pid = p, sem_adj = (sem_adj s)(p := sem_adj s p - d)\<rparr>)\<rparr>))"

text \<open>
  \<open>semget\<close> that creates a set of one semaphore, exclusively: \<open>newid\<close> is the identifier the kernel would
  hand out, negative when it has none left. A new semaphore has the value 0.
\<close>

definition semget_excl :: "int \<Rightarrow> int \<Rightarrow> sem_kernel \<Rightarrow> int \<times> int \<times> sem_kernel" where
  "semget_excl newid key w =
     (if sk_key w key \<noteq> None then (- 1, EEXIST, w)
      else if newid < 0 then (- 1, ENOSPC, w)
      else (newid, 0, w\<lparr>sk_key := (sk_key w)(key := Some newid),
        sk_sem := (sk_sem w)(newid := Some \<lparr>sem_val = 0, sem_pid = 0, sem_adj = (\<lambda>_. 0)\<rparr>)\<rparr>))"

text \<open>\<open>semget\<close> of an existing set, for a caller that is granted the access it asks for or not.\<close>

definition semget_existing :: "bool \<Rightarrow> int \<Rightarrow> sem_kernel \<Rightarrow> int" where
  "semget_existing granted key w = (case sk_key w key of None \<Rightarrow> - 1 | Some i \<Rightarrow> if granted then i else - 1)"

definition semctl_setval :: "int \<Rightarrow> int \<Rightarrow> sem_kernel \<Rightarrow> int \<times> sem_kernel" where
  "semctl_setval i v w = (case sk_sem w i of
     None \<Rightarrow> (- 1, w)
   | Some s \<Rightarrow> (0, w\<lparr>sk_sem := (sk_sem w)(i := Some (s\<lparr>sem_val := v, sem_adj := (\<lambda>_. 0)\<rparr>))\<rparr>))"

definition semctl_rmid :: "int \<Rightarrow> sem_kernel \<Rightarrow> int \<times> sem_kernel" where
  "semctl_rmid i w =
     (if sk_sem w i = None then (- 1, w)
      else (0, w\<lparr>sk_key := (\<lambda>k. if sk_key w k = Some i then None else sk_key w k), sk_sem := (sk_sem w)(i := None)\<rparr>))"

text \<open>A process ends: its adjustments are applied, and no value becomes negative.\<close>

definition sem_exit :: "pid \<Rightarrow> sem_kernel \<Rightarrow> sem_kernel" where
  "sem_exit p w = w\<lparr>sk_sem := (\<lambda>i. map_option (\<lambda>s. if sem_adj s p = 0 then s else
     s\<lparr>sem_val := max 0 (sem_val s + sem_adj s p), sem_pid := p, sem_adj := (sem_adj s)(p := 0)\<rparr>) (sk_sem w i))\<rparr>"


section \<open>The code\<close>

definition MAX_SEM_NAME_LEN :: nat where
  "MAX_SEM_NAME_LEN = 128"

record ipc_semsv =
  sem_id :: int
  is_creator :: int
  lockref :: int
  sem_name :: "string option"

text \<open>
  What the outside decides in a call of \<open>ipc_semsv_create\<close>: what the system says when files are created, whether
  \<open>calloc\<close> and \<open>strdup\<close> succeed, what \<open>ftok\<close> makes of a path, the next free identifier, and whether the
  caller may open an existing set with the mode 0555.
\<close>

record sem_env =
  se_files :: fs_env
  se_calloc :: bool
  se_strdup :: bool
  se_ftok :: "fs \<Rightarrow> string \<Rightarrow> int"
  se_newid :: int
  se_granted :: bool

definition ipc_semsv_create :: "sem_env \<Rightarrow> string option \<Rightarrow> sem_kernel \<Rightarrow> (ipc_semsv option \<times> sem_kernel) option" where
  "ipc_semsv_create e name w = (case name of
     None \<Rightarrow> Some (None, w)
   | Some n \<Rightarrow>
       (let path = ''/tmp/'' @ n in
        if MAX_SEM_NAME_LEN \<le> length path then None
        else do {
          let s = sk_fs w;
          s \<leftarrow> (if s (path_names path) = None
            then do { (_, s) \<leftarrow> fs_mkdirs (se_files e) 0x1f8 s path; Some (snd (fs_create_file (se_files e) s path)) }
            else Some s);
          let w = w\<lparr>sk_fs := s\<rparr>;
          let key = se_ftok e s path;
          (if \<not> se_calloc e then Some (None, w)
           else if key < 0 then Some (None, w)
           else
             (let (i, err, w) = semget_excl (se_newid e) key w in
              if i < 0 \<and> err \<noteq> EEXIST then Some (None, w)
              else
                (let dup = (if se_strdup e then Some n else None) in
                 if 0 \<le> i then
                   (let (r, w) = semctl_setval i 1 w in
                    if r = - 1 then Some (None, w)
                    else Some (Some \<lparr>sem_id = i, is_creator = 1, lockref = 0, sem_name = dup\<rparr>, w))
                 else Some (Some \<lparr>sem_id = semget_existing (se_granted e) key w, is_creator = 0, lockref = 0, sem_name = dup\<rparr>, w)))) }))"

text \<open>
  When the semaphore is gone, the lock operation creates it again and copies the new handle over
  the old one, without a look at whether there is a new one, and still returns -1.
\<close>

definition ipc_semsv_lock ::
  "sem_env \<Rightarrow> pid \<Rightarrow> ipc_semsv option \<Rightarrow> sem_kernel \<Rightarrow> (int \<times> ipc_semsv option \<times> sem_kernel) option" where
  "ipc_semsv_lock e p handle w = (case handle of
     None \<Rightarrow> Some (- 1, None, w)
   | Some h \<Rightarrow> do {
       (ret, err, w) \<leftarrow> semop p (sem_id h) (- 1) w;
       if ret = 0 then Some (ret, Some (h\<lparr>lockref := lockref h + 1\<rparr>), w)
       else if err = EINVAL \<and> sem_name h \<noteq> None then do {
         (ptr, w) \<leftarrow> ipc_semsv_create e (sem_name h) w;
         (case ptr of None \<Rightarrow> None | Some h' \<Rightarrow> Some (ret, Some h', w)) }
       else Some (ret, Some h, w) })"

definition ipc_semsv_unlock :: "pid \<Rightarrow> ipc_semsv option \<Rightarrow> sem_kernel \<Rightarrow> (int \<times> ipc_semsv option \<times> sem_kernel) option" where
  "ipc_semsv_unlock p handle w = (case handle of
     None \<Rightarrow> Some (- 1, None, w)
   | Some h \<Rightarrow> do {
       (ret, err, w) \<leftarrow> semop p (sem_id h) 1 w;
       if ret = - 1 then Some (ret, Some h, w) else Some (ret, Some (h\<lparr>lockref := lockref h - 1\<rparr>), w) })"

text \<open>\<^const>\<open>None\<close> for the handle is that it is freed; it stays when the semaphore cannot be removed.\<close>

definition ipc_semsv_destroy :: "ipc_semsv option \<Rightarrow> sem_kernel \<Rightarrow> int \<times> ipc_semsv option \<times> sem_kernel" where
  "ipc_semsv_destroy handle w = (case handle of
     None \<Rightarrow> (- 1, None, w)
   | Some h \<Rightarrow>
       if is_creator h \<noteq> 0
       then (let (ret, w) = semctl_rmid (sem_id h) w in if ret = - 1 then (ret, Some h, w) else (ret, None, w))
       else (0, None, w))"


section \<open>The lock contract\<close>

text \<open>The handles of the processes together with the kernel are what the lock operations work on.\<close>

definition semsv_lock_step :: "sem_env \<Rightarrow> ((pid \<Rightarrow> ipc_semsv) \<times> sem_kernel) ipc_op" where
  "semsv_lock_step e p = (\<lambda>(hs, w). case ipc_semsv_lock e p (Some (hs p)) w of
     Some (r, Some h, w') \<Rightarrow> Some (r, hs(p := h), w') | _ \<Rightarrow> None)"

definition semsv_unlock_step :: "((pid \<Rightarrow> ipc_semsv) \<times> sem_kernel) ipc_op" where
  "semsv_unlock_step p = (\<lambda>(hs, w). case ipc_semsv_unlock p (Some (hs p)) w of
     Some (r, Some h, w') \<Rightarrow> Some (r, hs(p := h), w') | _ \<Rightarrow> None)"

text \<open>
  Every process has a handle on the semaphore \<open>i\<close>; its value is 1, or 0 and then the process of the
  last \<open>semop\<close> has it, and alone has an adjustment; the field \<open>lockref\<close> agrees with the adjustments.
\<close>

definition semsv_shared :: "int \<Rightarrow> (pid \<Rightarrow> ipc_semsv) \<times> sem_kernel \<Rightarrow> bool" where
  "semsv_shared i = (\<lambda>(hs, w). case sk_sem w i of
     None \<Rightarrow> False
   | Some s \<Rightarrow> (sem_val s = 0 \<or> sem_val s = 1) \<and>
       (\<forall>p. sem_id (hs p) = i \<and> lockref (hs p) = sem_adj s p \<and>
         sem_adj s p = (if sem_val s = 0 \<and> p = sem_pid s then 1 else 0)))"

definition semsv_holder :: "int \<Rightarrow> (pid \<Rightarrow> ipc_semsv) \<times> sem_kernel \<Rightarrow> pid option" where
  "semsv_holder i = (\<lambda>(hs, w). case sk_sem w i of
     None \<Rightarrow> None | Some s \<Rightarrow> if sem_val s = 0 then Some (sem_pid s) else None)"

lemma semsv_shared_free:
  "semsv_shared i (hs, w) \<and> semsv_holder i (hs, w) = None \<longleftrightarrow>
   (\<exists>q. sk_sem w i = Some \<lparr>sem_val = 1, sem_pid = q, sem_adj = (\<lambda>_. 0)\<rparr>) \<and> (\<forall>p. sem_id (hs p) = i \<and> lockref (hs p) = 0)"
proof (cases "sk_sem w i")
  case (Some s)
  then show ?thesis by (cases s) (auto simp: semsv_shared_def semsv_holder_def fun_eq_iff)
qed (simp add: semsv_shared_def)

lemma semsv_shared_held:
  "semsv_shared i (hs, w) \<and> semsv_holder i (hs, w) = Some p \<longleftrightarrow>
   sk_sem w i = Some \<lparr>sem_val = 0, sem_pid = p, sem_adj = (\<lambda>_. 0)(p := 1)\<rparr> \<and>
   (\<forall>q. sem_id (hs q) = i \<and> lockref (hs q) = (if q = p then 1 else 0))"
proof (cases "sk_sem w i")
  case (Some s)
  then show ?thesis by (cases s) (auto simp: semsv_shared_def semsv_holder_def fun_eq_iff)
qed (simp add: semsv_shared_def)

lemma semsv_enter:
  assumes "semsv_shared i (hs, w)" "semsv_holder i (hs, w) = None"
  shows "\<exists>hs' w'. semsv_lock_step e p (hs, w) = Some (0, hs', w') \<and> semsv_shared i (hs', w') \<and> semsv_holder i (hs', w') = Some p"
proof -
  obtain q where q: "sk_sem w i = Some \<lparr>sem_val = 1, sem_pid = q, sem_adj = (\<lambda>_. 0)\<rparr>"
    and h: "\<And>p. sem_id (hs p) = i \<and> lockref (hs p) = 0"
    using assms semsv_shared_free [of i hs w] by auto
  show ?thesis unfolding semsv_shared_held
    by (simp add: semsv_lock_step_def ipc_semsv_lock_def semop_def q h)
qed

lemma semsv_wait:
  assumes "semsv_shared i (hs, w)" "semsv_holder i (hs, w) = Some q"
  shows "semsv_lock_step e p (hs, w) = None"
proof -
  have "sk_sem w i = Some \<lparr>sem_val = 0, sem_pid = q, sem_adj = (\<lambda>_. 0)(q := 1)\<rparr>" "sem_id (hs p) = i"
    using assms semsv_shared_held [of i hs w q] by auto
  then show ?thesis by (simp add: semsv_lock_step_def ipc_semsv_lock_def semop_def)
qed

lemma semsv_leave:
  assumes "semsv_shared i (hs, w)" "semsv_holder i (hs, w) = Some p"
  shows "\<exists>hs' w'. semsv_unlock_step p (hs, w) = Some (0, hs', w') \<and> semsv_shared i (hs', w') \<and> semsv_holder i (hs', w') = None"
proof -
  have q: "sk_sem w i = Some \<lparr>sem_val = 0, sem_pid = p, sem_adj = (\<lambda>_. 0)(p := 1)\<rparr>"
    and h: "\<And>q. sem_id (hs q) = i \<and> lockref (hs q) = (if q = p then 1 else 0)"
    using assms semsv_shared_held [of i hs w p] by auto
  show ?thesis unfolding semsv_shared_free
    by (simp add: semsv_unlock_step_def ipc_semsv_unlock_def semop_def q h fun_upd_idem)
qed

interpretation semsv: ipc_lock "semsv_lock_step e" semsv_unlock_step "semsv_shared i" "semsv_holder i" for e i
proof unfold_locales
  fix x p r x'
  assume a: "semsv_shared i x" "semsv_holder i x \<noteq> Some p" "semsv_lock_step e p x = Some (r, x')"
  obtain hs w where x: "x = (hs, w)" by (cases x)
  show "semsv_shared i x' \<and>
      (if r = 0 then semsv_holder i x = None \<and> semsv_holder i x' = Some p else semsv_holder i x' = semsv_holder i x)"
  proof (cases "semsv_holder i x")
    case None
    then show ?thesis using a semsv_enter [of i hs w e p] by (auto simp: x)
  next
    case (Some q)
    then show ?thesis using a semsv_wait [of i hs w q e p] by (simp add: x)
  qed
next
  show "\<exists>x'. semsv_lock_step e p x = Some (0, x')" if "semsv_shared i x" "semsv_holder i x = None" for x p
    using semsv_enter [of i "fst x" "snd x" e p] that by auto
next
  show "\<exists>x'. semsv_unlock_step p x = Some (0, x') \<and> semsv_shared i x' \<and> semsv_holder i x' = None"
    if "semsv_shared i x" "semsv_holder i x = Some p" for x p
    using semsv_leave [of i "fst x" "snd x" p] that by fastforce
qed

text \<open>
  The end of a process: the kernel applies its adjustments; a process that takes its number later
  starts with a new handle.
\<close>

definition semsv_exit :: "pid \<Rightarrow> (pid \<Rightarrow> ipc_semsv) \<times> sem_kernel \<Rightarrow> (pid \<Rightarrow> ipc_semsv) \<times> sem_kernel" where
  "semsv_exit p = (\<lambda>(hs, w). (hs(p := (hs p)\<lparr>lockref := 0\<rparr>), sem_exit p w))"

lemma semsv_exit_law:
  assumes "semsv_shared i (hs, w)"
  shows "semsv_shared i (semsv_exit p (hs, w)) \<and>
    semsv_holder i (semsv_exit p (hs, w)) = (if semsv_holder i (hs, w) = Some p then None else semsv_holder i (hs, w))"
proof (cases "semsv_holder i (hs, w)")
  case None
  then obtain q where q: "sk_sem w i = Some \<lparr>sem_val = 1, sem_pid = q, sem_adj = (\<lambda>_. 0)\<rparr>"
      "\<And>p. sem_id (hs p) = i \<and> lockref (hs p) = 0"
    using assms semsv_shared_free [of i hs w] by auto
  have "semsv_shared i (semsv_exit p (hs, w)) \<and> semsv_holder i (semsv_exit p (hs, w)) = None"
    unfolding semsv_exit_def prod.case semsv_shared_free using q by (simp add: sem_exit_def)
  then show ?thesis using None by simp
next
  case (Some r)
  then have r: "sk_sem w i = Some \<lparr>sem_val = 0, sem_pid = r, sem_adj = (\<lambda>_. 0)(r := 1)\<rparr>"
      "\<And>q. sem_id (hs q) = i \<and> lockref (hs q) = (if q = r then 1 else 0)"
    using assms semsv_shared_held [of i hs w r] by auto
  show ?thesis
  proof (cases "r = p")
    case True
    have "semsv_shared i (semsv_exit p (hs, w)) \<and> semsv_holder i (semsv_exit p (hs, w)) = None"
      unfolding semsv_exit_def prod.case semsv_shared_free using r True by (simp add: sem_exit_def fun_upd_idem)
    then show ?thesis using Some True by simp
  next
    case False
    have "semsv_shared i (semsv_exit p (hs, w)) \<and> semsv_holder i (semsv_exit p (hs, w)) = Some r"
      unfolding semsv_exit_def prod.case semsv_shared_held using r False by (simp add: sem_exit_def)
    then show ?thesis using Some False by simp
  qed
qed

interpretation semsv_robust: robust_lock "semsv_lock_step e" semsv_unlock_step "semsv_shared i" "semsv_holder i" semsv_exit for e i
  using semsv_exit_law by unfold_locales (metis surj_pair)

text \<open>
  C17: Mutual exclusion with the semaphore: while it exists, however the calls of the processes
  interleave, and wherever some of them end without unlocking, never more than one process is inside,
  and some call can always go on.
\<close>

theorem ipc_semsv_mutual_exclusion:
  assumes "robust_run (semsv_lock_step e) semsv_unlock_step semsv_exit x0 x inside"
    and "semsv_shared i x0" and "semsv_holder i x0 = None"
  shows "(\<forall>p\<in>inside. \<forall>q\<in>inside. p = q) \<and>
    (if inside = {} then \<exists>x'. semsv_lock_step e p x = Some (0, x')
     else \<exists>q\<in>inside. \<exists>x'. semsv_unlock_step q x = Some (0, x'))"
  using semsv_robust.robust_exclusion [OF assms, of p] .

definition demo_sem :: sem_kernel where
  "demo_sem = \<lparr>sk_fs = [[] \<mapsto> Dir, [''tmp''] \<mapsto> Dir], sk_key = (\<lambda>_. None), sk_sem = (\<lambda>_. None)\<rparr>"

definition demo_env :: sem_env where
  "demo_env = \<lparr>se_files = demo_fs_env, se_calloc = True, se_strdup = True, se_ftok = (\<lambda>_ _. 5), se_newid = 7, se_granted = True\<rparr>"

text \<open>In the witness process 2 takes the semaphore and ends inside, and process 1 enters after it.\<close>

theorem ipc_semsv_mutual_exclusion_witness:
  "\<exists>x. robust_run (semsv_lock_step demo_env) semsv_unlock_step semsv_exit
      (\<lambda>_. \<lparr>sem_id = 7, is_creator = 0, lockref = 0, sem_name = None\<rparr>,
       demo_sem\<lparr>sk_sem := [7 \<mapsto> \<lparr>sem_val = 1, sem_pid = 0, sem_adj = (\<lambda>_. 0)\<rparr>]\<rparr>) x {1} \<and>
    (\<forall>p\<in>{1 :: nat}. \<forall>q\<in>{1}. p = q) \<and>
    (if {1 :: nat} = {} then \<exists>x'. semsv_lock_step demo_env 2 x = Some (0, x')
     else \<exists>q\<in>{1}. \<exists>x'. semsv_unlock_step q x = Some (0, x'))"
proof -
  let ?hs = "\<lambda>_ :: nat. \<lparr>sem_id = 7, is_creator = 0, lockref = 0, sem_name = None\<rparr>"
  let ?w = "demo_sem\<lparr>sk_sem := [7 \<mapsto> \<lparr>sem_val = 1, sem_pid = 0, sem_adj = (\<lambda>_. 0)\<rparr>]\<rparr>"
  have init: "semsv_shared 7 (?hs, ?w)" "semsv_holder 7 (?hs, ?w) = None"
    using semsv_shared_free [of 7 ?hs ?w] by simp_all
  obtain x1 where "semsv_lock_step demo_env 2 (?hs, ?w) = Some (0, x1)"
    using semsv_enter [OF init] by blast
  then have run1: "robust_run (semsv_lock_step demo_env) semsv_unlock_step semsv_exit (?hs, ?w) (semsv_exit 2 x1) {}"
    by (rule robust_run_die_inside)
  then obtain x2 where "semsv_lock_step demo_env 1 (semsv_exit 2 x1) = Some (0, x2)"
    using ipc_semsv_mutual_exclusion [OF run1 init, of 1] by auto
  then have run: "robust_run (semsv_lock_step demo_env) semsv_unlock_step semsv_exit (?hs, ?w) x2 {1}"
    using robust_run.enter [OF run1, where p = 1] by simp
  from ipc_semsv_mutual_exclusion [OF run init, of 2] show ?thesis using run by blast
qed


section \<open>Creation and destruction\<close>

text \<open>What a call of \<open>ipc_semsv_create\<close> with a usable name and enough resources does.\<close>

definition sem_path :: "string \<Rightarrow> string" where
  "sem_path n = ''/tmp/'' @ n"

lemma ipc_semsv_create_result:
  assumes "length n < 123" "sk_fs w (path_names (sem_path n)) \<noteq> None" "se_calloc e"
    and "se_ftok e (sk_fs w) (sem_path n) = key" "0 \<le> key" "0 \<le> se_newid e"
  shows "ipc_semsv_create e (Some n) w = Some (case sk_key w key of
      None \<Rightarrow> (Some \<lparr>sem_id = se_newid e, is_creator = 1, lockref = 0, sem_name = if se_strdup e then Some n else None\<rparr>,
        w\<lparr>sk_key := (sk_key w)(key \<mapsto> se_newid e),
          sk_sem := (sk_sem w)(se_newid e \<mapsto> \<lparr>sem_val = 1, sem_pid = 0, sem_adj = (\<lambda>_. 0)\<rparr>)\<rparr>)
    | Some i \<Rightarrow> (Some \<lparr>sem_id = if se_granted e then i else - 1, is_creator = 0, lockref = 0,
        sem_name = if se_strdup e then Some n else None\<rparr>, w))"
proof -
  have "w\<lparr>sk_fs := sk_fs w\<rparr> = w" by simp
  then show ?thesis using assms
    by (auto simp: ipc_semsv_create_def sem_path_def MAX_SEM_NAME_LEN_def semget_excl_def semget_existing_def
        semctl_setval_def EEXIST_def Let_def split: option.splits)
qed

text \<open>
  The life of the semaphore. The creator destroys its handle while another process \<open>p\<close> is
  inside. The next \<open>ipc_semsv_lock\<close> of a third process \<open>q\<close> fails, but makes a new semaphore, of which
  \<open>q\<close> is now the creator; its second call succeeds, although \<open>p\<close> has not left the section, and \<open>p\<close> can
  no longer unlock.
\<close>

theorem ipc_semsv_destroy_breaks_exclusion:
  assumes "semsv_shared i (hs, w)" "semsv_holder i (hs, w) = Some p"
    and "is_creator hc = 1" "sem_id hc = i" "sem_name (hs q) = Some n"
    and "length n < 123" "sk_fs w (path_names (sem_path n)) \<noteq> None" "se_calloc e" "se_strdup e"
    and "se_ftok e (sk_fs w) (sem_path n) = key" "0 \<le> key" "sk_key w key = Some i"
    and "0 \<le> se_newid e" "se_newid e \<noteq> i"
  shows "\<exists>w1 h2 w2 h3 w3 hp w4. ipc_semsv_destroy (Some hc) w = (0, None, w1) \<and>
    ipc_semsv_lock e q (Some (hs q)) w1 = Some (- 1, Some h2, w2) \<and> is_creator h2 = 1 \<and> sem_id h2 = se_newid e \<and>
    ipc_semsv_lock e q (Some h2) w2 = Some (0, Some h3, w3) \<and> lockref h3 = 1 \<and> lockref (hs p) = 1 \<and>
    ipc_semsv_unlock p (Some (hs p)) w3 = Some (- 1, Some hp, w4)"
proof -
  have q: "sk_sem w i = Some \<lparr>sem_val = 0, sem_pid = p, sem_adj = (\<lambda>_. 0)(p := 1)\<rparr>"
    and h: "\<And>q. sem_id (hs q) = i \<and> lockref (hs q) = (if q = p then 1 else 0)"
    using assms(1,2) semsv_shared_held [of i hs w p] by auto
  let ?w1 = "w\<lparr>sk_key := (\<lambda>k. if sk_key w k = Some i then None else sk_key w k), sk_sem := (sk_sem w)(i := None)\<rparr>"
  have d: "ipc_semsv_destroy (Some hc) w = (0, None, ?w1)"
    using assms(3,4) by (simp add: ipc_semsv_destroy_def semctl_rmid_def q)
  have c: "ipc_semsv_create e (Some n) ?w1 = Some
      (Some \<lparr>sem_id = se_newid e, is_creator = 1, lockref = 0, sem_name = Some n\<rparr>,
       ?w1\<lparr>sk_key := (sk_key ?w1)(key \<mapsto> se_newid e),
          sk_sem := (sk_sem ?w1)(se_newid e \<mapsto> \<lparr>sem_val = 1, sem_pid = 0, sem_adj = (\<lambda>_. 0)\<rparr>)\<rparr>)"
    using assms(6-13) by (subst ipc_semsv_create_result [where key = key]) simp_all
  show ?thesis unfolding d
    using assms(5,14) by (simp add: ipc_semsv_lock_def ipc_semsv_unlock_def semop_def h c)
qed

definition demo_handles :: "pid \<Rightarrow> ipc_semsv" where
  "demo_handles = (\<lambda>p. \<lparr>sem_id = 6, is_creator = if p = 1 then 1 else 0, lockref = if p = 2 then 1 else 0, sem_name = Some ''s''\<rparr>)"

definition demo_held :: sem_kernel where
  "demo_held = \<lparr>sk_fs = [[] \<mapsto> Dir, [''tmp''] \<mapsto> Dir, [''tmp'', ''s''] \<mapsto> File], sk_key = [5 \<mapsto> 6],
     sk_sem = [6 \<mapsto> \<lparr>sem_val = 0, sem_pid = 2, sem_adj = (\<lambda>_. 0)(2 := 1)\<rparr>]\<rparr>"

theorem ipc_semsv_destroy_breaks_exclusion_witness:
  "\<exists>w1 h2 w2 h3 w3 hp w4. ipc_semsv_destroy (Some (demo_handles 1)) demo_held = (0, None, w1) \<and>
    ipc_semsv_lock demo_env 3 (Some (demo_handles 3)) w1 = Some (- 1, Some h2, w2) \<and> is_creator h2 = 1 \<and> sem_id h2 = se_newid demo_env \<and>
    ipc_semsv_lock demo_env 3 (Some h2) w2 = Some (0, Some h3, w3) \<and> lockref h3 = 1 \<and> lockref (demo_handles 2) = 1 \<and>
    ipc_semsv_unlock 2 (Some (demo_handles 2)) w3 = Some (- 1, Some hp, w4)"
proof -
  have held: "semsv_shared 6 (demo_handles, demo_held)" "semsv_holder 6 (demo_handles, demo_held) = Some 2"
    using semsv_shared_held [of 6 demo_handles demo_held 2] by (simp_all add: demo_handles_def demo_held_def)
  show ?thesis
    using ipc_semsv_destroy_breaks_exclusion [OF held, of "demo_handles 1" 3 "''s''" demo_env 5]
    by (simp add: demo_handles_def demo_held_def demo_env_def sem_path_def path_names_def)
qed

end
