(* ===== verification/Ipc_Flock.thy ===== *)
theory Ipc_Flock
  imports Ipc_Lock File_Mkdir
begin

text \<open>
  \<^verbatim>\<open>ipc_competition/ipc_flock.c\<close>: a lock from a write lock on a whole file. The kernel keeps the file
  system, the open files of every process, and the process that has the write lock on each file.
  \<open>F_SETLKW\<close> for a write lock waits while another process has one, which is \<^const>\<open>None\<close>; a process
  that has it already gets it again. Unlocking, and closing any descriptor of the file, releases
  what the process has. No function of the file asks for a read lock or for a part of a file; the kernel here answers neither, which
  is \<^const>\<open>None\<close> as well. A null pointer is
  \<^const>\<open>None\<close> of the inner option type.
\<close>

section \<open>The kernel\<close>

record flock_kernel =
  fk_fs :: fs
  fk_files :: "pid \<Rightarrow> int \<Rightarrow> string list option"
  fk_owner :: "string list \<Rightarrow> pid option"

datatype flock_type = F_RDLCK | F_WRLCK | F_UNLCK

record flock_t =
  l_type :: flock_type
  l_start :: int
  l_whence :: int
  l_len :: int

definition F_SETLKW :: int where "F_SETLKW = 7"
definition SEEK_SET :: int where "SEEK_SET = 0"

definition fcntl_lock :: "pid \<Rightarrow> int \<Rightarrow> int \<Rightarrow> flock_t \<Rightarrow> flock_kernel \<Rightarrow> (int \<times> flock_kernel) option" where
  "fcntl_lock p fd cmd l w = (case fk_files w p fd of
     None \<Rightarrow> Some (- 1, w)
   | Some f \<Rightarrow>
       if cmd \<noteq> F_SETLKW \<or> l_whence l \<noteq> SEEK_SET \<or> l_start l \<noteq> 0 \<or> l_len l \<noteq> 0 then None
       else (case l_type l of
           F_RDLCK \<Rightarrow> None
         | F_WRLCK \<Rightarrow>
             if fk_owner w f = None \<or> fk_owner w f = Some p then Some (0, w\<lparr>fk_owner := (fk_owner w)(f := Some p)\<rparr>) else None
         | F_UNLCK \<Rightarrow>
             Some (0, if fk_owner w f = Some p then w\<lparr>fk_owner := (fk_owner w)(f := None)\<rparr> else w)))"

definition close_file :: "pid \<Rightarrow> int \<Rightarrow> flock_kernel \<Rightarrow> flock_kernel" where
  "close_file p fd w = (case fk_files w p fd of
     None \<Rightarrow> w
   | Some f \<Rightarrow>
       w\<lparr>fk_files := (fk_files w)(p := (fk_files w p)(fd := None)),
         fk_owner := (if fk_owner w f = Some p then (fk_owner w)(f := None) else fk_owner w)\<rparr>)"


section \<open>The code\<close>

definition MAX_FILE_LOCK_NAME_LEN :: nat where
  "MAX_FILE_LOCK_NAME_LEN = 128"

record ipc_flock =
  flock_fd :: int

definition flock_simple :: "pid \<Rightarrow> int \<Rightarrow> int \<Rightarrow> flock_type \<Rightarrow> int \<Rightarrow> int \<Rightarrow> int \<Rightarrow> flock_kernel \<Rightarrow> (int \<times> flock_kernel) option" where
  "flock_simple p fd cmd ty offset whence len w =
     fcntl_lock p fd cmd \<lparr>l_type = ty, l_start = offset, l_whence = whence, l_len = len\<rparr> w"

definition flock_write_simple :: "pid \<Rightarrow> int \<Rightarrow> int \<Rightarrow> int \<Rightarrow> flock_kernel \<Rightarrow> (int \<times> flock_kernel) option" where
  "flock_write_simple p fd offset len w = flock_simple p fd F_SETLKW F_WRLCK offset SEEK_SET len w"

definition flock_unlock_simple :: "pid \<Rightarrow> int \<Rightarrow> int \<Rightarrow> int \<Rightarrow> flock_kernel \<Rightarrow> (int \<times> flock_kernel) option" where
  "flock_unlock_simple p fd offset len w = flock_simple p fd F_SETLKW F_UNLCK offset SEEK_SET len w"

text \<open>
  \<open>fe\<close> is what the system says when files are created, \<open>mem\<close> whether \<open>calloc\<close> succeeds, and \<open>newfd\<close> is the
  descriptor \<open>open\<close> hands out. The mode is \<open>S_IRWXU | S_IRWXG\<close>.
\<close>

definition ipc_flock_create ::
  "fs_env \<Rightarrow> bool \<Rightarrow> int \<Rightarrow> pid \<Rightarrow> string option \<Rightarrow> flock_kernel \<Rightarrow> (ipc_flock option \<times> flock_kernel) option" where
  "ipc_flock_create fe mem newfd p name w = (case name of
     None \<Rightarrow> Some (None, w)
   | Some n \<Rightarrow>
       (let path = ''/tmp/'' @ n in
        if MAX_FILE_LOCK_NAME_LEN \<le> length path then None
        else do {
          let s = fk_fs w;
          s \<leftarrow> (if s (path_names path) = None
            then do { (_, s) \<leftarrow> fs_mkdirs fe 0x1f8 s path; Some (snd (fs_create_file fe s path)) }
            else Some s);
          let w = w\<lparr>fk_fs := s\<rparr>;
          (if \<not> mem then Some (None, w)
           else if s (path_names path) \<noteq> Some File \<or> newfd < 0 then Some (None, w)
           else Some (Some \<lparr>flock_fd = newfd\<rparr>, w\<lparr>fk_files := (fk_files w)(p := (fk_files w p)(newfd := Some (path_names path)))\<rparr>)) }))"

definition ipc_flock_lock :: "ipc_flock option \<Rightarrow> pid \<Rightarrow> flock_kernel \<Rightarrow> (int \<times> flock_kernel) option" where
  "ipc_flock_lock handle p w = (case handle of
     None \<Rightarrow> Some (- 1, w)
   | Some h \<Rightarrow> do {
       (ret, w) \<leftarrow> flock_write_simple p (flock_fd h) 0 0 w;
       if ret = - 1 then Some (- 1, w) else Some (0, w) })"

definition ipc_flock_unlock :: "ipc_flock option \<Rightarrow> pid \<Rightarrow> flock_kernel \<Rightarrow> (int \<times> flock_kernel) option" where
  "ipc_flock_unlock handle p w = (case handle of
     None \<Rightarrow> Some (- 1, w)
   | Some h \<Rightarrow> do {
       (ret, w) \<leftarrow> flock_unlock_simple p (flock_fd h) 0 0 w;
       if ret = - 1 then Some (- 1, w) else Some (0, w) })"

definition ipc_flock_destroy :: "ipc_flock option \<Rightarrow> pid \<Rightarrow> flock_kernel \<Rightarrow> int \<times> flock_kernel" where
  "ipc_flock_destroy handle p w = (case handle of
     None \<Rightarrow> (- 1, w)
   | Some h \<Rightarrow> (0, close_file p (flock_fd h) w))"


section \<open>The lock contract\<close>

text \<open>Every process has the file open under the descriptor of its handle.\<close>

definition flock_shared :: "(pid \<Rightarrow> ipc_flock) \<Rightarrow> string list \<Rightarrow> flock_kernel \<Rightarrow> bool" where
  "flock_shared hs f w \<longleftrightarrow> (\<forall>p. fk_files w p (flock_fd (hs p)) = Some f)"

lemmas flock_defs = flock_shared_def ipc_flock_lock_def ipc_flock_unlock_def flock_write_simple_def flock_unlock_simple_def
  flock_simple_def fcntl_lock_def

interpretation flock: ipc_lock "\<lambda>p. ipc_flock_lock (Some (hs p)) p" "\<lambda>p. ipc_flock_unlock (Some (hs p)) p"
    "flock_shared hs f" "\<lambda>w. fk_owner w f" for hs f
  by unfold_locales (auto simp: flock_defs split: if_splits)

text \<open>
  The end of a process closes its files and with them gives its locks free; a process that takes its
  number later has opened the file again under the same descriptor.
\<close>

definition flock_exit :: "pid \<Rightarrow> flock_kernel \<Rightarrow> flock_kernel" where
  "flock_exit p w = w\<lparr>fk_owner := (\<lambda>f. if fk_owner w f = Some p then None else fk_owner w f)\<rparr>"

interpretation flock_robust: robust_lock "\<lambda>p. ipc_flock_lock (Some (hs p)) p" "\<lambda>p. ipc_flock_unlock (Some (hs p)) p"
    "flock_shared hs f" "\<lambda>w. fk_owner w f" flock_exit for hs f
  by unfold_locales (auto simp: flock_shared_def flock_exit_def)

text \<open>
  C18: Mutual exclusion with file locks. However the calls of the processes interleave, and wherever
  some of them end without unlocking, never more than one is between a successful \<open>ipc_flock_lock\<close> and
  its \<open>ipc_flock_unlock\<close>, and some call can always go on: an outside process can lock when nobody is
  inside, and the one inside can unlock.
\<close>

theorem ipc_flock_mutual_exclusion:
  assumes "robust_run (\<lambda>p. ipc_flock_lock (Some (hs p)) p) (\<lambda>p. ipc_flock_unlock (Some (hs p)) p) flock_exit w0 w inside"
    and "flock_shared hs f w0" and "fk_owner w0 f = None"
  shows "(\<forall>p\<in>inside. \<forall>q\<in>inside. p = q) \<and>
    (if inside = {} then \<exists>w'. ipc_flock_lock (Some (hs p)) p w = Some (0, w')
     else \<exists>q\<in>inside. \<exists>w'. ipc_flock_unlock (Some (hs q)) q w = Some (0, w'))"
  using flock_robust.robust_exclusion [OF assms, of p] .

definition demo_flock :: flock_kernel where
  "demo_flock = \<lparr>fk_fs = [[] \<mapsto> Dir, [''tmp''] \<mapsto> Dir, [''tmp'', ''l''] \<mapsto> File],
     fk_files = (\<lambda>p. [3 \<mapsto> [''tmp'', ''l'']]), fk_owner = (\<lambda>_. None)\<rparr>"

text \<open>In the witness process 2 takes the lock and ends inside, and process 1 enters after it.\<close>

theorem ipc_flock_mutual_exclusion_witness:
  "\<exists>w. robust_run (\<lambda>p. ipc_flock_lock (Some \<lparr>flock_fd = 3\<rparr>) p) (\<lambda>p. ipc_flock_unlock (Some \<lparr>flock_fd = 3\<rparr>) p) flock_exit
      demo_flock w {1} \<and>
    (\<forall>p\<in>{1 :: nat}. \<forall>q\<in>{1}. p = q) \<and>
    (if {1 :: nat} = {} then \<exists>w'. ipc_flock_lock (Some \<lparr>flock_fd = 3\<rparr>) 2 w = Some (0, w')
     else \<exists>q\<in>{1}. \<exists>w'. ipc_flock_unlock (Some \<lparr>flock_fd = 3\<rparr>) q w = Some (0, w'))"
proof -
  let ?f = "[''tmp'', ''l'']" and ?run = "robust_run (\<lambda>p. ipc_flock_lock (Some \<lparr>flock_fd = 3\<rparr>) p)
    (\<lambda>p. ipc_flock_unlock (Some \<lparr>flock_fd = 3\<rparr>) p) flock_exit demo_flock"
  have init: "flock_shared (\<lambda>_. \<lparr>flock_fd = 3\<rparr>) ?f demo_flock" "fk_owner demo_flock ?f = None"
    by (simp_all add: flock_shared_def demo_flock_def)
  obtain w1 where "ipc_flock_lock (Some \<lparr>flock_fd = 3\<rparr>) 2 demo_flock = Some (0, w1)"
    using flock.lock_free [OF init] by blast
  then have run1: "?run (flock_exit 2 w1) {}" by (rule robust_run_die_inside)
  then obtain w2 where "ipc_flock_lock (Some \<lparr>flock_fd = 3\<rparr>) 1 (flock_exit 2 w1) = Some (0, w2)"
    using ipc_flock_mutual_exclusion [OF run1 init, of 1] by auto
  then have run: "?run w2 {1}" using robust_run.enter [OF run1, where p = 1] by simp
  from ipc_flock_mutual_exclusion [OF run init, of 2] show ?thesis using run by blast
qed

text \<open>
  A lock that a process takes twice is gone after the first \<open>ipc_flock_unlock\<close>: the calls may be
  repeated, but they do not nest.
\<close>

lemma ipc_flock_does_not_nest:
  assumes "flock_shared hs f w" "fk_owner w f = None"
  shows "\<exists>w1 w2 w3. ipc_flock_lock (Some (hs p)) p w = Some (0, w1) \<and> ipc_flock_lock (Some (hs p)) p w1 = Some (0, w2) \<and>
    ipc_flock_unlock (Some (hs p)) p w2 = Some (0, w3) \<and> fk_owner w3 f = None"
  using assms by (auto simp: flock_defs)

end
