(* ===== verification/Ipc_Test.thy ===== *)
theory Ipc_Test
  imports Ipc_Mutex_Life Ipc_Semsv Ipc_Flock
begin

text \<open>
  The programs \<^verbatim>\<open>ipc_competition/ipc_test_host.c\<close> and \<^verbatim>\<open>ipc_competition/ipc_test_slave.c\<close>, which try out a lock
  from two processes, with the three tables of lock functions of \<^verbatim>\<open>ipc_test_common.h\<close>. A scheduler decides which
  process makes its next call; a call that waits leaves everything as it is and is tried
  again. The messages are left out, and a pause is a call without effect: that the schedule may
  be any covers all the delays the pauses could mean.
\<close>

section \<open>The table of functions\<close>

record ('h, 'w) ipc_lock_t =
  il_create :: "pid \<Rightarrow> string option \<Rightarrow> 'w \<Rightarrow> ('h option \<times> 'w) option"
  il_lock :: "pid \<Rightarrow> 'h option \<Rightarrow> 'w \<Rightarrow> (int \<times> 'h option \<times> 'w) option"
  il_unlock :: "pid \<Rightarrow> 'h option \<Rightarrow> 'w \<Rightarrow> (int \<times> 'h option \<times> 'w) option"
  il_destroy :: "pid \<Rightarrow> 'h option \<Rightarrow> 'w \<Rightarrow> (int \<times> 'h option \<times> 'w) option"

text \<open>For locks whose operations leave the handle alone.\<close>

definition keeps_handle :: "('h option \<Rightarrow> pid \<Rightarrow> 'w \<Rightarrow> (int \<times> 'w) option) \<Rightarrow> pid \<Rightarrow> 'h option \<Rightarrow> 'w \<Rightarrow> (int \<times> 'h option \<times> 'w) option" where
  "keeps_handle f p h w = map_option (\<lambda>(r, w'). (r, h, w')) (f h p w)"

text \<open>
  \<open>os\<close> and \<open>es\<close> tell what the system decides in a call of \<open>create\<close>, which calls succeed and what number it hands out, as in the theories of
  the three locks.
\<close>

definition ipc_lock_mutex :: "(shms \<Rightarrow> bool \<times> bool \<times> bool \<times> nat) \<Rightarrow> (nat, shms) ipc_lock_t" where
  "ipc_lock_mutex os = \<lparr>il_create = (\<lambda>p name w. case os w of (opened, sized, mapped, newobj) \<Rightarrow> ipc_mutex_create opened sized mapped newobj name w),
     il_lock = keeps_handle ipc_mutex_lock, il_unlock = keeps_handle ipc_mutex_unlock,
     il_destroy = keeps_handle (\<lambda>h p. ipc_mutex_destroy h)\<rparr>"

definition ipc_lock_semsv :: "(sem_kernel \<Rightarrow> sem_env) \<Rightarrow> (ipc_semsv, sem_kernel) ipc_lock_t" where
  "ipc_lock_semsv es = \<lparr>il_create = (\<lambda>p name w. ipc_semsv_create (es w) name w),
     il_lock = (\<lambda>p h w. ipc_semsv_lock (es w) p h w), il_unlock = ipc_semsv_unlock,
     il_destroy = (\<lambda>p h w. Some (ipc_semsv_destroy h w))\<rparr>"

definition ipc_lock_flock :: "(flock_kernel \<Rightarrow> fs_env \<times> bool \<times> int) \<Rightarrow> (ipc_flock, flock_kernel) ipc_lock_t" where
  "ipc_lock_flock os = \<lparr>il_create = (\<lambda>p name w. case os w of (fe, mem, newfd) \<Rightarrow> ipc_flock_create fe mem newfd p name w),
     il_lock = keeps_handle ipc_flock_lock, il_unlock = keeps_handle ipc_flock_unlock,
     il_destroy = keeps_handle (\<lambda>h p w. Some (ipc_flock_destroy h p w))\<rparr>"


section \<open>The programs\<close>

datatype test_stmt = Create | Lock | Unlock | Destroy | Sleep nat

text \<open>The body of \<open>main\<close>; \<open>argv2\<close> is the second argument of the host.\<close>

definition ipc_test_host :: "string option \<Rightarrow> test_stmt list" where
  "ipc_test_host argv2 = [Create, Lock, Unlock, Destroy, Create, Lock, Sleep 30, Unlock, Sleep 10] @
     (if argv2 = None then [Lock] else [Destroy, Sleep 30])"

definition ipc_test_slave :: "test_stmt list" where
  "ipc_test_slave = [Create, Destroy, Create, Lock, Unlock, Sleep 20, Lock, Lock, Destroy]"

record 'h test_proc =
  tp_todo :: "test_stmt list"
  tp_handle :: "'h option"
  tp_ended :: bool

text \<open>The first component of the result is whether \<open>main\<close> goes on: it returns when \<open>create\<close> gives NULL.\<close>

fun stmt_run :: "('h, 'w) ipc_lock_t \<Rightarrow> pid \<Rightarrow> string option \<Rightarrow> test_stmt \<Rightarrow> 'h option \<Rightarrow> 'w \<Rightarrow> (bool \<times> 'h option \<times> 'w) option" where
  "stmt_run L p name Create h w = map_option (\<lambda>(h', w'). (h' \<noteq> None, h', w')) (il_create L p name w)"
| "stmt_run L p name Lock h w = map_option (\<lambda>(r, h', w'). (True, h', w')) (il_lock L p h w)"
| "stmt_run L p name Unlock h w = map_option (\<lambda>(r, h', w'). (True, h', w')) (il_unlock L p h w)"
| "stmt_run L p name Destroy h w = map_option (\<lambda>(r, h', w'). (True, h', w')) (il_destroy L p h w)"
| "stmt_run L p name (Sleep _) h w = Some (True, h, w)"

text \<open>One turn of a process; after the last statement it ends, and \<open>kexit\<close> is what the kernel then does.\<close>

definition proc_step :: "('h, 'w) ipc_lock_t \<Rightarrow> (pid \<Rightarrow> 'w \<Rightarrow> 'w) \<Rightarrow> string option \<Rightarrow> pid \<Rightarrow> 'h test_proc \<Rightarrow> 'w \<Rightarrow> 'h test_proc \<times> 'w" where
  "proc_step L kexit name p q w =
     (if tp_ended q then (q, w)
      else (case tp_todo q of
          [] \<Rightarrow> (q\<lparr>tp_ended := True\<rparr>, kexit p w)
        | st # rest \<Rightarrow> (case stmt_run L p name st (tp_handle q) w of
              None \<Rightarrow> (q, w)
            | Some (go, h, w') \<Rightarrow> (q\<lparr>tp_todo := if go then rest else [], tp_handle := h\<rparr>, w'))))"

datatype side = Host | Slave

definition side_pid :: "side \<Rightarrow> pid" where
  "side_pid s = (case s of Host \<Rightarrow> 1 | Slave \<Rightarrow> 2)"

record ('h, 'w) test_conf =
  tc_proc :: "side \<Rightarrow> 'h test_proc"
  tc_world :: 'w

definition conf_step ::
  "('h, 'w) ipc_lock_t \<Rightarrow> (pid \<Rightarrow> 'w \<Rightarrow> 'w) \<Rightarrow> string option \<Rightarrow> side \<Rightarrow> ('h, 'w) test_conf \<Rightarrow> ('h, 'w) test_conf" where
  "conf_step L kexit name s c =
     (let (q, w) = proc_step L kexit name (side_pid s) (tc_proc c s) (tc_world c)
      in c\<lparr>tc_proc := (tc_proc c)(s := q), tc_world := w\<rparr>)"

definition test_start :: "string option \<Rightarrow> 'w \<Rightarrow> ('h, 'w) test_conf" where
  "test_start argv2 w = \<lparr>tc_proc = (\<lambda>s. \<lparr>tp_todo = (case s of Host \<Rightarrow> ipc_test_host argv2 | Slave \<Rightarrow> ipc_test_slave),
     tp_handle = None, tp_ended = False\<rparr>), tc_world = w\<rparr>"

definition test_run ::
  "('h, 'w) ipc_lock_t \<Rightarrow> (pid \<Rightarrow> 'w \<Rightarrow> 'w) \<Rightarrow> string option \<Rightarrow> string option \<Rightarrow> 'w \<Rightarrow> side list \<Rightarrow> ('h, 'w) test_conf" where
  "test_run L kexit name argv2 w sched = fold (conf_step L kexit name) sched (test_start argv2 w)"


section \<open>What the programs see of a lock\<close>

text \<open>
  The abstract lock: who has a handle, who has the lock, who made it, how often it was created. A
  process that has the lock and locks again is through at once when \<open>again\<close> holds, and waits otherwise. Only
  when \<open>anyone\<close> holds may a process destroy a lock it made while the other has a handle. \<^const>\<open>None\<close> is a call that
  the abstract lock says nothing about.
\<close>

record lock_spec =
  ls_todo :: "side \<Rightarrow> test_stmt list"
  ls_ended :: "side \<Rightarrow> bool"
  ls_has :: "side \<Rightarrow> bool"
  ls_holder :: "side option"
  ls_maker :: "side option"
  ls_creates :: nat

definition other :: "side \<Rightarrow> side" where
  "other s = (case s of Host \<Rightarrow> Slave | Slave \<Rightarrow> Host)"

definition give_up :: "side \<Rightarrow> side option \<Rightarrow> side option" where
  "give_up s h = (if h = Some s then None else h)"

fun spec_stmt :: "bool \<Rightarrow> bool \<Rightarrow> side \<Rightarrow> test_stmt \<Rightarrow> lock_spec \<Rightarrow> (bool \<times> lock_spec) option" where
  "spec_stmt again anyone s Create a =
     (if ls_has a s \<or> 65535 \<le> ls_creates a then None
      else Some (True, a\<lparr>ls_has := (ls_has a)(s := True), ls_maker := (case ls_maker a of None \<Rightarrow> Some s | Some q \<Rightarrow> Some q),
        ls_creates := Suc (ls_creates a)\<rparr>))"
| "spec_stmt again anyone s Lock a =
     (if \<not> ls_has a s then None
      else if ls_holder a = None then Some (True, a\<lparr>ls_holder := Some s\<rparr>)
      else Some (ls_holder a = Some s \<and> again, a))"
| "spec_stmt again anyone s Unlock a =
     (if ls_has a s \<and> ls_holder a = Some s then Some (True, a\<lparr>ls_holder := None\<rparr>) else None)"
| "spec_stmt again anyone s Destroy a =
     (if ls_has a s \<and> (again \<or> ls_holder a \<noteq> Some s) \<and> (anyone \<or> ls_maker a \<noteq> Some s \<or> \<not> ls_has a (other s))
      then Some (True, a\<lparr>ls_has := (ls_has a)(s := False), ls_holder := give_up s (ls_holder a), ls_maker := give_up s (ls_maker a)\<rparr>)
      else None)"
| "spec_stmt again anyone s (Sleep _) a = Some (True, a)"

definition spec_step :: "bool \<Rightarrow> bool \<Rightarrow> side \<Rightarrow> lock_spec \<Rightarrow> lock_spec option" where
  "spec_step again anyone s a =
     (if ls_ended a s then Some a
      else (case ls_todo a s of
          [] \<Rightarrow> Some (a\<lparr>ls_ended := (ls_ended a)(s := True), ls_has := (ls_has a)(s := False), ls_holder := give_up s (ls_holder a)\<rparr>)
        | st # rest \<Rightarrow> map_option (\<lambda>(go, a'). if go then a'\<lparr>ls_todo := (ls_todo a)(s := rest)\<rparr> else a')
            (spec_stmt again anyone s st a)))"

fun spec_run :: "bool \<Rightarrow> bool \<Rightarrow> side list \<Rightarrow> lock_spec \<Rightarrow> lock_spec option" where
  "spec_run again anyone [] a = Some a"
| "spec_run again anyone (s # sched) a = Option.bind (spec_step again anyone s a) (spec_run again anyone sched)"

definition spec_start :: "string option \<Rightarrow> lock_spec" where
  "spec_start argv2 = \<lparr>ls_todo = (\<lambda>s. case s of Host \<Rightarrow> ipc_test_host argv2 | Slave \<Rightarrow> ipc_test_slave),
     ls_ended = (\<lambda>_. False), ls_has = (\<lambda>_. False), ls_holder = None, ls_maker = None, ls_creates = 0\<rparr>"

text \<open>The handles of the two processes; a handle counts from its creation to its destruction.\<close>

definition users :: "(side \<Rightarrow> 'h test_proc) \<Rightarrow> (side \<Rightarrow> bool) \<Rightarrow> pid \<rightharpoonup> 'h" where
  "users q has p = (if p = side_pid Host \<and> has Host then tp_handle (q Host)
     else if p = side_pid Slave \<and> has Slave then tp_handle (q Slave) else None)"

definition refines ::
  "('w \<Rightarrow> (pid \<rightharpoonup> 'h) \<Rightarrow> pid option \<Rightarrow> pid option \<Rightarrow> nat \<Rightarrow> bool) \<Rightarrow> ('h, 'w) test_conf \<Rightarrow> lock_spec \<Rightarrow> bool" where
  "refines R c a \<longleftrightarrow> (\<forall>s. tp_todo (tc_proc c s) = ls_todo a s \<and> tp_ended (tc_proc c s) = ls_ended a s) \<and>
     (\<forall>s. ls_has a s \<longrightarrow> tp_handle (tc_proc c s) \<noteq> None) \<and>
     R (tc_world c) (users (tc_proc c) (ls_has a)) (map_option side_pid (ls_holder a)) (map_option side_pid (ls_maker a)) (ls_creates a)"

lemma side_pid_eq [simp]: "side_pid s = side_pid t \<longleftrightarrow> s = t"
  by (cases s; cases t) (simp_all add: side_pid_def)

lemma side_pid_option [simp]: "map_option side_pid h = Some (side_pid s) \<longleftrightarrow> h = Some s"
  by auto

lemma users_at [simp]: "users q has (side_pid s) = (if has s then tp_handle (q s) else None)"
  by (cases s) (auto simp: users_def)

lemma users_gain: "tp_handle r = Some x \<Longrightarrow> users (q(s := r)) (has(s := True)) = (users q has)(side_pid s \<mapsto> x)"
  by (rule ext; cases s) (auto simp: users_def)

lemma users_keep: "has s \<Longrightarrow> tp_handle r = Some x \<Longrightarrow> users (q(s := r)) has = (users q has)(side_pid s \<mapsto> x)"
  by (rule ext; cases s) (auto simp: users_def)

lemma users_same: "tp_handle r = tp_handle (q s) \<Longrightarrow> users (q(s := r)) has = users q has"
  by (rule ext; cases s) (auto simp: users_def)

lemma users_lose: "users (q(s := r)) (has(s := False)) = (users q has)(side_pid s := None)"
  by (rule ext; cases s) (auto simp: users_def)

lemma users_only:
  assumes "has s" "tp_handle (q s) = Some x" "\<not> has (other s)"
  shows "dom (users q has) = {side_pid s}"
  using assms by (cases s) (auto simp: users_def other_def split: if_splits)

lemma give_up_pid: "map_option side_pid (give_up s h) = (if h = Some s then None else map_option side_pid h)"
  by (auto simp: give_up_def)

text \<open>
  The contract: \<open>R w U h m k\<close> relates a state of the lock to the handles \<open>U\<close>, the holder \<open>h\<close>, the maker \<open>m\<close> and
  the number \<open>k\<close> of creations.
\<close>

locale tested_lock =
  fixes L :: "('h, 'w) ipc_lock_t"
    and kexit :: "pid \<Rightarrow> 'w \<Rightarrow> 'w"
    and name :: string
    and R :: "'w \<Rightarrow> (pid \<rightharpoonup> 'h) \<Rightarrow> pid option \<Rightarrow> pid option \<Rightarrow> nat \<Rightarrow> bool"
    and again :: bool
    and anyone :: bool
  assumes create_law: "\<lbrakk>R w U h m k; U p = None; Suc k < 65536\<rbrakk> \<Longrightarrow>
      \<exists>x w'. il_create L p (Some name) w = Some (Some x, w') \<and>
        R w' (U(p \<mapsto> x)) h (case m of None \<Rightarrow> Some p | Some q \<Rightarrow> Some q) (Suc k)"
    and lock_law: "\<lbrakk>R w U None m k; U p = Some x\<rbrakk> \<Longrightarrow>
      \<exists>x' w'. il_lock L p (Some x) w = Some (0, Some x', w') \<and> R w' (U(p \<mapsto> x')) (Some p) m k"
    and wait_law: "\<lbrakk>R w U (Some q) m k; U p = Some x; q \<noteq> p \<or> \<not> again\<rbrakk> \<Longrightarrow> il_lock L p (Some x) w = None"
    and again_law: "\<lbrakk>R w U (Some p) m k; U p = Some x; again\<rbrakk> \<Longrightarrow>
      \<exists>x' w'. il_lock L p (Some x) w = Some (0, Some x', w') \<and> R w' (U(p \<mapsto> x')) (Some p) m k"
    and unlock_law: "\<lbrakk>R w U (Some p) m k; U p = Some x\<rbrakk> \<Longrightarrow>
      \<exists>x' w'. il_unlock L p (Some x) w = Some (0, Some x', w') \<and> R w' (U(p \<mapsto> x')) None m k"
    and destroy_law: "\<lbrakk>R w U h m k; U p = Some x; again \<or> h \<noteq> Some p; anyone \<or> m \<noteq> Some p \<or> dom U = {p}\<rbrakk> \<Longrightarrow>
      \<exists>x' w'. il_destroy L p (Some x) w = Some (0, x', w') \<and>
        R w' (U(p := None)) (if h = Some p then None else h) (if m = Some p then None else m) k"
    and exit_law: "R w U h m k \<Longrightarrow> R (kexit p w) (U(p := None)) (if h = Some p then None else h) m k"
begin


lemma stmt_refines:
  assumes ref: "refines R c a" and st: "spec_stmt again anyone s st a = Some (go, a')"
  shows "case stmt_run L (side_pid s) (Some name) st (tp_handle (tc_proc c s)) (tc_world c) of
      None \<Rightarrow> \<not> go \<and> a' = a
    | Some (go', h, w') \<Rightarrow> go \<and> go' \<and>
        refines R (c\<lparr>tc_proc := (tc_proc c)(s := (tc_proc c s)\<lparr>tp_todo := todo, tp_handle := h\<rparr>), tc_world := w'\<rparr>)
          (a'\<lparr>ls_todo := (ls_todo a)(s := todo)\<rparr>)"
proof -
  let ?U = "users (tc_proc c) (ls_has a)" and ?p = "side_pid s"
  have R: "R (tc_world c) ?U (map_option side_pid (ls_holder a)) (map_option side_pid (ls_maker a)) (ls_creates a)"
    and same: "\<And>s. tp_todo (tc_proc c s) = ls_todo a s" "\<And>s. tp_ended (tc_proc c s) = ls_ended a s"
    and handles: "\<And>s. ls_has a s \<Longrightarrow> \<exists>x. tp_handle (tc_proc c s) = Some x"
    using ref by (auto simp: refines_def)
  show ?thesis
  proof (cases st)
    case Create
    then have a: "\<not> ls_has a s" "Suc (ls_creates a) < 65536" "go"
      "a' = a\<lparr>ls_has := (ls_has a)(s := True), ls_maker := (case ls_maker a of None \<Rightarrow> Some s | Some q \<Rightarrow> Some q), ls_creates := Suc (ls_creates a)\<rparr>"
      using st by (auto split: if_splits)
    then obtain x w' where "il_create L ?p (Some name) (tc_world c) = Some (Some x, w')"
      "R w' (?U(?p \<mapsto> x)) (map_option side_pid (ls_holder a))
        (case map_option side_pid (ls_maker a) of None \<Rightarrow> Some ?p | Some q \<Rightarrow> Some q) (Suc (ls_creates a))"
      using create_law [OF R, of ?p] by auto
    then show ?thesis using Create a same handles
      by (cases "ls_maker a") (auto simp: refines_def users_gain)
  next
    case Lock
    then have has: "ls_has a s" using st by (auto split: if_splits)
    then obtain x where x: "tp_handle (tc_proc c s) = Some x" using handles by blast
    have U: "?U ?p = Some x" using has x by simp
    consider "ls_holder a = None" | "ls_holder a = Some s" "again" | q where "ls_holder a = Some q" "q \<noteq> s \<or> \<not> again" by fastforce
    then show ?thesis
    proof cases
      case 1
      then obtain x' w' where "il_lock L ?p (Some x) (tc_world c) = Some (0, Some x', w')"
          "R w' (?U(?p \<mapsto> x')) (Some ?p) (map_option side_pid (ls_maker a)) (ls_creates a)"
        using lock_law [of "tc_world c" ?U _ _ ?p x] U R by fastforce
      then show ?thesis using Lock 1 st same handles x has by (auto simp: refines_def users_keep)
    next
      case 2
      then obtain x' w' where "il_lock L ?p (Some x) (tc_world c) = Some (0, Some x', w')"
          "R w' (?U(?p \<mapsto> x')) (Some ?p) (map_option side_pid (ls_maker a)) (ls_creates a)"
        using again_law [of "tc_world c" ?U ?p _ _ x] U R by fastforce
      then show ?thesis using Lock 2 st same handles x has by (auto simp: refines_def users_keep)
    next
      case 3
      then have "il_lock L ?p (Some x) (tc_world c) = None"
        using wait_law [of "tc_world c" ?U "side_pid q" _ _ ?p x] U R by fastforce
      then show ?thesis using Lock 3 st x has by auto
    qed
  next
    case Unlock
    then have has: "ls_has a s" "ls_holder a = Some s" using st by (auto split: if_splits)
    then obtain x where x: "tp_handle (tc_proc c s) = Some x" using handles by blast
    then obtain x' w' where "il_unlock L ?p (Some x) (tc_world c) = Some (0, Some x', w')"
        "R w' (?U(?p \<mapsto> x')) None (map_option side_pid (ls_maker a)) (ls_creates a)"
      using unlock_law [of "tc_world c" ?U ?p _ _ x] R has by fastforce
    then show ?thesis using Unlock st same handles x has by (auto simp: refines_def users_keep)
  next
    case Destroy
    then have has: "ls_has a s" "again \<or> ls_holder a \<noteq> Some s" "anyone \<or> ls_maker a \<noteq> Some s \<or> \<not> ls_has a (other s)"
      using st by (auto split: if_splits)
    obtain x where x: "tp_handle (tc_proc c s) = Some x" using handles has(1) by blast
    have "anyone \<or> map_option side_pid (ls_maker a) \<noteq> Some ?p \<or> dom ?U = {?p}"
      using has x users_only [of "ls_has a" s "tc_proc c"] by auto
    then obtain x' w' where "il_destroy L ?p (Some x) (tc_world c) = Some (0, x', w')"
        "R w' (?U(?p := None)) (map_option side_pid (give_up s (ls_holder a))) (map_option side_pid (give_up s (ls_maker a))) (ls_creates a)"
      unfolding give_up_pid using destroy_law [OF R, of ?p x] has x by simp blast
    then show ?thesis using Destroy st same handles x has by (auto simp: refines_def users_lose)
  next
    case (Sleep n)
    then show ?thesis using st R same handles by (auto simp: refines_def users_same)
  qed
qed

lemma step_refines:
  assumes "refines R c a" "spec_step again anyone s a = Some a'"
  shows "refines R (conf_step L kexit (Some name) s c) a'"
proof -
  have same: "tp_todo (tc_proc c s) = ls_todo a s" "tp_ended (tc_proc c s) = ls_ended a s" for s
    using assms(1) by (auto simp: refines_def)
  show ?thesis
  proof (cases "ls_ended a s")
    case True
    then show ?thesis using assms same by (simp add: conf_step_def proc_step_def spec_step_def)
  next
    case False
    show ?thesis
    proof (cases "ls_todo a s")
      case Nil
      have "R (tc_world c) (users (tc_proc c) (ls_has a)) (map_option side_pid (ls_holder a)) (map_option side_pid (ls_maker a)) (ls_creates a)"
        using assms(1) by (simp add: refines_def)
      from exit_law [OF this, of "side_pid s"] Nil assms False same show ?thesis
        by (auto simp: conf_step_def proc_step_def spec_step_def refines_def users_lose give_up_pid)
    next
      case (Cons st rest)
      then obtain go a1 where "spec_stmt again anyone s st a = Some (go, a1)" "a' = (if go then a1\<lparr>ls_todo := (ls_todo a)(s := rest)\<rparr> else a1)"
        using assms(2) False by (auto simp: spec_step_def)
      with stmt_refines [OF assms(1) this(1), of rest] Cons False same assms(1) show ?thesis
        by (auto simp: conf_step_def proc_step_def split: option.splits)
    qed
  qed
qed

lemma run_refines:
  assumes "refines R c a" "spec_run again anyone sched a = Some a'"
  shows "refines R (fold (conf_step L kexit (Some name)) sched c) a'"
  using assms by (induction sched arbitrary: c a) (auto intro: step_refines split: Option.bind_splits)

end

end
