(* ===== verification/Ipc_Test_Spec.thy ===== *)
theory Ipc_Test_Spec
  imports Ipc_Test
begin

text \<open>
  What the test programs do on the abstract lock, for every schedule: the calls stay within its
  contract, the lock is with the process that has got it by its own calls, and with a lock that may be taken
  again both programs come to their end.
\<close>

section \<open>Programs\<close>

text \<open>A program that uses a handle and the lock as the contract asks, from the point where it has them or not.\<close>

fun legal :: "bool \<Rightarrow> bool \<Rightarrow> bool \<Rightarrow> test_stmt list \<Rightarrow> bool" where
  "legal again has hold [] = True"
| "legal again has hold (Create # r) = (\<not> has \<and> legal again True hold r)"
| "legal again has hold (Lock # r) = (has \<and> (if hold then again \<longrightarrow> legal again has hold r else legal again has True r))"
| "legal again has hold (Unlock # r) = (has \<and> hold \<and> legal again has False r)"
| "legal again has hold (Destroy # r) = (has \<and> (again \<or> \<not> hold) \<and> legal again False False r)"
| "legal again has hold (Sleep _ # r) = legal again has hold r"

text \<open>A program that comes to a second lock call without an unlock before it.\<close>

fun relocks :: "bool \<Rightarrow> test_stmt list \<Rightarrow> bool" where
  "relocks hold [] = False"
| "relocks hold (Create # r) = relocks hold r"
| "relocks hold (Lock # r) = (hold \<or> relocks True r)"
| "relocks hold (Unlock # r) = relocks False r"
| "relocks hold (Destroy # r) = relocks False r"
| "relocks hold (Sleep _ # r) = relocks hold r"

text \<open>Whether a process is inside after the statements it has run.\<close>

fun holding :: "bool \<Rightarrow> test_stmt list \<Rightarrow> bool" where
  "holding b [] = b"
| "holding b (Lock # r) = holding True r"
| "holding b (Unlock # r) = holding False r"
| "holding b (Destroy # r) = holding False r"
| "holding b (_ # r) = holding b r"

lemma holding_append [simp]: "holding b (xs @ ys) = holding (holding b xs) ys"
  by (induction b xs rule: holding.induct) simp_all

lemma test_programs_legal: "legal again False False (ipc_test_host argv2)" "legal again False False ipc_test_slave"
  by (simp_all add: ipc_test_host_def ipc_test_slave_def)

lemma test_slave_relocks: "relocks False ipc_test_slave"
  by (simp add: ipc_test_slave_def)


section \<open>The invariant\<close>

definition side_ok :: "bool \<Rightarrow> lock_spec \<Rightarrow> side \<Rightarrow> bool" where
  "side_ok again a s \<longleftrightarrow> (ls_holder a = Some s \<longrightarrow> ls_has a s) \<and>
     (if ls_ended a s then \<not> ls_has a s else legal again (ls_has a s) (ls_holder a = Some s) (ls_todo a s))"

definition creates_left :: "lock_spec \<Rightarrow> nat" where
  "creates_left a = count_list (ls_todo a Host) Create + count_list (ls_todo a Slave) Create"

definition spec_ok :: "bool \<Rightarrow> lock_spec \<Rightarrow> bool" where
  "spec_ok again a \<longleftrightarrow> side_ok again a Host \<and> side_ok again a Slave \<and> ls_creates a + creates_left a < 65536"

lemma spec_ok_side: "spec_ok again a \<Longrightarrow> side_ok again a s"
  by (cases s) (simp_all add: spec_ok_def)

lemma other_neq [simp]: "other s \<noteq> s" "s \<noteq> other s" "other (other s) = s"
  by (cases s; simp add: other_def)+

lemma side_cases: "t = s \<or> t = other s"
  by (cases s; cases t; simp add: other_def)

text \<open>A step of one side leaves the other side as it was.\<close>

lemma spec_step_other:
  assumes "spec_step again anyone s a = Some a'"
  shows "ls_todo a' (other s) = ls_todo a (other s) \<and> ls_ended a' (other s) = ls_ended a (other s) \<and>
    ls_has a' (other s) = ls_has a (other s) \<and>
    (ls_holder a \<noteq> Some (other s) \<longrightarrow> ls_holder a' \<noteq> Some (other s)) \<and> (ls_holder a = Some (other s) \<longrightarrow> ls_holder a' = Some (other s))"
  using assms unfolding spec_step_def
  by (cases "ls_todo a s"; cases "hd (ls_todo a s)") (auto simp: give_up_def split: if_splits)

lemma creates_left_split: "creates_left a = count_list (ls_todo a s) Create + count_list (ls_todo a (other s)) Create"
  by (cases s) (simp_all add: creates_left_def other_def)

text \<open>Under the invariant every call is one the contract covers, and keeps the invariant.\<close>

lemma spec_stmt_ok:
  assumes "side_ok again a s" "\<not> ls_ended a s" "ls_todo a s = st # rest" "ls_creates a + count_list (st # rest) Create < 65536"
  shows "case spec_stmt again True s st a of None \<Rightarrow> False | Some (go, a') \<Rightarrow>
    side_ok again (if go then a'\<lparr>ls_todo := (ls_todo a)(s := rest)\<rparr> else a') s \<and>
    ls_todo a' = ls_todo a \<and> ls_creates a' = ls_creates a + (if st = Create then 1 else 0)"
  using assms by (cases st; cases "ls_has a s") (simp_all add: side_ok_def give_up_def split: if_splits)

lemma spec_step_ok:
  assumes "spec_ok again a"
  shows "\<exists>a'. spec_step again True s a = Some a' \<and> side_ok again a' s \<and> ls_creates a' + creates_left a' \<le> ls_creates a + creates_left a"
proof -
  have side: "side_ok again a s" and bound: "ls_creates a + creates_left a < 65536"
    using assms spec_ok_side [OF assms] by (simp_all add: spec_ok_def)
  consider "ls_ended a s" | "\<not> ls_ended a s" "ls_todo a s = []" | st rest where "\<not> ls_ended a s" "ls_todo a s = st # rest"
    by (cases "ls_todo a s") auto
  then show ?thesis
  proof cases
    case 1
    then show ?thesis using side by (simp add: spec_step_def)
  next
    case 2
    then show ?thesis using side by (simp add: spec_step_def side_ok_def give_up_def creates_left_def)
  next
    case 3
    then have left: "creates_left a = count_list (st # rest) Create + count_list (ls_todo a (other s)) Create"
      by (simp add: creates_left_split [of a s])
    then have "ls_creates a + count_list (st # rest) Create < 65536" using bound by linarith
    from spec_stmt_ok [OF side 3 this] obtain go a' where
      st: "spec_stmt again True s st a = Some (go, a')" "side_ok again (if go then a'\<lparr>ls_todo := (ls_todo a)(s := rest)\<rparr> else a') s"
        "ls_todo a' = ls_todo a" "ls_creates a' = ls_creates a + (if st = Create then 1 else 0)" by (auto split: option.splits)
    have go: "\<not> go \<Longrightarrow> st \<noteq> Create" using st(1) by (cases st) (auto split: if_splits)
    have "creates_left (if go then a'\<lparr>ls_todo := (ls_todo a)(s := rest)\<rparr> else a') =
        (if go then count_list rest Create else count_list (st # rest) Create) + count_list (ls_todo a (other s)) Create"
      using st(3) left by (simp add: creates_left_split [of _ s]) 
    then show ?thesis using 3 st go left by (auto simp: spec_step_def)
  qed
qed

lemma spec_step_invariant:
  assumes "spec_ok again a"
  shows "\<exists>a'. spec_step again True s a = Some a' \<and> spec_ok again a'"
proof -
  obtain a' where a': "spec_step again True s a = Some a'" "side_ok again a' s" "ls_creates a' + creates_left a' \<le> ls_creates a + creates_left a"
    using spec_step_ok [OF assms] by blast
  then have "side_ok again a' (other s)"
    using spec_step_other [OF a'(1)] spec_ok_side [OF assms, of "other s"] by (auto simp: side_ok_def)
  then have "side_ok again a' t" for t using a'(2) side_cases [of t s] by auto
  then show ?thesis using a' assms by (auto simp: spec_ok_def)
qed

lemma spec_run_invariant: "spec_ok again a \<Longrightarrow> \<exists>a'. spec_run again True sched a = Some a' \<and> spec_ok again a'"
proof (induction sched arbitrary: a)
  case (Cons s sched)
  then show ?case using spec_step_invariant [OF Cons.prems, of s] by auto
qed simp

lemma spec_start_ok: "spec_ok again (spec_start argv2)"
  using test_programs_legal by (auto simp: spec_ok_def side_ok_def spec_start_def creates_left_def)
    (auto simp: ipc_test_host_def ipc_test_slave_def)


section \<open>Who is inside\<close>

definition test_program :: "string option \<Rightarrow> side \<Rightarrow> test_stmt list" where
  "test_program argv2 s = (case s of Host \<Rightarrow> ipc_test_host argv2 | Slave \<Rightarrow> ipc_test_slave)"

definition executed :: "string option \<Rightarrow> side \<Rightarrow> test_stmt list \<Rightarrow> test_stmt list" where
  "executed argv2 s todo = take (length (test_program argv2 s) - length todo) (test_program argv2 s)"

lemma executed_eq: "test_program argv2 s = xs @ todo \<Longrightarrow> executed argv2 s todo = xs"
  by (simp add: executed_def)

definition at_ok :: "string option \<Rightarrow> lock_spec \<Rightarrow> side \<Rightarrow> bool" where
  "at_ok argv2 a s \<longleftrightarrow> test_program argv2 s = executed argv2 s (ls_todo a s) @ ls_todo a s \<and>
     (\<not> ls_ended a s \<longrightarrow> (ls_holder a = Some s \<longleftrightarrow> holding False (executed argv2 s (ls_todo a s))))"

lemma spec_stmt_holding:
  assumes "spec_stmt again anyone s st a = Some (go, a')"
  shows "if go then (ls_holder a' = Some s \<longleftrightarrow> holding (ls_holder a = Some s) [st]) \<and> ls_ended a' = ls_ended a else a' = a"
  using assms by (cases st) (auto simp: give_up_def split: if_splits)

lemma spec_step_at:
  assumes "spec_step again anyone s a = Some a'" "at_ok argv2 a s"
  shows "at_ok argv2 a' s"
proof -
  consider "ls_ended a s" | "\<not> ls_ended a s" "ls_todo a s = []" | st rest where "\<not> ls_ended a s" "ls_todo a s = st # rest"
    by (cases "ls_todo a s") auto
  then show ?thesis
  proof cases
    case 3
    then obtain go a1 where a1: "spec_stmt again anyone s st a = Some (go, a1)" "a' = (if go then a1\<lparr>ls_todo := (ls_todo a)(s := rest)\<rparr> else a1)"
      using assms(1) by (auto simp: spec_step_def)
    let ?x = "executed argv2 s (st # rest)"
    have "executed argv2 s rest = ?x @ [st]"
      using assms(2) 3 by (intro executed_eq) (simp add: at_ok_def)
    then show ?thesis
      using spec_stmt_holding [OF a1(1)] a1(2) assms(2) 3 by (auto simp: at_ok_def split: if_splits)
  qed (use assms in \<open>auto simp: spec_step_def at_ok_def\<close>)
qed

lemma spec_step_at_both:
  assumes "spec_step again anyone s a = Some a'" "\<And>s. at_ok argv2 a s"
  shows "at_ok argv2 a' t"
proof (cases "t = s")
  case True
  then show ?thesis using spec_step_at assms by blast
next
  case False
  then have "t = other s" using side_cases by blast
  then show ?thesis using spec_step_other [OF assms(1)] assms(2) [of t] unfolding at_ok_def by simp blast
qed

lemma spec_run_at: "spec_run again anyone sched a = Some a' \<Longrightarrow> (\<And>s. at_ok argv2 a s) \<Longrightarrow> at_ok argv2 a' t"
proof (induction sched arbitrary: a)
  case (Cons s sched)
  then obtain a1 where "spec_step again anyone s a = Some a1" "spec_run again anyone sched a1 = Some a'"
    by (auto split: Option.bind_splits)
  with Cons show ?case using spec_step_at_both by blast
qed simp

lemma spec_start_at: "at_ok argv2 (spec_start argv2) s"
  by (cases s) (simp_all add: at_ok_def spec_start_def executed_def test_program_def)


section \<open>Waiting\<close>

text \<open>With a lock that cannot be taken again, a process that is on the way to a second lock call never ends.\<close>

definition will_wait :: "lock_spec \<Rightarrow> side \<Rightarrow> bool" where
  "will_wait a s \<longleftrightarrow> \<not> ls_ended a s \<and> relocks (ls_holder a = Some s) (ls_todo a s)"

lemma spec_step_will_wait:
  assumes "spec_step False anyone s a = Some a'" "will_wait a t"
  shows "will_wait a' t"
proof (cases "t = s")
  case True
  then obtain st rest where todo: "ls_todo a s = st # rest" "\<not> ls_ended a s" "relocks (ls_holder a = Some s) (st # rest)"
    using assms(2) by (cases "ls_todo a s") (auto simp: will_wait_def)
  then show ?thesis using assms(1) True
    by (cases st) (auto simp: spec_step_def will_wait_def give_up_def split: if_splits)
next
  case False
  then have "t = other s" using side_cases by blast
  then show ?thesis using spec_step_other [OF assms(1)] assms(2) unfolding will_wait_def by (cases "ls_holder a = Some t") auto
qed

lemma spec_run_will_wait: "spec_run False anyone sched a = Some a' \<Longrightarrow> will_wait a t \<Longrightarrow> will_wait a' t"
  by (induction sched arbitrary: a) (auto intro: spec_step_will_wait split: Option.bind_splits)

lemma spec_start_will_wait: "will_wait (spec_start argv2) Slave"
  using test_slave_relocks by (simp add: will_wait_def spec_start_def)


section \<open>Progress\<close>

definition spec_left :: "lock_spec \<Rightarrow> nat" where
  "spec_left a = length (ls_todo a Host) + (if ls_ended a Host then 0 else 1) + (length (ls_todo a Slave) + (if ls_ended a Slave then 0 else 1))"

lemma spec_left_split: "spec_left a = length (ls_todo a s) + (if ls_ended a s then 0 else 1) +
    (length (ls_todo a (other s)) + (if ls_ended a (other s) then 0 else 1))"
  by (cases s) (simp_all add: spec_left_def other_def)

lemma spec_step_progress:
  assumes "spec_step True True s a = Some a'"
  shows "if a' = a then ls_ended a s \<or> ls_holder a = Some (other s) else spec_left a' < spec_left a"
proof -
  have rest: "ls_todo a' (other s) = ls_todo a (other s)" "ls_ended a' (other s) = ls_ended a (other s)"
    using spec_step_other [OF assms] by auto
  consider "ls_ended a s" | "\<not> ls_ended a s" "ls_todo a s = []" | st tl where "\<not> ls_ended a s" "ls_todo a s = st # tl"
    by (cases "ls_todo a s") auto
  then show ?thesis
  proof cases
    case 3
    then obtain go a1 where a1: "spec_stmt True True s st a = Some (go, a1)" "a' = (if go then a1\<lparr>ls_todo := (ls_todo a)(s := tl)\<rparr> else a1)"
      using assms by (auto simp: spec_step_def)
    show ?thesis
    proof (cases go)
      case True
      then have "ls_todo a' s = tl" "ls_ended a' s = ls_ended a s"
        using a1 spec_stmt_holding [OF a1(1)] by simp_all
      then show ?thesis using rest 3 by (auto simp: spec_left_split [of _ s])
    next
      case False
      then obtain t where "ls_holder a = Some t" "t \<noteq> s" using a1(1) by (cases st) (auto split: if_splits)
      then show ?thesis using False a1 spec_stmt_holding [OF a1(1)] side_cases [of t s] by simp
    qed
  next
    case 2
    then have "ls_ended a' s" "ls_todo a' s = []" using assms by (auto simp: spec_step_def)
    then show ?thesis using 2 rest by (auto simp: spec_left_split [of _ s])
  qed (use assms in \<open>simp add: spec_step_def\<close>)
qed

text \<open>When neither side can move, both have ended: one that waits for the other waits for one that can move.\<close>

lemma spec_no_deadlock:
  assumes "spec_ok True a" "\<And>s. spec_step True True s a = Some a"
  shows "ls_ended a s"
proof (rule ccontr)
  assume "\<not> ls_ended a s"
  then have "ls_holder a = Some (other s)" using spec_step_progress [OF assms(2), of s] by simp
  moreover from this have "\<not> ls_ended a (other s)" using spec_ok_side [OF assms(1), of "other s"] by (auto simp: side_ok_def)
  ultimately show False using spec_step_progress [OF assms(2), of "other s"] by simp
qed

lemma spec_round:
  assumes "spec_run True True sched a = Some a'"
  shows "spec_left a' < spec_left a \<or> a' = a \<and> (\<forall>s\<in>set sched. spec_step True True s a = Some a)"
  using assms
proof (induction sched arbitrary: a)
  case (Cons s sched)
  then obtain a1 where a1: "spec_step True True s a = Some a1" "spec_run True True sched a1 = Some a'"
    by (auto split: Option.bind_splits)
  show ?case using Cons.IH [OF a1(2)] spec_step_progress [OF a1(1)] a1(1) by (auto split: if_splits)
qed simp

lemma spec_ended_stays: "\<forall>s. ls_ended a s \<Longrightarrow> spec_run again anyone sched a = Some a"
  by (induction sched) (simp_all add: spec_step_def)

lemma spec_run_append: "spec_run again anyone (xs @ ys) a = Option.bind (spec_run again anyone xs a) (spec_run again anyone ys)"
  by (induction xs arbitrary: a) (auto split: Option.bind_splits)

lemma spec_rounds_end:
  assumes "spec_ok True a" "spec_left a \<le> length rounds" "\<forall>r\<in>set rounds. \<forall>s. s \<in> set r" "spec_run True True (concat rounds) a = Some a'"
  shows "\<forall>s. ls_ended a' s"
  using assms
proof (induction rounds arbitrary: a)
  case Nil
  then have "spec_left a = 0" "a' = a" by simp_all
  then have "ls_ended a s" for s by (cases s) (simp_all add: spec_left_def split: if_splits)
  with \<open>a' = a\<close> show ?case by simp
next
  case (Cons r rounds)
  obtain a1 where a1: "spec_run True True r a = Some a1" "spec_ok True a1" using spec_run_invariant [OF Cons.prems(1)] by blast
  have run: "spec_run True True (concat rounds) a1 = Some a'" using Cons.prems(4) a1(1) by (simp add: spec_run_append)
  from spec_round [OF a1(1)] show ?case
  proof
    assume "spec_left a1 < spec_left a"
    then show ?thesis using Cons.prems(2,3) by (intro Cons.IH [OF a1(2) _ _ run]) simp_all
  next
    assume stay: "a1 = a \<and> (\<forall>s\<in>set r. spec_step True True s a = Some a)"
    then have "\<forall>s. ls_ended a s" using Cons.prems(1,3) by (auto intro: spec_no_deadlock)
    then show ?thesis using run stay spec_ended_stays by fastforce
  qed
qed

lemma spec_start_left: "spec_left (spec_start argv2) \<le> 22"
  by (simp add: spec_left_def spec_start_def ipc_test_host_def ipc_test_slave_def)

end
