(* ===== verification/Ipc_Test_Runs.thy ===== *)
theory Ipc_Test_Runs
  imports Ipc_Test_Spec
begin

text \<open>
  The three locks meet the contract of the test programs, and what the programs then show: with
  file locks both always finish, with the mutex and the semaphore the slave never does.
\<close>

section \<open>The mutex\<close>

text \<open>That the system calls of \<open>create\<close> succeed is part of the relation.\<close>

definition mutex_rel ::
  "(shms \<Rightarrow> bool \<times> bool \<times> bool \<times> nat) \<Rightarrow> string \<Rightarrow> shms \<Rightarrow> (pid \<rightharpoonup> nat) \<Rightarrow> pid option \<Rightarrow> pid option \<Rightarrow> nat \<Rightarrow> bool" where
  "mutex_rel os n w U h m k \<longleftrightarrow> (\<forall>w. \<exists>j. os w = (True, True, True, j)) \<and> length n < 119 \<and> life_ok n w U (set_option h) k"

lemma mutex_create_succeeds:
  assumes "life_ok n w U inside k" "length n < 119"
  shows "\<exists>i w'. ipc_mutex_create True True True j (Some n) w = Some (Some i, w')"
  using assms by (auto simp: ipc_mutex_create_def MAX_SHM_NAME_LEN_def life_ok_def split: option.splits)

interpretation mutex_test: tested_lock "ipc_lock_mutex os" process_exit n "mutex_rel os n" False True for os n
proof unfold_locales
  fix w U h m k p
  assume R: "mutex_rel os n w U h m k" and "U p = None" "Suc k < 65536"
  obtain j where j: "os w = (True, True, True, j)" using R unfolding mutex_rel_def by blast
  obtain i w' where c: "ipc_mutex_create True True True j (Some n) w = Some (Some i, w')"
    using R mutex_create_succeeds [of n w U "set_option h" k j] by (auto simp: mutex_rel_def)
  have "life_ok n w' (U(p \<mapsto> i)) (set_option h) (Suc k)"
    by (rule life_create [OF _ _ _ c]) (use R \<open>U p = None\<close> \<open>Suc k < 65536\<close> in \<open>simp_all add: mutex_rel_def\<close>)
  then show "\<exists>x w'. il_create (ipc_lock_mutex os) p (Some n) w = Some (Some x, w') \<and>
      mutex_rel os n w' (U(p \<mapsto> x)) h (case m of None \<Rightarrow> Some p | Some q \<Rightarrow> Some q) (Suc k)"
    using c R j by (auto simp: ipc_lock_mutex_def mutex_rel_def)
next
  fix w U m k p x
  assume R: "mutex_rel os n w U None m k" and U: "U p = Some x"
  then show "\<exists>x' w'. il_lock (ipc_lock_mutex os) p (Some x) w = Some (0, Some x', w') \<and> mutex_rel os n w' (U(p \<mapsto> x')) (Some p) m k"
    using life_lock [of n w U "{}" k p x] by (auto simp: ipc_lock_mutex_def keeps_handle_def mutex_rel_def fun_upd_idem)
next
  fix w U q m k p x
  assume R: "mutex_rel os n w U (Some q) m k" and U: "U p = Some x"
  then show "il_lock (ipc_lock_mutex os) p (Some x) w = None"
    using life_lock [of n w U "{q}" k p x] by (simp add: ipc_lock_mutex_def keeps_handle_def mutex_rel_def)
next
  fix w U m k p x
  assume R: "mutex_rel os n w U (Some p) m k" and U: "U p = Some x"
  then show "\<exists>x' w'. il_unlock (ipc_lock_mutex os) p (Some x) w = Some (0, Some x', w') \<and> mutex_rel os n w' (U(p \<mapsto> x')) None m k"
    using life_unlock [of n w U "{p}" k p x] by (auto simp: ipc_lock_mutex_def keeps_handle_def mutex_rel_def fun_upd_idem)
next
  fix w U h m k p x
  assume R: "mutex_rel os n w U h m k" and U: "U p = Some x" and "False \<or> h \<noteq> Some p"
  then show "\<exists>x' w'. il_destroy (ipc_lock_mutex os) p (Some x) w = Some (0, x', w') \<and>
      mutex_rel os n w' (U(p := None)) (if h = Some p then None else h) (if m = Some p then None else m) k"
    using life_destroy [of n w U "set_option h" k p x] by (auto simp: ipc_lock_mutex_def keeps_handle_def mutex_rel_def)
next
  fix w U h m k p
  assume R: "mutex_rel os n w U h m k"
  then show "mutex_rel os n (process_exit p w) (U(p := None)) (if h = Some p then None else h) m k"
    using life_crash [of n w U "set_option h" k p] by (cases h) (auto simp: mutex_rel_def split: if_splits)
qed simp


section \<open>File locks\<close>

definition flock_path :: "string \<Rightarrow> string list" where
  "flock_path n = path_names (''/tmp/'' @ n)"

definition flock_rel ::
  "(flock_kernel \<Rightarrow> fs_env \<times> bool \<times> int) \<Rightarrow> string \<Rightarrow> flock_kernel \<Rightarrow> (pid \<rightharpoonup> ipc_flock) \<Rightarrow> pid option \<Rightarrow> pid option \<Rightarrow> nat \<Rightarrow> bool" where
  "flock_rel os n w U h m k \<longleftrightarrow> length n < 123 \<and> (\<forall>w. \<exists>fe fd. os w = (fe, True, fd) \<and> 0 \<le> fd) \<and> fk_fs w (flock_path n) = Some File \<and>
     fk_owner w (flock_path n) = h \<and> set_option h \<subseteq> dom U \<and>
     (\<forall>p x. U p = Some x \<longrightarrow> fk_files w p (flock_fd x) = Some (flock_path n))"

lemmas flock_test_defs = flock_rel_def ipc_lock_flock_def keeps_handle_def flock_defs

interpretation flock_test: tested_lock "ipc_lock_flock os" flock_exit n "flock_rel os n" True True for os n
proof unfold_locales
  fix w U h m k p
  assume R: "flock_rel os n w U h m k" "U p = None" "Suc k < 65536"
  obtain fe fd where "os w = (fe, True, fd)" "0 \<le> fd" using R(1) unfolding flock_rel_def by blast
  then show "\<exists>x w'. il_create (ipc_lock_flock os) p (Some n) w = Some (Some x, w') \<and>
      flock_rel os n w' (U(p \<mapsto> x)) h (case m of None \<Rightarrow> Some p | Some q \<Rightarrow> Some q) (Suc k)"
    using R by (auto simp: flock_rel_def ipc_lock_flock_def ipc_flock_create_def MAX_FILE_LOCK_NAME_LEN_def flock_path_def not_less)
next
  fix w U m k p x
  assume "flock_rel os n w U None m k" "U p = Some x"
  then show "\<exists>x' w'. il_lock (ipc_lock_flock os) p (Some x) w = Some (0, Some x', w') \<and> flock_rel os n w' (U(p \<mapsto> x')) (Some p) m k"
    by (auto simp: flock_test_defs)
next
  fix w U q m k p x
  assume "flock_rel os n w U (Some q) m k" "U p = Some x" "q \<noteq> p \<or> \<not> True"
  then show "il_lock (ipc_lock_flock os) p (Some x) w = None"
    by (auto simp: flock_test_defs)
next
  fix w U m k p x
  assume "flock_rel os n w U (Some p) m k" "U p = Some x"
  then show "\<exists>x' w'. il_lock (ipc_lock_flock os) p (Some x) w = Some (0, Some x', w') \<and> flock_rel os n w' (U(p \<mapsto> x')) (Some p) m k"
    by (auto simp: flock_test_defs)
next
  fix w U m k p x
  assume "flock_rel os n w U (Some p) m k" "U p = Some x"
  then show "\<exists>x' w'. il_unlock (ipc_lock_flock os) p (Some x) w = Some (0, Some x', w') \<and> flock_rel os n w' (U(p \<mapsto> x')) None m k"
    by (auto simp: flock_test_defs)
next
  fix w U h m k p x
  assume "flock_rel os n w U h m k" "U p = Some x"
  then show "\<exists>x' w'. il_destroy (ipc_lock_flock os) p (Some x) w = Some (0, x', w') \<and>
      flock_rel os n w' (U(p := None)) (if h = Some p then None else h) (if m = Some p then None else m) k"
    by (auto simp: flock_test_defs ipc_flock_destroy_def close_file_def)
next
  fix w U h m k p
  assume "flock_rel os n w U h m k"
  then show "flock_rel os n (flock_exit p w) (U(p := None)) (if h = Some p then None else h) m k"
    by (auto simp: flock_rel_def flock_exit_def)
qed


section \<open>Semaphores\<close>

text \<open>What the tests rely on outside the code: enough memory, access to the set, and one key for the path.\<close>

definition sem_env_ok :: "(sem_kernel \<Rightarrow> sem_env) \<Rightarrow> int \<Rightarrow> string \<Rightarrow> bool" where
  "sem_env_ok es key n \<longleftrightarrow> length n < 123 \<and> 0 \<le> key \<and> (\<forall>w. se_calloc (es w) \<and> se_strdup (es w) \<and> se_granted (es w) \<and>
     0 \<le> se_newid (es w) \<and> (\<forall>s. se_ftok (es w) s (sem_path n) = key))"

definition sem_of :: "pid option \<Rightarrow> pid \<Rightarrow> sem" where
  "sem_of h p = \<lparr>sem_val = (if h = None then 1 else 0), sem_pid = p, sem_adj = (\<lambda>q. if h = Some q then 1 else 0)\<rparr>"

definition semsv_rel :: "(sem_kernel \<Rightarrow> sem_env) \<Rightarrow> int \<Rightarrow> string \<Rightarrow>
    sem_kernel \<Rightarrow> (pid \<rightharpoonup> ipc_semsv) \<Rightarrow> pid option \<Rightarrow> pid option \<Rightarrow> nat \<Rightarrow> bool" where
  "semsv_rel es key n w U h m k \<longleftrightarrow> sem_env_ok es key n \<and> sk_fs w (path_names (sem_path n)) \<noteq> None \<and> set_option h \<subseteq> dom U \<and>
     (case sk_key w key of
        None \<Rightarrow> U = Map.empty \<and> m = None
      | Some i \<Rightarrow> (\<exists>p. sk_sem w i = Some (sem_of h p)) \<and>
          (\<forall>q x. U q = Some x \<longrightarrow> sem_id x = i \<and> (is_creator x \<noteq> 0 \<longrightarrow> m = Some q)))"

lemma semsv_rel_user:
  assumes "semsv_rel es key n w U h m k" "U p = Some x"
  obtains i r where "sk_key w key = Some i" "sk_sem w i = Some (sem_of h r)" "sem_id x = i" "is_creator x \<noteq> 0 \<longrightarrow> m = Some p"
    "\<forall>q x. U q = Some x \<longrightarrow> sem_id x = i \<and> (is_creator x \<noteq> 0 \<longrightarrow> m = Some q)"
  using assms by (auto simp: semsv_rel_def split: option.splits)

lemma semsv_create_law:
  assumes R: "semsv_rel es key n w U h m k" and "U p = None"
  shows "\<exists>x w'. ipc_semsv_create (es w) (Some n) w = Some (Some x, w') \<and>
    semsv_rel es key n w' (U(p \<mapsto> x)) h (case m of None \<Rightarrow> Some p | Some q \<Rightarrow> Some q) k'"
proof -
  have c: "ipc_semsv_create (es w) (Some n) w = Some (case sk_key w key of
      None \<Rightarrow> (Some \<lparr>sem_id = se_newid (es w), is_creator = 1, lockref = 0, sem_name = Some n\<rparr>,
        w\<lparr>sk_key := (sk_key w)(key \<mapsto> se_newid (es w)), sk_sem := (sk_sem w)(se_newid (es w) \<mapsto> sem_of None 0)\<rparr>)
    | Some i \<Rightarrow> (Some \<lparr>sem_id = i, is_creator = 0, lockref = 0, sem_name = Some n\<rparr>, w))"
    using R by (subst ipc_semsv_create_result [where key = key]) (auto simp: semsv_rel_def sem_env_ok_def sem_of_def split: option.splits)
  show ?thesis
    unfolding c using R assms(2) by (auto simp: semsv_rel_def split: option.splits)
qed

lemma semsv_lock_law:
  assumes "semsv_rel es key n w U None m k" "U p = Some x"
  shows "\<exists>x' w'. ipc_semsv_lock e p (Some x) w = Some (0, Some x', w') \<and> semsv_rel es key n w' (U(p \<mapsto> x')) (Some p) m k"
proof -
  obtain i q where m: "sk_key w key = Some i" "sk_sem w i = Some (sem_of None q)" "sem_id x = i" "is_creator x \<noteq> 0 \<longrightarrow> m = Some p"
    "\<forall>q x. U q = Some x \<longrightarrow> sem_id x = i \<and> (is_creator x \<noteq> 0 \<longrightarrow> m = Some q)"
    using semsv_rel_user [OF assms(1,2)] .
  have "semop p i (- 1) w = Some (0, 0, w\<lparr>sk_sem := (sk_sem w)(i \<mapsto> sem_of (Some p) p)\<rparr>)"
    by (auto simp: semop_def m(2) sem_of_def fun_eq_iff)
  then show ?thesis
    using m assms by (auto simp: ipc_semsv_lock_def semsv_rel_def)
qed

lemma semsv_wait_law:
  assumes "semsv_rel es key n w U (Some q) m k" "U p = Some x"
  shows "ipc_semsv_lock e p (Some x) w = None"
  by (rule semsv_rel_user [OF assms]) (simp add: ipc_semsv_lock_def semop_def sem_of_def)

lemma semsv_unlock_law:
  assumes "semsv_rel es key n w U (Some p) m k" "U p = Some x"
  shows "\<exists>x' w'. ipc_semsv_unlock p (Some x) w = Some (0, Some x', w') \<and> semsv_rel es key n w' (U(p \<mapsto> x')) None m k"
proof -
  obtain i q where m: "sk_key w key = Some i" "sk_sem w i = Some (sem_of (Some p) q)" "sem_id x = i" "is_creator x \<noteq> 0 \<longrightarrow> m = Some p"
    "\<forall>q x. U q = Some x \<longrightarrow> sem_id x = i \<and> (is_creator x \<noteq> 0 \<longrightarrow> m = Some q)"
    using semsv_rel_user [OF assms(1,2)] .
  have "semop p i 1 w = Some (0, 0, w\<lparr>sk_sem := (sk_sem w)(i \<mapsto> sem_of None p)\<rparr>)"
    by (auto simp: semop_def m(2) sem_of_def fun_eq_iff)
  then show ?thesis
    using m assms by (auto simp: ipc_semsv_unlock_def semsv_rel_def)
qed

lemma semsv_destroy_law:
  assumes "semsv_rel es key n w U h m k" "U p = Some x" "h \<noteq> Some p" "m \<noteq> Some p \<or> dom U = {p}"
  shows "\<exists>x' w'. ipc_semsv_destroy (Some x) w = (0, x', w') \<and>
    semsv_rel es key n w' (U(p := None)) h (if m = Some p then None else m) k"
proof -
  obtain i q where m: "sk_key w key = Some i" "sk_sem w i = Some (sem_of h q)" "sem_id x = i" "is_creator x \<noteq> 0 \<longrightarrow> m = Some p"
    "\<forall>q x. U q = Some x \<longrightarrow> sem_id x = i \<and> (is_creator x \<noteq> 0 \<longrightarrow> m = Some q)"
    using semsv_rel_user [OF assms(1,2)] .
  show ?thesis
  proof (cases "is_creator x = 0")
    case True
    then show ?thesis using m assms(1,3) by (auto simp: ipc_semsv_destroy_def semsv_rel_def)
  next
    case False
    then have mp: "m = Some p" "dom (U(p := None)) = {}" using assms(4) m(4) by auto
    moreover have "set_option h \<subseteq> dom (U(p := None))" using assms(1,3) by (auto simp: semsv_rel_def)
    ultimately have "U(p := None) = Map.empty \<and> h = None" by (simp del: dom_fun_upd)
    then show ?thesis using False mp m(1-3) assms(1) by (auto simp: ipc_semsv_destroy_def semctl_rmid_def semsv_rel_def)
  qed
qed

lemma semsv_exit_law':
  assumes "semsv_rel es key n w U h m k"
  shows "semsv_rel es key n (sem_exit p w) (U(p := None)) (if h = Some p then None else h) m k"
proof (cases "sk_key w key")
  case None
  then show ?thesis using assms by (auto simp: semsv_rel_def sem_exit_def)
next
  case (Some i)
  then obtain q where m: "sk_sem w i = Some (sem_of h q)"
    "\<forall>q x. U q = Some x \<longrightarrow> sem_id x = i \<and> (is_creator x \<noteq> 0 \<longrightarrow> m = Some q)" using assms by (auto simp: semsv_rel_def)
  have "\<exists>r. sk_sem (sem_exit p w) i = Some (sem_of (if h = Some p then None else h) r)"
    using m(1) by (auto simp: sem_exit_def sem_of_def fun_eq_iff)
  then show ?thesis using Some m assms by (auto simp: semsv_rel_def sem_exit_def split: if_splits)
qed

interpretation semsv_test: tested_lock "ipc_lock_semsv es" sem_exit n "semsv_rel es key n" False False for es n key
  by unfold_locales
    (simp_all only: ipc_lock_semsv_def ipc_lock_t.simps option.inject semsv_create_law semsv_lock_law semsv_wait_law semsv_unlock_law
      semsv_destroy_law semsv_exit_law' simp_thms if_False)


section \<open>What the tests show\<close>

text \<open>A process is inside between a lock call that has returned and the next unlock or destroy call.\<close>

definition test_inside :: "string option \<Rightarrow> ('h, 'w) test_conf \<Rightarrow> side \<Rightarrow> bool" where
  "test_inside argv2 c s \<longleftrightarrow> \<not> tp_ended (tc_proc c s) \<and> holding False (executed argv2 s (tp_todo (tc_proc c s)))"

lemma users_none: "users q (\<lambda>_. False) = Map.empty"
  by (simp add: users_def fun_eq_iff)

lemma refines_start: "R w Map.empty None None 0 \<Longrightarrow> refines R (test_start argv2 w) (spec_start argv2)"
  by (simp add: refines_def test_start_def spec_start_def users_none)

lemma refines_exclusion:
  assumes "refines R c a" "\<And>s. at_ok argv2 a s" "test_inside argv2 c s" "test_inside argv2 c t"
  shows "s = t"
proof -
  have "ls_holder a = Some s" if "test_inside argv2 c s" for s
    using that assms(1) assms(2) [of s] by (auto simp: test_inside_def refines_def at_ok_def)
  from this [OF assms(3)] this [OF assms(4)] show ?thesis by simp
qed

text \<open>
  The tests with the mutex. Whatever the schedule of calls, each of which ends before the next one begins or waits, and with the host ending normally or not, the two
  processes are never inside at the same time; but the slave, which calls \<open>lock\<close> twice in a row at the end, never
  comes to its end: if it gets as far as the second call it does not get past it. Creations that overlap are the subject of \<open>Ipc_Mutex_Steps\<close>.
\<close>

theorem ipc_test_mutex_slave_never_ends:
  assumes "sh_name w n = None" and "length n < 119" and "\<And>w. \<exists>j. os w = (True, True, True, j)"
  shows "let c = test_run (ipc_lock_mutex os) process_exit (Some n) argv2 w sched in
    \<not> (test_inside argv2 c Host \<and> test_inside argv2 c Slave) \<and> \<not> tp_ended (tc_proc c Slave)"
proof -
  have "mutex_rel os n w Map.empty None None 0" using assms by (simp add: mutex_rel_def life_ok_none)
  then have start: "refines (mutex_rel os n) (test_start argv2 w) (spec_start argv2)" by (rule refines_start)
  obtain a where a: "spec_run False True sched (spec_start argv2) = Some a" using spec_run_invariant [OF spec_start_ok] by blast
  note ref = mutex_test.run_refines [OF start a]
  have "will_wait a Slave" using spec_run_will_wait [OF a spec_start_will_wait] .
  moreover have "at_ok argv2 a s" for s using spec_run_at [OF a spec_start_at] .
  ultimately show ?thesis
    using ref refines_exclusion [OF ref] by (auto simp: Let_def test_run_def will_wait_def refines_def)
qed

theorem ipc_test_mutex_slave_never_ends_witness:
  "let c = test_run (ipc_lock_mutex (\<lambda>_. (True, True, True, 3))) process_exit (Some ''m'') None \<lparr>sh_name = Map.empty, sh_obj = Map.empty\<rparr>
      [Host, Slave, Host, Slave, Slave] in
    \<not> (test_inside None c Host \<and> test_inside None c Slave) \<and> \<not> tp_ended (tc_proc c Slave)"
  by (rule ipc_test_mutex_slave_never_ends) simp_all

text \<open>
  C19: The tests with file locks. Whatever the schedule, the two processes are never inside at the
  same time; and under every schedule that gives both processes a turn in each of at least 22 rounds, both come to
  their end, the host having died inside in the run without a second argument included. The file lock is then free.
\<close>

theorem ipc_test_flock_ends:
  assumes "fk_fs w (flock_path n) = Some File" and "fk_owner w (flock_path n) = None" and "length n < 123"
    and "\<And>w. \<exists>fe fd. os w = (fe, True, fd) \<and> 0 \<le> fd"
  shows "let c = test_run (ipc_lock_flock os) flock_exit (Some n) argv2 w sched in
    \<not> (test_inside argv2 c Host \<and> test_inside argv2 c Slave) \<and>
    (\<forall>rounds. sched = concat rounds \<and> 22 \<le> length rounds \<and> (\<forall>r\<in>set rounds. Host \<in> set r \<and> Slave \<in> set r) \<longrightarrow>
      tp_ended (tc_proc c Host) \<and> tp_ended (tc_proc c Slave) \<and> fk_owner (tc_world c) (flock_path n) = None)"
proof -
  have "flock_rel os n w Map.empty None None 0" using assms by (simp add: flock_rel_def)
  then have start: "refines (flock_rel os n) (test_start argv2 w) (spec_start argv2)" by (rule refines_start)
  obtain a where a: "spec_run True True sched (spec_start argv2) = Some a" "spec_ok True a" using spec_run_invariant [OF spec_start_ok] by blast
  note ref = flock_test.run_refines [OF start a(1)]
  have at: "at_ok argv2 a s" for s using spec_run_at [OF a(1) spec_start_at] .
  have ends: "ls_ended a s" if r: "sched = concat rounds" "22 \<le> length rounds" "\<forall>r\<in>set rounds. Host \<in> set r \<and> Slave \<in> set r" for rounds s
  proof -
    have "\<forall>r\<in>set rounds. \<forall>s. s \<in> set r" using r(3) by (metis side.exhaust)
    moreover have "spec_left (spec_start argv2) \<le> length rounds" using r(2) spec_start_left [of argv2] by linarith
    ultimately show ?thesis using spec_rounds_end [OF spec_start_ok] a(1) r(1) by blast
  qed
  have free: "ls_holder a = None" if "\<And>s. ls_ended a s"
    using that spec_ok_side [OF a(2)] by (cases "ls_holder a") (auto simp: side_ok_def)
  show ?thesis
    using ref refines_exclusion [OF ref at, of Host Slave] ends free
    by (auto simp: Let_def test_run_def refines_def flock_rel_def)
qed

theorem ipc_test_flock_ends_witness:
  "let c = test_run (ipc_lock_flock (\<lambda>_. (demo_fs_env, True, 3))) flock_exit (Some ''l'') None demo_flock (concat (replicate 22 [Host, Slave])) in
    tp_ended (tc_proc c Host) \<and> tp_ended (tc_proc c Slave) \<and> fk_owner (tc_world c) (flock_path ''l'') = None"
proof -
  have rounds: "\<forall>r\<in>set (replicate 22 [Host, Slave]). Host \<in> set r \<and> Slave \<in> set r" "22 \<le> length (replicate 22 [Host, Slave])"
    by simp_all
  have state: "fk_fs demo_flock (flock_path ''l'') = Some File" "fk_owner demo_flock (flock_path ''l'') = None"
    by (simp_all add: demo_flock_def flock_path_def path_names_def)
  have os: "\<exists>fe fd. (demo_fs_env, True, 3 :: int) = (fe, True, fd) \<and> 0 \<le> fd" by auto
  have len: "length ''l'' < 123" by simp
  from ipc_test_flock_ends [OF state len, of "\<lambda>_. (demo_fs_env, True, 3)" None "concat (replicate 22 [Host, Slave])"] os rounds
  show ?thesis unfolding Let_def by blast
qed

text \<open>
  The schedule the pauses are meant for: the host has the lock when the slave comes, the slave
  waits for a while, gets the lock after the host, and the host then ends inside.
\<close>

definition meant_schedule :: "nat \<Rightarrow> side list" where
  "meant_schedule waits = [Host, Host, Host, Host, Host, Host, Slave, Slave, Slave] @ replicate waits Slave @ [Host, Host, Slave, Slave, Host, Host, Host, Slave, Slave]"

definition spec_at :: "test_stmt list \<Rightarrow> test_stmt list \<Rightarrow> bool \<Rightarrow> side option \<Rightarrow> lock_spec" where
  "spec_at host slave alive holder = \<lparr>ls_todo = (\<lambda>s. case s of Host \<Rightarrow> host | Slave \<Rightarrow> slave),
     ls_ended = (\<lambda>s. case s of Host \<Rightarrow> \<not> alive | Slave \<Rightarrow> False), ls_has = (\<lambda>s. case s of Host \<Rightarrow> alive | Slave \<Rightarrow> True),
     ls_holder = holder, ls_maker = Some Host, ls_creates = 4\<rparr>"

lemma spec_record_eq:
  "a = a' \<longleftrightarrow> (\<forall>s. ls_todo a s = ls_todo a' s \<and> ls_ended a s = ls_ended a' s \<and> ls_has a s = ls_has a' s) \<and>
    ls_holder a = ls_holder a' \<and> ls_maker a = ls_maker a' \<and> ls_creates a = ls_creates (a' :: lock_spec)"
  by (cases a; cases a') (auto simp: fun_eq_iff)

lemmas spec_run_simps = spec_step_def spec_at_def spec_start_def ipc_test_host_def ipc_test_slave_def give_up_def other_def

lemma meant_first:
  "spec_run False False [Host, Host, Host, Host, Host, Host, Slave, Slave, Slave] (spec_start None) =
    Some (spec_at [Sleep 30, Unlock, Sleep 10, Lock] [Lock, Unlock, Sleep 20, Lock, Lock, Destroy] True (Some Host))"
  by (simp add: spec_run_simps spec_record_eq split: side.splits)

lemma meant_step:
  "spec_step False False Slave (spec_at host (Lock # r) True (Some Host)) = Some (spec_at host (Lock # r) True (Some Host))"
  "spec_step False False s (spec_at [] (Lock # r) False (Some Slave)) = Some (spec_at [] (Lock # r) False (Some Slave))"
  by (cases s; simp add: spec_step_def spec_at_def)+

lemma meant_wait: "spec_run False False (replicate k Slave) (spec_at host (Lock # r) True (Some Host)) = Some (spec_at host (Lock # r) True (Some Host))"
  by (induction k) (simp_all add: meant_step)

lemma meant_last:
  "spec_run False False [Host, Host, Slave, Slave, Host, Host, Host, Slave, Slave]
      (spec_at [Sleep 30, Unlock, Sleep 10, Lock] [Lock, Unlock, Sleep 20, Lock, Lock, Destroy] True (Some Host)) =
    Some (spec_at [] [Lock, Destroy] False (Some Slave))"
  by (simp add: spec_run_simps spec_record_eq split: side.splits)

lemma meant_then: "spec_run False False later (spec_at [] (Lock # r) False (Some Slave)) = Some (spec_at [] (Lock # r) False (Some Slave))"
  by (induction later) (simp_all add: meant_step)

lemma meant_run:
  "spec_run False False (meant_schedule waits @ later) (spec_start None) = Some (spec_at [] [Lock, Destroy] False (Some Slave))"
  by (simp only: meant_schedule_def spec_run_append meant_first bind.bind_lunit meant_wait meant_last meant_then)

text \<open>
  The test with the semaphore, in the schedule the pauses are meant for. The host ends inside
  without unlocking; \<open>SEM_UNDO\<close> gives the semaphore back, and the slave gets the lock it then asks for: the question of
  the test, whether the slave is deadlocked, is answered with no. But the lock call after that never
  returns, in any continuation of the schedule.
\<close>

theorem ipc_test_semsv_host_dies:
  assumes "sem_env_ok es key n" and "sk_fs w (path_names (sem_path n)) \<noteq> None" and "sk_key w key = None"
  shows "let c = test_run (ipc_lock_semsv es) sem_exit (Some n) None w (meant_schedule waits @ later) in
    tp_ended (tc_proc c Host) \<and> tp_todo (tc_proc c Slave) = [Lock, Destroy] \<and>
    (\<exists>i p. sk_key (tc_world c) key = Some i \<and> sk_sem (tc_world c) i = Some (sem_of (Some (side_pid Slave)) p))"
proof -
  have "semsv_rel es key n w Map.empty None None 0" using assms by (simp add: semsv_rel_def)
  then have start: "refines (semsv_rel es key n) (test_start None w) (spec_start None)" by (rule refines_start)
  let ?c = "test_run (ipc_lock_semsv es) sem_exit (Some n) None w (meant_schedule waits @ later)"
  have ref: "refines (semsv_rel es key n) ?c (spec_at [] [Lock, Destroy] False (Some Slave))"
    unfolding test_run_def by (rule semsv_test.run_refines [OF start meant_run])
  then obtain x where x: "tp_handle (tc_proc ?c Slave) = Some x"
    by (auto simp: refines_def spec_at_def split: side.splits)
  have rel: "semsv_rel es key n (tc_world ?c) (users (tc_proc ?c) (\<lambda>s. case s of Host \<Rightarrow> False | Slave \<Rightarrow> True))
      (Some (side_pid Slave)) (Some (side_pid Host)) 4"
    using ref by (simp add: refines_def spec_at_def)
  have "users (tc_proc ?c) (\<lambda>s. case s of Host \<Rightarrow> False | Slave \<Rightarrow> True) (side_pid Slave) = Some x" using x by simp
  from semsv_rel_user [OF rel this] have "\<exists>i p. sk_key (tc_world ?c) key = Some i \<and> sk_sem (tc_world ?c) i = Some (sem_of (Some (side_pid Slave)) p)"
    by metis
  then show ?thesis using ref by (auto simp: Let_def refines_def spec_at_def)
qed

definition demo_sem_env :: sem_env where
  "demo_sem_env = \<lparr>se_files = demo_fs_env, se_calloc = True, se_strdup = True, se_ftok = (\<lambda>_ _. 5), se_newid = 6, se_granted = True\<rparr>"

theorem ipc_test_semsv_host_dies_witness:
  "let c = test_run (ipc_lock_semsv (\<lambda>_. demo_sem_env)) sem_exit (Some ''s'') None
      \<lparr>sk_fs = [[] \<mapsto> Dir, [''tmp''] \<mapsto> Dir, [''tmp'', ''s''] \<mapsto> File], sk_key = Map.empty, sk_sem = Map.empty\<rparr> (meant_schedule 2 @ [Slave]) in
    tp_ended (tc_proc c Host) \<and> tp_todo (tc_proc c Slave) = [Lock, Destroy] \<and>
    (\<exists>i p. sk_key (tc_world c) 5 = Some i \<and> sk_sem (tc_world c) i = Some (sem_of (Some (side_pid Slave)) p))"
  by (rule ipc_test_semsv_host_dies) (simp_all add: sem_env_ok_def demo_sem_env_def sem_path_def path_names_def)

end
