(* ===== verification/Interleave.thy ===== *)
theory Interleave
  imports Ipc_Lock
begin

text \<open>
  Processes that share memory and run at the same time. Every process has a program counter, and a step of a process is one statement of its code, or one
  access to shared memory where a statement makes several: an increment of a shared counter is a step that reads and a later step that writes. A
  schedule is a list of steps, each with the process that makes it and a label that says what it does when it has a choice. A step that
  cannot be made, because the process waits, is \<^const>\<open>None\<close>.
\<close>

section \<open>Calls\<close>

text \<open>
  What a call that may wait can do: return a result in a new state, wait in a state that may differ from the one in which it was made, or be undefined.
\<close>

datatype 's call_result = Returns int 's | Waits 's | Undefined_Call


section \<open>Schedules\<close>

type_synonym ('l, 's) proc_step = "pid \<Rightarrow> 'l \<Rightarrow> 's \<Rightarrow> 's option"

fun run_steps :: "('l, 's) proc_step \<Rightarrow> (pid \<times> 'l) list \<Rightarrow> 's \<Rightarrow> 's option" where
  "run_steps step [] s = Some s"
| "run_steps step ((p, l) # sched) s = do { s \<leftarrow> step p l s; run_steps step sched s }"

lemma run_steps_append: "run_steps step (xs @ ys) s = Option.bind (run_steps step xs s) (run_steps step ys)"
  by (induction xs arbitrary: s) (auto split: Option.bind_splits)

text \<open>
  A property of the states after \<open>k\<close> steps that every step with an allowed label keeps holds after every schedule of such steps.
\<close>

locale stepwise =
  fixes step :: "('l, 's) proc_step"
    and allowed :: "'l \<Rightarrow> bool"
    and inv :: "nat \<Rightarrow> 's \<Rightarrow> bool"
  assumes step_inv: "\<lbrakk>inv k s; allowed l; step p l s = Some s'\<rbrakk> \<Longrightarrow> inv (Suc k) s'"
begin

lemma run_inv:
  assumes "run_steps step sched s = Some s'" "list_all (\<lambda>(p, l). allowed l) sched" "inv k s"
  shows "inv (k + length sched) s'"
  using assms
proof (induction sched arbitrary: k s)
  case (Cons x sched)
  obtain p l where x: "x = (p, l)" by fastforce
  with Cons.prems obtain s1 where "step p l s = Some s1" "run_steps step sched s1 = Some s'" by (auto simp: bind_eq_Some_conv)
  then show ?case using Cons.IH [of s1 "Suc k"] step_inv [of k s l p s1] Cons.prems x by simp
qed simp

end

end
