(* ===== verification/Ipc_Mutex_Steps.thy ===== *)
theory Ipc_Mutex_Steps
  imports Ipc_Mutex Interleave
begin

text \<open>
  The functions of \<^verbatim>\<open>ipc_competition/ipc_mutex.c\<close> in single steps, for processes that run at the same time: creation, locking, unlocking and destruction, and processes that
  end at any moment. A step is one system call, one call of the thread library, one \<open>memset\<close> or \<open>memcpy\<close>, or one access to the user count: \<open>refcnt++\<close> is a step that reads and one that
  writes. All processes use one name. Undefined behaviour, as an access to an object that has no size yet, is a program counter of its own, so that it
  is told apart from waiting.
\<close>

section \<open>The code in steps\<close>

text \<open>The number in a program counter is the object that the process has open, the truth value is \<open>is_create\<close>, the word a count it has read.\<close>

datatype im_pc = I_Idle | C_Open bool | C_Trunc nat | C_Map bool nat | C_Zero nat | C_Attr bool nat | C_Init nat | C_Priv nat | C_Ref nat | C_Ref_Set nat "16 word"
  | I_Out nat | I_Lock nat | I_Consistent nat | I_Release nat | I_Dec nat | I_Dec_Set nat "16 word" | I_In nat
  | D_Set nat "16 word" | D_Mutex nat | D_Name nat | D_Unlink string | I_Undef

text \<open>
  What a process does next when it has a choice: go on, go on with a system call that fails, destroy its handle, or end.
\<close>

datatype im_act = Go | Go_Fail | Give_Back | Exit

text \<open>\<open>ic_sized\<close> are the objects that have their size, and \<open>ic_next\<close> is the number of the next new object.\<close>

record im_conf =
  ic_pc :: "pid \<Rightarrow> im_pc"
  ic_shm :: shms
  ic_sized :: "nat set"
  ic_next :: nat

type_synonym im_world = "shms \<times> nat set \<times> nat"

definition ipc_mutex_zero :: ipc_mutex where
  "ipc_mutex_zero = \<lparr>im_mutex = Unlocked, im_refcnt = 0, im_name = []\<rparr>"

text \<open>An access to the mapped object \<open>i\<close>.\<close>

definition on_obj :: "nat \<Rightarrow> (ipc_mutex \<Rightarrow> im_pc) \<Rightarrow> (ipc_mutex \<Rightarrow> ipc_mutex) \<Rightarrow> im_world \<Rightarrow> im_pc \<times> im_world" where
  "on_obj i pc f = (\<lambda>(w, sized, next). case sh_obj w i of
     None \<Rightarrow> (I_Undef, w, sized, next)
   | Some m \<Rightarrow> if i \<notin> sized then (I_Undef, w, sized, next) else (pc m, w\<lparr>sh_obj := (sh_obj w)(i \<mapsto> f m)\<rparr>, sized, next))"

definition create_step :: "string \<Rightarrow> bool \<Rightarrow> im_pc \<Rightarrow> im_world \<Rightarrow> im_pc \<times> im_world" where
  "create_step n ok pc = (\<lambda>(w, sized, next). case pc of
     I_Idle \<Rightarrow> (if MAX_SHM_NAME_LEN \<le> length (''/dev/shm/'' @ n) then I_Undef else C_Open (sh_name w n \<noteq> None), w, sized, next)
   | C_Open is_create \<Rightarrow>
       if \<not> ok then (I_Idle, w, sized, next)
       else (case sh_name w n of
           None \<Rightarrow> (if is_create then C_Map is_create next else C_Trunc next,
             w\<lparr>sh_name := (sh_name w)(n \<mapsto> next), sh_obj := (sh_obj w)(next \<mapsto> ipc_mutex_zero)\<rparr>, sized - {next}, Suc next)
         | Some i \<Rightarrow> (if is_create then C_Map is_create i else C_Trunc i, w, sized, next))
   | C_Trunc i \<Rightarrow> if \<not> ok then (I_Idle, w\<lparr>sh_name := (sh_name w)(n := None)\<rparr>, sized, next) else (C_Map False i, w, insert i sized, next)
   | C_Map is_create i \<Rightarrow> (if \<not> ok then I_Undef else if is_create then C_Attr is_create i else C_Zero i, w, sized, next)
   | C_Zero i \<Rightarrow> on_obj i (\<lambda>_. C_Attr False i) (\<lambda>_. ipc_mutex_zero) (w, sized, next)
   | C_Attr is_create i \<Rightarrow> on_obj i (\<lambda>_. if is_create then C_Ref i else C_Init i) (\<lambda>m. m) (w, sized, next)
   | C_Init i \<Rightarrow> on_obj i (\<lambda>_. C_Priv i) (\<lambda>m. m\<lparr>im_mutex := Unlocked\<rparr>) (w, sized, next)
   | C_Priv i \<Rightarrow> on_obj i (\<lambda>_. C_Ref i) (\<lambda>m. m\<lparr>im_name := n\<rparr>) (w, sized, next)
   | C_Ref i \<Rightarrow> on_obj i (\<lambda>m. C_Ref_Set i (im_refcnt m)) (\<lambda>m. m) (w, sized, next)
   | C_Ref_Set i r \<Rightarrow> on_obj i (\<lambda>_. I_Out i) (\<lambda>m. m\<lparr>im_refcnt := r + 1\<rparr>) (w, sized, next)
   | _ \<Rightarrow> (I_Undef, w, sized, next))"

text \<open>The call of \<open>pthread_mutex_lock\<close> is a step that is made when it is granted.\<close>

definition im_lock_call :: "nat \<Rightarrow> pid \<Rightarrow> im_world \<Rightarrow> (im_pc \<times> im_world) option" where
  "im_lock_call i p = (\<lambda>(w, sized, next). case sh_obj w i of
     None \<Rightarrow> Some (I_Undef, w, sized, next)
   | Some m \<Rightarrow>
       if i \<notin> sized \<or> im_mutex m = Destroyed then Some (I_Undef, w, sized, next)
       else do {
         (ret, x) \<leftarrow> pthread_mutex_lock p (im_mutex m);
         Some (if ret = EOWNERDEAD then I_Consistent i else if ret \<noteq> 0 then I_Out i else I_In i,
           w\<lparr>sh_obj := (sh_obj w)(i \<mapsto> m\<lparr>im_mutex := x\<rparr>)\<rparr>, sized, next) })"

definition im_lock_step :: "pid \<Rightarrow> im_pc \<Rightarrow> im_world \<Rightarrow> im_pc \<times> im_world" where
  "im_lock_step p pc w = (case pc of
     I_Out i \<Rightarrow> (I_Lock i, w)
   | I_Consistent i \<Rightarrow> on_obj i (\<lambda>_. I_Release i) (\<lambda>m. m\<lparr>im_mutex := pthread_mutex_consistent p (im_mutex m)\<rparr>) w
   | I_Release i \<Rightarrow> on_obj i (\<lambda>_. I_Dec i) (\<lambda>m. m\<lparr>im_mutex := snd (pthread_mutex_unlock p (im_mutex m))\<rparr>) w
   | I_Dec i \<Rightarrow> on_obj i (\<lambda>m. I_Dec_Set i (im_refcnt m)) (\<lambda>m. m) w
   | I_Dec_Set i r \<Rightarrow> on_obj i (\<lambda>_. I_Lock i) (\<lambda>m. m\<lparr>im_refcnt := r - 1\<rparr>) w
   | _ \<Rightarrow> (I_Undef, w))"

definition im_unlock_step :: "pid \<Rightarrow> nat \<Rightarrow> im_world \<Rightarrow> im_pc \<times> im_world" where
  "im_unlock_step p i = on_obj i (\<lambda>_. I_Out i) (\<lambda>m. m\<lparr>im_mutex := snd (pthread_mutex_unlock p (im_mutex m))\<rparr>)"

text \<open>A mutex that some process has must not be destroyed.\<close>

definition im_destroy_step :: "im_pc \<Rightarrow> im_world \<Rightarrow> im_pc \<times> im_world" where
  "im_destroy_step pc = (\<lambda>(w, sized, next). case pc of
     I_Out i \<Rightarrow> on_obj i (\<lambda>m. D_Set i (im_refcnt m)) (\<lambda>m. m) (w, sized, next)
   | D_Set i r \<Rightarrow> on_obj i (\<lambda>_. if r - 1 \<noteq> 0 then I_Idle else D_Mutex i) (\<lambda>m. m\<lparr>im_refcnt := r - 1\<rparr>) (w, sized, next)
   | D_Mutex i \<Rightarrow> on_obj i (\<lambda>m. case im_mutex m of Locked _ \<Rightarrow> I_Undef | Inconsistent _ \<Rightarrow> I_Undef | _ \<Rightarrow> D_Name i) (\<lambda>m. m\<lparr>im_mutex := Destroyed\<rparr>) (w, sized, next)
   | D_Name i \<Rightarrow> on_obj i (\<lambda>m. D_Unlink (im_name m)) (\<lambda>m. m) (w, sized, next)
   | D_Unlink nm \<Rightarrow> (I_Idle, w\<lparr>sh_name := (sh_name w)(nm := None)\<rparr>, sized, next)
   | _ \<Rightarrow> (I_Undef, w, sized, next))"

text \<open>One step of process \<open>p\<close>.\<close>

definition im_do :: "string \<Rightarrow> pid \<Rightarrow> im_act \<Rightarrow> im_pc \<Rightarrow> im_world \<Rightarrow> (im_pc \<times> im_world) option" where
  "im_do n p a pc w =
     (if pc = I_Undef then None
      else if a = Exit then (case w of (w, x) \<Rightarrow> Some (I_Idle, process_exit p w, x))
      else case pc of
          I_Lock i \<Rightarrow> im_lock_call i p w
        | I_Out _ \<Rightarrow> Some (if a = Give_Back then im_destroy_step pc w else im_lock_step p pc w)
        | I_In i \<Rightarrow> Some (im_unlock_step p i w)
        | I_Consistent _ \<Rightarrow> Some (im_lock_step p pc w) | I_Release _ \<Rightarrow> Some (im_lock_step p pc w)
        | I_Dec _ \<Rightarrow> Some (im_lock_step p pc w) | I_Dec_Set _ _ \<Rightarrow> Some (im_lock_step p pc w)
        | D_Set _ _ \<Rightarrow> Some (im_destroy_step pc w) | D_Mutex _ \<Rightarrow> Some (im_destroy_step pc w)
        | D_Name _ \<Rightarrow> Some (im_destroy_step pc w) | D_Unlink _ \<Rightarrow> Some (im_destroy_step pc w)
        | _ \<Rightarrow> Some (create_step n (a \<noteq> Go_Fail) pc w))"

definition im_step :: "string \<Rightarrow> (im_act, im_conf) proc_step" where
  "im_step n p a c = do {
     (pc, w, sized, next) \<leftarrow> im_do n p a (ic_pc c p) (ic_shm c, ic_sized c, ic_next c);
     Some \<lparr>ic_pc = (ic_pc c)(p := pc), ic_shm = w, ic_sized = sized, ic_next = next\<rparr> }"

definition im_start :: "nat \<Rightarrow> shms \<Rightarrow> im_conf" where
  "im_start k w = \<lparr>ic_pc = (\<lambda>_. I_Idle), ic_shm = w, ic_sized = {}, ic_next = k\<rparr>"

lemmas im_step_defs = im_step_def im_do_def create_step_def im_lock_call_def im_lock_step_def im_unlock_step_def im_destroy_step_def on_obj_def ipc_mutex_zero_def


section \<open>One process alone\<close>

text \<open>Run alone, the steps are the functions of the preceding theory.\<close>

definition im_new :: "string \<Rightarrow> ipc_mutex" where
  "im_new n = \<lparr>im_mutex = Unlocked, im_refcnt = 1, im_name = n\<rparr>"

lemma im_create_alone:
  assumes "sh_name w n = None" "length n < 119"
  shows "run_steps (im_step n) (replicate 10 (p, Go)) (im_start k w) =
      Some \<lparr>ic_pc = (\<lambda>_. I_Idle)(p := I_Out k), ic_shm = w\<lparr>sh_name := (sh_name w)(n \<mapsto> k), sh_obj := (sh_obj w)(k \<mapsto> im_new n)\<rparr>,
        ic_sized = {k}, ic_next = Suc k\<rparr>"
    and "ipc_mutex_create True True True k (Some n) w =
      Some (Some k, w\<lparr>sh_name := (sh_name w)(n \<mapsto> k), sh_obj := (sh_obj w)(k \<mapsto> im_new n)\<rparr>)"
  using assms by (simp_all add: numeral_eq_Suc im_step_defs im_start_def im_new_def MAX_SHM_NAME_LEN_def ipc_mutex_create_def)

lemma im_open_alone:
  assumes "sh_name (ic_shm c) n = Some i" "sh_obj (ic_shm c) i = Some m" "i \<in> ic_sized c" "ic_pc c p = I_Idle" "length n < 119"
    and "ipc_mutex_create True True True j (Some n) (ic_shm c) = Some (Some h, w)"
  shows "run_steps (im_step n) (replicate 6 (p, Go)) c = Some (c\<lparr>ic_pc := (ic_pc c)(p := I_Out h), ic_shm := w\<rparr>)"
  using assms by (auto simp: numeral_eq_Suc im_step_defs MAX_SHM_NAME_LEN_def ipc_mutex_create_def)

lemma im_lock_alone:
  assumes "sh_obj (ic_shm c) i = Some m" "i \<in> ic_sized c" "ic_pc c p = I_Out i" "ipc_mutex_lock (Some i) p (ic_shm c) = Some (0, w)"
    and "im_mutex m = Unlocked \<or> im_mutex m = Owner_Dead"
  shows "run_steps (im_step n) (replicate (if im_mutex m = Unlocked then 2 else 7) (p, Go)) c = Some (c\<lparr>ic_pc := (ic_pc c)(p := I_In i), ic_shm := w\<rparr>)"
  using assms by (cases m; cases c; auto simp: numeral_eq_Suc im_step_defs ipc_mutex_lock_def mutex_lock_loop_cases pthread_mutex_lock_def mutex_errors
      pthread_mutex_consistent_def pthread_mutex_unlock_def)

lemma im_unlock_alone:
  assumes "sh_obj (ic_shm c) i = Some m" "i \<in> ic_sized c" "ic_pc c p = I_In i" "ipc_mutex_unlock (Some i) p (ic_shm c) = Some (r, w)"
  shows "im_step n p Go c = Some (c\<lparr>ic_pc := (ic_pc c)(p := I_Out i), ic_shm := w\<rparr>)"
  using assms by (cases c; auto simp: im_step_defs ipc_mutex_unlock_def split: prod.splits)

lemma im_destroy_alone:
  assumes "sh_obj (ic_shm c) i = Some m" "im_mutex m = Unlocked" "i \<in> ic_sized c" "ic_pc c p = I_Out i"
    and "ipc_mutex_destroy (Some i) (ic_shm c) = Some (r, w)"
  shows "run_steps (im_step n) ((p, Give_Back) # replicate (if im_refcnt m = 1 then 4 else 1) (p, Go)) c =
    Some (c\<lparr>ic_pc := (ic_pc c)(p := I_Idle), ic_shm := w\<rparr>)"
  using assms by (cases c; cases "ic_shm c"; auto simp: numeral_eq_Suc im_step_defs ipc_mutex_destroy_def Let_def fun_upd_idem split: if_splits)


section \<open>The invariant\<close>

text \<open>
  A process has the mutex from the moment its lock call is granted until it unlocks, be it to leave or, after it has made the mutex consistent, to
  lock it again.
\<close>

definition im_owns :: "nat \<Rightarrow> im_pc \<Rightarrow> bool" where
  "im_owns i pc \<longleftrightarrow> pc = I_In i \<or> pc = I_Release i"

text \<open>The program counters of processes that work with the object \<open>i\<close> and set nothing up.\<close>

definition im_calm :: "nat \<Rightarrow> im_pc \<Rightarrow> bool" where
  "im_calm i pc \<longleftrightarrow> (case pc of I_Idle \<Rightarrow> True | C_Open b \<Rightarrow> b | C_Map b j \<Rightarrow> b \<and> j = i | C_Attr b j \<Rightarrow> b \<and> j = i | C_Ref j \<Rightarrow> j = i | C_Ref_Set j _ \<Rightarrow> j = i
     | I_Out j \<Rightarrow> j = i | I_Lock j \<Rightarrow> j = i | I_Consistent j \<Rightarrow> j = i | I_Release j \<Rightarrow> j = i | I_Dec j \<Rightarrow> j = i | I_Dec_Set j _ \<Rightarrow> j = i | I_In j \<Rightarrow> j = i
     | _ \<Rightarrow> False)"

definition im_agrees :: "nat \<Rightarrow> robust_mutex \<Rightarrow> (pid \<Rightarrow> im_pc) \<Rightarrow> bool" where
  "im_agrees i x pcs \<longleftrightarrow> x \<noteq> Not_Recoverable \<and> x \<noteq> Destroyed \<and>
     (\<forall>p. x = Locked p \<longleftrightarrow> im_owns i (pcs p)) \<and> (\<forall>p. x = Inconsistent p \<longleftrightarrow> pcs p = I_Consistent i)"

definition im_good :: "string \<Rightarrow> nat \<Rightarrow> im_conf \<Rightarrow> bool" where
  "im_good n i c \<longleftrightarrow> length n < 119 \<and> sh_name (ic_shm c) n = Some i \<and> i \<in> ic_sized c \<and> (\<forall>p. im_calm i (ic_pc c p)) \<and>
     (\<exists>m. sh_obj (ic_shm c) i = Some m \<and> im_agrees i (im_mutex m) (ic_pc c))"

lemma im_agrees_move:
  "im_agrees i x pcs \<Longrightarrow> im_owns i pc = im_owns i (pcs p) \<Longrightarrow> (pc = I_Consistent i) = (pcs p = I_Consistent i) \<Longrightarrow> im_agrees i x (pcs(p := pc))"
  by (auto simp: im_agrees_def)

lemma im_agrees_exit: "im_agrees i x pcs \<Longrightarrow> im_agrees i (mutex_exit p x) (pcs(p := I_Idle))"
  by (cases x; simp add: im_agrees_def mutex_exit_def im_owns_def; metis)

lemma im_goodI:
  assumes "im_good n i c" "sh_name w n = Some i" "i \<in> sized" "sh_obj w i = Some m" "im_agrees i (im_mutex m) ((ic_pc c)(p := pc))" "im_calm i pc"
  shows "im_good n i \<lparr>ic_pc = (ic_pc c)(p := pc), ic_shm = w, ic_sized = sized, ic_next = k\<rparr>"
  using assms by (simp add: im_good_def)

text \<open>The steps that leave the mutex alone.\<close>

lemma im_quiet_step:
  assumes "sh_obj w i = Some m" "sh_name w n = Some i" "i \<in> sized" "length n < 119" "im_calm i pc" "a = Go"
    and "pc \<notin> {I_Lock i, I_Consistent i, I_Release i, I_In i}" "im_do n p a pc (w, sized, k) = Some (pc', w', sized', k')"
  shows "\<exists>m'. sh_obj w' i = Some m' \<and> im_mutex m' = im_mutex m \<and> sh_name w' n = Some i \<and> i \<in> sized' \<and> im_calm i pc' \<and>
    im_owns i pc' = im_owns i pc \<and> (pc' = I_Consistent i) = (pc = I_Consistent i)"
  using assms
  by (cases pc) (auto simp: im_do_def create_step_def im_lock_step_def on_obj_def im_calm_def im_owns_def MAX_SHM_NAME_LEN_def split: if_splits)

lemma im_good_step:
  assumes "im_good n i c" "a = Go \<or> a = Exit" "im_step n p a c = Some c'"
  shows "im_good n i c'"
proof -
  obtain m where g: "sh_obj (ic_shm c) i = Some m" "sh_name (ic_shm c) n = Some i" "i \<in> ic_sized c" "length n < 119"
    and agree: "im_agrees i (im_mutex m) (ic_pc c)" and calm: "im_calm i (ic_pc c p)"
    using assms(1) unfolding im_good_def by blast
  obtain pc w sized k where d: "im_do n p a (ic_pc c p) (ic_shm c, ic_sized c, ic_next c) = Some (pc, w, sized, k)"
    and c': "c' = \<lparr>ic_pc = (ic_pc c)(p := pc), ic_shm = w, ic_sized = sized, ic_next = k\<rparr>"
    using assms(3) by (auto simp: im_step_def bind_eq_Some_conv)
  have new_mutex: ?thesis if "w = (ic_shm c)\<lparr>sh_obj := (sh_obj (ic_shm c))(i \<mapsto> m\<lparr>im_mutex := x\<rparr>)\<rparr>" "sized = ic_sized c"
      "im_agrees i x ((ic_pc c)(p := pc))" "im_calm i pc" for x
    unfolding c' using that g by (intro im_goodI [OF assms(1), where m = "m\<lparr>im_mutex := x\<rparr>"]) simp_all
  consider (exit) "a = Exit" | (lock) "a = Go" "ic_pc c p = I_Lock i" | (consistent) "a = Go" "ic_pc c p = I_Consistent i"
    | (unlock) "a = Go" "ic_pc c p = I_Release i \<or> ic_pc c p = I_In i"
    | (quiet) "a = Go" "ic_pc c p \<notin> {I_Lock i, I_Consistent i, I_Release i, I_In i}" using assms(2) by blast
  then show ?thesis
  proof cases
    case exit
    then have "pc = I_Idle" "w = process_exit p (ic_shm c)" "sized = ic_sized c" using d calm by (cases "ic_pc c p = I_Undef"; simp add: im_do_def im_calm_def)+
    then show ?thesis unfolding c' using g im_agrees_exit [OF agree]
      by (intro im_goodI [OF assms(1), where m = "m\<lparr>im_mutex := mutex_exit p (im_mutex m)\<rparr>"]) (simp_all add: process_exit_def im_calm_def)
  next
    case lock
    then have "(im_mutex m = Unlocked \<and> pc = I_In i \<and> w = (ic_shm c)\<lparr>sh_obj := (sh_obj (ic_shm c))(i \<mapsto> m\<lparr>im_mutex := Locked p\<rparr>)\<rparr>) \<or>
        (im_mutex m = Owner_Dead \<and> pc = I_Consistent i \<and> w = (ic_shm c)\<lparr>sh_obj := (sh_obj (ic_shm c))(i \<mapsto> m\<lparr>im_mutex := Inconsistent p\<rparr>)\<rparr>)"
      "sized = ic_sized c"
      using d g agree by (cases "im_mutex m"; auto simp: im_do_def im_lock_call_def pthread_mutex_lock_def im_agrees_def mutex_errors)+
    then show ?thesis using new_mutex agree lock by (elim disjE conjE) (auto simp: im_agrees_def im_owns_def im_calm_def)
  next
    case consistent
    then have x: "im_mutex m = Inconsistent p" using agree by (simp add: im_agrees_def)
    then have "pc = I_Release i" "sized = ic_sized c" "w = (ic_shm c)\<lparr>sh_obj := (sh_obj (ic_shm c))(i \<mapsto> m\<lparr>im_mutex := Locked p\<rparr>)\<rparr>"
      using d consistent g by (simp_all add: im_do_def im_lock_step_def on_obj_def pthread_mutex_consistent_def)
    moreover have "im_agrees i (Locked p) ((ic_pc c)(p := I_Release i))" using agree x by (auto simp: im_agrees_def im_owns_def)
    ultimately show ?thesis using new_mutex [of "Locked p"] by (simp add: im_calm_def)
  next
    case unlock
    then have x: "im_mutex m = Locked p" using agree by (auto simp: im_agrees_def im_owns_def)
    then have w: "pc = I_Dec i \<or> pc = I_Out i" "sized = ic_sized c" "w = (ic_shm c)\<lparr>sh_obj := (sh_obj (ic_shm c))(i \<mapsto> m\<lparr>im_mutex := Unlocked\<rparr>)\<rparr>"
      using d unlock g by (auto simp: im_do_def im_lock_step_def im_unlock_step_def on_obj_def pthread_mutex_unlock_def)
    have "im_agrees i Unlocked ((ic_pc c)(p := pc))" using agree x w(1) by (auto simp: im_agrees_def im_owns_def)
    then show ?thesis using new_mutex [of Unlocked] w by (auto simp: im_calm_def)
  next
    case quiet
    obtain m' where "sh_obj w i = Some m'" "im_mutex m' = im_mutex m" "sh_name w n = Some i" "i \<in> sized" "im_calm i pc"
      "im_owns i pc = im_owns i (ic_pc c p)" "(pc = I_Consistent i) = (ic_pc c p = I_Consistent i)"
      using im_quiet_step [OF g calm quiet d] by blast
    moreover from this have "im_agrees i (im_mutex m') ((ic_pc c)(p := pc))" using im_agrees_move [OF agree, of pc p] by simp
    ultimately show ?thesis unfolding c' by (intro im_goodI [OF assms(1), where m = m'])
  qed
qed

definition im_kept :: "im_act \<Rightarrow> bool" where
  "im_kept a \<longleftrightarrow> a = Go \<or> a = Exit"

interpretation im_steps: stepwise "im_step n" im_kept "\<lambda>_. im_good n i" for n i
  by unfold_locales (auto intro: im_good_step simp: im_kept_def)

lemma im_waits_iff:
  assumes "im_good n i c"
  shows "im_step n p a c = None \<longleftrightarrow> a \<noteq> Exit \<and> ic_pc c p = I_Lock i \<and> (\<exists>q. im_owns i (ic_pc c q) \<or> ic_pc c q = I_Consistent i)"
proof -
  obtain m where g: "sh_obj (ic_shm c) i = Some m" "i \<in> ic_sized c"
    and agree: "im_agrees i (im_mutex m) (ic_pc c)" and calm: "im_calm i (ic_pc c p)"
    using assms unfolding im_good_def by blast
  have "im_lock_call i p (ic_shm c, ic_sized c, ic_next c) = None \<longleftrightarrow> (\<exists>q. im_mutex m = Locked q \<or> im_mutex m = Inconsistent q)"
    using g agree by (cases "im_mutex m") (auto simp: im_lock_call_def pthread_mutex_lock_def im_agrees_def)
  then have "im_lock_call i p (ic_shm c, ic_sized c, ic_next c) = None \<longleftrightarrow> (\<exists>q. im_owns i (ic_pc c q) \<or> ic_pc c q = I_Consistent i)"
    using agree by (simp add: im_agrees_def)
  then show ?thesis using calm
    by (cases "ic_pc c p") (auto simp: im_step_def im_do_def im_calm_def bind_eq_None_conv split: prod.splits)
qed

lemma im_one_owner:
  assumes "im_good n i c" "im_owns i (ic_pc c p)" "im_owns i (ic_pc c q)"
  shows "p = q"
  using assms unfolding im_good_def im_agrees_def by (metis robust_mutex.inject(1))


section \<open>Properties\<close>

lemma im_new_good:
  assumes "length n < 119"
  shows "im_good n k \<lparr>ic_pc = (\<lambda>_. I_Idle)(p := I_Out k), ic_shm = w\<lparr>sh_name := (sh_name w)(n \<mapsto> k), sh_obj := (sh_obj w)(k \<mapsto> im_new n)\<rparr>,
    ic_sized = {k}, ic_next = Suc k\<rparr>"
  using assms by (simp add: im_good_def im_new_def im_agrees_def im_calm_def im_owns_def)

lemma im_calm_defined: "im_calm i pc \<Longrightarrow> pc \<noteq> I_Undef"
  by (auto simp: im_calm_def)

text \<open>
  C16: The shared mutex from scratch. One process creates the lock under a name that is not in use, and does so before any other process starts. From then on, any
  number of processes create, lock and unlock it and end as they please, at any statement, in every interleaving of their single steps and of their reads and writes of the user count; no
  system call fails, and nobody destroys it. Then the name leads to the object the first process made and every program counter is one of work on that object, so nobody sets the mutex up again or runs into undefined
  behaviour; at most one process has the mutex; and a process waits exactly when it is in its lock call and another one has the mutex or is about to make it consistent
  after its owner ended.
\<close>

theorem ipc_mutex_from_scratch:
  assumes "sh_name w n = None" and "length n < 119"
    and "run_steps (im_step n) (replicate 10 (first, Go) @ sched) (im_start k w) = Some c" and "list_all (\<lambda>(p, a). im_kept a) sched"
  shows "sh_name (ic_shm c) n = Some k \<and> (\<forall>p. im_calm k (ic_pc c p) \<and> ic_pc c p \<noteq> I_Undef) \<and>
    (\<forall>p q. im_owns k (ic_pc c p) \<and> im_owns k (ic_pc c q) \<longrightarrow> p = q) \<and>
    (\<forall>p a. im_step n p a c = None \<longleftrightarrow>
      a \<noteq> Exit \<and> ic_pc c p = I_Lock k \<and> (\<exists>q. im_owns k (ic_pc c q) \<or> ic_pc c q = I_Consistent k))"
proof -
  obtain c1 where c1: "im_good n k c1" "run_steps (im_step n) sched c1 = Some c"
    using that [OF im_new_good [OF assms(2)]] assms(3) by (simp add: run_steps_append im_create_alone(1) [of w n] assms(1,2))
  have good: "im_good n k c" using im_steps.run_inv [OF c1(2) assms(4) c1(1)] .
  then have "sh_name (ic_shm c) n = Some k" "im_calm k (ic_pc c p)" "ic_pc c p \<noteq> I_Undef" for p
    using im_calm_defined by (auto simp: im_good_def)
  then show ?thesis using im_one_owner [OF good] im_waits_iff [OF good] by simp
qed

text \<open>Process 2 opens the lock of process 1, locks it and ends inside; process 1 gets it with the news that its owner died, makes it consistent and has it to itself.\<close>

definition demo_im_sched :: "(pid \<times> im_act) list" where
  "demo_im_sched = replicate 8 (2, Go) @ [(1, Go), (2, Exit), (1, Go), (1, Go), (3, Go)]"

definition demo_shms :: shms where
  "demo_shms = \<lparr>sh_name = Map.empty, sh_obj = Map.empty\<rparr>"

theorem ipc_mutex_from_scratch_witness:
  "\<exists>c. run_steps (im_step ''m'') (replicate 10 (1, Go) @ demo_im_sched) (im_start 7 demo_shms) = Some c \<and>
    ic_pc c 1 = I_Release 7 \<and> \<not> im_owns 7 (ic_pc c 3) \<and> sh_name (ic_shm c) ''m'' = Some 7"
proof -
  have new: "sh_name demo_shms ''m'' = None" by (simp add: demo_shms_def)
  have reps: "replicate 8 x = [x, x, x, x, x, x, x, x]" for x :: "pid \<times> im_act" by (simp add: numeral_eq_Suc)
  have kept: "list_all (\<lambda>(p, a). im_kept a) demo_im_sched" by (simp add: demo_im_sched_def reps im_kept_def)
  obtain c where c: "run_steps (im_step ''m'') (replicate 10 (1, Go) @ demo_im_sched) (im_start 7 demo_shms) = Some c" "ic_pc c 1 = I_Release 7"
    using new
    by (simp add: run_steps_append im_create_alone(1) demo_im_sched_def reps im_step_defs im_new_def MAX_SHM_NAME_LEN_def pthread_mutex_lock_def
        mutex_errors pthread_mutex_consistent_def process_exit_def mutex_exit_def)
  have "sh_name (ic_shm c) ''m'' = Some 7 \<and> (im_owns 7 (ic_pc c 1) \<and> im_owns 7 (ic_pc c 3) \<longrightarrow> (1 :: pid) = 3)"
    using ipc_mutex_from_scratch [OF new _ c(1) kept] by (simp, metis numeral_eq_one_iff numeral_eq_iff num.distinct(3) One_nat_def)
  then show ?thesis using c by (intro exI [of _ c]) (simp add: im_owns_def)
qed

text \<open>Three schedules in which creations and destructions overlap.\<close>

definition both_create :: "pid \<Rightarrow> pid \<Rightarrow> (pid \<times> im_act) list" where
  "both_create p q = [(p, Go), (q, Go)] @ replicate 11 (p, Go) @ replicate 11 (q, Go)"

definition open_early :: "pid \<Rightarrow> pid \<Rightarrow> (pid \<times> im_act) list" where
  "open_early p q = replicate 2 (p, Go) @ replicate 4 (q, Go)"

definition count_lost :: "pid \<Rightarrow> pid \<Rightarrow> pid \<Rightarrow> (pid \<times> im_act) list" where
  "count_lost p q r = replicate 10 (p, Go) @ replicate 5 (q, Go) @ replicate 5 (r, Go) @ [(q, Go), (r, Go), (q, Give_Back), (q, Go), (r, Give_Back)] @
     replicate 4 (r, Go) @ replicate 2 (p, Go)"

lemma replicate_go:
  "replicate 2 x = [x, x]" "replicate 4 x = [x, x, x, x]" "replicate 5 x = [x, x, x, x, x]" "replicate 10 x = [x, x, x, x, x, x, x, x, x, x]"
  "replicate 11 x = [x, x, x, x, x, x, x, x, x, x, x]"
  by (simp_all add: numeral_eq_Suc)

lemma both_create_run:
  assumes "sh_name w n = None" "length n < 119" "p \<noteq> q"
  shows "\<exists>c m. run_steps (im_step n) (both_create p q) (im_start k w) = Some c \<and> ic_pc c p = I_In k \<and> ic_pc c q = I_In k \<and>
    sh_obj (ic_shm c) k = Some m \<and> im_mutex m = Locked q \<and> im_refcnt m = 1"
  using assms by (simp add: both_create_def replicate_go im_step_defs im_start_def MAX_SHM_NAME_LEN_def pthread_mutex_lock_def mutex_errors)

lemma open_early_run:
  assumes "sh_name w n = None" "length n < 119" "p \<noteq> q"
  shows "\<exists>c. run_steps (im_step n) (open_early p q) (im_start k w) = Some c \<and> ic_pc c q = I_Undef"
  using assms by (simp add: open_early_def replicate_go im_step_defs im_start_def MAX_SHM_NAME_LEN_def)

lemma count_lost_run:
  assumes "sh_name w n = None" "length n < 119" "p \<noteq> q" "p \<noteq> r" "q \<noteq> r"
  shows "\<exists>c m. run_steps (im_step n) (count_lost p q r) (im_start k w) = Some c \<and> ic_pc c p = I_Undef \<and>
    sh_name (ic_shm c) n = None \<and> sh_obj (ic_shm c) k = Some m \<and> im_mutex m = Destroyed"
  using assms by (simp add: count_lost_def replicate_go im_step_defs im_start_def MAX_SHM_NAME_LEN_def)

text \<open>
  C20: What goes wrong when creations and destructions overlap, for any three processes and any unused name. (1) Two processes that both ask whether the name exists before one of
  them creates it both set the object up, the second after the first has locked it: both are inside, and the count is 1. (2) A process that opens the object after another one has created it
  but before it has given it a size accesses memory that is not there. (3) Two processes that read the count at the same time are counted once: when both have given their handles back,
  the mutex is destroyed and its name is gone, and the lock call of the process that made it is undefined.
\<close>

theorem ipc_mutex_creators_race:
  assumes "sh_name w n = None" and "length n < 119" and "p \<noteq> q" and "p \<noteq> r" and "q \<noteq> r"
  shows "(\<exists>c m. run_steps (im_step n) (both_create p q) (im_start k w) = Some c \<and> ic_pc c p = I_In k \<and> ic_pc c q = I_In k \<and>
      sh_obj (ic_shm c) k = Some m \<and> im_mutex m = Locked q \<and> im_refcnt m = 1) \<and>
    (\<exists>c. run_steps (im_step n) (open_early p q) (im_start k w) = Some c \<and> ic_pc c q = I_Undef) \<and>
    (\<exists>c m. run_steps (im_step n) (count_lost p q r) (im_start k w) = Some c \<and> ic_pc c p = I_Undef \<and>
      sh_name (ic_shm c) n = None \<and> sh_obj (ic_shm c) k = Some m \<and> im_mutex m = Destroyed)"
  using both_create_run [OF assms(1-3)] open_early_run [OF assms(1-3)] count_lost_run [OF assms] by blast

theorem ipc_mutex_creators_race_witness:
  "\<exists>c. run_steps (im_step ''m'') (both_create 1 2) (im_start 7 demo_shms) = Some c \<and> ic_pc c 1 = I_In 7 \<and> ic_pc c 2 = I_In 7"
  using ipc_mutex_creators_race [of demo_shms "''m''" 1 2 3 7] by (simp add: demo_shms_def) blast

end
