(* ===== verification/Mmap_File.thy ===== *)
theory Mmap_File
  imports C_Prelude
begin

text \<open>
  \<^verbatim>\<open>linux/utils/src/mmap_file.c\<close>: files mapped into the memory of several processes. A file has a length
  and contents, which are what a struct of type \<open>'a\<close> laid over its start reads, bytes behind the end
  being zero. A mapping is shared, so it is named by the path of its file. What the system decides (the
  canonical path, whether the calls succeed) is the argument \<open>mmap_env\<close>. A failed \<open>mmap\<close> does not return
  NULL but \<open>MAP_FAILED\<close>, which the functions take for success.
\<close>

record 'a mfile =
  mf_len :: nat
  mf_data :: 'a

type_synonym 'a mfiles = "string \<Rightarrow> 'a mfile option"

datatype mapping = Map_Failed | Mapped string

record mmap_env =
  me_realpath :: "string \<Rightarrow> string option"
  me_open :: bool
  me_ftruncate :: bool
  me_mmap :: bool

definition PATH_MAX :: nat where
  "PATH_MAX = 4096"

text \<open>The first argument is what an empty file reads; \<open>None\<close> for the mapping is NULL.\<close>

definition mmapfile :: "'a \<Rightarrow> mmap_env \<Rightarrow> string option \<Rightarrow> nat \<Rightarrow> 'a mfiles \<Rightarrow> mapping option \<times> 'a mfiles" where
  "mmapfile zero e fn sz w = (case fn of
     None \<Rightarrow> (None, w)
   | Some n \<Rightarrow>
       if PATH_MAX < length n then (None, w)
       else
         (let path = (case me_realpath e n of None \<Rightarrow> n | Some r \<Rightarrow> r) in
          if sz = 0 then (None, w)
          else if \<not> me_open e then (None, w)
          else
            (let f = (case w path of None \<Rightarrow> \<lparr>mf_len = 0, mf_data = zero\<rparr> | Some f \<Rightarrow> f);
                 f = (if mf_len f < sz \<and> me_ftruncate e then f\<lparr>mf_len := sz\<rparr> else f);
                 w = w(path \<mapsto> f)
             in (Some (if me_mmap e then Mapped path else Map_Failed), w))))"

text \<open>The function has no return statement: \<^const>\<open>None\<close> is a value that must not be used.\<close>

definition unmapfile :: "string \<Rightarrow> nat \<Rightarrow> int option" where
  "unmapfile addr sz = None"

definition mmapfile_r :: "mmap_env \<Rightarrow> string option \<Rightarrow> nat \<Rightarrow> 'a mfiles \<Rightarrow> mapping option" where
  "mmapfile_r e fn sz w = (case fn of
     None \<Rightarrow> None
   | Some n \<Rightarrow>
       if sz = 0 then None
       else if PATH_MAX < length n then None
       else (case me_realpath e n of
           None \<Rightarrow> None
         | Some path \<Rightarrow>
             if \<not> me_open e \<or> w path = None then None
             else Some (if me_mmap e then Mapped path else Map_Failed)))"

text \<open>
  Access to a mapped struct of the given size: behind the end of the file it is a bus error, and
  through \<open>MAP_FAILED\<close> a wild access; both are \<^const>\<open>None\<close>.
\<close>

definition map_get :: "nat \<Rightarrow> mapping \<Rightarrow> 'a mfiles \<Rightarrow> 'a option" where
  "map_get sz m w = (case m of
     Map_Failed \<Rightarrow> None
   | Mapped path \<Rightarrow> do { f \<leftarrow> w path; if sz \<le> mf_len f then Some (mf_data f) else None })"

definition map_put :: "mapping \<Rightarrow> 'a \<Rightarrow> 'a mfiles \<Rightarrow> 'a mfiles" where
  "map_put m x w = (case m of Map_Failed \<Rightarrow> w | Mapped path \<Rightarrow> w(path := map_option (\<lambda>f. f\<lparr>mf_data := x\<rparr>) (w path)))"


section \<open>Properties\<close>

definition env_ok :: "mmap_env \<Rightarrow> bool" where
  "env_ok e \<longleftrightarrow> me_open e \<and> me_ftruncate e \<and> me_mmap e"

definition env_path :: "mmap_env \<Rightarrow> string \<Rightarrow> string" where
  "env_path e n = (case me_realpath e n of None \<Rightarrow> n | Some r \<Rightarrow> r)"

lemma map_get_put [simp]: "map_get sz m w = Some x \<Longrightarrow> map_get sz m (map_put m y w) = Some y"
  by (auto simp: map_get_def map_put_def bind_eq_Some_conv split: mapping.splits if_splits)

lemma map_get_put_other [simp]: "m \<noteq> m' \<Longrightarrow> map_get sz m (map_put m' y w) = map_get sz m w"
  by (auto simp: map_get_def map_put_def split: mapping.splits)

lemma map_put_put [simp]: "map_put m y (map_put m x w) = map_put m y w"
  by (auto simp: map_put_def option.map_comp comp_def split: mapping.splits)

text \<open>
  A successful \<open>mmapfile\<close>: the file is there, long enough, with its old contents, and every other file
  is unchanged.
\<close>

lemma mmapfile_maps:
  assumes "env_ok e" "length n \<le> PATH_MAX" "0 < sz"
  shows "\<exists>w'. mmapfile zero e (Some n) sz w = (Some (Mapped (env_path e n)), w') \<and>
    map_get sz (Mapped (env_path e n)) w' = Some (case w (env_path e n) of None \<Rightarrow> zero | Some f \<Rightarrow> mf_data f) \<and>
    (\<forall>p. p \<noteq> env_path e n \<longrightarrow> w' p = w p)"
  using assms by (auto simp: mmapfile_def env_ok_def env_path_def map_get_def Let_def split: option.splits)

end
