(* ===== verification/Shm_Mutex.thy ===== *)
theory Shm_Mutex
  imports Robust_Mutex Mmap_File
begin

text \<open>
  \<^verbatim>\<open>linux/utils/src/shm_mutex.c\<close> (in the configuration of the file, \<open>USE_SHMAT\<close> being 0, on Linux): a
  robust mutex in a mapped file below \<^verbatim>\<open>/tmp\<close>, with a magic number that tells whether it has been
  initialised, a count of its users and a count of its locks. A handle is the mapping. Waiting and
  undefined behaviour are \<^const>\<open>None\<close>; each call is one step. \<open>Shm_Mutex_Steps\<close> takes the calls apart.
\<close>

section \<open>The code\<close>

definition SHM_MUTEX_MAGIC :: int where
  "SHM_MUTEX_MAGIC = 0x5aa53cc3"

record shm_mutex =
  sm_magic :: int
  sm_name :: string
  sm_ref_count :: int
  sm_lock_count :: int
  sm_mutex :: robust_mutex

text \<open>All bytes zero is also how an unlocked mutex looks on Linux.\<close>

definition shm_zero :: shm_mutex where
  "shm_zero = \<lparr>sm_magic = 0, sm_name = [], sm_ref_count = 0, sm_lock_count = 0, sm_mutex = Unlocked\<rparr>"

definition sizeof_shm_mutex :: nat where
  "sizeof_shm_mutex = 128"

definition shm_path :: "string \<Rightarrow> string" where
  "shm_path k = ''/tmp/'' @ k"

definition shm_mutex_alloc :: "mmap_env \<Rightarrow> string option \<Rightarrow> shm_mutex mfiles \<Rightarrow> (mapping option \<times> shm_mutex mfiles) option" where
  "shm_mutex_alloc e key w = (case key of
     None \<Rightarrow> Some (None, w)
   | Some k \<Rightarrow>
       (let file_path = take 63 (shm_path k);
            (ptr, w) = mmapfile shm_zero e (Some file_path) sizeof_shm_mutex w
        in case ptr of
            None \<Rightarrow> Some (None, w)
          | Some m \<Rightarrow> do {
              s \<leftarrow> map_get sizeof_shm_mutex m w;
              let s = (if SHM_MUTEX_MAGIC \<noteq> sm_magic s
                then shm_zero\<lparr>sm_magic := SHM_MUTEX_MAGIC, sm_name := take 63 k, sm_mutex := Unlocked\<rparr> else s);
              r \<leftarrow> cint (sm_ref_count s + 1);
              Some (Some m, map_put m (s\<lparr>sm_ref_count := r\<rparr>) w) }))"

definition shm_mutex_destroy :: "mapping option \<Rightarrow> shm_mutex mfiles \<Rightarrow> (int \<times> shm_mutex mfiles) option" where
  "shm_mutex_destroy handle w = (case handle of
     None \<Rightarrow> Some (- 1, w)
   | Some m \<Rightarrow> do {
       s \<leftarrow> map_get sizeof_shm_mutex m w;
       r \<leftarrow> cint (sm_ref_count s - 1);
       Some (0, map_put m (s\<lparr>sm_ref_count := r\<rparr>) w) })"

definition shm_mutex_lock :: "mapping \<Rightarrow> pid \<Rightarrow> shm_mutex mfiles \<Rightarrow> (int \<times> shm_mutex mfiles) option" where
  "shm_mutex_lock m p w = do {
     s \<leftarrow> map_get sizeof_shm_mutex m w;
     (ret, x) \<leftarrow> pthread_mutex_lock p (sm_mutex s);
     (if ret = 0 then do {
        n \<leftarrow> cint (sm_lock_count s + 1);
        Some (0, map_put m (s\<lparr>sm_mutex := x, sm_lock_count := n\<rparr>) w) }
      else do {
        let (ret, x) = (if ret = EOWNERDEAD then (consistent_result p x, pthread_mutex_consistent p x) else (ret, x));
        if ret = 0 then do {
          r \<leftarrow> cint (sm_ref_count s - 1);
          Some (0, map_put m (s\<lparr>sm_mutex := x, sm_ref_count := r\<rparr>) w) }
        else Some (- 1, map_put m (s\<lparr>sm_mutex := x\<rparr>) w) }) }"

definition shm_mutex_unlock :: "mapping \<Rightarrow> pid \<Rightarrow> shm_mutex mfiles \<Rightarrow> (int \<times> shm_mutex mfiles) option" where
  "shm_mutex_unlock m p w = do {
     s \<leftarrow> map_get sizeof_shm_mutex m w;
     n \<leftarrow> cint (sm_lock_count s - 1);
     Some (0, map_put m (s\<lparr>sm_lock_count := n, sm_mutex := snd (pthread_mutex_unlock p (sm_mutex s))\<rparr>) w) }"

text \<open>A process ends: the kernel marks the mutexes it has.\<close>

definition shm_exit :: "pid \<Rightarrow> shm_mutex mfiles \<Rightarrow> shm_mutex mfiles" where
  "shm_exit p w = (\<lambda>n. map_option (\<lambda>f. f\<lparr>mf_data := (mf_data f)\<lparr>sm_mutex := mutex_exit p (sm_mutex (mf_data f))\<rparr>\<rparr>) (w n))"


section \<open>The lock contract\<close>

text \<open>
  The states of an initialised lock: the lock count is 1 when a process has the mutex, also a dead
  one, and 0 otherwise, and taking over from a dead owner does not overflow the user count.
\<close>

definition shm_ok :: "mapping \<Rightarrow> shm_mutex mfiles \<Rightarrow> bool" where
  "shm_ok m w \<longleftrightarrow> (case map_get sizeof_shm_mutex m w of
     None \<Rightarrow> False
   | Some s \<Rightarrow> (case sm_mutex s of
       Unlocked \<Rightarrow> sm_lock_count s = 0
     | Locked _ \<Rightarrow> sm_lock_count s = 1
     | Owner_Dead \<Rightarrow> sm_lock_count s = 1 \<and> int_ok (sm_ref_count s - 1)
     | _ \<Rightarrow> False))"

definition shm_holder :: "mapping \<Rightarrow> shm_mutex mfiles \<Rightarrow> pid option" where
  "shm_holder m w = (case map_get sizeof_shm_mutex m w of
     None \<Rightarrow> None
   | Some s \<Rightarrow> (case sm_mutex s of Locked p \<Rightarrow> Some p | _ \<Rightarrow> None))"

lemmas shm_lock_defs = shm_mutex_lock_def pthread_mutex_lock_def mutex_errors consistent_result_def pthread_mutex_consistent_def

lemma shm_mutex_lock_cases:
  assumes "map_get sizeof_shm_mutex m w = Some s"
  shows "sm_mutex s = Unlocked \<Longrightarrow> sm_lock_count s = 0 \<Longrightarrow>
      shm_mutex_lock m p w = Some (0, map_put m (s\<lparr>sm_mutex := Locked p, sm_lock_count := 1\<rparr>) w)"
    and "sm_mutex s = Locked q \<Longrightarrow> shm_mutex_lock m p w = None"
    and "sm_mutex s = Owner_Dead \<Longrightarrow> int_ok (sm_ref_count s - 1) \<Longrightarrow>
      shm_mutex_lock m p w = Some (0, map_put m (s\<lparr>sm_mutex := Locked p, sm_ref_count := sm_ref_count s - 1\<rparr>) w)"
  using assms by (simp_all add: shm_lock_defs cint_def int_ok_def int_limits)

lemma shm_mutex_unlock_holder:
  assumes "map_get sizeof_shm_mutex m w = Some s" "sm_mutex s = Locked p" "sm_lock_count s = 1"
  shows "shm_mutex_unlock m p w = Some (0, map_put m (s\<lparr>sm_lock_count := 0, sm_mutex := Unlocked\<rparr>) w)"
  using assms by (simp add: shm_mutex_unlock_def pthread_mutex_unlock_def cint_def int_ok_def int_limits)

lemma shm_okE:
  assumes "shm_ok m w"
  obtains (free) s where "map_get sizeof_shm_mutex m w = Some s" "sm_mutex s = Unlocked" "sm_lock_count s = 0" "shm_holder m w = None"
  | (held) s q where "map_get sizeof_shm_mutex m w = Some s" "sm_mutex s = Locked q" "sm_lock_count s = 1" "shm_holder m w = Some q"
  | (dead) s where "map_get sizeof_shm_mutex m w = Some s" "sm_mutex s = Owner_Dead" "sm_lock_count s = 1"
      "int_ok (sm_ref_count s - 1)" "shm_holder m w = None"
  using assms by (auto simp: shm_ok_def shm_holder_def split: option.splits robust_mutex.splits)

lemmas shm_state_defs = shm_ok_def shm_holder_def

interpretation shm: ipc_lock "shm_mutex_lock m" "shm_mutex_unlock m" "shm_ok m" "shm_holder m" for m
proof unfold_locales
  fix w p r w'
  assume ok: "shm_ok m w" and h: "shm_holder m w \<noteq> Some p" and run: "shm_mutex_lock m p w = Some (r, w')"
  from ok show "shm_ok m w' \<and> (if r = 0 then shm_holder m w = None \<and> shm_holder m w' = Some p else shm_holder m w' = shm_holder m w)"
  proof (cases rule: shm_okE)
    case (free s)
    then show ?thesis using run shm_mutex_lock_cases(1) [OF free(1), of p] by (auto simp: shm_state_defs)
  next
    case (held s q)
    then show ?thesis using run shm_mutex_lock_cases(2) [OF held(1), of q p] by simp
  next
    case (dead s)
    then show ?thesis using run shm_mutex_lock_cases(3) [OF dead(1), of p] by (auto simp: shm_state_defs)
  qed
next
  show "\<exists>w'. shm_mutex_lock m p w = Some (0, w')" if "shm_ok m w" "shm_holder m w = None" for w p
    using that(1)
  proof (cases rule: shm_okE)
    case (free s)
    then show ?thesis using shm_mutex_lock_cases(1) [OF free(1)] by blast
  next
    case (held s q)
    then show ?thesis using that(2) by simp
  next
    case (dead s)
    then show ?thesis using shm_mutex_lock_cases(3) [OF dead(1)] by blast
  qed
next
  show "\<exists>w'. shm_mutex_unlock m p w = Some (0, w') \<and> shm_ok m w' \<and> shm_holder m w' = None"
    if "shm_ok m w" "shm_holder m w = Some p" for w p
    using that(1)
  proof (cases rule: shm_okE)
    case (held s q)
    then show ?thesis using that(2) shm_mutex_unlock_holder [OF held(1), of p] by (auto simp: shm_state_defs)
  qed (use that(2) in simp_all)
qed

text \<open>
  Mutual exclusion with the mutex in a mapped file: however the calls of the processes
  interleave, never more than one of them is inside, some call can always go on, and while a process
  is inside the lock count is exactly 1. The mutex may at the start belong to a process that died.
\<close>

theorem shm_mutex_mutual_exclusion:
  assumes "lock_run (shm_mutex_lock m) (shm_mutex_unlock m) w0 w inside"
    and "shm_ok m w0" and "shm_holder m w0 = None"
  shows "(\<forall>p\<in>inside. \<forall>q\<in>inside. p = q) \<and>
    (if inside = {} then \<exists>w'. shm_mutex_lock m p w = Some (0, w')
     else (\<exists>q\<in>inside. \<exists>w'. shm_mutex_unlock m q w = Some (0, w')) \<and>
       map_option sm_lock_count (map_get sizeof_shm_mutex m w) = Some 1)"
proof -
  have inv: "shm_ok m w" "inside = set_option (shm_holder m w)" using shm.run_invariant [OF assms] by auto
  have "map_option sm_lock_count (map_get sizeof_shm_mutex m w) = Some 1" if "shm_holder m w = Some q" for q
    using inv(1) by (cases rule: shm_okE) (use that in simp_all)
  then show ?thesis
    using shm.mutual_exclusion [OF assms] shm.not_stuck [OF assms, of p] inv(2) by (cases "shm_holder m w") auto
qed

definition demo_shm :: "shm_mutex mfiles" where
  "demo_shm = [''/tmp/k'' \<mapsto> \<lparr>mf_len = 128, mf_data = \<lparr>sm_magic = SHM_MUTEX_MAGIC, sm_name = ''k'', sm_ref_count = 2,
     sm_lock_count = 1, sm_mutex = Owner_Dead\<rparr>\<rparr>]"

theorem shm_mutex_mutual_exclusion_witness:
  "\<exists>w. lock_run (shm_mutex_lock (Mapped ''/tmp/k'')) (shm_mutex_unlock (Mapped ''/tmp/k'')) demo_shm w {1} \<and>
    map_option sm_lock_count (map_get sizeof_shm_mutex (Mapped ''/tmp/k'') w) = Some 1"
proof -
  let ?m = "Mapped ''/tmp/k''"
  have init: "shm_ok ?m demo_shm" "shm_holder ?m demo_shm = None"
    by (simp_all add: shm_state_defs map_get_def demo_shm_def sizeof_shm_mutex_def cint_simps)
  obtain w where "shm_mutex_lock ?m 1 demo_shm = Some (0, w)" using shm.lock_free [OF init] by blast
  then have run: "lock_run (shm_mutex_lock ?m) (shm_mutex_unlock ?m) demo_shm w {1}"
    using lock_run.enter [OF lock_run.start, of 1] by simp
  from shm_mutex_mutual_exclusion [OF run init, of 2] show ?thesis using run by auto
qed

lemma map_get_shm_exit:
  "map_get sz m (shm_exit p w) = map_option (\<lambda>s. s\<lparr>sm_mutex := mutex_exit p (sm_mutex s)\<rparr>) (map_get sz m w)"
  by (cases m; cases "w (case m of Mapped n \<Rightarrow> n)") (auto simp: map_get_def shm_exit_def)

text \<open>
  Recovery. While a process has the mutex, everybody else waits. When that process dies inside,
  the next \<open>shm_mutex_lock\<close> of any process succeeds and keeps the mutex; the lock count is still 1, for
  the new owner instead of the dead one, and the user count has gone down by one.
\<close>

theorem shm_mutex_recovers:
  assumes "shm_ok m w" and "shm_holder m w = Some p" and "map_get sizeof_shm_mutex m w = Some s"
    and "int_ok (sm_ref_count s - 1)"
  shows "shm_mutex_lock m q w = None \<and>
    (\<exists>w' s'. shm_mutex_lock m q (shm_exit p w) = Some (0, w') \<and> shm_ok m w' \<and> shm_holder m w' = Some q \<and>
      map_get sizeof_shm_mutex m w' = Some s' \<and> sm_lock_count s' = 1 \<and> sm_ref_count s' = sm_ref_count s - 1)"
  using assms(1)
proof (cases rule: shm_okE)
  case (held s0 p0)
  let ?s = "s\<lparr>sm_mutex := Owner_Dead\<rparr>"
  have s: "s0 = s" "p0 = p" using held assms(2,3) by simp_all
  have dead: "map_get sizeof_shm_mutex m (shm_exit p w) = Some ?s"
    using held s by (simp add: map_get_shm_exit mutex_exit_def)
  then have "shm_mutex_lock m q (shm_exit p w) =
      Some (0, map_put m (s\<lparr>sm_mutex := Locked q, sm_ref_count := sm_ref_count s - 1\<rparr>) (shm_exit p w))"
    using shm_mutex_lock_cases(3) [OF dead, of q] assms(4) by simp
  then show ?thesis
    using held s shm_mutex_lock_cases(2) [OF held(1), of p q] dead by (simp add: shm_state_defs)
qed (use assms(2) in simp_all)

theorem shm_mutex_recovers_witness:
  "\<exists>w'. shm_mutex_lock (Mapped ''/tmp/k'') 2 (shm_exit 1 (map_put (Mapped ''/tmp/k'')
      \<lparr>sm_magic = SHM_MUTEX_MAGIC, sm_name = ''k'', sm_ref_count = 2, sm_lock_count = 1, sm_mutex = Locked 1\<rparr> demo_shm)) = Some (0, w')"
proof -
  let ?s = "\<lparr>sm_magic = SHM_MUTEX_MAGIC, sm_name = ''k'', sm_ref_count = 2, sm_lock_count = 1, sm_mutex = Locked 1\<rparr>"
  let ?w = "map_put (Mapped ''/tmp/k'') ?s demo_shm"
  have g: "map_get sizeof_shm_mutex (Mapped ''/tmp/k'') ?w = Some ?s"
    by (simp add: map_get_def map_put_def demo_shm_def sizeof_shm_mutex_def)
  then show ?thesis
    using shm_mutex_recovers [of "Mapped ''/tmp/k''" ?w 1 ?s 2] by (auto simp: shm_state_defs cint_simps)
qed


section \<open>Users\<close>

lemma shm_path_fits: "length k \<le> 58 \<Longrightarrow> take 63 (shm_path k) = shm_path k \<and> length (shm_path k) \<le> PATH_MAX"
  by (simp add: shm_path_def PATH_MAX_def)

text \<open>The lock that \<open>shm_mutex_alloc\<close> finds in the data of the file, before it counts the new user.\<close>

definition shm_found :: "string \<Rightarrow> shm_mutex \<Rightarrow> shm_mutex" where
  "shm_found k d = (if SHM_MUTEX_MAGIC \<noteq> sm_magic d
     then \<lparr>sm_magic = SHM_MUTEX_MAGIC, sm_name = k, sm_ref_count = 0, sm_lock_count = 0, sm_mutex = Unlocked\<rparr> else d)"

lemma shm_mutex_alloc_step:
  assumes "env_ok e" "env_path e (shm_path k) = shm_path k" "length k \<le> 58"
    and "int_ok (sm_ref_count (shm_found k (case w (shm_path k) of None \<Rightarrow> shm_zero | Some f \<Rightarrow> mf_data f)) + 1)"
  shows "\<exists>w'. shm_mutex_alloc e (Some k) w = Some (Some (Mapped (shm_path k)), w') \<and>
      map_get sizeof_shm_mutex (Mapped (shm_path k)) w' =
        Some (let s = shm_found k (case w (shm_path k) of None \<Rightarrow> shm_zero | Some f \<Rightarrow> mf_data f) in s\<lparr>sm_ref_count := sm_ref_count s + 1\<rparr>)"
proof -
  let ?m = "Mapped (shm_path k)" and ?d = "case w (shm_path k) of None \<Rightarrow> shm_zero | Some f \<Rightarrow> mf_data f"
  have path: "take 63 (shm_path k) = shm_path k" "length (shm_path k) \<le> PATH_MAX" "take 63 k = k"
    using assms(3) shm_path_fits by simp_all
  obtain w' where w': "mmapfile shm_zero e (Some (shm_path k)) sizeof_shm_mutex w = (Some ?m, w')"
    "map_get sizeof_shm_mutex ?m w' = Some ?d"
    using mmapfile_maps [OF assms(1) path(2), of sizeof_shm_mutex shm_zero w] assms(2) by (auto simp: sizeof_shm_mutex_def)
  have "shm_mutex_alloc e (Some k) w = (do {
      r \<leftarrow> cint (sm_ref_count (shm_found k ?d) + 1);
      Some (Some ?m, map_put ?m ((shm_found k ?d)\<lparr>sm_ref_count := r\<rparr>) w') })"
    unfolding shm_mutex_alloc_def shm_found_def by (simp only: path w' Let_def option.case prod.case) (simp add: shm_zero_def)
  then show ?thesis using assms(4) w'(2) by (simp add: Let_def)
qed

lemma map_get_Mapped_data: "map_get sz (Mapped n) w = Some s \<Longrightarrow> (case w n of None \<Rightarrow> z | Some f \<Rightarrow> mf_data f) = s"
  by (auto simp: map_get_def bind_eq_Some_conv split: if_splits)

lemma shm_mutex_destroy_step:
  assumes "map_get sizeof_shm_mutex m w = Some s" "int_ok (sm_ref_count s - 1)"
  shows "\<exists>w'. shm_mutex_destroy (Some m) w = Some (0, w') \<and>
    map_get sizeof_shm_mutex m w' = Some (s\<lparr>sm_ref_count := sm_ref_count s - 1\<rparr>)"
  using assms by (simp add: shm_mutex_destroy_def)

text \<open>
  Sharing. Two processes that ask for the same key get the same lock: the first initialises it,
  free and with one user, the second finds it as it is and adds itself, also while the first is
  inside. When both have destroyed their handles the lock is still there, and a third process goes on
  with it.
\<close>

theorem shm_mutex_alloc_shares:
  assumes "env_ok e" and "env_path e (shm_path k) = shm_path k" and "length k \<le> 58" and "w (shm_path k) = None"
  shows "\<exists>m w1 w2 w3 w4 w5 w6 s. m = Mapped (shm_path k) \<and> shm_mutex_alloc e (Some k) w = Some (Some m, w1) \<and>
    shm_ok m w1 \<and> shm_holder m w1 = None \<and> shm_mutex_lock m p w1 = Some (0, w2) \<and>
    shm_mutex_alloc e (Some k) w2 = Some (Some m, w3) \<and> shm_ok m w3 \<and> shm_holder m w3 = Some p \<and>
    shm_mutex_destroy (Some m) w3 = Some (0, w4) \<and> shm_mutex_destroy (Some m) w4 = Some (0, w5) \<and>
    shm_mutex_alloc e (Some k) w5 = Some (Some m, w6) \<and> map_get sizeof_shm_mutex m w6 = Some s \<and>
    sm_ref_count s = 1 \<and> sm_name s = k \<and> shm_holder m w6 = Some p"
proof -
  let ?m = "Mapped (shm_path k)"
  let ?get = "map_get sizeof_shm_mutex ?m"
  define s where "s n x c = \<lparr>sm_magic = SHM_MUTEX_MAGIC, sm_name = k, sm_ref_count = n, sm_lock_count = c, sm_mutex = x\<rparr>" for n x c
  have alloc: "\<exists>w'. shm_mutex_alloc e (Some k) w = Some (Some ?m, w') \<and> ?get w' = Some (s (n + 1) x c)"
    if "?get w = Some (s n x c)" "int_ok (n + 1)" for w n x c
    using shm_mutex_alloc_step [OF assms(1-3), of w] that map_get_Mapped_data [OF that(1), of shm_zero]
    by (simp add: shm_found_def s_def)
  have destroy: "\<exists>w'. shm_mutex_destroy (Some ?m) w = Some (0, w') \<and> ?get w' = Some (s (n - 1) x c)"
    if "?get w = Some (s n x c)" "int_ok (n - 1)" for w n x c
    using shm_mutex_destroy_step [OF that(1)] that(2) by (simp add: s_def)
  obtain w1 where w1: "shm_mutex_alloc e (Some k) w = Some (Some ?m, w1)" "?get w1 = Some (s 1 Unlocked 0)"
    using shm_mutex_alloc_step [OF assms(1-3), of w] assms(4)
    by (auto simp: shm_found_def shm_zero_def s_def SHM_MUTEX_MAGIC_def cint_simps)
  obtain w2 where w2: "shm_mutex_lock ?m p w1 = Some (0, w2)" "?get w2 = Some (s 1 (Locked p) 1)"
    using w1(2) shm_mutex_lock_cases(1) [OF w1(2), of p] by (auto simp: s_def)
  obtain w3 where w3: "shm_mutex_alloc e (Some k) w2 = Some (Some ?m, w3)" "?get w3 = Some (s 2 (Locked p) 1)"
    using alloc [OF w2(2)] by (auto simp: cint_simps)
  obtain w4 where w4: "shm_mutex_destroy (Some ?m) w3 = Some (0, w4)" "?get w4 = Some (s 1 (Locked p) 1)"
    using destroy [OF w3(2)] by (auto simp: cint_simps)
  obtain w5 where w5: "shm_mutex_destroy (Some ?m) w4 = Some (0, w5)" "?get w5 = Some (s 0 (Locked p) 1)"
    using destroy [OF w4(2)] by (auto simp: cint_simps)
  obtain w6 where w6: "shm_mutex_alloc e (Some k) w5 = Some (Some ?m, w6)" "?get w6 = Some (s 1 (Locked p) 1)"
    using alloc [OF w5(2)] by (auto simp: cint_simps)
  have state: "shm_ok ?m w1" "shm_holder ?m w1 = None" "shm_ok ?m w3" "shm_holder ?m w3 = Some p" "shm_holder ?m w6 = Some p"
    using w1(2) w3(2) w6(2) by (simp_all add: shm_state_defs s_def)
  show ?thesis
    using w1(1) w2(1) w3(1) w4(1) w5(1) w6 state
    by (intro exI [of _ ?m] exI [of _ w1] exI [of _ w2] exI [of _ w3] exI [of _ w4] exI [of _ w5] exI [of _ w6]
        exI [of _ "s 1 (Locked p) 1"]) (simp add: s_def)
qed

theorem shm_mutex_alloc_shares_witness:
  "\<exists>w1. shm_mutex_alloc \<lparr>me_realpath = (\<lambda>_. None), me_open = True, me_ftruncate = True, me_mmap = True\<rparr> (Some ''k'') Map.empty =
    Some (Some (Mapped (shm_path ''k'')), w1) \<and> shm_ok (Mapped (shm_path ''k'')) w1"
  using shm_mutex_alloc_shares [of "\<lparr>me_realpath = (\<lambda>_. None), me_open = True, me_ftruncate = True, me_mmap = True\<rparr>" "''k''" Map.empty]
  by (auto simp: env_ok_def env_path_def)

end
