(* ===== verification/Shm_Mutex_Steps.thy ===== *)
theory Shm_Mutex_Steps
  imports Shm_Mutex Interleave
begin

text \<open>
  The functions of \<^verbatim>\<open>linux/utils/src/shm_mutex.c\<close> in single steps, for processes that run at the same time: allocation, with the steps of \<open>mmapfile\<close>, locking, unlocking, release, and
  processes that end at any moment. A step is one statement; \<open>x++\<close> on shared memory is a step that reads and one that writes. The
  calls that set up the attributes touch only the attributes, which nothing else reads, and are part of the step that initialises the mutex. A mutex of zero bytes
  is an unlocked one, as on Linux.
\<close>

section \<open>The code in steps\<close>

datatype shm_pc = S_Idle | A_Len | A_Trunc | A_Magic | A_Zero | A_Stamp | A_Name | A_Init | A_Ref | A_Ref_Set int
  | S_Out | L_Lock | L_Count | L_Count_Set int | L_Consistent | L_Ref | L_Ref_Set int
  | S_In | U_Count_Set int | U_Unlock | D_Ref_Set int | S_Undef

text \<open>What a process does next when it has a choice: go on, give its handle back, or end.\<close>

datatype shm_act = Act_Next | Act_Destroy | Act_Exit

record shm_conf =
  sc_pc :: "pid \<Rightarrow> shm_pc"
  sc_files :: "shm_mutex mfiles"

definition shm_file :: "mmap_env \<Rightarrow> string \<Rightarrow> string" where
  "shm_file e skey = env_path e (take 63 (shm_path skey))"

text \<open>An access to the struct in the mapped file, by a process that goes to \<open>pc s\<close> and leaves the struct as \<open>f s\<close>.\<close>

definition on_shm :: "mapping \<Rightarrow> (shm_mutex \<Rightarrow> shm_pc) \<Rightarrow> (shm_mutex \<Rightarrow> shm_mutex) \<Rightarrow> shm_mutex mfiles \<Rightarrow> shm_pc \<times> shm_mutex mfiles" where
  "on_shm m pc f w = (case map_get sizeof_shm_mutex m w of None \<Rightarrow> (S_Undef, w) | Some s \<Rightarrow> (pc s, map_put m (f s) w))"

text \<open>The write of a counter whose new value must be an \<open>int\<close>.\<close>

definition set_count :: "mapping \<Rightarrow> int \<Rightarrow> (int \<Rightarrow> shm_mutex \<Rightarrow> shm_mutex) \<Rightarrow> shm_pc \<Rightarrow> shm_mutex mfiles \<Rightarrow> shm_pc \<times> shm_mutex mfiles" where
  "set_count m n f pc w = (case cint n of None \<Rightarrow> (S_Undef, w) | Some n \<Rightarrow> on_shm m (\<lambda>_. pc) (f n) w)"

text \<open>\<open>shm_mutex_alloc\<close>, the first three steps being those of \<open>mmapfile\<close>.\<close>

definition alloc_step :: "mmap_env \<Rightarrow> string \<Rightarrow> shm_pc \<Rightarrow> shm_mutex mfiles \<Rightarrow> shm_pc \<times> shm_mutex mfiles" where
  "alloc_step e skey pc w =
     (let f = shm_file e skey; m = (if me_mmap e then Mapped f else Map_Failed) in
      case pc of
        S_Idle \<Rightarrow>
          if me_open e then (A_Len, if w f = None then w(f \<mapsto> \<lparr>mf_len = 0, mf_data = shm_zero\<rparr>) else w) else (S_Idle, w)
      | A_Len \<Rightarrow> (case w f of None \<Rightarrow> (S_Undef, w) | Some x \<Rightarrow> (if mf_len x < sizeof_shm_mutex then A_Trunc else A_Magic, w))
      | A_Trunc \<Rightarrow> (A_Magic, if me_ftruncate e then w(f := map_option (\<lambda>x. x\<lparr>mf_len := sizeof_shm_mutex\<rparr>) (w f)) else w)
      | A_Magic \<Rightarrow> on_shm m (\<lambda>s. if SHM_MUTEX_MAGIC \<noteq> sm_magic s then A_Zero else A_Ref) (\<lambda>s. s) w
      | A_Zero \<Rightarrow> on_shm m (\<lambda>_. A_Stamp) (\<lambda>_. shm_zero) w
      | A_Stamp \<Rightarrow> on_shm m (\<lambda>_. A_Name) (\<lambda>s. s\<lparr>sm_magic := SHM_MUTEX_MAGIC\<rparr>) w
      | A_Name \<Rightarrow> on_shm m (\<lambda>_. A_Init) (\<lambda>s. s\<lparr>sm_name := take 63 skey\<rparr>) w
      | A_Init \<Rightarrow> on_shm m (\<lambda>_. A_Ref) (\<lambda>s. s\<lparr>sm_mutex := Unlocked\<rparr>) w
      | A_Ref \<Rightarrow> on_shm m (\<lambda>s. A_Ref_Set (sm_ref_count s)) (\<lambda>s. s) w
      | A_Ref_Set n \<Rightarrow> set_count m (n + 1) (\<lambda>n s. s\<lparr>sm_ref_count := n\<rparr>) S_Out w
      | _ \<Rightarrow> (S_Undef, w))"

text \<open>\<open>shm_mutex_lock\<close>. The first step is the call of \<open>pthread_mutex_lock\<close>, which is made when it is granted; until then the process waits in it.\<close>

definition lock_call :: "mapping \<Rightarrow> pid \<Rightarrow> shm_mutex mfiles \<Rightarrow> (shm_pc \<times> shm_mutex mfiles) option" where
  "lock_call m p w = (case map_get sizeof_shm_mutex m w of
     None \<Rightarrow> Some (S_Undef, w)
   | Some s \<Rightarrow>
       if sm_mutex s = Destroyed then Some (S_Undef, w)
       else do {
         (ret, x) \<leftarrow> pthread_mutex_lock p (sm_mutex s);
         Some (if ret = 0 then L_Count else if ret = EOWNERDEAD then L_Consistent else S_Out, map_put m (s\<lparr>sm_mutex := x\<rparr>) w) })"

definition lock_step :: "mapping \<Rightarrow> pid \<Rightarrow> shm_pc \<Rightarrow> shm_mutex mfiles \<Rightarrow> shm_pc \<times> shm_mutex mfiles" where
  "lock_step m p pc w = (case pc of
     L_Count \<Rightarrow> on_shm m (\<lambda>s. L_Count_Set (sm_lock_count s)) (\<lambda>s. s) w
   | L_Count_Set n \<Rightarrow> set_count m (n + 1) (\<lambda>n s. s\<lparr>sm_lock_count := n\<rparr>) S_In w
   | L_Consistent \<Rightarrow>
       on_shm m (\<lambda>s. if consistent_result p (sm_mutex s) = 0 then L_Ref else S_Out) (\<lambda>s. s\<lparr>sm_mutex := pthread_mutex_consistent p (sm_mutex s)\<rparr>) w
   | L_Ref \<Rightarrow> on_shm m (\<lambda>s. L_Ref_Set (sm_ref_count s)) (\<lambda>s. s) w
   | L_Ref_Set n \<Rightarrow> set_count m (n - 1) (\<lambda>n s. s\<lparr>sm_ref_count := n\<rparr>) S_In w
   | _ \<Rightarrow> (S_Undef, w))"

text \<open>\<open>shm_mutex_unlock\<close> and \<open>shm_mutex_destroy\<close>.\<close>

definition unlock_step :: "mapping \<Rightarrow> pid \<Rightarrow> shm_pc \<Rightarrow> shm_mutex mfiles \<Rightarrow> shm_pc \<times> shm_mutex mfiles" where
  "unlock_step m p pc w = (case pc of
     S_In \<Rightarrow> on_shm m (\<lambda>s. U_Count_Set (sm_lock_count s)) (\<lambda>s. s) w
   | U_Count_Set n \<Rightarrow> set_count m (n - 1) (\<lambda>n s. s\<lparr>sm_lock_count := n\<rparr>) U_Unlock w
   | U_Unlock \<Rightarrow> on_shm m (\<lambda>_. S_Out) (\<lambda>s. s\<lparr>sm_mutex := snd (pthread_mutex_unlock p (sm_mutex s))\<rparr>) w
   | _ \<Rightarrow> (S_Undef, w))"

definition destroy_step :: "mapping \<Rightarrow> shm_pc \<Rightarrow> shm_mutex mfiles \<Rightarrow> shm_pc \<times> shm_mutex mfiles" where
  "destroy_step m pc w = (case pc of
     S_Out \<Rightarrow> on_shm m (\<lambda>s. D_Ref_Set (sm_ref_count s)) (\<lambda>s. s) w
   | D_Ref_Set n \<Rightarrow> set_count m (n - 1) (\<lambda>n s. s\<lparr>sm_ref_count := n\<rparr>) S_Idle w
   | _ \<Rightarrow> (S_Undef, w))"

text \<open>One step of process \<open>p\<close>.\<close>

definition shm_do :: "mmap_env \<Rightarrow> string \<Rightarrow> pid \<Rightarrow> shm_act \<Rightarrow> shm_pc \<Rightarrow> shm_mutex mfiles \<Rightarrow> (shm_pc \<times> shm_mutex mfiles) option" where
  "shm_do e skey p a pc w =
     (let m = Mapped (shm_file e skey) in
      if pc = S_Undef then None
      else if a = Act_Exit then Some (S_Idle, shm_exit p w)
      else if pc = L_Lock then lock_call m p w
      else Some (case pc of
          S_Out \<Rightarrow> if a = Act_Destroy then destroy_step m pc w else (L_Lock, w)
        | L_Count \<Rightarrow> lock_step m p pc w | L_Count_Set _ \<Rightarrow> lock_step m p pc w | L_Consistent \<Rightarrow> lock_step m p pc w
        | L_Ref \<Rightarrow> lock_step m p pc w | L_Ref_Set _ \<Rightarrow> lock_step m p pc w
        | S_In \<Rightarrow> unlock_step m p pc w | U_Count_Set _ \<Rightarrow> unlock_step m p pc w | U_Unlock \<Rightarrow> unlock_step m p pc w
        | D_Ref_Set _ \<Rightarrow> destroy_step m pc w
        | _ \<Rightarrow> alloc_step e skey pc w))"

definition shm_step :: "mmap_env \<Rightarrow> string \<Rightarrow> (shm_act, shm_conf) proc_step" where
  "shm_step e skey p a c = do {
     (pc, w) \<leftarrow> shm_do e skey p a (sc_pc c p) (sc_files c);
     Some \<lparr>sc_pc = (sc_pc c)(p := pc), sc_files = w\<rparr> }"

definition shm_start :: "shm_mutex mfiles \<Rightarrow> shm_conf" where
  "shm_start w = \<lparr>sc_pc = (\<lambda>_. S_Idle), sc_files = w\<rparr>"

lemmas shm_step_defs = shm_step_def shm_do_def Let_def alloc_step_def lock_call_def lock_step_def unlock_step_def destroy_step_def on_shm_def set_count_def

text \<open>A process that allocates alone, in a file that does not exist yet, comes out with what \<^const>\<open>shm_mutex_alloc\<close> gives.\<close>

definition shm_new :: "string \<Rightarrow> shm_mutex" where
  "shm_new skey = \<lparr>sm_magic = SHM_MUTEX_MAGIC, sm_name = take 63 skey, sm_ref_count = 1, sm_lock_count = 0, sm_mutex = Unlocked\<rparr>"

lemma replicate_ten: "replicate 10 x = [x, x, x, x, x, x, x, x, x, x]"
  by (simp add: numeral_eq_Suc)

lemma shm_alloc_alone:
  assumes "env_ok e" "w (shm_file e skey) = None"
  shows "run_steps (shm_step e skey) (replicate 10 (p, Act_Next)) (shm_start w) =
      Some \<lparr>sc_pc = (\<lambda>_. S_Idle)(p := S_Out), sc_files = w(shm_file e skey \<mapsto> \<lparr>mf_len = sizeof_shm_mutex, mf_data = shm_new skey\<rparr>)\<rparr>"
    and "shm_mutex_alloc e (Some skey) w =
      Some (Some (Mapped (shm_file e skey)), w(shm_file e skey \<mapsto> \<lparr>mf_len = sizeof_shm_mutex, mf_data = shm_new skey\<rparr>))"
proof -
  have one: "cint (0 + 1) = Some 1" "cint 1 = Some 1" by (simp_all add: cint_simps)
  show "run_steps (shm_step e skey) (replicate 10 (p, Act_Next)) (shm_start w) =
      Some \<lparr>sc_pc = (\<lambda>_. S_Idle)(p := S_Out), sc_files = w(shm_file e skey \<mapsto> \<lparr>mf_len = sizeof_shm_mutex, mf_data = shm_new skey\<rparr>)\<rparr>"
    using assms one
    by (simp add: replicate_ten shm_step_defs shm_start_def env_ok_def map_get_def map_put_def shm_zero_def shm_new_def sizeof_shm_mutex_def
        SHM_MUTEX_MAGIC_def)
  show "shm_mutex_alloc e (Some skey) w =
      Some (Some (Mapped (shm_file e skey)), w(shm_file e skey \<mapsto> \<lparr>mf_len = sizeof_shm_mutex, mf_data = shm_new skey\<rparr>))"
    using assms one
    by (simp add: shm_mutex_alloc_def mmapfile_def env_ok_def shm_file_def env_path_def PATH_MAX_def map_get_def map_put_def shm_zero_def
        shm_new_def sizeof_shm_mutex_def SHM_MUTEX_MAGIC_def Let_def)
qed


section \<open>The invariant\<close>

text \<open>A process has the mutex from the moment its lock call is granted until it unlocks.\<close>

definition shm_owns :: "shm_pc \<Rightarrow> bool" where
  "shm_owns pc \<longleftrightarrow> (case pc of L_Count \<Rightarrow> True | L_Count_Set _ \<Rightarrow> True | L_Ref \<Rightarrow> True | L_Ref_Set _ \<Rightarrow> True
     | S_In \<Rightarrow> True | U_Count_Set _ \<Rightarrow> True | U_Unlock \<Rightarrow> True | _ \<Rightarrow> False)"

text \<open>The program counters of processes that never set the mutex up again.\<close>

definition shm_calm :: "shm_pc \<Rightarrow> bool" where
  "shm_calm pc \<longleftrightarrow> pc \<notin> {A_Trunc, A_Zero, A_Stamp, A_Name, A_Init, S_Undef}"

definition shm_value :: "shm_pc \<Rightarrow> int option" where
  "shm_value pc = (case pc of A_Ref_Set n \<Rightarrow> Some n | L_Count_Set n \<Rightarrow> Some n | L_Ref_Set n \<Rightarrow> Some n | U_Count_Set n \<Rightarrow> Some n
     | D_Ref_Set n \<Rightarrow> Some n | _ \<Rightarrow> None)"

definition mutex_agrees :: "robust_mutex \<Rightarrow> (pid \<Rightarrow> shm_pc) \<Rightarrow> bool" where
  "mutex_agrees x pcs \<longleftrightarrow> x \<noteq> Not_Recoverable \<and> x \<noteq> Destroyed \<and>
     (\<forall>p. x = Locked p \<longleftrightarrow> shm_owns (pcs p)) \<and> (\<forall>p. x = Inconsistent p \<longleftrightarrow> pcs p = L_Consistent)"

text \<open>The mutex is set up and is what the program counters say; after \<open>k\<close> steps no counter, and no value of one that was read, is further from 0 than \<open>k\<close>.\<close>

definition shm_good :: "mmap_env \<Rightarrow> string \<Rightarrow> nat \<Rightarrow> shm_conf \<Rightarrow> bool" where
  "shm_good e skey k c \<longleftrightarrow> env_ok e \<and> (\<exists>s. map_get sizeof_shm_mutex (Mapped (shm_file e skey)) (sc_files c) = Some s \<and>
     sm_magic s = SHM_MUTEX_MAGIC \<and> mutex_agrees (sm_mutex s) (sc_pc c) \<and> \<bar>sm_ref_count s\<bar> \<le> int k \<and> \<bar>sm_lock_count s\<bar> \<le> int k \<and>
     (\<forall>p. shm_calm (sc_pc c p)) \<and> (\<forall>p n. shm_value (sc_pc c p) = Some n \<longrightarrow> \<bar>n\<bar> \<le> int k))"

lemma shm_goodI:
  assumes "shm_good e skey k c" "map_get sizeof_shm_mutex (Mapped (shm_file e skey)) w = Some s'"
    and "sm_magic s' = SHM_MUTEX_MAGIC" "mutex_agrees (sm_mutex s') ((sc_pc c)(p := pc))"
    and "\<bar>sm_ref_count s'\<bar> \<le> int (Suc k)" "\<bar>sm_lock_count s'\<bar> \<le> int (Suc k)" "shm_calm pc"
    and "\<And>n. shm_value pc = Some n \<Longrightarrow> \<bar>n\<bar> \<le> int (Suc k)"
  shows "shm_good e skey (Suc k) \<lparr>sc_pc = (sc_pc c)(p := pc), sc_files = w\<rparr>"
proof -
  have "\<bar>n\<bar> \<le> int (Suc k)" if "shm_value (((sc_pc c)(p := pc)) q) = Some n" for q n
    using that assms(1,8) unfolding shm_good_def by (cases "q = p") fastforce+
  moreover have "shm_calm (((sc_pc c)(p := pc)) q)" for q using assms(1,7) unfolding shm_good_def by auto
  ultimately show ?thesis unfolding shm_good_def using assms(1-6) by (simp add: shm_good_def)
qed

text \<open>A change of the program counter that changes neither who has the mutex nor who has to make it consistent.\<close>

lemma mutex_agrees_move:
  "mutex_agrees x pcs \<Longrightarrow> shm_owns pc = shm_owns (pcs p) \<Longrightarrow> (pc = L_Consistent) = (pcs p = L_Consistent) \<Longrightarrow> mutex_agrees x (pcs(p := pc))"
  by (auto simp: mutex_agrees_def)

lemma shm_owns_simps [simp]:
  "\<not> shm_owns S_Idle" "\<not> shm_owns A_Len" "\<not> shm_owns A_Trunc" "\<not> shm_owns A_Magic" "\<not> shm_owns A_Zero" "\<not> shm_owns A_Stamp" "\<not> shm_owns A_Name"
  "\<not> shm_owns A_Init" "\<not> shm_owns A_Ref" "\<not> shm_owns (A_Ref_Set n)" "\<not> shm_owns S_Out" "\<not> shm_owns L_Lock" "shm_owns L_Count" "shm_owns (L_Count_Set n)"
  "\<not> shm_owns L_Consistent" "shm_owns L_Ref" "shm_owns (L_Ref_Set n)" "shm_owns S_In" "shm_owns (U_Count_Set n)" "shm_owns U_Unlock" "\<not> shm_owns (D_Ref_Set n)"
  "\<not> shm_owns S_Undef"
  by (simp_all add: shm_owns_def)

lemma shm_calm_simps [simp]:
  "shm_calm S_Idle" "shm_calm A_Len" "shm_calm A_Magic" "shm_calm A_Ref" "shm_calm (A_Ref_Set n)" "shm_calm S_Out" "shm_calm L_Lock" "shm_calm L_Count"
  "shm_calm (L_Count_Set n)" "shm_calm L_Consistent" "shm_calm L_Ref" "shm_calm (L_Ref_Set n)" "shm_calm S_In" "shm_calm (U_Count_Set n)" "shm_calm U_Unlock"
  "shm_calm (D_Ref_Set n)"
  by (simp_all add: shm_calm_def)

lemma shm_value_simps [simp]:
  "shm_value S_Idle = None" "shm_value A_Len = None" "shm_value A_Magic = None" "shm_value A_Ref = None" "shm_value (A_Ref_Set n) = Some n" "shm_value S_Out = None"
  "shm_value L_Lock = None" "shm_value L_Count = None" "shm_value (L_Count_Set n) = Some n" "shm_value L_Consistent = None" "shm_value L_Ref = None"
  "shm_value (L_Ref_Set n) = Some n" "shm_value S_In = None" "shm_value (U_Count_Set n) = Some n" "shm_value U_Unlock = None" "shm_value (D_Ref_Set n) = Some n"
  by (simp_all add: shm_value_def)

lemma mutex_agrees_exit:
  assumes "mutex_agrees x pcs"
  shows "mutex_agrees (mutex_exit p x) (pcs(p := S_Idle))"
  using assms by (cases x; simp add: mutex_agrees_def mutex_exit_def; metis)

text \<open>
  The steps that leave the mutex alone: each goes on to a place with the same rights, and changes a counter to a value next to one it had before.
\<close>

lemma shm_quiet_step:
  assumes "map_get sizeof_shm_mutex (Mapped (shm_file e skey)) w = Some s" "sm_magic s = SHM_MUTEX_MAGIC" "env_ok e"
    and "\<bar>sm_ref_count s\<bar> \<le> int k" "\<bar>sm_lock_count s\<bar> \<le> int k" "\<And>n. shm_value pc = Some n \<Longrightarrow> \<bar>n\<bar> \<le> int k"
    and "int_ok (- int (Suc k))" "int_ok (int (Suc k))" "shm_calm pc" "a \<noteq> Act_Exit" "pc \<notin> {L_Lock, L_Consistent, U_Unlock}"
    and "shm_do e skey p a pc w = Some (pc', w')"
  shows "\<exists>s'. map_get sizeof_shm_mutex (Mapped (shm_file e skey)) w' = Some s' \<and> sm_magic s' = SHM_MUTEX_MAGIC \<and> sm_mutex s' = sm_mutex s \<and>
    \<bar>sm_ref_count s'\<bar> \<le> int (Suc k) \<and> \<bar>sm_lock_count s'\<bar> \<le> int (Suc k) \<and> (\<forall>n. shm_value pc' = Some n \<longrightarrow> \<bar>n\<bar> \<le> int (Suc k)) \<and>
    shm_calm pc' \<and> shm_owns pc' = shm_owns pc \<and> pc' \<noteq> L_Consistent"
proof -
  let ?m = "Mapped (shm_file e skey)"
  obtain x where x: "w (shm_file e skey) = Some x" "sizeof_shm_mutex \<le> mf_len x"
    using assms(1) by (auto simp: map_get_def bind_eq_Some_conv split: if_splits)
  have near: "int_ok (n + 1)" "int_ok (n - 1)" "\<bar>n + 1\<bar> \<le> int (Suc k)" "\<bar>n - 1\<bar> \<le> int (Suc k)" if "shm_value pc = Some n" for n
    using assms(6) [OF that] assms(7,8) by (auto simp: cint_simps)
  have cnt: "\<bar>sm_ref_count s\<bar> \<le> int (Suc k)" "\<bar>sm_lock_count s\<bar> \<le> int (Suc k)" using assms(4,5) by simp_all
  have e: "me_mmap e" "me_open e" using assms(3) by (simp_all add: env_ok_def)
  show ?thesis
    using assms(1,2,9-12) x e near cnt
    by (cases pc) (auto simp: shm_do_def alloc_step_def lock_step_def unlock_step_def destroy_step_def on_shm_def set_count_def Let_def shm_calm_def
        split: if_splits)
qed

lemma shm_step_do: "shm_step e skey p a c = Some c' \<longleftrightarrow>
    (\<exists>pc w. shm_do e skey p a (sc_pc c p) (sc_files c) = Some (pc, w) \<and> c' = \<lparr>sc_pc = (sc_pc c)(p := pc), sc_files = w\<rparr>)"
  by (auto simp: shm_step_def bind_eq_Some_conv)

lemma shm_good_step:
  assumes "shm_good e skey k c" "int_ok (- int (Suc k))" "int_ok (int (Suc k))" "shm_step e skey p a c = Some c'"
  shows "shm_good e skey (Suc k) c'"
proof -
  let ?m = "Mapped (shm_file e skey)"
  obtain s where g: "map_get sizeof_shm_mutex ?m (sc_files c) = Some s" "sm_magic s = SHM_MUTEX_MAGIC"
    and agree: "mutex_agrees (sm_mutex s) (sc_pc c)" and cnt: "\<bar>sm_ref_count s\<bar> \<le> int k" "\<bar>sm_lock_count s\<bar> \<le> int k"
    and val: "\<And>n. shm_value (sc_pc c p) = Some n \<Longrightarrow> \<bar>n\<bar> \<le> int k" and calm: "shm_calm (sc_pc c p)" and e: "env_ok e"
    using assms(1) unfolding shm_good_def by blast
  obtain pc w where d: "shm_do e skey p a (sc_pc c p) (sc_files c) = Some (pc, w)" and c': "c' = \<lparr>sc_pc = (sc_pc c)(p := pc), sc_files = w\<rparr>"
    using assms(4) by (auto simp: shm_step_do)
  have cnt': "\<bar>sm_ref_count s\<bar> \<le> int (Suc k)" "\<bar>sm_lock_count s\<bar> \<le> int (Suc k)" using cnt by simp_all
  have cnt': "\<bar>sm_ref_count s\<bar> \<le> int (Suc k)" "\<bar>sm_lock_count s\<bar> \<le> int (Suc k)" using cnt by simp_all
  have cnt': "\<bar>sm_ref_count s\<bar> \<le> int (Suc k)" "\<bar>sm_lock_count s\<bar> \<le> int (Suc k)" using cnt by simp_all
  have new_mutex: ?thesis if "w = map_put ?m (s\<lparr>sm_mutex := x\<rparr>) (sc_files c)" "mutex_agrees x ((sc_pc c)(p := pc))" "shm_calm pc" "shm_value pc = None" for x
    unfolding c' using that g cnt' by (intro shm_goodI [OF assms(1), where s' = "s\<lparr>sm_mutex := x\<rparr>"]) simp_all
  consider (exit) "a = Act_Exit" | (lock) "a \<noteq> Act_Exit" "sc_pc c p = L_Lock" | (consistent) "a \<noteq> Act_Exit" "sc_pc c p = L_Consistent"
    | (unlock) "a \<noteq> Act_Exit" "sc_pc c p = U_Unlock" | (quiet) "a \<noteq> Act_Exit" "sc_pc c p \<notin> {L_Lock, L_Consistent, U_Unlock}" by blast
  then show ?thesis
  proof cases
    case exit
    then have "pc = S_Idle" "w = shm_exit p (sc_files c)" using d calm by (auto simp: shm_do_def shm_calm_def Let_def)
    then show ?thesis unfolding c' using g cnt' mutex_agrees_exit [OF agree]
      by (intro shm_goodI [OF assms(1), where s' = "s\<lparr>sm_mutex := mutex_exit p (sm_mutex s)\<rparr>"]) (simp_all add: map_get_shm_exit)
  next
    case lock
    then have "(sm_mutex s = Unlocked \<and> pc = L_Count \<and> w = map_put ?m (s\<lparr>sm_mutex := Locked p\<rparr>) (sc_files c)) \<or>
        (sm_mutex s = Owner_Dead \<and> pc = L_Consistent \<and> w = map_put ?m (s\<lparr>sm_mutex := Inconsistent p\<rparr>) (sc_files c))"
      using d g agree by (cases "sm_mutex s") (auto simp: shm_do_def lock_call_def pthread_mutex_lock_def mutex_agrees_def mutex_errors Let_def)
    then show ?thesis using new_mutex agree by (elim disjE conjE) (auto simp: mutex_agrees_def)
  next
    case consistent
    then have i: "sm_mutex s = Inconsistent p" using agree by (simp add: mutex_agrees_def)
    then have "pc = L_Ref" "w = map_put ?m (s\<lparr>sm_mutex := Locked p\<rparr>) (sc_files c)"
      using d consistent g by (simp_all add: shm_do_def lock_step_def on_shm_def consistent_result_def pthread_mutex_consistent_def Let_def)
    moreover have "mutex_agrees (Locked p) ((sc_pc c)(p := L_Ref))" using agree i by (auto simp: mutex_agrees_def)
    ultimately show ?thesis using new_mutex [of "Locked p"] by simp
  next
    case unlock
    then have l: "sm_mutex s = Locked p" using agree by (simp add: mutex_agrees_def)
    then have "pc = S_Out" "w = map_put ?m (s\<lparr>sm_mutex := Unlocked\<rparr>) (sc_files c)"
      using d unlock g by (simp_all add: shm_do_def unlock_step_def on_shm_def pthread_mutex_unlock_def Let_def)
    moreover have "mutex_agrees Unlocked ((sc_pc c)(p := S_Out))" using agree l by (auto simp: mutex_agrees_def)
    ultimately show ?thesis using new_mutex [of Unlocked] by simp
  next
    case quiet
    obtain s' where "map_get sizeof_shm_mutex ?m w = Some s'" "sm_magic s' = SHM_MUTEX_MAGIC" "sm_mutex s' = sm_mutex s"
      "\<bar>sm_ref_count s'\<bar> \<le> int (Suc k)" "\<bar>sm_lock_count s'\<bar> \<le> int (Suc k)" "\<And>n. shm_value pc = Some n \<Longrightarrow> \<bar>n\<bar> \<le> int (Suc k)"
      "shm_calm pc" "shm_owns pc = shm_owns (sc_pc c p)" "pc \<noteq> L_Consistent"
      using shm_quiet_step [OF g e cnt _ assms(2,3) calm quiet d] val by blast
    moreover from this have "mutex_agrees (sm_mutex s') ((sc_pc c)(p := pc))" using mutex_agrees_move [OF agree, of pc p] quiet by simp
    ultimately show ?thesis unfolding c' by (intro shm_goodI [OF assms(1), where s' = s'])
  qed
qed

interpretation shm_steps: stepwise "shm_step e skey" "\<lambda>_. True" "\<lambda>k c. int_ok (- int k) \<and> int_ok (int k) \<longrightarrow> shm_good e skey k c" for e skey
  by unfold_locales (auto intro!: shm_good_step simp: cint_simps)


section \<open>What holds in every state\<close>

lemma shm_waits_iff:
  assumes "shm_good e skey k c"
  shows "shm_step e skey p a c = None \<longleftrightarrow> a \<noteq> Act_Exit \<and> sc_pc c p = L_Lock \<and> (\<exists>q. shm_owns (sc_pc c q) \<or> sc_pc c q = L_Consistent)"
proof -
  obtain s where g: "map_get sizeof_shm_mutex (Mapped (shm_file e skey)) (sc_files c) = Some s"
    and agree: "mutex_agrees (sm_mutex s) (sc_pc c)" and calm: "shm_calm (sc_pc c p)"
    using assms unfolding shm_good_def by blast
  have "lock_call (Mapped (shm_file e skey)) p (sc_files c) = None \<longleftrightarrow> (\<exists>q. sm_mutex s = Locked q \<or> sm_mutex s = Inconsistent q)"
    using g agree by (cases "sm_mutex s") (auto simp: lock_call_def pthread_mutex_lock_def mutex_agrees_def)
  then have "lock_call (Mapped (shm_file e skey)) p (sc_files c) = None \<longleftrightarrow> (\<exists>q. shm_owns (sc_pc c q) \<or> sc_pc c q = L_Consistent)"
    using agree by (simp add: mutex_agrees_def)
  then show ?thesis using calm by (auto simp: shm_step_def shm_do_def shm_calm_def Let_def bind_eq_None_conv split: prod.splits)
qed

lemma shm_one_owner:
  assumes "shm_good e skey k c" "shm_owns (sc_pc c p)" "shm_owns (sc_pc c q)"
  shows "p = q"
  using assms unfolding shm_good_def mutex_agrees_def by (metis robust_mutex.inject(1))

text \<open>
  Allocation is not safe for processes that come at the same time. Two processes that both read the magic number before one of them writes it both set the
  mutex up: the second one does so after the first one has locked it, so both are in, and the lock counts one user and one lock.
\<close>

definition race_schedule :: "pid \<Rightarrow> pid \<Rightarrow> (pid \<times> shm_act) list" where
  "race_schedule p q = replicate 4 (p, Act_Next) @ replicate 3 (q, Act_Next) @ replicate 10 (p, Act_Next) @ replicate 10 (q, Act_Next)"

theorem shm_mutex_alloc_race:
  assumes "env_ok e" and "w (shm_file e skey) = None" and "p \<noteq> q"
  shows "\<exists>c s. run_steps (shm_step e skey) (race_schedule p q) (shm_start w) = Some c \<and> sc_pc c p = S_In \<and> sc_pc c q = S_In \<and>
    map_get sizeof_shm_mutex (Mapped (shm_file e skey)) (sc_files c) = Some s \<and> sm_ref_count s = 1 \<and> sm_lock_count s = 1"
proof -
  have one: "cint (0 + 1) = Some 1" "cint 1 = Some 1" by (simp_all add: cint_simps)
  have ts: "replicate 4 x = [x, x, x, x]" "replicate 3 x = [x, x, x]" for x :: "pid \<times> shm_act" by (simp_all add: numeral_eq_Suc)
  show ?thesis
    using assms one
    by (simp add: race_schedule_def ts replicate_ten shm_step_defs shm_start_def env_ok_def map_get_def map_put_def shm_zero_def sizeof_shm_mutex_def
        SHM_MUTEX_MAGIC_def pthread_mutex_lock_def)
qed

end
