(* ===== verification/Shm_Rwlock.thy ===== *)
theory Shm_Rwlock
  imports Interleave Mmap_File
begin

text \<open>
  \<^verbatim>\<open>linux/utils/src/shm_rw_lock.c\<close>: a read-write lock in a mapped file. The lock follows POSIX: any number
  of readers or one writer; a call that cannot be granted waits. The use of a
  destroyed lock and the release of a lock that the caller does not have are undefined. The lock functions count the user before they ask for
  the lock, so a process that waits is counted already. First come the functions as a process that runs alone makes them, then their
  single steps, for processes that run at the same time.
\<close>

section \<open>The lock\<close>

datatype rwlock = Rwlock (rw_writer: "pid option") (rw_readers: "pid list") | Rw_Destroyed

definition EDEADLK :: int where "EDEADLK = 35"

definition pthread_rwlock_wrlock :: "pid \<Rightarrow> rwlock \<Rightarrow> rwlock call_result" where
  "pthread_rwlock_wrlock p l = (case l of
     Rw_Destroyed \<Rightarrow> Undefined_Call
   | Rwlock wr rs \<Rightarrow>
       if wr = Some p then Returns EDEADLK l else if wr = None \<and> rs = [] then Returns 0 (Rwlock (Some p) []) else Waits l)"

definition pthread_rwlock_rdlock :: "pid \<Rightarrow> rwlock \<Rightarrow> rwlock call_result" where
  "pthread_rwlock_rdlock p l = (case l of
     Rw_Destroyed \<Rightarrow> Undefined_Call
   | Rwlock wr rs \<Rightarrow>
       if wr = Some p then Returns EDEADLK l else if wr = None then Returns 0 (Rwlock None (p # rs)) else Waits l)"

definition pthread_rwlock_unlock :: "pid \<Rightarrow> rwlock \<Rightarrow> rwlock call_result" where
  "pthread_rwlock_unlock p l = (case l of
     Rw_Destroyed \<Rightarrow> Undefined_Call
   | Rwlock wr rs \<Rightarrow>
       if wr = Some p then Returns 0 (Rwlock None rs) else if p \<in> set rs then Returns 0 (Rwlock wr (remove1 p rs)) else Undefined_Call)"


section \<open>The code\<close>

definition SHM_RWLOCK_MAGIC :: int where
  "SHM_RWLOCK_MAGIC = 0x5aa53cc3"

record shm_rwlock =
  sr_magic :: int
  sr_name :: string
  sr_ref_count :: int
  sr_lock_count :: int
  sr_lock :: rwlock

definition rw_zero :: shm_rwlock where
  "rw_zero = \<lparr>sr_magic = 0, sr_name = [], sr_ref_count = 0, sr_lock_count = 0, sr_lock = Rwlock None []\<rparr>"

definition sizeof_shm_rwlock :: nat where
  "sizeof_shm_rwlock = 144"

definition shm_rwlock_alloc :: "mmap_env \<Rightarrow> string option \<Rightarrow> shm_rwlock mfiles \<Rightarrow> (mapping option \<times> shm_rwlock mfiles) option" where
  "shm_rwlock_alloc e key w = (case key of
     None \<Rightarrow> Some (None, w)
   | Some k \<Rightarrow>
       (let (ptr, w) = mmapfile rw_zero e (Some k) sizeof_shm_rwlock w
        in case ptr of
            None \<Rightarrow> Some (None, w)
          | Some m \<Rightarrow> do {
              s \<leftarrow> map_get sizeof_shm_rwlock m w;
              (if SHM_RWLOCK_MAGIC \<noteq> sr_magic s
               then Some (Some m, map_put m (rw_zero\<lparr>sr_magic := SHM_RWLOCK_MAGIC, sr_name := take 63 k, sr_ref_count := 0 + 1,
                 sr_lock := Rwlock None []\<rparr>) w)
               else Some (Some m, w)) }))"

definition shm_rwlock_destroy :: "mapping \<Rightarrow> shm_rwlock mfiles \<Rightarrow> (int \<times> shm_rwlock mfiles) option" where
  "shm_rwlock_destroy m w = do {
     s \<leftarrow> map_get sizeof_shm_rwlock m w;
     n \<leftarrow> cint (sr_ref_count s - 1);
     Some (0, map_put m (s\<lparr>sr_ref_count := n, sr_lock := Rw_Destroyed\<rparr>) w) }"

text \<open>The lock functions change the count and make one call; \<open>call\<close> is that call, \<open>d\<close> the change.\<close>

definition rw_counted_call ::
  "int \<Rightarrow> (rwlock \<Rightarrow> rwlock call_result) \<Rightarrow> mapping \<Rightarrow> shm_rwlock mfiles \<Rightarrow> shm_rwlock mfiles call_result" where
  "rw_counted_call d call m w = (case map_get sizeof_shm_rwlock m w of
     None \<Rightarrow> Undefined_Call
   | Some s \<Rightarrow> (case cint (sr_ref_count s + d) of
       None \<Rightarrow> Undefined_Call
     | Some n \<Rightarrow>
         (let s = s\<lparr>sr_ref_count := n\<rparr> in
          case call (sr_lock s) of
            Returns ret l \<Rightarrow> Returns ret (map_put m (s\<lparr>sr_lock := l\<rparr>) w)
          | Waits l \<Rightarrow> Waits (map_put m s w)
          | Undefined_Call \<Rightarrow> Undefined_Call)))"

definition shm_rwlock_wrlock :: "mapping \<Rightarrow> pid \<Rightarrow> shm_rwlock mfiles \<Rightarrow> shm_rwlock mfiles call_result" where
  "shm_rwlock_wrlock m p w = rw_counted_call 1 (pthread_rwlock_wrlock p) m w"

definition shm_rwlock_rdlock :: "mapping \<Rightarrow> pid \<Rightarrow> shm_rwlock mfiles \<Rightarrow> shm_rwlock mfiles call_result" where
  "shm_rwlock_rdlock m p w = rw_counted_call 1 (pthread_rwlock_rdlock p) m w"

definition shm_rwlock_unlock :: "mapping \<Rightarrow> pid \<Rightarrow> shm_rwlock mfiles \<Rightarrow> shm_rwlock mfiles call_result" where
  "shm_rwlock_unlock m p w = rw_counted_call (- 1) (pthread_rwlock_unlock p) m w"


section \<open>Readers and writers at the same time\<close>

text \<open>
  Where a process can be: outside; in a lock function, having read the count and not yet written it, or in the call of the lock; in, for reading or writing; in the unlock
  function, likewise. A process whose next statement is undefined is at \<open>Rw_Undef\<close>.
\<close>

datatype rw_mode = Reading | Writing

datatype rw_pc = Rw_Out | Rw_Count rw_mode int | Rw_Call rw_mode | Rw_In rw_mode | Rw_Discount rw_mode int | Rw_Unlock rw_mode | Rw_Undef

record rw_conf =
  rc_pc :: "pid \<Rightarrow> rw_pc"
  rc_files :: "shm_rwlock mfiles"

definition pthread_rwlock :: "rw_mode \<Rightarrow> pid \<Rightarrow> rwlock \<Rightarrow> rwlock call_result" where
  "pthread_rwlock md p l = (case md of Reading \<Rightarrow> pthread_rwlock_rdlock p l | Writing \<Rightarrow> pthread_rwlock_wrlock p l)"

definition at_pc :: "pid \<Rightarrow> rw_pc \<Rightarrow> rw_conf \<Rightarrow> rw_conf" where
  "at_pc p pc c = c\<lparr>rc_pc := (rc_pc c)(p := pc)\<rparr>"

definition put_rw :: "mapping \<Rightarrow> shm_rwlock \<Rightarrow> rw_conf \<Rightarrow> rw_conf" where
  "put_rw m s c = c\<lparr>rc_files := map_put m s (rc_files c)\<rparr>"

text \<open>
  One step of process \<open>p\<close>; the label is how a process that is outside wants the lock. A counter is written as the value that was read plus or minus 1.
\<close>

definition rw_step :: "mapping \<Rightarrow> (rw_mode, rw_conf) proc_step" where
  "rw_step m p md c = (case map_get sizeof_shm_rwlock m (rc_files c) of
     None \<Rightarrow> Some (at_pc p Rw_Undef c)
   | Some s \<Rightarrow> (case rc_pc c p of
       Rw_Out \<Rightarrow> Some (at_pc p (Rw_Count md (sr_ref_count s)) c)
     | Rw_Count md n \<Rightarrow> (case cint (n + 1) of
         None \<Rightarrow> Some (at_pc p Rw_Undef c)
       | Some n \<Rightarrow> Some (at_pc p (Rw_Call md) (put_rw m (s\<lparr>sr_ref_count := n\<rparr>) c)))
     | Rw_Call md \<Rightarrow> (case pthread_rwlock md p (sr_lock s) of
         Returns ret l \<Rightarrow> Some (at_pc p (if ret = 0 then Rw_In md else Rw_Out) (put_rw m (s\<lparr>sr_lock := l\<rparr>) c))
       | Waits l \<Rightarrow> None
       | Undefined_Call \<Rightarrow> Some (at_pc p Rw_Undef c))
     | Rw_In md \<Rightarrow> Some (at_pc p (Rw_Discount md (sr_ref_count s)) c)
     | Rw_Discount md n \<Rightarrow> (case cint (n - 1) of
         None \<Rightarrow> Some (at_pc p Rw_Undef c)
       | Some n \<Rightarrow> Some (at_pc p (Rw_Unlock md) (put_rw m (s\<lparr>sr_ref_count := n\<rparr>) c)))
     | Rw_Unlock md \<Rightarrow> (case pthread_rwlock_unlock p (sr_lock s) of
         Returns ret l \<Rightarrow> Some (at_pc p Rw_Out (put_rw m (s\<lparr>sr_lock := l\<rparr>) c))
       | Waits l \<Rightarrow> None
       | Undefined_Call \<Rightarrow> Some (at_pc p Rw_Undef c))
     | Rw_Undef \<Rightarrow> None))"

lemmas rw_step_defs = rw_step_def at_pc_def put_rw_def

text \<open>Alone, the steps are the functions: three of them make up the lock function, or two that leave the process waiting, and three make up the unlock function.\<close>

lemma rw_steps_alone_lock:
  assumes "rc_pc c p = Rw_Out"
  shows "case (case md of Reading \<Rightarrow> shm_rwlock_rdlock m p (rc_files c) | Writing \<Rightarrow> shm_rwlock_wrlock m p (rc_files c)) of
      Returns ret w \<Rightarrow> run_steps (rw_step m) [(p, md), (p, md), (p, md)] c =
        Some (at_pc p (if ret = 0 then Rw_In md else Rw_Out) (c\<lparr>rc_files := w\<rparr>))
    | Waits w \<Rightarrow> run_steps (rw_step m) [(p, md), (p, md)] c = Some (at_pc p (Rw_Call md) (c\<lparr>rc_files := w\<rparr>)) \<and>
        rw_step m p md (at_pc p (Rw_Call md) (c\<lparr>rc_files := w\<rparr>)) = None
    | Undefined_Call \<Rightarrow> True"
proof (cases "map_get sizeof_shm_rwlock m (rc_files c)")
  case None
  then show ?thesis by (cases md) (simp_all add: shm_rwlock_rdlock_def shm_rwlock_wrlock_def rw_counted_call_def)
next
  case (Some s)
  show ?thesis
  proof (cases "cint (sr_ref_count s + 1)")
    case None
    then show ?thesis using Some by (cases md) (simp_all add: shm_rwlock_rdlock_def shm_rwlock_wrlock_def rw_counted_call_def)
  next
    case cnt: (Some n)
    show ?thesis
      using Some cnt assms
      by (cases md; cases "sr_lock s")
        (auto simp: shm_rwlock_rdlock_def shm_rwlock_wrlock_def rw_counted_call_def rw_step_defs pthread_rwlock_def
          pthread_rwlock_rdlock_def pthread_rwlock_wrlock_def EDEADLK_def Let_def split: if_splits)
  qed
qed

lemma rw_steps_alone_unlock:
  assumes "rc_pc c p = Rw_In md" "shm_rwlock_unlock m p (rc_files c) = Returns ret w"
  shows "run_steps (rw_step m) [(p, md), (p, md), (p, md)] c = Some (at_pc p Rw_Out (c\<lparr>rc_files := w\<rparr>))"
proof -
  obtain s where s: "map_get sizeof_shm_rwlock m (rc_files c) = Some s"
    using assms(2) by (auto simp: shm_rwlock_unlock_def rw_counted_call_def split: option.splits)
  show ?thesis
    using s assms by (cases "sr_lock s") (auto simp: shm_rwlock_unlock_def rw_counted_call_def rw_step_defs pthread_rwlock_unlock_def Let_def
        split: if_splits option.splits)
qed


section \<open>The invariant\<close>

text \<open>The process has the lock in this mode.\<close>

definition rw_holds :: "rw_mode \<Rightarrow> rw_pc \<Rightarrow> bool" where
  "rw_holds md pc \<longleftrightarrow> (case pc of
     Rw_In md' \<Rightarrow> md' = md | Rw_Discount md' _ \<Rightarrow> md' = md | Rw_Unlock md' \<Rightarrow> md' = md | _ \<Rightarrow> False)"

definition rw_read_value :: "rw_pc \<Rightarrow> int option" where
  "rw_read_value pc = (case pc of Rw_Count _ n \<Rightarrow> Some n | Rw_Discount _ n \<Rightarrow> Some n | _ \<Rightarrow> None)"

text \<open>The lock is what the program counters say; after \<open>k\<close> steps the count, and every value of it that a process has read, is off from the start by at most \<open>k\<close>.\<close>

definition rw_good :: "mapping \<Rightarrow> int \<Rightarrow> nat \<Rightarrow> rw_conf \<Rightarrow> bool" where
  "rw_good m n0 k c \<longleftrightarrow> (\<exists>s wr xs. map_get sizeof_shm_rwlock m (rc_files c) = Some s \<and> sr_lock s = Rwlock wr xs \<and>
     (\<forall>p. wr = Some p \<longleftrightarrow> rw_holds Writing (rc_pc c p)) \<and> (\<forall>p. p \<in> set xs \<longleftrightarrow> rw_holds Reading (rc_pc c p)) \<and> distinct xs \<and>
     (wr \<noteq> None \<longrightarrow> xs = []) \<and> \<bar>sr_ref_count s - n0\<bar> \<le> int k \<and>
     (\<forall>p n. rw_read_value (rc_pc c p) = Some n \<longrightarrow> \<bar>n - n0\<bar> \<le> int k) \<and> (\<forall>p. rc_pc c p \<noteq> Rw_Undef))"

lemma rw_holds_simps [simp]:
  "\<not> rw_holds md Rw_Out" "\<not> rw_holds md (Rw_Count md' n)" "\<not> rw_holds md (Rw_Call md')" "\<not> rw_holds md Rw_Undef"
  "rw_holds md (Rw_In md') \<longleftrightarrow> md' = md" "rw_holds md (Rw_Discount md' n) \<longleftrightarrow> md' = md" "rw_holds md (Rw_Unlock md') \<longleftrightarrow> md' = md"
  by (simp_all add: rw_holds_def)

lemma rw_read_value_simps [simp]:
  "rw_read_value Rw_Out = None" "rw_read_value (Rw_Count md n) = Some n" "rw_read_value (Rw_Call md) = None" "rw_read_value Rw_Undef = None"
  "rw_read_value (Rw_In md) = None" "rw_read_value (Rw_Discount md n) = Some n" "rw_read_value (Rw_Unlock md) = None"
  by (simp_all add: rw_read_value_def)

text \<open>
  A step keeps the invariant if it keeps the lock in agreement with the new program counter and stays near the old values.
\<close>

lemma rw_goodI:
  assumes "rw_good m n0 k c" "map_get sizeof_shm_rwlock m (rc_files c) = Some s"
    and "map_get sizeof_shm_rwlock m w = Some s'" "sr_lock s' = Rwlock wr xs" "distinct xs" "wr \<noteq> None \<longrightarrow> xs = []"
    and "\<And>q. wr = Some q \<longleftrightarrow> rw_holds Writing (((rc_pc c)(p := pc)) q)" "\<And>q. q \<in> set xs \<longleftrightarrow> rw_holds Reading (((rc_pc c)(p := pc)) q)"
    and "\<bar>sr_ref_count s' - n0\<bar> \<le> int (Suc k)" "\<And>n. rw_read_value pc = Some n \<Longrightarrow> \<bar>n - n0\<bar> \<le> int (Suc k)" "pc \<noteq> Rw_Undef"
  shows "rw_good m n0 (Suc k) \<lparr>rc_pc = (rc_pc c)(p := pc), rc_files = w\<rparr>"
proof -
  have "\<bar>n - n0\<bar> \<le> int (Suc k)" if "rw_read_value (((rc_pc c)(p := pc)) q) = Some n" for q n
    using that assms(1,10) unfolding rw_good_def by (cases "q = p") fastforce+
  moreover have "((rc_pc c)(p := pc)) q \<noteq> Rw_Undef" for q using assms(1,11) unfolding rw_good_def by auto
  ultimately show ?thesis
    unfolding rw_good_def using assms(3-9)
    by (intro exI [of _ s'] exI [of _ wr] exI [of _ xs]) simp
qed

lemma conf_eq: "at_pc p pc c = \<lparr>rc_pc = (rc_pc c)(p := pc), rc_files = rc_files c\<rparr>"
  "at_pc p pc (put_rw m s c) = \<lparr>rc_pc = (rc_pc c)(p := pc), rc_files = map_put m s (rc_files c)\<rparr>"
  by (simp_all add: at_pc_def put_rw_def)

lemma rw_good_step:
  assumes "rw_good m n0 k c" "int_ok (n0 - int (Suc k))" "int_ok (n0 + int (Suc k))" "rw_step m p md c = Some c'"
  shows "rw_good m n0 (Suc k) c'"
proof -
  obtain s wr xs where g: "map_get sizeof_shm_rwlock m (rc_files c) = Some s" "sr_lock s = Rwlock wr xs"
    and wr: "\<And>q. wr = Some q \<longleftrightarrow> rw_holds Writing (rc_pc c q)" and xs: "\<And>q. q \<in> set xs \<longleftrightarrow> rw_holds Reading (rc_pc c q)"
    and d: "distinct xs" "wr \<noteq> None \<longrightarrow> xs = []" and cnt: "\<bar>sr_ref_count s - n0\<bar> \<le> int k"
    and val: "\<And>q n. rw_read_value (rc_pc c q) = Some n \<Longrightarrow> \<bar>n - n0\<bar> \<le> int k" and def: "rc_pc c p \<noteq> Rw_Undef"
    using assms(1) unfolding rw_good_def by blast
  have put: "map_get sizeof_shm_rwlock m (map_put m s' (rc_files c)) = Some s'" for s' using g(1) by simp
  note keep = rw_goodI [OF assms(1) g(1)]
  have near: "int_ok (n + 1) \<and> int_ok (n - 1) \<and> \<bar>n + 1 - n0\<bar> \<le> int (Suc k) \<and> \<bar>n - 1 - n0\<bar> \<le> int (Suc k)" if "\<bar>n - n0\<bar> \<le> int k" for n
    using that assms(2,3) by (auto simp: cint_simps)
  have cnt': "\<bar>sr_ref_count s - n0\<bar> \<le> int (Suc k)" using cnt by simp
  show ?thesis
  proof (cases "rc_pc c p")
    case Rw_Out
    then have c': "c' = at_pc p (Rw_Count md (sr_ref_count s)) c" using assms(4) g by (simp add: rw_step_def)
    show ?thesis unfolding c' conf_eq(1)
      by (rule keep [OF g(1), of wr xs]) (use Rw_Out wr xs d g cnt' in auto)
  next
    case (Rw_Count md' n)
    note nr = near [OF val [of p n]]
    have c': "c' = at_pc p (Rw_Call md') (put_rw m (s\<lparr>sr_ref_count := n + 1\<rparr>) c)" using assms(4) g Rw_Count nr by (simp add: rw_step_def)
    show ?thesis unfolding c' conf_eq(2)
      by (rule keep [OF put, of _ wr xs]) (use Rw_Count wr xs d g nr in auto)
  next
    case (Rw_Call md')
    then obtain ret l where r: "pthread_rwlock md' p (sr_lock s) = Returns ret l"
        "c' = at_pc p (if ret = 0 then Rw_In md' else Rw_Out) (put_rw m (s\<lparr>sr_lock := l\<rparr>) c)"
      using assms(4) g by (auto simp: rw_step_def pthread_rwlock_def pthread_rwlock_rdlock_def pthread_rwlock_wrlock_def
          split: call_result.splits rw_mode.splits if_splits)
    have free: "wr \<noteq> Some p" using wr [of p] Rw_Call by simp
    then have l: "ret = 0" "(md' = Reading \<and> wr = None \<and> l = Rwlock None (p # xs)) \<or> (md' = Writing \<and> wr = None \<and> xs = [] \<and> l = Rwlock (Some p) [])"
      using r(1) g(2) by (cases md'; auto simp: pthread_rwlock_def pthread_rwlock_rdlock_def pthread_rwlock_wrlock_def split: if_splits)+
    have "p \<notin> set xs" using xs [of p] Rw_Call by simp
    from l(2) show ?thesis
    proof (elim disjE conjE)
      assume rd: "md' = Reading" "wr = None" "l = Rwlock None (p # xs)"
      show ?thesis unfolding r(2) conf_eq(2) l(1)
        by (rule keep [OF put, of _ None "p # xs"]) (use rd wr xs d cnt' \<open>p \<notin> set xs\<close> in auto)
    next
      assume wl: "md' = Writing" "wr = None" "xs = []" "l = Rwlock (Some p) []"
      show ?thesis unfolding r(2) conf_eq(2) l(1)
        by (rule keep [OF put, of _ "Some p" "[]"]) (use wl wr xs cnt' in auto)
    qed
  next
    case (Rw_In md')
    then have c': "c' = at_pc p (Rw_Discount md' (sr_ref_count s)) c" using assms(4) g by (simp add: rw_step_def)
    show ?thesis unfolding c' conf_eq(1)
      by (rule keep [OF g(1), of wr xs]) (use Rw_In wr xs d g cnt' in auto)
  next
    case (Rw_Discount md' n)
    note nr = near [OF val [of p n]]
    have c': "c' = at_pc p (Rw_Unlock md') (put_rw m (s\<lparr>sr_ref_count := n - 1\<rparr>) c)" using assms(4) g Rw_Discount nr by (simp add: rw_step_def)
    show ?thesis unfolding c' conf_eq(2)
      by (rule keep [OF put, of _ wr xs]) (use Rw_Discount wr xs d g nr in auto)
  next
    case (Rw_Unlock md')
    show ?thesis
    proof (cases md')
      case Writing
      then have w: "wr = Some p" "xs = []" using wr [of p] Rw_Unlock d(2) by auto
      then have c': "c' = at_pc p Rw_Out (put_rw m (s\<lparr>sr_lock := Rwlock None []\<rparr>) c)"
        using assms(4) g Rw_Unlock by (simp add: rw_step_def pthread_rwlock_unlock_def)
      have other: "\<not> rw_holds Writing (rc_pc c q)" if "q \<noteq> p" for q using wr [of q] w(1) that by auto
      have none: "\<not> rw_holds Reading (rc_pc c q)" for q using xs [of q] w(2) by simp
      show ?thesis unfolding c' conf_eq(2)
        by (rule keep [OF put, of _ None "[]"]) (use other none cnt' in auto)
    next
      case Reading
      then have r: "p \<in> set xs" "wr = None" using xs [of p] Rw_Unlock d(2) by auto
      then have c': "c' = at_pc p Rw_Out (put_rw m (s\<lparr>sr_lock := Rwlock None (remove1 p xs)\<rparr>) c)"
        using assms(4) g Rw_Unlock by (simp add: rw_step_def pthread_rwlock_unlock_def)
      show ?thesis unfolding c' conf_eq(2)
        by (rule keep [OF put, of _ None "remove1 p xs"]) (use r wr xs d(1) cnt' in \<open>auto simp: set_remove1_eq\<close>)
    qed
  qed (use def in simp)
qed

interpretation rw: stepwise "rw_step m" "\<lambda>_. True" "\<lambda>k c. int_ok (base - int k) \<and> int_ok (base + int k) \<longrightarrow> rw_good m base k c" for m base
  by unfold_locales (auto intro!: rw_good_step simp: cint_simps)


section \<open>Properties\<close>

definition rw_start :: "shm_rwlock mfiles \<Rightarrow> rw_conf" where
  "rw_start w = \<lparr>rc_pc = (\<lambda>_. Rw_Out), rc_files = w\<rparr>"

lemma rw_start_good:
  assumes "map_get sizeof_shm_rwlock m w = Some s" "sr_lock s = Rwlock None []"
  shows "rw_good m (sr_ref_count s) 0 (rw_start w)"
  unfolding rw_good_def rw_start_def using assms by (intro exI [of _ s] exI [of _ None] exI [of _ "[]"]) simp

text \<open>
  C22: Readers and writers exclude each other. Any number of processes lock a lock that is free at the start, for reading or writing, and unlock it, over and over; their
  statements, and the reads and writes of the user count, interleave in any way, and the schedule is not so long that the count could leave the range of an \<open>int\<close>. Then nothing undefined happens; at every moment
  a process that has the lock for writing is the only one that has it; and every process can make its next step, except that a process in the call for
  the lock waits just as long as another process has the lock for writing, or, if it wants to write, at all.
\<close>

theorem shm_rwlock_exclusion:
  assumes "run_steps (rw_step m) sched (rw_start w0) = Some c"
    and "map_get sizeof_shm_rwlock m w0 = Some s0" and "sr_lock s0 = Rwlock None []"
    and "int_ok (sr_ref_count s0 - int (length sched))" and "int_ok (sr_ref_count s0 + int (length sched))"
  shows "(\<forall>p q md. rw_holds Writing (rc_pc c p) \<and> rw_holds md (rc_pc c q) \<longrightarrow> p = q) \<and> (\<forall>p. rc_pc c p \<noteq> Rw_Undef) \<and>
    (\<forall>p md. rw_step m p md c = None \<longleftrightarrow>
      (\<exists>q. rc_pc c p = Rw_Call Reading \<and> rw_holds Writing (rc_pc c q)) \<or> (\<exists>q md. rc_pc c p = Rw_Call Writing \<and> rw_holds md (rc_pc c q)))"
proof -
  have "rw_good m (sr_ref_count s0) (length sched) c"
    using rw.run_inv [OF assms(1), where k = 0 and base = "sr_ref_count s0"] rw_start_good [OF assms(2,3)] assms(4,5) by (simp add: list_all_iff)
  then obtain s wr xs where g: "map_get sizeof_shm_rwlock m (rc_files c) = Some s" "sr_lock s = Rwlock wr xs"
    and wr: "\<And>q. wr = Some q \<longleftrightarrow> rw_holds Writing (rc_pc c q)" and xs: "\<And>q. q \<in> set xs \<longleftrightarrow> rw_holds Reading (rc_pc c q)"
    and d: "wr \<noteq> None \<longrightarrow> xs = []" and def: "\<And>q. rc_pc c q \<noteq> Rw_Undef"
    unfolding rw_good_def by blast
  have one: "p = q" if "rw_holds Writing (rc_pc c p)" "rw_holds md (rc_pc c q)" for p q md
    using that wr [of p] wr [of q] xs [of q] d by (cases md) auto
  have waits: "rw_step m p md c = None \<longleftrightarrow>
      (\<exists>q. rc_pc c p = Rw_Call Reading \<and> rw_holds Writing (rc_pc c q)) \<or> (\<exists>q md. rc_pc c p = Rw_Call Writing \<and> rw_holds md (rc_pc c q))" for p md
  proof (cases "rc_pc c p")
    case (Rw_Call md')
    have nowr: "wr \<noteq> Some p" using wr [of p] Rw_Call by simp
    have ex: "(\<exists>q. rw_holds Writing (rc_pc c q)) \<longleftrightarrow> wr \<noteq> None" "(\<exists>q. rw_holds Reading (rc_pc c q)) \<longleftrightarrow> xs \<noteq> []"
      using wr xs by (metis not_None_eq, metis all_not_in_conv set_empty)
    have any: "(\<exists>q md. rw_holds md (rc_pc c q)) \<longleftrightarrow> wr \<noteq> None \<or> xs \<noteq> []" using ex by (metis rw_mode.exhaust)
    show ?thesis
    proof (cases md')
      case Reading
      then show ?thesis using Rw_Call g nowr ex by (auto simp: rw_step_def pthread_rwlock_def pthread_rwlock_rdlock_def)
    next
      case Writing
      then show ?thesis using Rw_Call g nowr any by (auto simp: rw_step_def pthread_rwlock_def pthread_rwlock_wrlock_def)
    qed
  next
    case (Rw_Unlock md')
    then have "wr = Some p \<or> p \<in> set xs" using wr [of p] xs [of p] by (cases md') auto
    then show ?thesis using Rw_Unlock g by (auto simp: rw_step_def pthread_rwlock_unlock_def)
  qed (use def g in \<open>auto simp: rw_step_def split: option.splits\<close>)
  show ?thesis using one waits def by blast
qed

definition demo_rw :: "shm_rwlock mfiles" where
  "demo_rw = [''/tmp/k'' \<mapsto> \<lparr>mf_len = 144, mf_data = rw_zero\<lparr>sr_magic := SHM_RWLOCK_MAGIC, sr_ref_count := 1\<rparr>\<rparr>]"

lemma demo_rw_get: "map_get sizeof_shm_rwlock (Mapped ''/tmp/k'') demo_rw = Some (rw_zero\<lparr>sr_magic := SHM_RWLOCK_MAGIC, sr_ref_count := 1\<rparr>)"
  by (simp add: map_get_def demo_rw_def sizeof_shm_rwlock_def)

text \<open>
  The user count is not reliable. Two readers that come at the same time both read the count before one of them writes it: both are in, and the count
  has gone up by one only.
\<close>

theorem shm_rwlock_count_lost:
  assumes "map_get sizeof_shm_rwlock m w0 = Some s0" and "sr_lock s0 = Rwlock None []" and "int_ok (sr_ref_count s0 + 1)" and "p \<noteq> q"
  shows "\<exists>c. run_steps (rw_step m) [(p, Reading), (q, Reading), (p, Reading), (q, Reading), (p, Reading), (q, Reading)] (rw_start w0) = Some c \<and>
    rc_pc c p = Rw_In Reading \<and> rc_pc c q = Rw_In Reading \<and>
    map_option sr_ref_count (map_get sizeof_shm_rwlock m (rc_files c)) = Some (sr_ref_count s0 + 1)"
  using assms by (simp add: rw_step_defs rw_start_def pthread_rwlock_def pthread_rwlock_rdlock_def)

text \<open>In the witness a reader comes in and a writer waits for it.\<close>

theorem shm_rwlock_exclusion_witness:
  "\<exists>c. run_steps (rw_step (Mapped ''/tmp/k'')) [(1, Reading), (1, Reading), (2, Writing), (1, Reading), (2, Writing)] (rw_start demo_rw) = Some c \<and>
    rc_pc c 1 = Rw_In Reading \<and> rc_pc c 2 = Rw_Call Writing \<and> rw_step (Mapped ''/tmp/k'') 2 Writing c = None"
proof -
  let ?m = "Mapped ''/tmp/k''" and ?sched = "[(1, Reading), (1, Reading), (2, Writing), (1, Reading), (2, Writing)]"
    and ?s = "rw_zero\<lparr>sr_magic := SHM_RWLOCK_MAGIC, sr_ref_count := 1\<rparr>"
  have lock: "sr_lock ?s = Rwlock None []" "sr_ref_count ?s = 1" by (simp_all add: rw_zero_def)
  obtain c where c: "run_steps (rw_step ?m) ?sched (rw_start demo_rw) = Some c" "rc_pc c 1 = Rw_In Reading" "rc_pc c 2 = Rw_Call Writing"
    using demo_rw_get lock by (simp add: rw_step_defs rw_start_def pthread_rwlock_def pthread_rwlock_rdlock_def cint_simps)
  moreover have "rw_step ?m 2 Writing c = None"
    using shm_rwlock_exclusion [OF c(1) demo_rw_get lock(1)] c(2,3) by (simp add: lock(2) cint_simps) (metis rw_holds_simps(5))
  ultimately show ?thesis by blast
qed

text \<open>
  Destroying one handle breaks the lock for everybody. \<open>shm_rwlock_destroy\<close> destroys the lock in the
  shared file whoever else uses it and leaves the magic number, so that a later \<open>shm_rwlock_alloc\<close>
  returns the destroyed lock as if it were good, and every operation on it is undefined.
\<close>

theorem shm_rwlock_destroy_poisons:
  assumes "map_get sizeof_shm_rwlock (Mapped (env_path e k)) w = Some s" and "sr_magic s = SHM_RWLOCK_MAGIC"
    and "int_ok (sr_ref_count s - 1)" and "env_ok e" and "length k \<le> PATH_MAX"
  shows "\<exists>w1 w2. shm_rwlock_destroy (Mapped (env_path e k)) w = Some (0, w1) \<and>
    shm_rwlock_alloc e (Some k) w1 = Some (Some (Mapped (env_path e k)), w2) \<and>
    shm_rwlock_rdlock (Mapped (env_path e k)) p w2 = Undefined_Call \<and> shm_rwlock_wrlock (Mapped (env_path e k)) p w2 = Undefined_Call \<and>
    shm_rwlock_unlock (Mapped (env_path e k)) p w2 = Undefined_Call"
proof -
  let ?m = "Mapped (env_path e k)" and ?s = "s\<lparr>sr_ref_count := sr_ref_count s - 1, sr_lock := Rw_Destroyed\<rparr>"
  let ?w1 = "map_put ?m ?s w"
  have d: "shm_rwlock_destroy ?m w = Some (0, ?w1)" using assms(1,3) by (simp add: shm_rwlock_destroy_def)
  have g: "map_get sizeof_shm_rwlock ?m ?w1 = Some ?s" using assms(1) by simp
  then have data: "(case ?w1 (env_path e k) of None \<Rightarrow> rw_zero | Some f \<Rightarrow> mf_data f) = ?s"
    by (auto simp: map_get_def bind_eq_Some_conv split: if_splits)
  obtain w2 where w2: "mmapfile rw_zero e (Some k) sizeof_shm_rwlock ?w1 = (Some ?m, w2)" "map_get sizeof_shm_rwlock ?m w2 = Some ?s"
    using mmapfile_maps [OF assms(4,5), of sizeof_shm_rwlock rw_zero ?w1] data by (auto simp: sizeof_shm_rwlock_def)
  have "shm_rwlock_alloc e (Some k) ?w1 = Some (Some ?m, w2)"
    using w2 assms(2) by (simp add: shm_rwlock_alloc_def)
  moreover have "shm_rwlock_rdlock ?m p w2 = Undefined_Call" "shm_rwlock_wrlock ?m p w2 = Undefined_Call" "shm_rwlock_unlock ?m p w2 = Undefined_Call"
    using w2(2) by (auto simp: shm_rwlock_rdlock_def shm_rwlock_wrlock_def shm_rwlock_unlock_def rw_counted_call_def pthread_rwlock_rdlock_def
        pthread_rwlock_wrlock_def pthread_rwlock_unlock_def split: option.splits)
  ultimately show ?thesis using d by blast
qed

theorem shm_rwlock_destroy_poisons_witness:
  "\<exists>w1. shm_rwlock_destroy (Mapped ''/tmp/k'') demo_rw = Some (0, w1)"
  using shm_rwlock_destroy_poisons [of "\<lparr>me_realpath = (\<lambda>_. None), me_open = True, me_ftruncate = True, me_mmap = True\<rparr>" "''/tmp/k''" demo_rw
      "rw_zero\<lparr>sr_magic := SHM_RWLOCK_MAGIC, sr_ref_count := 1\<rparr>"]
  by (auto simp: map_get_def demo_rw_def sizeof_shm_rwlock_def rw_zero_def env_path_def env_ok_def PATH_MAX_def cint_simps)

end
