(* ===== verification/File_Utils.thy ===== *)
theory File_Utils
  imports C_Strings
begin

text \<open>
  \<^verbatim>\<open>linux/utils/src/file_utils.c\<close> and \<^verbatim>\<open>file_library.c\<close>: whole-file helpers on top of stdio. The files are a map
  from paths to their bytes; which files may be opened for reading and for writing, and how many bytes
  the device still takes, are arguments. A command is run by \<open>shell\<close>, which gives its output or fails. A
  buffer of the caller is a list of exactly the bytes that may be accessed, and an access outside it is
  \<^const>\<open>None\<close>.
\<close>

type_synonym files = "string \<Rightarrow> u8 list option"

record file_env =
  fe_read :: "string \<Rightarrow> bool"
  fe_write :: "string \<Rightarrow> bool"
  fe_room :: nat

text \<open>\<open>fopen\<close> for reading gives the contents; for writing it makes the file empty.\<close>

definition fopen_rb :: "file_env \<Rightarrow> string \<Rightarrow> files \<Rightarrow> u8 list option" where
  "fopen_rb e n w = (if fe_read e n then w n else None)"

definition fopen_wb :: "file_env \<Rightarrow> string \<Rightarrow> files \<Rightarrow> files option" where
  "fopen_wb e n w = (if fe_write e n then Some (w(n \<mapsto> [])) else None)"

text \<open>The conversion of a \<open>long\<close> to an \<open>int\<close>.\<close>

definition long_to_int :: "int \<Rightarrow> int" where
  "long_to_int x = sint (word_of_int x :: u32)"

text \<open>A signed number as an unsigned size: negative ones become larger than every object.\<close>

definition size_arg :: "int \<Rightarrow> nat option" where
  "size_arg n = (if n < 0 then None else Some (nat n))"


section \<open>Sizes\<close>

definition file_get_size :: "u8 list \<Rightarrow> int" where
  "file_get_size content = long_to_int (int (length content))"

definition file_get_size_by_path :: "file_env \<Rightarrow> string \<Rightarrow> files \<Rightarrow> int" where
  "file_get_size_by_path e file_path w = (case fopen_rb e file_path w of
     None \<Rightarrow> - 1
   | Some content \<Rightarrow> file_get_size content)"

definition gplib_get_file_size :: "file_env \<Rightarrow> string \<Rightarrow> files \<Rightarrow> int" where
  "gplib_get_file_size e name w = (case fopen_rb e name w of
     None \<Rightarrow> - 1
   | Some content \<Rightarrow> int (length content))"


section \<open>Reading and writing\<close>

text \<open>
  \<open>fread\<close> of one object of the given size: as many of its bytes as the file has are stored. The size
  is the value of \<open>size < len ? : len\<close>, which is 1 when the comparison holds.
\<close>

definition fread_one :: "int \<Rightarrow> u8 list \<Rightarrow> u8 list \<Rightarrow> u8 list option" where
  "fread_one sz content buffer =
     (let n = (case size_arg sz of None \<Rightarrow> length content | Some k \<Rightarrow> min k (length content))
      in if n \<le> length buffer then Some (take n content @ drop n buffer) else None)"

definition file_read_to_buffer :: "file_env \<Rightarrow> string \<Rightarrow> u8 list \<Rightarrow> int \<Rightarrow> files \<Rightarrow> (int \<times> u8 list) option" where
  "file_read_to_buffer e file_name buffer len w = (case fopen_rb e file_name w of
     None \<Rightarrow> Some (- 1, buffer)
   | Some content \<Rightarrow>
       (let sz = long_to_int (int (length content));
            sz = (if sz < len then 1 else len)
        in do { b \<leftarrow> fread_one sz content buffer; Some (0, b) }))"

text \<open>The results of \<open>fwrite\<close> and \<open>fflush\<close> are not looked at; the device takes \<open>fe_room\<close> bytes.\<close>

definition file_write_from_buffer :: "file_env \<Rightarrow> string \<Rightarrow> u8 list \<Rightarrow> int \<Rightarrow> files \<Rightarrow> (int \<times> files) option" where
  "file_write_from_buffer e file_name buffer len w = (case fopen_wb e file_name w of
     None \<Rightarrow> Some (- 1, w)
   | Some w \<Rightarrow> do {
       n \<leftarrow> size_arg len;
       (if n \<le> length buffer then Some (0, w(file_name \<mapsto> take (fe_room e) (take n buffer))) else None) })"

definition READ_BUF_MAX_LEN :: nat where
  "READ_BUF_MAX_LEN = 1024"

text \<open>
  The copy loop: \<open>pos\<close> is the position in the source, the list what has been written. The end-of-file
  flag is set by a read that delivers less than it was asked for.
\<close>

function copy_loop :: "u8 list \<Rightarrow> nat \<Rightarrow> u8 list \<Rightarrow> u8 list" where
  "copy_loop content pos written =
     (let chunk = take READ_BUF_MAX_LEN (drop pos content) in
      if length chunk < READ_BUF_MAX_LEN then written @ chunk
      else copy_loop content (pos + length chunk) (written @ chunk))"
  by pat_completeness auto
termination
  by (relation "measure (\<lambda>(content, pos, written). length content - pos)") (auto simp: READ_BUF_MAX_LEN_def)

declare copy_loop.simps [simp del]

definition file_copy_content :: "file_env \<Rightarrow> string \<Rightarrow> string \<Rightarrow> files \<Rightarrow> int \<times> files" where
  "file_copy_content e src_file dst_file w =
     (if w src_file = None then (- 1, w)
      else if fopen_rb e src_file w = None then (- 1, w)
      else (case fopen_wb e dst_file w of
          None \<Rightarrow> (- 1, w)
        | Some w \<Rightarrow>
            (let content = (case w src_file of None \<Rightarrow> [] | Some c \<Rightarrow> c)
             in (0, w(dst_file \<mapsto> take (fe_room e) (copy_loop content 0 []))))))"


section \<open>Commands\<close>

text \<open>The loop over the output of the command; \<open>tmp\<close> has 256 bytes.\<close>

function cmd_loop :: "string \<Rightarrow> string \<Rightarrow> nat \<Rightarrow> int \<Rightarrow> string option" where
  "cmd_loop out buf offset sz =
     (if out = [] then Some buf
      else
        (let (line, rest) = fgets 255 out;
             tmp = c_string line
         in if sz \<le> int (offset + length tmp) then array_set buf (int offset) NUL
            else do { buf \<leftarrow> strcpy_at buf offset tmp; cmd_loop rest buf (offset + length tmp) sz }))"
  by pat_completeness auto
termination
proof (relation "measure (\<lambda>(out, buf, offset, sz). length out)")
  fix out buf :: string and offset :: nat and sz :: int and x line rest tmp buf'
  assume "out \<noteq> []" "x = fgets 255 out" "(line, rest) = x"
  then have "fgets 255 out = (line, rest)" "out \<noteq> []" by simp_all
  then have "out = line @ rest" "line \<noteq> []" using fgets_append fgets_nonempty by (blast, fastforce)
  then show "((rest, buf', offset + length tmp, sz), (out, buf, offset, sz)) \<in> measure (\<lambda>(out, buf, offset, sz). length out)"
    by simp
qed simp

declare cmd_loop.simps [simp del]

text \<open>The first component tells whether the command could be started; it is the result not being NULL.\<close>

definition file_system_cmd :: "(string \<Rightarrow> string option) \<Rightarrow> string \<Rightarrow> string \<Rightarrow> int \<Rightarrow> (bool \<times> string) option" where
  "file_system_cmd shell cmd buf sz = (case shell cmd of
     None \<Rightarrow> Some (False, buf)
   | Some out \<Rightarrow> do { b \<leftarrow> cmd_loop out buf 0 sz; Some (True, b) })"

definition file_system :: "(string \<Rightarrow> string option) \<Rightarrow> string \<Rightarrow> int option" where
  "file_system shell command = do { _ \<leftarrow> file_system_cmd shell command (replicate 1024 NUL) 1024; Some 0 }"

definition file_is_process_running :: "(string \<Rightarrow> string option) \<Rightarrow> string \<Rightarrow> int option" where
  "file_is_process_running shell name =
     (let cmd = ''ps | grep '' @ name @ '' | grep -v grep |wc -l'' in
      if 128 \<le> length cmd then None
      else do {
        (_, buf) \<leftarrow> file_system_cmd shell cmd (replicate 1024 NUL) 1024;
        Some (atoi (c_string buf)) })"

text \<open>
  \<open>link\<close> is the target of \<^verbatim>\<open>/proc/self/exe\<close>, \<open>None\<close> when it cannot be read; \<open>readlink\<close> stores at most 128 bytes of it
  and no terminator. The result \<open>None\<close> of the inner type is the constant empty string; otherwise it is
  the buffer of the caller.
\<close>

definition strrchr_slash :: "string \<Rightarrow> string option" where
  "strrchr_slash s = (if CHR ''/'' \<in> set s then Some (rev (takeWhile (\<lambda>c. c \<noteq> CHR ''/'') (rev s))) else None)"

definition file_get_process_name :: "string option \<Rightarrow> string \<Rightarrow> int \<Rightarrow> string option option" where
  "file_get_process_name link name len = (case link of
     None \<Rightarrow> Some None
   | Some l \<Rightarrow>
       if 128 \<le> length l then None
       else (case strrchr_slash (c_string l) of
           None \<Rightarrow> Some None
         | Some base \<Rightarrow>
             (let copy_len = (if len < 0 \<or> int (length base) < len then length base else nat len)
              in if copy_len \<le> length name then Some (Some (take copy_len base @ drop copy_len name)) else None)))"


section \<open>Properties\<close>

lemma long_to_int_id: "int_ok x \<Longrightarrow> long_to_int x = x"
  by (simp add: long_to_int_def cint_simps signed_of_int signed_take_bit_int_eq_self)

lemma size_arg_nat [simp]: "size_arg (int n) = Some n"
  by (simp add: size_arg_def)

text \<open>
  Writing a buffer to a file and reading it back. The file has the size that was written, and
  \<open>file_read_to_buffer\<close> with that length, or a smaller one, delivers its bytes; but a caller that asks for
  more than the file has gets the first byte only, because the length is computed as the value of a
  comparison.
\<close>

theorem file_write_read_back:
  assumes "fe_read e f" and "fe_write e f" and "n \<le> length buf" and "n \<le> fe_room e" and "int_ok (int n)" and "0 < n"
    and "n \<le> length dst"
  shows "\<exists>w'. file_write_from_buffer e f buf (int n) w = Some (0, w') \<and>
    file_get_size_by_path e f w' = int n \<and> gplib_get_file_size e f w' = int n \<and>
    (\<forall>k\<le>n. file_read_to_buffer e f dst (int k) w' = Some (0, take k buf @ drop k dst)) \<and>
    (\<forall>k>n. file_read_to_buffer e f dst (int k) w' = Some (0, buf ! 0 # drop 1 dst))"
proof -
  have len: "long_to_int (int n) = int n" using assms(5) by (rule long_to_int_id)
  have first: "take (Suc 0) (take n buf) = [buf ! 0]"
    using assms(3,6) by (cases buf; cases n) simp_all
  have one: "size_arg 1 = Some (Suc 0)" by (simp add: size_arg_def)
  have read1: "fread_one (int k) (take n buf) dst = Some (take k buf @ drop k dst)" if "k \<le> n" for k
    using that assms(3,7) by (simp add: fread_one_def min_absorb1)
  have read2: "fread_one 1 (take n buf) dst = Some (buf ! 0 # drop 1 dst)"
    using first one assms(3,6,7) by (simp add: fread_one_def min_def)
  show ?thesis
    using assms(1-4) len read1 read2
    by (simp add: file_write_from_buffer_def fopen_wb_def file_get_size_by_path_def gplib_get_file_size_def file_get_size_def
        fopen_rb_def file_read_to_buffer_def Let_def min_absorb1 min_absorb2)
qed

definition demo_env :: file_env where
  "demo_env = \<lparr>fe_read = (\<lambda>_. True), fe_write = (\<lambda>_. True), fe_room = 100\<rparr>"

theorem file_write_read_back_witness:
  "\<exists>w'. file_write_from_buffer demo_env ''f'' [1, 2, 3] 3 Map.empty = Some (0, w') \<and>
    file_read_to_buffer demo_env ''f'' [0, 0, 0, 0] 4 w' = Some (0, [1, 0, 0, 0])"
proof -
  have "\<exists>w'. file_write_from_buffer demo_env ''f'' [1, 2, 3] (int 3) Map.empty = Some (0, w') \<and>
    (\<forall>k>3. file_read_to_buffer demo_env ''f'' [0, 0, 0, 0] (int k) w' = Some (0, [1, 2, 3] ! 0 # drop 1 [0, 0, 0, 0]))"
    using file_write_read_back [of demo_env "''f''" 3 "[1, 2, 3]" "[0, 0, 0, 0]" Map.empty] by (auto simp: demo_env_def cint_simps)
  then obtain w' where w': "file_write_from_buffer demo_env ''f'' [1, 2, 3] 3 Map.empty = Some (0, w')"
    "\<And>k. 3 < k \<Longrightarrow> file_read_to_buffer demo_env ''f'' [0, 0, 0, 0] (int k) w' = Some (0, [1, 0, 0, 0])"
    by auto
  then show ?thesis using w'(2) [of 4] by auto
qed

lemma copy_loop_copies: "copy_loop content pos written = written @ drop pos content"
proof (induction content pos written rule: copy_loop.induct)
  case (1 content pos written)
  define chunk where "chunk = take READ_BUF_MAX_LEN (drop pos content)"
  show ?case
  proof (cases "length chunk < READ_BUF_MAX_LEN")
    case True
    then have "chunk = drop pos content" by (auto simp: chunk_def)
    then show ?thesis using True by (subst copy_loop.simps) (simp add: chunk_def Let_def)
  next
    case False
    have "copy_loop content pos written = copy_loop content (pos + length chunk) (written @ chunk)"
      using False by (subst copy_loop.simps) (simp add: chunk_def Let_def)
    also have "\<dots> = (written @ chunk) @ drop (pos + length chunk) content"
      using 1 [OF refl] False by (simp add: chunk_def)
    also have "\<dots> = written @ drop pos content"
      using append_take_drop_id [of READ_BUF_MAX_LEN "drop pos content"] False
      by (simp add: chunk_def min_def add.commute split: if_splits)
    finally show ?thesis .
  qed
qed

text \<open>
  C28: Copying a file. The loop ends for every length of the source, and the destination gets all
  its bytes, in order, if the device has room for them; the source and all other files stay as they
  were. Copying a file onto itself empties it, and returns success.
\<close>

theorem file_copy_content_copies:
  assumes "w src = Some content" and "fe_read e src" and "fe_write e dst" and "length content \<le> fe_room e"
  shows "file_copy_content e src dst w = (0, w(dst \<mapsto> (if src = dst then [] else content)))"
  using assms by (auto simp: file_copy_content_def fopen_rb_def fopen_wb_def copy_loop_copies)

theorem file_copy_content_copies_witness:
  "file_copy_content demo_env ''a'' ''b'' [''a'' \<mapsto> [1, 2, 3]] = (0, [''a'' \<mapsto> [1, 2, 3], ''b'' \<mapsto> [1, 2, 3]])"
  using file_copy_content_copies [of "[''a'' \<mapsto> [1, 2, 3]]" "''a''" "[1, 2, 3]" demo_env "''b''"] by (simp add: demo_env_def)

lemma cmd_loop_prefix:
  assumes "NUL \<notin> set out" "NUL \<notin> set (take offset buf)" "sz = int (length buf)" "offset < length buf"
    and "out = [] \<Longrightarrow> buf ! offset = NUL"
  shows "\<exists>b k. cmd_loop out buf offset sz = Some b \<and> length b = length buf \<and> c_string b = take offset buf @ take k out \<and>
    (offset + length out < length buf \<longrightarrow> length out \<le> k) \<and> NUL \<in> set b"
  using assms
proof (induction out buf offset sz rule: cmd_loop.induct)
  case (1 out buf offset sz)
  have here: "c_string (take offset buf @ NUL # t) = take offset buf" for t
    using "1.prems"(2) by (simp add: c_string_append)
  show ?case
  proof (cases "out = []")
    case True
    have "buf = take offset buf @ NUL # drop (Suc offset) buf"
      using "1.prems"(4,5) True by (metis id_take_nth_drop)
    then have "c_string buf = take offset buf" "NUL \<in> set buf" using here by (metis, metis in_set_conv_decomp)
    then show ?thesis using True by (subst cmd_loop.simps) auto
  next
    case False
    obtain line rest where g: "fgets 255 out = (line, rest)" by (cases "fgets 255 out")
    have out: "out = line @ rest" "line \<noteq> []" using fgets_append [OF g] fgets_nonempty [OF g] False by auto
    have tmp: "c_string line = line" using "1.prems"(1) out by (intro c_string_id) auto
    show ?thesis
    proof (cases "sz \<le> int (offset + length line)")
      case True
      have "cmd_loop out buf offset sz = Some (buf[offset := NUL])"
        using False g tmp True "1.prems"(4) by (subst cmd_loop.simps) simp
      moreover have "buf[offset := NUL] = take offset buf @ NUL # drop (Suc offset) buf"
        using "1.prems"(4) by (simp add: upd_conv_take_nth_drop)
      ultimately show ?thesis
        using here True "1.prems"(3,4) out by (intro exI [of _ "buf[offset := NUL]"] exI [of _ 0]) (simp add: set_update_memI)
    next
      case fits: False
      define buf' where "buf' = take offset buf @ line @ [NUL] @ drop (offset + length line + 1) buf"
      have cp: "strcpy_at buf offset line = Some buf'"
        using fits "1.prems"(3) by (simp add: strcpy_at_def buf'_def)
      have len: "length buf' = length buf" using fits "1.prems"(3,4) by (simp add: buf'_def)
      have pre: "take (offset + length line) buf' = take offset buf @ line" "buf' ! (offset + length line) = NUL"
        using "1.prems"(4) by (simp_all add: buf'_def nth_append)
      have step: "cmd_loop out buf offset sz = cmd_loop rest buf' (offset + length line) sz"
        using False g tmp fits cp by (subst cmd_loop.simps) simp
      have "\<exists>b k. cmd_loop rest buf' (offset + length line) sz = Some b \<and> length b = length buf' \<and>
          c_string b = take (offset + length line) buf' @ take k rest \<and>
          (offset + length line + length rest < length buf' \<longrightarrow> length rest \<le> k) \<and> NUL \<in> set b"
        using "1.IH" [OF False refl g [symmetric] refl, of buf'] fits tmp cp out pre len "1.prems" by auto
      then obtain b k where b: "cmd_loop rest buf' (offset + length line) sz = Some b" "length b = length buf"
          "c_string b = take offset buf @ line @ take k rest" "offset + length line + length rest < length buf \<longrightarrow> length rest \<le> k" "NUL \<in> set b"
        using pre len by auto
      then show ?thesis
        using step out by (intro exI [of _ b] exI [of _ "length line + k"]) simp
    qed
  qed
qed

text \<open>
  C29: The output of a command in a buffer. For output without NUL characters and a buffer of the size
  announced, \<open>file_system_cmd\<close> never writes outside the buffer and ends. If the command prints anything, it leaves a terminated string in
  the buffer that is a prefix of the output, the whole output whenever that fits with its terminator. If the command prints nothing, it
  reports success all the same and leaves the buffer exactly as the caller passed it, so that a buffer without a terminator still has none.
\<close>

theorem file_system_cmd_captures:
  assumes "shell cmd = Some out" and "NUL \<notin> set out" and "buf \<noteq> []"
  shows "\<exists>b. file_system_cmd shell cmd buf (int (length buf)) = Some (True, b) \<and> length b = length buf \<and>
    (if out = [] then b = buf
     else NUL \<in> set b \<and> (\<exists>k. c_string b = take k out) \<and> (length out < length buf \<longrightarrow> c_string b = out))"
proof (cases "out = []")
  case True
  then have "cmd_loop out buf 0 (int (length buf)) = Some buf" by (subst cmd_loop.simps) simp
  then show ?thesis using assms(1) True by (simp add: file_system_cmd_def)
next
  case False
  then obtain b k where b: "cmd_loop out buf 0 (int (length buf)) = Some b" "length b = length buf" "c_string b = take k out"
      "length out < length buf \<longrightarrow> length out \<le> k" "NUL \<in> set b"
    using cmd_loop_prefix [of out 0 buf "int (length buf)"] assms(2,3) by auto
  then show ?thesis using assms(1) False by (auto simp: file_system_cmd_def)
qed

theorem file_system_cmd_captures_witness:
  "(\<exists>b. file_system_cmd (\<lambda>_. Some ''ok'') ''true'' (replicate 4 (CHR ''x'')) 4 = Some (True, b) \<and> c_string b = ''ok'') \<and>
    file_system_cmd (\<lambda>_. Some []) ''true'' (replicate 4 (CHR ''x'')) 4 = Some (True, ''xxxx'')"
proof
  have len: "int (length (replicate 4 (CHR ''x''))) = 4" by simp
  show "\<exists>b. file_system_cmd (\<lambda>_. Some ''ok'') ''true'' (replicate 4 (CHR ''x'')) 4 = Some (True, b) \<and> c_string b = ''ok''"
    using file_system_cmd_captures [of "\<lambda>_. Some ''ok''" "''true''" "''ok''" "replicate 4 (CHR ''x'')", unfolded len] by (auto simp: NUL_def)
  show "file_system_cmd (\<lambda>_. Some []) ''true'' (replicate 4 (CHR ''x'')) 4 = Some (True, ''xxxx'')"
    using file_system_cmd_captures [of "\<lambda>_. Some []" "''true''" "[]" "replicate 4 (CHR ''x'')", unfolded len] by (auto simp: numeral_eq_Suc)
qed

text \<open>
  The count of processes that the shell prints, with its newline, is what \<open>file_is_process_running\<close>
  returns, for a name that leaves room for the rest of the command.
\<close>

lemma file_is_process_running_counts:
  assumes "length name < 93" and "\<And>cmd. shell cmd = Some (print_int n @ ''\<newline>'')" and "int_ok n"
  shows "file_is_process_running shell name = Some n"
proof -
  let ?out = "print_int n @ ''\<newline>''" and ?buf = "replicate 1024 NUL"
  have nul: "NUL \<notin> set ?out"
    using digits_decimal [of "nat n"] digits_decimal [of "nat (- n)"]
    by (auto simp: print_int_def NUL_def is_digit_def)
  have short: "length ?out < length ?buf" using print_int_length [OF assms(3)] by simp
  obtain b where b: "cmd_loop ?out ?buf 0 1024 = Some b" "c_string b = ?out"
    using cmd_loop_prefix [OF nul, of 0 ?buf 1024] short by auto
  have "atoi ?out = n"
    using scan_int_print [of "''\<newline>''" n] by (simp add: atoi_def is_digit_def)
  then show ?thesis
    using b assms(1,2) by (simp add: file_is_process_running_def file_system_cmd_def)
qed

end
