(* ===== verification/Image_File.thy ===== *)
theory Image_File
  imports C_Prelude
begin

text \<open>
  \<^verbatim>\<open>linux/utils/src/image_file.c\<close>: an image, stored row by row with a stride in memory and without gaps
  in a file. A stream for reading is the bytes that are left; a stream for writing is the bytes written
  so far, and the number of further bytes that the device takes is an argument. The row functions give
  the number of objects transferred, 0 or 1, as \<open>fread\<close> and \<open>fwrite\<close> do for one object of \<open>width\<close> bytes; a
  read that comes to the end of the file still stores the bytes there are. An access outside the image
  buffer, and a negative width or stride, which would be one, are \<^const>\<open>None\<close>.
\<close>

section \<open>The code\<close>

definition read_row :: "nat \<Rightarrow> nat \<Rightarrow> u8 list \<times> u8 list \<Rightarrow> (nat \<times> u8 list \<times> u8 list) option" where
  "read_row width ptr = (\<lambda>(buffer, file).
     if ptr + min width (length file) \<le> length buffer
     then Some (if 0 < width \<and> width \<le> length file then 1 else 0,
       take ptr buffer @ take width file @ drop (ptr + min width (length file)) buffer, drop width file)
     else None)"

definition write_row :: "nat \<Rightarrow> nat \<Rightarrow> nat \<Rightarrow> u8 list \<times> u8 list \<Rightarrow> (nat \<times> u8 list \<times> u8 list) option" where
  "write_row room width ptr = (\<lambda>(buffer, file).
     if ptr + width \<le> length buffer
     then Some (if 0 < width \<and> length file + width \<le> room then 1 else 0,
       buffer, take (max room (length file)) (file @ take width (drop ptr buffer)))
     else None)"

text \<open>The loop over the rows that are left, with the row function in the place of \<open>rw_ops\<close>.\<close>

fun rw_loop :: "(nat \<Rightarrow> 's \<Rightarrow> (nat \<times> 's) option) \<Rightarrow> nat \<Rightarrow> nat \<Rightarrow> nat \<Rightarrow> 's \<Rightarrow> 's option" where
  "rw_loop rw_ops stride 0 ptr s = Some s"
| "rw_loop rw_ops stride (Suc rows) ptr s = do {
     (ret, s) \<leftarrow> rw_ops ptr s;
     (if ret = 1 then rw_loop rw_ops stride rows (ptr + stride) s else Some s) }"

definition image_file_rw_one_frame ::
  "(nat \<Rightarrow> nat \<Rightarrow> 's \<Rightarrow> (nat \<times> 's) option) \<Rightarrow> int \<Rightarrow> int \<Rightarrow> int \<Rightarrow> 's \<Rightarrow> (int \<times> 's) option" where
  "image_file_rw_one_frame rw_ops width height stride s =
     (if height \<le> 0 then Some (0, s)
      else if width < 0 \<or> (stride < 0 \<and> 1 < height) then None
      else do { s \<leftarrow> rw_loop (rw_ops (nat width)) (nat stride) (nat height) 0 s; Some (0, s) })"

definition image_file_read_one_frame :: "u8 list \<Rightarrow> u8 list \<Rightarrow> int \<Rightarrow> int \<Rightarrow> int \<Rightarrow> (int \<times> u8 list \<times> u8 list) option" where
  "image_file_read_one_frame file buffer width height stride =
     image_file_rw_one_frame read_row width height stride (buffer, file)"

definition image_file_write_one_frame :: "nat \<Rightarrow> u8 list \<Rightarrow> u8 list \<Rightarrow> int \<Rightarrow> int \<Rightarrow> int \<Rightarrow> (int \<times> u8 list \<times> u8 list) option" where
  "image_file_write_one_frame room file buffer width height stride =
     image_file_rw_one_frame (write_row room) width height stride (buffer, file)"


section \<open>Properties\<close>

text \<open>The rows of an image from an offset on, one after the other.\<close>

fun frame_rows :: "u8 list \<Rightarrow> nat \<Rightarrow> nat \<Rightarrow> nat \<Rightarrow> nat \<Rightarrow> u8 list" where
  "frame_rows buffer width stride ptr 0 = []"
| "frame_rows buffer width stride ptr (Suc rows) =
     take width (drop ptr buffer) @ frame_rows buffer width stride (ptr + stride) rows"

text \<open>The buffer holds the last byte of the last row.\<close>

definition frame_fits :: "u8 list \<Rightarrow> nat \<Rightarrow> nat \<Rightarrow> nat \<Rightarrow> nat \<Rightarrow> bool" where
  "frame_fits buffer width stride ptr rows \<longleftrightarrow> (\<forall>i<rows. ptr + i * stride + width \<le> length buffer)"

lemma frame_fits_Suc:
  "frame_fits buffer width stride ptr (Suc rows) \<longleftrightarrow>
    ptr + width \<le> length buffer \<and> frame_fits buffer width stride (ptr + stride) rows"
  by (auto simp: frame_fits_def All_less_Suc2 add.assoc)

lemma length_frame_rows: "frame_fits buffer width stride ptr rows \<Longrightarrow> length (frame_rows buffer width stride ptr rows) = rows * width"
  by (induction rows arbitrary: ptr) (auto simp: frame_fits_Suc)

lemma write_loop:
  assumes "frame_fits buffer width stride ptr rows" "0 < width" "length out + rows * width \<le> room"
  shows "rw_loop (write_row room width) stride rows ptr (buffer, out) = Some (buffer, out @ frame_rows buffer width stride ptr rows)"
  using assms
proof (induction rows arbitrary: ptr out)
  case (Suc rows)
  let ?row = "take width (drop ptr buffer)"
  have "length ?row = width" using Suc.prems(1) unfolding frame_fits_Suc by auto
  then have "write_row room width ptr (buffer, out) = Some (1, buffer, out @ ?row)"
    using Suc.prems by (simp add: write_row_def frame_fits_Suc)
  then show ?case
    using Suc.IH [of "ptr + stride" "out @ ?row"] Suc.prems \<open>length ?row = width\<close> by (simp add: frame_fits_Suc)
qed simp

text \<open>After reading, the rows of the buffer are the file's, and all bytes outside the rows are kept.\<close>

lemma read_loop:
  assumes "frame_fits buffer width stride ptr rows" "0 < width" "width \<le> stride" "length rs = rows * width"
  shows "\<exists>buffer'. rw_loop (read_row width) stride rows ptr (buffer, rs @ rest) = Some (buffer', rest) \<and>
    length buffer' = length buffer \<and> frame_rows buffer' width stride ptr rows = rs \<and>
    (\<forall>i<length buffer. i < ptr \<or> ptr + rows * stride \<le> i \<or> width \<le> (i - ptr) mod stride \<longrightarrow> buffer' ! i = buffer ! i)"
  using assms
proof (induction rows arbitrary: ptr buffer rs)
  case (Suc rows)
  let ?row = "take width rs" and ?rest = "drop width rs"
  let ?b = "take ptr buffer @ ?row @ drop (ptr + width) buffer"
  have len: "length ?row = width" "length ?rest = rows * width" "ptr + width \<le> length buffer"
    using Suc.prems(1,4) by (simp_all add: frame_fits_Suc)
  then have lb: "length ?b = length buffer" by simp
  have step: "read_row width ptr (buffer, rs @ rest) = Some (1, ?b, ?rest @ rest)"
    using len Suc.prems(2,4) by (simp add: read_row_def)
  have "frame_fits ?b width stride (ptr + stride) rows"
    using Suc.prems(1) lb unfolding frame_fits_Suc by (simp add: frame_fits_def)
  then obtain b' where b': "rw_loop (read_row width) stride rows (ptr + stride) (?b, ?rest @ rest) = Some (b', rest)"
      "length b' = length ?b" "frame_rows b' width stride (ptr + stride) rows = ?rest"
      "\<forall>i<length ?b. i < ptr + stride \<or> ptr + stride + rows * stride \<le> i \<or> width \<le> (i - (ptr + stride)) mod stride \<longrightarrow> b' ! i = ?b ! i"
    using Suc.IH [of ?b "ptr + stride" ?rest] Suc.prems(2,3) len(2) by blast
  have row: "take width (drop ptr b') = ?row"
  proof (rule nth_equalityI)
    show "length (take width (drop ptr b')) = length ?row" using b'(2) lb len by simp
    fix i
    assume "i < length (take width (drop ptr b'))"
    then have i: "i < width" "ptr + i < length ?b" using b'(2) lb by auto
    then have "b' ! (ptr + i) = ?b ! (ptr + i)" using b'(4) Suc.prems(3) by simp
    also have "\<dots> = ?row ! i" using i len by (simp add: nth_append)
    finally show "take width (drop ptr b') ! i = ?row ! i" using i b'(2) lb len by simp
  qed
  have keep: "b' ! i = buffer ! i"
    if i: "i < length buffer" "i < ptr \<or> ptr + Suc rows * stride \<le> i \<or> width \<le> (i - ptr) mod stride" for i
  proof -
    have out: "i < ptr \<or> ptr + width \<le> i"
      using i(2) Suc.prems(3) by (cases "i - ptr < stride") (auto simp: not_less)
    have "i < ptr + stride \<or> ptr + stride + rows * stride \<le> i \<or> width \<le> (i - (ptr + stride)) mod stride"
    proof (cases "i < ptr + stride")
      case False
      then have "(i - ptr) mod stride = (i - (ptr + stride)) mod stride"
        using le_mod_geq [of stride "i - ptr"] by simp
      then show ?thesis using i(2) False by auto
    qed simp
    then have "b' ! i = ?b ! i" using b'(4) i(1) unfolding lb by blast
    also have "\<dots> = buffer ! i" using out i(1) len by (auto simp: nth_append)
    finally show ?thesis .
  qed
  show ?case
    using step b'(1,2,3) row keep lb len(2) by (intro exI [of _ b']) (auto simp: Suc.prems(4))
qed simp

lemma frame_rows_nth:
  assumes "frame_fits buffer width stride ptr rows" "i < rows" "j < width"
  shows "frame_rows buffer width stride ptr rows ! (i * width + j) = buffer ! (ptr + i * stride + j)"
  using assms
proof (induction rows arbitrary: ptr i)
  case (Suc rows)
  have len: "length (take width (drop ptr buffer)) = width" using Suc.prems(1) unfolding frame_fits_Suc by auto
  show ?case
  proof (cases i)
    case 0
    then show ?thesis using len Suc.prems by (auto simp: nth_append frame_fits_Suc)
  next
    case (Suc i')
    then show ?thesis
      using len Suc.IH [of "ptr + stride" i'] Suc.prems by (simp add: nth_append frame_fits_Suc algebra_simps)
  qed
qed simp

text \<open>
  C36: A frame survives the file. Writing an image with one stride at the end of a stream and reading it
  back into a buffer with another stride returns 0 both times and gives every pixel of every row; the
  bytes of the buffer between the rows, in front of and behind the image are not touched, and the rest
  of the stream is left for the next frame.
\<close>

theorem image_file_frame_roundtrip:
  assumes "0 < width" and "0 < height" and "frame_fits buf width stride 0 height" and "frame_fits dst width stride' 0 height"
    and "width \<le> stride'" and "length out + height * width \<le> room"
  shows "\<exists>fr dst'. image_file_write_one_frame room out buf (int width) (int height) (int stride) = Some (0, buf, out @ fr) \<and>
    image_file_read_one_frame (fr @ rest) dst (int width) (int height) (int stride') = Some (0, dst', rest) \<and>
    length dst' = length dst \<and>
    (\<forall>i<height. \<forall>j<width. dst' ! (i * stride' + j) = buf ! (i * stride + j)) \<and>
    (\<forall>i<length dst. height * stride' \<le> i \<or> width \<le> i mod stride' \<longrightarrow> dst' ! i = dst ! i)"
proof -
  let ?fr = "frame_rows buf width stride 0 height"
  obtain dst' where dst': "rw_loop (read_row width) stride' height 0 (dst, ?fr @ rest) = Some (dst', rest)" "length dst' = length dst"
      "frame_rows dst' width stride' 0 height = ?fr"
      "\<forall>i<length dst. i < 0 \<or> 0 + height * stride' \<le> i \<or> width \<le> (i - 0) mod stride' \<longrightarrow> dst' ! i = dst ! i"
    using read_loop [OF assms(4,1,5) length_frame_rows [OF assms(3)]] by blast
  have fits': "frame_fits dst' width stride' 0 height" using assms(4) dst'(2) by (simp add: frame_fits_def)
  have pixel: "dst' ! (i * stride' + j) = buf ! (i * stride + j)" if "i < height" "j < width" for i j
    using frame_rows_nth [OF fits' that] frame_rows_nth [OF assms(3) that] dst'(3) by simp
  show ?thesis
    by (intro exI [of _ ?fr] exI [of _ dst'])
      (use assms(1,2) dst'(1,2,4) pixel write_loop [OF assms(3,1,6)] in
        \<open>simp add: image_file_write_one_frame_def image_file_read_one_frame_def image_file_rw_one_frame_def\<close>)
qed

theorem image_file_frame_roundtrip_witness:
  "\<exists>fr dst'. image_file_write_one_frame 100 [] [1, 2, 9, 3, 4, 9] 2 2 3 = Some (0, [1, 2, 9, 3, 4, 9], fr) \<and>
    image_file_read_one_frame (fr @ []) [0, 0, 0, 0] 2 2 2 = Some (0, dst', [])"
  using image_file_frame_roundtrip [of 2 2 "[1, 2, 9, 3, 4, 9]" 3 "[0, 0, 0, 0]" 2 "[]" 100 "[]"]
  by (auto simp: frame_fits_def less_Suc_eq numeral_2_eq_2)

end
