(* ===== verification/Sockets.thy ===== *)
theory Sockets
  imports C_Prelude
begin

text \<open>
  \<^verbatim>\<open>socket/udp_client.c\<close> and \<^verbatim>\<open>linux/utils/src/net_utils.c\<close>. The socket layer of the kernel is a record of functions
  on a state \<open>'w\<close>: a system call returns its result and the new state. A call that does not return
  because it waits is \<^const>\<open>None\<close>.
\<close>

section \<open>udp\_client.c\<close>

definition EAGAIN :: int where
  "EAGAIN = 11"

definition AF_INET :: int where
  "AF_INET = 2"

type_synonym u16 = "16 word"

record sockaddr_in =
  sin_family :: int
  sin_addr :: u32
  sin_port :: u16

record socket_base =
  skt_fd :: int
  skt_sin :: sockaddr_in

text \<open>\<open>kn_recvfrom\<close> gives the result, the bytes stored in the buffer and the address of the sender.\<close>

record 'w net_kernel =
  kn_socket :: "int \<Rightarrow> 'w \<Rightarrow> int \<times> 'w"
  kn_sendto :: "int \<Rightarrow> u8 list \<Rightarrow> sockaddr_in \<Rightarrow> 'w \<Rightarrow> int \<times> 'w"
  kn_recvfrom :: "int \<Rightarrow> nat \<Rightarrow> sockaddr_in \<Rightarrow> 'w \<Rightarrow> (int \<times> u8 list \<times> sockaddr_in \<times> 'w) option"
  kn_close :: "int \<Rightarrow> 'w \<Rightarrow> 'w"

text \<open>The conversion of a port to network byte order on a little-endian machine.\<close>

definition htons :: "int \<Rightarrow> u16" where
  "htons port = (let x = word_of_int port :: u16 in push_bit 8 x OR drop_bit 8 x)"

text \<open>\<open>mem\<close> tells whether \<open>calloc\<close> succeeds; the conversion \<open>inet_addr\<close> of the text of an address is an argument.\<close>

definition udp_client_init ::
  "'w net_kernel \<Rightarrow> bool \<Rightarrow> (string \<Rightarrow> u32) \<Rightarrow> int \<Rightarrow> int \<Rightarrow> string \<Rightarrow> 'w \<Rightarrow> socket_base option \<times> 'w" where
  "udp_client_init k mem inet_addr type port ip_addr w =
     (if \<not> mem then (None, w)
      else
        (let (sockfd, w) = kn_socket k type w in
         if sockfd < 0 then (None, w)
         else (Some \<lparr>skt_fd = sockfd,
           skt_sin = \<lparr>sin_family = AF_INET, sin_addr = inet_addr ip_addr, sin_port = htons port\<rparr>\<rparr>, w)))"

text \<open>The loops; the number is \<open>try_times\<close>. They compare the result, not the error number, with \<open>EAGAIN\<close>.\<close>

fun send_loop :: "'w net_kernel \<Rightarrow> socket_base \<Rightarrow> u8 list \<Rightarrow> nat \<Rightarrow> 'w \<Rightarrow> int \<times> 'w" where
  "send_loop k s buf try_times w =
     (let (ret, w) = kn_sendto k (skt_fd s) buf (skt_sin s) w in
      if EAGAIN \<noteq> ret then (ret, w)
      else (case try_times of 0 \<Rightarrow> (ret, w) | Suc t \<Rightarrow> send_loop k s buf t w))"

declare send_loop.simps [simp del]

definition udp_client_send :: "'w net_kernel \<Rightarrow> socket_base option \<Rightarrow> u8 list \<Rightarrow> 'w \<Rightarrow> int \<times> 'w" where
  "udp_client_send k skt_base buf w = (case skt_base of
     None \<Rightarrow> (- 1, w)
   | Some s \<Rightarrow> send_loop k s buf 3 w)"

fun recv_loop ::
  "'w net_kernel \<Rightarrow> socket_base \<Rightarrow> nat \<Rightarrow> nat \<Rightarrow> 'w \<Rightarrow> (int \<times> u8 list \<times> socket_base \<times> 'w) option" where
  "recv_loop k s sz try_times w = do {
     (ret, data, sin, w) \<leftarrow> kn_recvfrom k (skt_fd s) sz (skt_sin s) w;
     let s = s\<lparr>skt_sin := sin\<rparr>;
     (if EAGAIN \<noteq> ret then Some (ret, data, s, w)
      else (case try_times of 0 \<Rightarrow> Some (ret, data, s, w) | Suc t \<Rightarrow> recv_loop k s sz t w)) }"

declare recv_loop.simps [simp del]

definition udp_client_recv ::
  "'w net_kernel \<Rightarrow> socket_base option \<Rightarrow> nat \<Rightarrow> 'w \<Rightarrow> (int \<times> u8 list \<times> socket_base option \<times> 'w) option" where
  "udp_client_recv k skt_base sz w = (case skt_base of
     None \<Rightarrow> Some (- 1, [], None, w)
   | Some s \<Rightarrow> do { (ret, data, s, w) \<leftarrow> recv_loop k s sz 3 w; Some (ret, data, Some s, w) })"

definition udp_client_destroy :: "'w net_kernel \<Rightarrow> socket_base option \<Rightarrow> 'w \<Rightarrow> int \<times> 'w" where
  "udp_client_destroy k skt_base w = (case skt_base of
     None \<Rightarrow> (- 1, w)
   | Some s \<Rightarrow> (0, kn_close k (skt_fd s) w))"


section \<open>net\_utils.c\<close>

text \<open>
  The descriptors that are open; \<open>sock\<close>, \<open>bind_ret\<close> and \<open>listen_ret\<close> are the results of the system calls, and
  \<open>fdesc\<close> is what the pointer \<open>fd\<close> points to.
\<close>

definition tcp_socket_listen :: "int \<Rightarrow> int \<Rightarrow> int \<Rightarrow> int \<Rightarrow> int set \<Rightarrow> int \<times> int \<times> int set" where
  "tcp_socket_listen sock bind_ret listen_ret fdesc w =
     (if sock = - 1 then (- 1, fdesc, w)
      else
        (let w = insert sock w in
         if bind_ret = - 1 then (bind_ret, - 1, w - {sock})
         else if listen_ret = - 1 then (listen_ret, - 1, w - {sock})
         else (0, sock, w)))"


section \<open>Properties\<close>

text \<open>
  The documented behaviour of \<open>sendto\<close> for a datagram that the network accepts: the datagram goes out
  as a whole and the result is its length.
\<close>

definition accepts :: "'w net_kernel \<Rightarrow> (sockaddr_in \<Rightarrow> u8 list \<Rightarrow> 'w \<Rightarrow> 'w) \<Rightarrow> bool" where
  "accepts k deliver \<longleftrightarrow> (\<forall>s buf a w. kn_sendto k s buf a w = (int (length buf), deliver a buf w))"

lemma send_loop_accepts:
  assumes "accepts k deliver"
  shows "send_loop k s buf n w =
    (int (length buf), ((deliver (skt_sin s) buf) ^^ (if length buf = 11 then Suc n else 1)) w)"
proof (induction n arbitrary: w)
  case 0
  then show ?case using assms by (subst send_loop.simps) (simp add: accepts_def EAGAIN_def)
next
  case (Suc n)
  show ?case
  proof (cases "length buf = 11")
    case True
    then have "send_loop k s buf (Suc n) w = send_loop k s buf n (deliver (skt_sin s) buf w)"
      using assms by (subst send_loop.simps) (simp add: accepts_def EAGAIN_def)
    then show ?thesis using Suc True by (simp add: funpow_swap1)
  next
    case False
    then show ?thesis using assms by (subst send_loop.simps) (simp add: accepts_def EAGAIN_def)
  qed
qed

text \<open>
  Sending. A datagram that the network accepts is sent once and its length returned, except that
  one of exactly 11 bytes is sent four times, because the loop takes its length for the error number
  \<open>EAGAIN\<close>.
\<close>

theorem udp_client_send_repeats_eleven:
  assumes "accepts k deliver"
  shows "udp_client_send k (Some s) buf w =
    (int (length buf), ((deliver (skt_sin s) buf) ^^ (if length buf = 11 then 4 else 1)) w)"
proof -
  have "Suc 3 = 4" by simp
  then show ?thesis using send_loop_accepts [OF assms, of s buf 3 w] by (auto simp: udp_client_send_def)
qed

text \<open>A network whose state is the list of the datagrams under way, the oldest first.\<close>

definition demo_net :: "(sockaddr_in \<times> u8 list) list net_kernel" where
  "demo_net = \<lparr>kn_socket = (\<lambda>t w. (3, w)), kn_sendto = (\<lambda>f buf a w. (int (length buf), w @ [(a, buf)])),
     kn_recvfrom = (\<lambda>f sz a w. case w of [] \<Rightarrow> None | (b, d) # ds \<Rightarrow> Some (int (length (take sz d)), take sz d, b, ds)),
     kn_close = (\<lambda>f w. w)\<rparr>"

definition demo_peer :: sockaddr_in where
  "demo_peer = \<lparr>sin_family = AF_INET, sin_addr = 0x0100007f, sin_port = htons 5000\<rparr>"

lemma demo_net_accepts: "accepts demo_net (\<lambda>a buf w. w @ [(a, buf)])"
  by (simp add: accepts_def demo_net_def)

theorem udp_client_send_repeats_eleven_witness:
  "udp_client_send demo_net (Some \<lparr>skt_fd = 3, skt_sin = demo_peer\<rparr>) (replicate 11 7) [] =
    (11, replicate 4 (demo_peer, replicate 11 7))"
  using udp_client_send_repeats_eleven [of demo_net "\<lambda>a buf w. w @ [(a, buf)]" "\<lparr>skt_fd = 3, skt_sin = demo_peer\<rparr>" "replicate 11 7" "[]"]
  by (simp add: demo_net_accepts numeral_eq_Suc)

text \<open>A failed \<open>sendto\<close>, for whatever reason, is not tried again.\<close>

lemma udp_client_send_no_retry:
  "kn_sendto k (skt_fd s) buf (skt_sin s) w = (- 1, w') \<Longrightarrow> udp_client_send k (Some s) buf w = (- 1, w')"
  by (auto simp: udp_client_send_def EAGAIN_def send_loop.simps)

text \<open>
  The documented behaviour of \<open>recvfrom\<close> on a socket with a queue of datagrams: it waits while there is
  none, and otherwise takes the first one, cut to the size of the buffer.
\<close>

definition mailbox :: "(sockaddr_in \<times> u8 list) list net_kernel \<Rightarrow> bool" where
  "mailbox k \<longleftrightarrow> (\<forall>f sz a. kn_recvfrom k f sz a [] = None \<and>
     (\<forall>b d ds. kn_recvfrom k f sz a ((b, d) # ds) = Some (int (length (take sz d)), take sz d, b, ds)))"

lemma recv_loop_mailbox:
  assumes "mailbox k" "\<forall>(a, x)\<in>set xs. length (take sz x) = 11" "length xs \<le> n" "length (take sz d) \<noteq> 11 \<or> length xs = n"
  shows "recv_loop k s sz n (xs @ (b, d) # ds) = Some (int (length (take sz d)), take sz d, s\<lparr>skt_sin := b\<rparr>, ds)"
  using assms(2-4)
proof (induction xs arbitrary: n s)
  case Nil
  have "kn_recvfrom k (skt_fd s) sz (skt_sin s) ((b, d) # ds) = Some (int (length (take sz d)), take sz d, b, ds)"
    using assms(1) unfolding mailbox_def by blast
  then show ?case using Nil.prems(3) by (subst recv_loop.simps) (cases n; auto simp: EAGAIN_def Let_def)
next
  case (Cons x xs)
  obtain a e n' where x: "x = (a, e)" "n = Suc n'" using Cons.prems(2) by (cases x; cases n) auto
  then have "recv_loop k s sz n ((x # xs) @ (b, d) # ds) = recv_loop k (s\<lparr>skt_sin := a\<rparr>) sz n' (xs @ (b, d) # ds)"
    using Cons.prems(1) assms(1) by (subst recv_loop.simps) (simp add: mailbox_def EAGAIN_def)
  then show ?case using Cons.IH [of n' "s\<lparr>skt_sin := a\<rparr>"] Cons.prems x by auto
qed

text \<open>
  Receiving. A datagram whose length, cut to the buffer, is not 11 is delivered with its length and
  its sender; but up to three datagrams of exactly 11 bytes in front of it are taken out of the queue
  and lost, as if the call had been interrupted.
\<close>

theorem udp_client_recv_drops_eleven:
  assumes "mailbox k" and "list_all (\<lambda>(a, x). length (take sz x) = 11) xs" and "length xs \<le> 3" and "length (take sz d) \<noteq> 11"
  shows "udp_client_recv k (Some s) sz (xs @ (b, d) # ds) =
    Some (int (length (take sz d)), take sz d, Some (s\<lparr>skt_sin := b\<rparr>), ds)"
  using recv_loop_mailbox [OF assms(1), of xs sz 3 d s b ds] assms(2-4) by (simp add: udp_client_recv_def list_all_iff)

lemma demo_net_mailbox: "mailbox demo_net"
  by (simp add: mailbox_def demo_net_def)

theorem udp_client_recv_drops_eleven_witness:
  "udp_client_recv demo_net (Some \<lparr>skt_fd = 3, skt_sin = demo_peer\<rparr>) 64 [(demo_peer, replicate 11 7), (demo_peer, [1, 2])] =
    Some (2, [1, 2], Some \<lparr>skt_fd = 3, skt_sin = demo_peer\<rparr>, [])"
  using udp_client_recv_drops_eleven [of demo_net 64 "[(demo_peer, replicate 11 7)]" "[1, 2]" "\<lparr>skt_fd = 3, skt_sin = demo_peer\<rparr>" demo_peer "[]"]
  by (simp add: demo_net_mailbox)

text \<open>
  Listening: on success the result is the new descriptor, which is open; on every failure no
  descriptor stays open, and the pointer is set to -1 unless already the socket could not be made.
\<close>

lemma tcp_socket_listen_result:
  assumes "sock \<notin> w" "tcp_socket_listen sock bind_ret listen_ret fdesc w = (ret, fdesc', w')"
  shows "(ret = 0 \<and> fdesc' = sock \<and> w' = insert sock w) \<or> (ret = - 1 \<and> w' = w \<and> fdesc' = (if sock = - 1 then fdesc else - 1))"
  using assms by (auto simp: tcp_socket_listen_def Let_def split: if_splits)

end
