(* ===== verification/Sniffer.thy ===== *)
theory Sniffer
  imports C_Strings
begin

text \<open>
  \<^verbatim>\<open>socket/sniffer.c\<close>: recognition of heartbeat frames on a raw socket and their hand-over to the driver
  as a keep-alive command. The frame buffer is a list of the bytes that may be read. The type \<open>char\<close>, as
  which the functions read it, is signed on some machines and unsigned on others; which one is the
  argument \<open>sc\<close>. An access outside a buffer is \<^const>\<open>None\<close>.
\<close>

section \<open>The code\<close>

definition char_val :: "bool \<Rightarrow> u8 \<Rightarrow> int" where
  "char_val sc b = (if sc then sint b else uint b)"

text \<open>A chain of comparisons with \<open>&&\<close>, which stops at the first difference.\<close>

fun bytes_are :: "bool \<Rightarrow> u8 list \<Rightarrow> (int \<times> int) list \<Rightarrow> bool option" where
  "bytes_are sc d [] = Some True"
| "bytes_are sc d ((i, v) # rest) = do {
     b \<leftarrow> array_get d i;
     (if v = char_val sc b then bytes_are sc d rest else Some False) }"

text \<open>The protocol is an unsigned byte of the IP header, which follows the 14 bytes of the Ethernet header.\<close>

definition heartbeat_bytes :: "(int \<times> int) list" where
  "heartbeat_bytes = [(42, 0x66), (43, 0x88), (44, 0x66), (45, 0x88), (47, 0x18), (48, 0x00), (49, 0x08), (54, 0x01)]"

definition is_heartbeat :: "bool \<Rightarrow> u8 list \<Rightarrow> int \<Rightarrow> int option" where
  "is_heartbeat sc eth_data len = do {
     protocol \<leftarrow> array_get eth_data (14 + 9);
     (if uint protocol \<noteq> 17 then Some 0
      else do {
        l \<leftarrow> bytes_are sc eth_data [(38, 0x00), (39, 0x28)];
        (if \<not> l then Some 0
         else do {
           m \<leftarrow> bytes_are sc eth_data heartbeat_bytes;
           Some (if \<not> m then 0 else 1) }) }) }"

definition KEEP_ALIVE :: string where
  "KEEP_ALIVE = ''keep_alive 0 10000 0x''"

text \<open>\<open>%02x\<close> of a \<open>char\<close>: the argument is promoted to \<open>int\<close> and printed as unsigned.\<close>

definition hex_char :: "bool \<Rightarrow> u8 \<Rightarrow> string" where
  "hex_char sc b = print_hex2 (nat (char_val sc b mod 0x100000000))"

function keep_loop :: "bool \<Rightarrow> u8 list \<Rightarrow> nat \<Rightarrow> int \<Rightarrow> int \<Rightarrow> string \<Rightarrow> string option" where
  "keep_loop sc eth_data room i copy_len cmd =
     (if i < copy_len
      then do {
        b0 \<leftarrow> array_get eth_data i;
        b1 \<leftarrow> array_get eth_data (i + 1);
        b2 \<leftarrow> array_get eth_data (i + 2);
        b3 \<leftarrow> array_get eth_data (i + 3);
        let cmd = cmd @ hex_char sc b0 @ hex_char sc b1 @ hex_char sc b2 @ hex_char sc b3;
        (if length cmd < room then keep_loop sc eth_data room (i + 4) copy_len cmd else None) }
      else Some cmd)"
  by pat_completeness auto
termination
  by (relation "measure (\<lambda>(sc, eth_data, room, i, copy_len, cmd). nat (copy_len - i))") auto

declare keep_loop.simps [simp del]

text \<open>\<open>room\<close> is the size of the array behind \<open>cmd\<close>.\<close>

definition build_keep_alive_command :: "bool \<Rightarrow> nat \<Rightarrow> u8 list \<Rightarrow> int \<Rightarrow> string \<Rightarrow> (int \<times> string) option" where
  "build_keep_alive_command sc room eth_data len cmd =
     (if room \<le> length (cmd @ KEEP_ALIVE) then None
      else do {
        cmd \<leftarrow> keep_loop sc eth_data room 0 (if len < 116 then len else 116) (cmd @ KEEP_ALIVE);
        Some (0, cmd) })"

text \<open>\<open>sock\<close> and \<open>ioctl_ret\<close> are the results of \<open>socket\<close> and \<open>ioctl\<close>; the state is the list of the commands given to the driver.\<close>

type_synonym commands = "(string \<times> int) list"

definition send_priv_cmd :: "int \<Rightarrow> int \<Rightarrow> string \<Rightarrow> int \<Rightarrow> commands \<Rightarrow> int \<times> commands" where
  "send_priv_cmd sock ioctl_ret cmd len w =
     (if sock < 0 then (- 1, w) else (ioctl_ret, w @ [(cmd, len)]))"

definition handle_packet :: "bool \<Rightarrow> int \<Rightarrow> int \<Rightarrow> u8 list \<Rightarrow> int \<Rightarrow> commands \<Rightarrow> commands option" where
  "handle_packet sc sock ioctl_ret buffer sz w = do {
     h \<leftarrow> is_heartbeat sc buffer sz;
     (if h = 0 then Some w
      else do {
        (_, cmd) \<leftarrow> build_keep_alive_command sc 256 buffer sz [];
        Some (snd (send_priv_cmd sock ioctl_ret cmd 256 w)) }) }"

text \<open>
  The loop of \<open>main\<close> for a sequence of results of \<open>recvfrom\<close>, \<open>None\<close> being an error: a frame is stored at the
  start of the buffer, cut to its size, and what the buffer held behind it stays.
\<close>

fun sniffer_loop :: "bool \<Rightarrow> int \<Rightarrow> int \<Rightarrow> u8 list option list \<Rightarrow> u8 list \<Rightarrow> commands \<Rightarrow> (u8 list \<times> commands) option" where
  "sniffer_loop sc sock ioctl_ret [] buffer w = Some (buffer, w)"
| "sniffer_loop sc sock ioctl_ret (None # fs) buffer w = sniffer_loop sc sock ioctl_ret fs buffer w"
| "sniffer_loop sc sock ioctl_ret (Some f # fs) buffer w = do {
     let f = take 1536 f;
     let buffer = f @ drop (length f) buffer;
     w \<leftarrow> handle_packet sc sock ioctl_ret buffer (int (length f)) w;
     sniffer_loop sc sock ioctl_ret fs buffer w }"

text \<open>The whole program, with the results of \<open>malloc\<close> (its contents) and of the raw socket.\<close>

definition sniffer_main ::
  "bool \<Rightarrow> u8 list option \<Rightarrow> int \<Rightarrow> int \<Rightarrow> int \<Rightarrow> u8 list option list \<Rightarrow> commands \<Rightarrow> commands option" where
  "sniffer_main sc mem raw_sock sock ioctl_ret fs w = (case mem of
     None \<Rightarrow> Some w
   | Some buffer \<Rightarrow>
       if raw_sock < 0 then Some w
       else map_option snd (sniffer_loop sc sock ioctl_ret fs buffer w))"


section \<open>Recognition\<close>

lemma bytes_are_decides:
  assumes "\<forall>(i, v)\<in>set bs. 0 \<le> i \<and> i < int (length d)"
  shows "bytes_are sc d bs = Some (\<forall>(i, v)\<in>set bs. char_val sc (d ! nat i) = v)"
  using assms
proof (induction bs)
  case (Cons b bs)
  then show ?case by (cases b) (auto simp: array_get_def)
qed simp

lemma sint_byte_less: "sint (b :: u8) < 128"
  using sint_less [of b] by simp

text \<open>The bytes of a heartbeat.\<close>

definition heartbeat :: "u8 list \<Rightarrow> bool" where
  "heartbeat d \<longleftrightarrow> d ! 23 = 17 \<and> d ! 38 = 0 \<and> d ! 39 = 0x28 \<and> d ! 42 = 0x66 \<and> d ! 43 = 0x88 \<and> d ! 44 = 0x66 \<and> d ! 45 = 0x88 \<and>
     d ! 47 = 0x18 \<and> d ! 48 = 0 \<and> d ! 49 = 8 \<and> d ! 54 = 1"

text \<open>
  What is recognised. Where \<open>char\<close> is unsigned, \<open>is_heartbeat\<close> answers 1 exactly for the frames with
  the bytes of a heartbeat, whatever length is given; where it is signed, it answers 0 for every
  frame, because a signed byte is never equal to the constant 0x88.
\<close>

theorem is_heartbeat_decides:
  assumes "55 \<le> length d"
  shows "is_heartbeat sc d len = Some (if \<not> sc \<and> heartbeat d then 1 else 0)"
proof -
  have l: "bytes_are sc d [(38, 0), (39, 0x28)] = Some (char_val sc (d ! 38) = 0 \<and> char_val sc (d ! 39) = 0x28)"
    using assms by (subst bytes_are_decides) auto
  have m: "bytes_are sc d heartbeat_bytes = Some (\<forall>(i, v)\<in>set heartbeat_bytes. char_val sc (d ! nat i) = v)"
    using assms by (intro bytes_are_decides) (auto simp: heartbeat_bytes_def)
  have p: "array_get d (14 + 9) = Some (d ! 23)" using assms by (simp add: array_get_def)
  show ?thesis
  proof (cases sc)
    case True
    have "\<not> (\<forall>(i, v)\<in>set heartbeat_bytes. char_val sc (d ! nat i) = v)"
      using True sint_byte_less [of "d ! 43"] by (auto simp: heartbeat_bytes_def char_val_def)
    then show ?thesis using True m l p by (simp add: is_heartbeat_def)
  next
    case False
    have "uint (d ! 23) = 17 \<and> char_val sc (d ! 38) = 0 \<and> char_val sc (d ! 39) = 0x28 \<and>
        (\<forall>(i, v)\<in>set heartbeat_bytes. char_val sc (d ! nat i) = v) \<longleftrightarrow> heartbeat d"
      using False by (simp add: heartbeat_def heartbeat_bytes_def char_val_def word_uint_eq_iff)
    then show ?thesis using False m l p by (auto simp: is_heartbeat_def)
  qed
qed

definition demo_heartbeat :: "u8 list" where
  "demo_heartbeat = (replicate 78 0)[23 := 17, 39 := 0x28, 42 := 0x66, 43 := 0x88, 44 := 0x66, 45 := 0x88, 47 := 0x18, 49 := 8, 54 := 1]"

theorem is_heartbeat_decides_witness:
  "is_heartbeat False demo_heartbeat 78 = Some 1 \<and> is_heartbeat True demo_heartbeat 78 = Some 0"
proof -
  have "heartbeat demo_heartbeat" "length demo_heartbeat = 78" by (simp_all add: heartbeat_def demo_heartbeat_def)
  then show ?thesis
    using is_heartbeat_decides [of demo_heartbeat False 78] is_heartbeat_decides [of demo_heartbeat True 78] by simp
qed


section \<open>The command\<close>

text \<open>The bytes that are printed: four at a time, as long as the first of them is below the length.\<close>

definition copied :: "int \<Rightarrow> nat" where
  "copied len = 4 * nat ((max 0 (min len 116) + 3) div 4)"

definition hex_bytes :: "bool \<Rightarrow> u8 list \<Rightarrow> string" where
  "hex_bytes sc bs = concat (map (hex_char sc) bs)"

lemma hex_bytes_append [simp]: "hex_bytes sc (xs @ ys) = hex_bytes sc xs @ hex_bytes sc ys"
  by (simp add: hex_bytes_def)

lemma hex_bytes_single: "hex_bytes sc [b] = hex_char sc b"
  by (simp add: hex_bytes_def)

lemma hex_bytes_four: "hex_char sc a @ hex_char sc b @ hex_char sc c @ hex_char sc d = hex_bytes sc [a, b, c, d]"
  by (simp add: hex_bytes_def)

lemma take_four:
  assumes "4 \<le> length xs"
  shows "take 4 xs = [xs ! 0, xs ! 1, xs ! 2, xs ! 3]"
proof -
  have "Suc (Suc (Suc (Suc 0))) \<le> length xs" using assms by simp
  then obtain a b c d ys where "xs = a # b # c # d # ys" by (auto simp: Suc_le_length_iff)
  then show ?thesis by simp
qed

lemma keep_loop_result:
  assumes "i + 4 * k \<le> length d" "int (i + 4 * k) < n + 4" "n \<le> int (i + 4 * k)" "length cmd < room"
  shows "keep_loop sc d room (int i) n cmd =
    (let s = cmd @ hex_bytes sc (take (4 * k) (drop i d)) in if length s < room then Some s else None)"
  using assms
proof (induction k arbitrary: i cmd)
  case 0
  then show ?case by (subst keep_loop.simps) (simp add: hex_bytes_def)
next
  case (Suc k)
  let ?four = "[d ! i, d ! (i + 1), d ! (i + 2), d ! (i + 3)]"
  have four: "take 4 (drop i d) = ?four" using Suc.prems(1) take_four [of "drop i d"] by simp
  have split: "take (4 * Suc k) (drop i d) = ?four @ take (4 * k) (drop (i + 4) d)"
    using take_add [of 4 "4 * k" "drop i d"] four by (simp add: add.commute)
  let ?cmd = "cmd @ hex_bytes sc ?four"
  have step: "keep_loop sc d room (int i) n cmd = (if length ?cmd < room then keep_loop sc d room (int (i + 4)) n ?cmd else None)"
    using Suc.prems(1,2) by (subst keep_loop.simps) (simp add: array_get_def Let_def hex_bytes_def nat_add_distrib)
  show ?case
  proof (cases "length ?cmd < room")
    case True
    then have "keep_loop sc d room (int i) n cmd = keep_loop sc d room (int (i + 4)) n ?cmd" using step by simp
    also have "\<dots> = (let s = ?cmd @ hex_bytes sc (take (4 * k) (drop (i + 4) d)) in if length s < room then Some s else None)"
      using True Suc.prems by (intro Suc.IH) auto
    finally show ?thesis by (simp only: split hex_bytes_append append_assoc)
  next
    case False
    then have "\<not> length (cmd @ hex_bytes sc (take (4 * Suc k) (drop i d))) < room"
      by (simp only: split hex_bytes_append length_append not_less)
    then show ?thesis using step False by (simp only: Let_def if_False)
  qed
qed

lemma KEEP_ALIVE_length: "length KEEP_ALIVE = 21"
  by (simp add: KEEP_ALIVE_def)

lemma KEEP_ALIVE_drop: "drop 21 (KEEP_ALIVE @ s) = s"
  by (simp add: KEEP_ALIVE_length)

lemma build_keep_alive_result:
  assumes "0 \<le> len" "copied len \<le> length d"
  shows "build_keep_alive_command sc 256 d len [] =
    (let s = KEEP_ALIVE @ hex_bytes sc (take (copied len) d) in if length s < 256 then Some (0, s) else None)"
proof -
  define m where "m = min len 116"
  define k where "k = nat ((m + 3) div 4)"
  have m: "(if len < 116 then len else 116) = m" "max 0 (min len 116) = m" "0 \<le> m" using assms(1) by (auto simp: m_def)
  have k: "copied len = 4 * k" unfolding copied_def m(2) k_def ..
  have "m < 4 * ((m + 3) div 4) + 1" "4 * ((m + 3) div 4) < m + 4" by presburger+
  moreover have "int (0 + 4 * k) = 4 * ((m + 3) div 4)" unfolding k_def using m(3) by simp
  ultimately have b: "int (0 + 4 * k) < m + 4" "m \<le> int (0 + 4 * k)" by linarith+
  have "0 + 4 * k \<le> length d" "length KEEP_ALIVE < 256" using assms(2) k by (simp_all add: KEEP_ALIVE_length)
  from keep_loop_result [OF this(1) b this(2), of sc]
  have "keep_loop sc d 256 0 m KEEP_ALIVE =
      (let s = KEEP_ALIVE @ hex_bytes sc (take (4 * k) d) in if length s < 256 then Some s else None)"
    by simp
  then show ?thesis
    unfolding build_keep_alive_command_def m(1) k by (simp add: KEEP_ALIVE_length Let_def)
qed

lemma copied_bound: "copied len \<le> 116"
proof -
  have "(max 0 (min len 116) + 3) div 4 \<le> (116 + 3) div 4" by (intro zdiv_mono1) simp_all
  then show ?thesis by (simp add: copied_def)
qed

lemma uint_byte: "0 \<le> uint (b :: u8)" "uint b < 256"
  using unsigned_less [of b, where 'a = int] by simp_all

lemma hex_char_unsigned: "hex_char False b = print_hex2 (unat b)"
proof -
  have "uint b mod 0x100000000 = uint b"
    using uint_byte [of b] by (intro mod_pos_pos_trivial) linarith+
  then show ?thesis by (simp only: hex_char_def char_val_def unat_eq_nat_uint if_False)
qed

lemma hex_bytes_unsigned: "hex_bytes False bs = concat (map print_hex2 (map unat bs))"
  by (simp add: hex_bytes_def hex_char_unsigned comp_def cong: map_cong)

lemma unat_byte: "\<forall>b\<in>set (map unat (bs :: u8 list)). b < 256"
  using unsigned_less [where 'b = 8 and 'a = nat] by auto

text \<open>Where \<open>char\<close> is unsigned, the command fits into the 256 bytes of the caller and its digits are those of the copied bytes.\<close>

lemma keep_alive_command_digits:
  assumes "0 \<le> len" and "copied len \<le> length d"
  shows "\<exists>cmd. build_keep_alive_command False 256 d len [] = Some (0, cmd) \<and> length cmd < 256 \<and>
    take 21 cmd = KEEP_ALIVE \<and> read_hex (drop 21 cmd) = Some (map unat (take (copied len) d))"
proof -
  let ?bs = "map unat (take (copied len) d)" and ?cmd = "KEEP_ALIVE @ hex_bytes False (take (copied len) d)"
  have "length (concat (map print_hex2 ?bs)) = 2 * length ?bs" using unat_byte by (rule length_hex_print)
  then have "length ?cmd < 256"
    using copied_bound [of len] by (simp add: hex_bytes_unsigned KEEP_ALIVE_length)
  moreover have "read_hex (drop 21 ?cmd) = Some ?bs"
    using read_hex_print [OF unat_byte, of "take (copied len) d"] by (simp only: hex_bytes_unsigned KEEP_ALIVE_drop)
  ultimately show ?thesis
    using build_keep_alive_result [OF assms] by (simp add: KEEP_ALIVE_length Let_def)
qed

text \<open>How many bytes from behind a frame are copied to fill the last group of four.\<close>

definition fill_bytes :: "nat \<Rightarrow> nat" where
  "fill_bytes n = (if n < 116 then (4 - n mod 4) mod 4 else 0)"

lemma less_four:
  assumes "r < (4 :: nat)"
  obtains "r = 0" | "r = 1" | "r = 2" | "r = 3"
  using assms by linarith

lemma copied_frame: "copied (int n) = min n 116 + fill_bytes n"
proof (cases "n < 116")
  case True
  then have "max 0 (min (int n) 116) + 3 = int (n + 3)" by simp
  moreover have "nat (int (n + 3) div 4) = (n + 3) div 4" by (simp add: nat_div_distrib)
  ultimately have "copied (int n) = 4 * ((n + 3) div 4)" by (simp only: copied_def)
  moreover have "4 * ((n + 3) div 4) = n + (4 - n mod 4) mod 4"
  proof -
    define r where "r = n mod 4"
    have n: "n = r + 4 * (n div 4)" "r < 4" by (simp_all add: r_def)
    have "(n + 3) div 4 = n div 4 + (r + 3) div 4" by (subst n(1)) simp
    moreover have "4 * ((r + 3) div 4) = r + (4 - r) mod 4" using n(2) by (rule less_four) simp_all
    ultimately show ?thesis using n(1) by (simp add: r_def)
  qed
  ultimately show ?thesis using True by (simp add: fill_bytes_def)
qed (simp add: copied_def fill_bytes_def)

text \<open>
  C38: The keep-alive command. Where \<open>char\<close> is unsigned, for every frame in the receive buffer the command fits into the 256 bytes of the
  caller, and reading its hexadecimal digits back gives the first 116 bytes of the frame, followed, for a
  frame of less than 116 bytes whose length is not a multiple of four, by one to three bytes that the buffer held behind the frame. So exactly the frame comes back just
  when its length is at most 116 and a multiple of four.
\<close>

theorem keep_alive_command_roundtrip:
  assumes "3 \<le> length behind"
  shows "\<exists>cmd. build_keep_alive_command False 256 (frame @ behind) (int (length frame)) [] = Some (0, cmd) \<and> length cmd < 256 \<and>
    take 21 cmd = KEEP_ALIVE \<and>
    read_hex (drop 21 cmd) = Some (map unat (take 116 frame @ take (fill_bytes (length frame)) behind)) \<and>
    (read_hex (drop 21 cmd) = Some (map unat frame) \<longleftrightarrow> length frame \<le> 116 \<and> length frame mod 4 = 0)"
proof -
  let ?n = "length frame"
  have fill: "fill_bytes ?n \<le> 3" unfolding fill_bytes_def by (simp add: less_Suc_eq_le [symmetric])
  then have fits: "copied (int ?n) \<le> length (frame @ behind)" using assms by (simp add: copied_frame)
  have bytes: "take (copied (int ?n)) (frame @ behind) = take 116 frame @ take (fill_bytes ?n) behind"
    by (auto simp: copied_frame fill_bytes_def min_def)
  have "length (take 116 frame @ take (fill_bytes ?n) behind) = min ?n 116 + fill_bytes ?n" using fill assms by simp
  moreover have "min ?n 116 + fill_bytes ?n = ?n \<longleftrightarrow> ?n \<le> 116 \<and> ?n mod 4 = 0"
  proof (cases "?n < 116")
    case True
    have "(4 - ?n mod 4) mod 4 = 0 \<longleftrightarrow> ?n mod 4 = 0" by presburger
    then show ?thesis using True by (simp add: fill_bytes_def)
  qed (auto simp: fill_bytes_def min_def)
  moreover have "?n mod 4 = 0 \<Longrightarrow> fill_bytes ?n = 0" by (simp add: fill_bytes_def)
  ultimately have exact: "take 116 frame @ take (fill_bytes ?n) behind = frame \<longleftrightarrow> ?n \<le> 116 \<and> ?n mod 4 = 0"
    by (metis append_Nil2 take0 take_all)
  have inj: "map unat xs = map unat ys \<longleftrightarrow> xs = ys" for xs ys :: "u8 list"
    by (rule inj_map_eq_map) (simp add: inj_def word_unat_eq_iff)
  from keep_alive_command_digits [OF _ fits, unfolded bytes] obtain cmd where
      "build_keep_alive_command False 256 (frame @ behind) (int ?n) [] = Some (0, cmd)" "length cmd < 256" "take 21 cmd = KEEP_ALIVE"
      "read_hex (drop 21 cmd) = Some (map unat (take 116 frame @ take (fill_bytes ?n) behind))"
    by auto
  then show ?thesis by (intro exI [of _ cmd]) (simp only: option.inject inj exact simp_thms)
qed

theorem keep_alive_command_roundtrip_witness:
  "\<exists>cmd. build_keep_alive_command False 256 (demo_heartbeat @ [7, 8, 9]) 78 [] = Some (0, cmd) \<and> length cmd < 256 \<and>
    read_hex (drop 21 cmd) = Some (map unat (demo_heartbeat @ [7, 8]))"
proof -
  have len: "length demo_heartbeat = 78" by (simp add: demo_heartbeat_def)
  then have "take 116 demo_heartbeat @ take (fill_bytes (length demo_heartbeat)) [7, 8, 9] = demo_heartbeat @ [7, 8]"
    by (simp add: fill_bytes_def)
  then show ?thesis
    using keep_alive_command_roundtrip [of "[7, 8, 9]" demo_heartbeat] len by auto
qed

lemma digits_hex_length: "n < 16 ^ Suc k \<Longrightarrow> 16 ^ k \<le> n \<Longrightarrow> length (digits 16 n) = Suc k"
proof (induction k arbitrary: n)
  case (Suc k)
  have "n div 16 < 16 ^ Suc k" "16 ^ k \<le> n div 16" using Suc.prems by (simp_all add: less_mult_imp_div_less div_le_mono less_eq_div_iff_mult_less_eq mult.commute)
  moreover have "16 \<le> n" using Suc.prems(2) by (metis le_trans mult_le_mono2 mult.right_neutral one_le_numeral one_le_power power_Suc)
  ultimately show ?case using Suc.IH [of "n div 16"] by (simp add: digits_step)
qed simp

lemma sint_byte: "sint (b :: u8) = (if 128 \<le> uint b then uint b - 256 else uint b)"
proof -
  note u = uint_byte [of b]
  have "bit (uint b) 7 \<longleftrightarrow> odd (uint b div 128)" by (simp add: bit_iff_odd)
  also have "\<dots> \<longleftrightarrow> 128 \<le> uint b" using u by presburger
  finally have "bit (uint b) 7 \<longleftrightarrow> 128 \<le> uint b" .
  moreover have "take_bit 8 (uint b) = uint b" using u by (simp add: take_bit_int_eq_self)
  ultimately show ?thesis
    by (simp add: sint_uint signed_take_bit_eq_take_bit_minus)
qed

text \<open>A byte above 127 is printed with eight digits where \<open>char\<close> is signed.\<close>

lemma hex_char_signed_high:
  assumes "128 \<le> unat b"
  shows "length (hex_char True b) = 8"
proof -
  have "uint b = int (unat b)" by (rule of_nat_unat [symmetric])
  then have u: "128 \<le> uint b" "uint b < 256" using assms uint_byte [of b] by linarith+
  then have "sint b = uint b - 256" by (simp add: sint_byte)
  moreover have "(uint b - 256) mod 0x100000000 = (uint b - 256 + 0x100000000) mod 0x100000000" by (rule mod_add_self2 [symmetric])
  moreover have "\<dots> = uint b - 256 + 0x100000000" using u by (intro mod_pos_pos_trivial) linarith+
  ultimately have s: "nat (char_val True b mod 0x100000000) = nat (uint b + 0xFFFFFF00)"
    by (simp only: char_val_def if_True)
  have "length (digits 16 (nat (uint b + 0xFFFFFF00))) = Suc 7" using u by (intro digits_hex_length) simp_all
  moreover have "\<not> nat (uint b + 0xFFFFFF00) < 16" using u by simp
  ultimately show ?thesis by (simp add: hex_char_def s print_hex2_def)
qed

text \<open>The digits of a frame take two characters for each byte, and eight for one above 127.\<close>

lemma hex_char_length: "2 \<le> length (hex_char sc b)"
proof (cases "nat (char_val sc b mod 0x100000000) < 16")
  case False
  then obtain q where "nat (char_val sc b mod 0x100000000) = q" "16 \<le> q" by simp
  then show ?thesis by (cases "q div 16 < 16") (simp_all add: hex_char_def print_hex2_def digits_step)
qed (simp add: hex_char_def print_hex2_def digits_step)

lemma hex_bytes_length: "2 * length bs \<le> length (hex_bytes sc bs)"
proof (induction bs)
  case (Cons b bs)
  then show ?case using hex_char_length [of sc b] by (simp add: hex_bytes_def)
qed simp

text \<open>
  The buffer of the keep-alive command is too small where \<open>char\<close> is signed: a frame of at least 116
  bytes with one byte above 127 among the first 116 is printed past the 256 bytes of \<open>handle_packet\<close>,
  although the comment says that the buffer need not be greater.
\<close>

theorem keep_alive_command_overflow:
  assumes "116 \<le> len" and "116 \<le> length d" and "i < 116" and "128 \<le> unat (d ! i)"
  shows "build_keep_alive_command True 256 d len [] = None"
proof -
  have c: "copied len = 116" using assms(1) by (simp add: copied_def)
  have "take 116 d = take i (take 116 d) @ d ! i # drop (Suc i) (take 116 d)"
    using assms(2,3) id_take_nth_drop [of i "take 116 d"] by simp
  then have "hex_bytes True (take 116 d) =
      hex_bytes True (take i (take 116 d)) @ hex_char True (d ! i) @ hex_bytes True (drop (Suc i) (take 116 d))"
    by (metis append_Cons append_Nil hex_bytes_append hex_bytes_single)
  then have "length (hex_bytes True (take 116 d)) \<ge> 2 * i + 8 + 2 * (115 - i)"
    using hex_bytes_length [of "take i (take 116 d)" True] hex_bytes_length [of "drop (Suc i) (take 116 d)" True]
      hex_char_signed_high [OF assms(4)] assms(2,3) by simp
  then have "\<not> length (KEEP_ALIVE @ hex_bytes True (take 116 d)) < 256"
    using assms(3) by (simp add: KEEP_ALIVE_length)
  then show ?thesis using build_keep_alive_result [of len d True] assms(1,2) c by (simp add: Let_def)
qed

theorem keep_alive_command_overflow_witness:
  "build_keep_alive_command True 256 (replicate 116 0x88) 116 [] = None"
  using keep_alive_command_overflow [of 116 "replicate 116 0x88" 0] by simp

end
