(* ===== verification/Pthread_Model.thy ===== *)
theory Pthread_Model
  imports C_Prelude
begin

text \<open>
  \<^verbatim>\<open>pthread/pthread_model.c\<close>: a thread that calls a routine again and again until its model is destroyed.
  The bits of \<open>running\<close> tell whether the thread is to run and whether the model came from \<open>malloc\<close>. The
  program and its threads share the memory of the models; a step of a thread is one read of the
  flag or one call of the routine, and calls are recorded in the order in which they happen. An
  access to memory that is not allocated and the use of an indeterminate value are \<^const>\<open>None\<close>.
\<close>

section \<open>State\<close>

text \<open>The attributes of a thread: not initialised, initialised (detached or joinable) or destroyed.\<close>

datatype pthread_attr = Attr_raw | Attr_ready bool | Attr_destroyed

text \<open>
  \<open>priv\<close> is the last member of the model, and the handle starts there: \<open>running\<close> fits into \<open>priv\<close>, the
  attributes are behind the end of the model unless it was allocated with room for them.
\<close>

record 'f pthread_model =
  start_routine :: "'f option"
  arg :: addr
  thread_id :: "nat option"
  running :: u32
  attr :: "pthread_attr option"

datatype pc = Enter | Check | Call | Ended

record thread =
  thread_model :: addr
  thread_pc :: pc
  thread_cancel :: bool
  thread_detached :: bool

record 'f threads_world =
  models :: "addr \<Rightarrow> 'f pthread_model option"
  threads :: "nat \<Rightarrow> thread option"
  next_tid :: nat
  calls :: "('f \<times> addr) list"

definition get_model :: "addr \<Rightarrow> ('f, 'x) threads_world_scheme \<Rightarrow> 'f pthread_model option" where
  "get_model m w = models w m"

definition put_model :: "addr \<Rightarrow> 'f pthread_model \<Rightarrow> 'f threads_world \<Rightarrow> 'f threads_world" where
  "put_model m x w = w\<lparr>models := (models w)(m \<mapsto> x)\<rparr>"

definition set_pc :: "nat \<Rightarrow> thread \<Rightarrow> pc \<Rightarrow> 'f threads_world \<Rightarrow> 'f threads_world" where
  "set_pc t th c w = w\<lparr>threads := (threads w)(t := if c = Ended \<and> thread_detached th then None else Some (th\<lparr>thread_pc := c\<rparr>))\<rparr>"

definition pthread_cancel :: "nat option \<Rightarrow> 'f threads_world \<Rightarrow> 'f threads_world option" where
  "pthread_cancel tid w = do {
     t \<leftarrow> tid;
     th \<leftarrow> threads w t;
     Some (w\<lparr>threads := (threads w)(t \<mapsto> th\<lparr>thread_cancel := True\<rparr>)\<rparr>) }"


section \<open>The code\<close>

text \<open>One step of \<open>pthread_model_execute\<close> in thread \<open>t\<close>; a thread that does not exist or has ended does nothing.\<close>

definition pthread_model_execute :: "nat \<Rightarrow> 'f threads_world \<Rightarrow> 'f threads_world option" where
  "pthread_model_execute t w = (case threads w t of
     None \<Rightarrow> Some w
   | Some th \<Rightarrow> (case thread_pc th of
       Enter \<Rightarrow> do {
         model \<leftarrow> get_model (thread_model th) w;
         Some (set_pc t th (if start_routine model = None then Ended else Check) w) }
     | Check \<Rightarrow> do {
         model \<leftarrow> get_model (thread_model th) w;
         Some (set_pc t th (if running model AND 1 \<noteq> 0 then Call else Ended) w) }
     | Call \<Rightarrow> do {
         model \<leftarrow> get_model (thread_model th) w;
         f \<leftarrow> start_routine model;
         Some (set_pc t th Check (w\<lparr>calls := calls w @ [(f, arg model)]\<rparr>)) }
     | Ended \<Rightarrow> Some w))"

text \<open>A thread that was cancelled ends at a cancellation point, of which only the routine may have one.\<close>

definition thread_die :: "nat \<Rightarrow> 'f threads_world \<Rightarrow> 'f threads_world" where
  "thread_die t w = (case threads w t of
     None \<Rightarrow> w
   | Some th \<Rightarrow> if thread_cancel th \<and> thread_pc th = Call then set_pc t th Ended w else w)"

text \<open>\<open>mem\<close> is the result of \<open>malloc\<close>, \<open>attr_ret\<close> that of \<open>pthread_attr_init\<close>.\<close>

definition pthread_model_create :: "addr \<Rightarrow> int \<Rightarrow> 'f option \<Rightarrow> addr \<Rightarrow> 'f threads_world \<Rightarrow> addr \<times> 'f threads_world" where
  "pthread_model_create mem attr_ret func a w =
     (if mem = NULL then (NULL, w)
      else if 0 \<noteq> attr_ret then (NULL, w\<lparr>models := (models w)(mem := None)\<rparr>)
      else (mem, put_model mem \<lparr>start_routine = func, arg = a, thread_id = None, running = push_bit 1 1, attr = Some (Attr_ready True)\<rparr> w))"

definition pthread_model_init :: "addr \<Rightarrow> 'f option \<Rightarrow> addr \<Rightarrow> 'f threads_world \<Rightarrow> (int \<times> 'f threads_world) option" where
  "pthread_model_init model func a w = do {
     x \<leftarrow> get_model model w;
     Some (0, put_model model (x\<lparr>start_routine := func, arg := a, running := 0\<rparr>) w) }"

text \<open>\<open>create_ret\<close> is the result of \<open>pthread_create\<close>; without attributes the thread is joinable.\<close>

definition pthread_model_start :: "addr \<Rightarrow> int \<Rightarrow> 'f threads_world \<Rightarrow> (int \<times> 'f threads_world) option" where
  "pthread_model_start model create_ret w = do {
     x \<leftarrow> get_model model w;
     let x = x\<lparr>running := running x OR 1\<rparr>;
     detached \<leftarrow> (if running x AND push_bit 1 1 \<noteq> 0
       then (case attr x of Some (Attr_ready d) \<Rightarrow> Some d | _ \<Rightarrow> None) else Some False);
     let w = put_model model x w;
     Some (if 0 \<noteq> create_ret then (- 1, w)
       else (0, (put_model model (x\<lparr>thread_id := Some (next_tid w)\<rparr>) w)
         \<lparr>threads := (threads w)(next_tid w \<mapsto>
            \<lparr>thread_model = model, thread_pc = Enter, thread_cancel = False, thread_detached = detached\<rparr>),
          next_tid := next_tid w + 1\<rparr>)) }"

definition pthread_model_destory :: "addr \<Rightarrow> 'f threads_world \<Rightarrow> (int \<times> 'f threads_world) option" where
  "pthread_model_destory model w = do {
     x \<leftarrow> get_model model w;
     let x = x\<lparr>running := running x AND NOT 1\<rparr>;
     w \<leftarrow> pthread_cancel (thread_id x) (put_model model x w);
     (if running x AND push_bit 1 1 \<noteq> 0
      then do {
        _ \<leftarrow> attr x;
        Some (0, w\<lparr>models := (models w)(model := None)\<rparr>) }
      else Some (0, w)) }"

text \<open>A schedule of one thread: \<^const>\<open>True\<close> is a step of its code, \<^const>\<open>False\<close> a chance to act on a cancellation.\<close>

fun thread_events :: "nat \<Rightarrow> bool list \<Rightarrow> 'f threads_world \<Rightarrow> 'f threads_world option" where
  "thread_events t [] w = Some w"
| "thread_events t (True # es) w = do { w \<leftarrow> pthread_model_execute t w; thread_events t es w }"
| "thread_events t (False # es) w = thread_events t es (thread_die t w)"


section \<open>A running thread\<close>

text \<open>Thread \<open>t\<close> executes model \<open>m\<close>, which runs \<open>f a\<close> and has the given bits.\<close>

definition thread_of :: "nat \<Rightarrow> addr \<Rightarrow> 'f \<Rightarrow> addr \<Rightarrow> u32 \<Rightarrow> bool \<Rightarrow> bool \<Rightarrow> 'f threads_world \<Rightarrow> pc \<Rightarrow> bool" where
  "thread_of t m f a r d c w p \<longleftrightarrow>
     (\<exists>x. models w m = Some x \<and> start_routine x = Some f \<and> arg x = a \<and> running x = r \<and> thread_id x = Some t \<and>
        (d \<longrightarrow> attr x = Some (Attr_ready True))) \<and>
     threads w t = Some \<lparr>thread_model = m, thread_pc = p, thread_cancel = c, thread_detached = d\<rparr>"

lemma thread_of_execute:
  assumes "thread_of t m f a r d c w p"
  shows "pthread_model_execute t w = Some (case p of
      Enter \<Rightarrow> set_pc t \<lparr>thread_model = m, thread_pc = p, thread_cancel = c, thread_detached = d\<rparr> Check w
    | Check \<Rightarrow> set_pc t \<lparr>thread_model = m, thread_pc = p, thread_cancel = c, thread_detached = d\<rparr> (if r AND 1 \<noteq> 0 then Call else Ended) w
    | Call \<Rightarrow> set_pc t \<lparr>thread_model = m, thread_pc = p, thread_cancel = c, thread_detached = d\<rparr> Check (w\<lparr>calls := calls w @ [(f, a)]\<rparr>)
    | Ended \<Rightarrow> w)"
  using assms by (auto simp: thread_of_def pthread_model_execute_def get_model_def split: pc.split)

lemma thread_of_set_pc:
  assumes "thread_of t m f a r d c w p" "\<not> (d \<and> q = Ended)"
  shows "thread_of t m f a r d c (set_pc t \<lparr>thread_model = m, thread_pc = p, thread_cancel = c, thread_detached = d\<rparr> q (w\<lparr>calls := cs\<rparr>)) q"
  using assms by (auto simp: thread_of_def set_pc_def)

lemma thread_of_set_pc_same:
  assumes "thread_of t m f a r d c w p" "\<not> (d \<and> q = Ended)"
  shows "thread_of t m f a r d c (set_pc t \<lparr>thread_model = m, thread_pc = p, thread_cancel = c, thread_detached = d\<rparr> q w) q"
  using thread_of_set_pc [OF assms, of "calls w"] by simp

lemma calls_set_pc [simp]: "calls (set_pc t th q w) = calls w"
  by (simp add: set_pc_def)

text \<open>As long as the flag is set and nobody cancels the thread, it goes on calling the routine.\<close>

lemma thread_events_running:
  assumes "thread_of t m f a r d False w p" "p \<noteq> Ended" "r AND 1 \<noteq> 0"
  shows "\<exists>w' q k. thread_events t es w = Some w' \<and> thread_of t m f a r d False w' q \<and> q \<noteq> Ended \<and>
    calls w' = calls w @ replicate k (f, a)"
  using assms(1,2)
proof (induction es arbitrary: w p)
  case Nil
  then show ?case by (auto intro!: exI [of _ p] exI [of _ "0 :: nat"])
next
  case (Cons e es)
  show ?case
  proof (cases e)
    case False
    then have "thread_die t w = w" using Cons.prems(1) by (simp add: thread_of_def thread_die_def)
    then show ?thesis using False Cons.IH [OF Cons.prems] by simp
  next
    case True
    obtain w1 q n where 1: "pthread_model_execute t w = Some w1" "thread_of t m f a r d False w1 q" "q \<noteq> Ended"
        "calls w1 = calls w @ replicate n (f, a)"
    proof (cases p)
      case Enter
      then show ?thesis
        using that [of _ Check 0] thread_of_execute [OF Cons.prems(1)] thread_of_set_pc_same [OF Cons.prems(1), of Check] by simp
    next
      case Check
      then show ?thesis
        using that [of _ Call 0] thread_of_execute [OF Cons.prems(1)] thread_of_set_pc_same [OF Cons.prems(1), of Call] assms(3) by simp
    next
      case Call
      then show ?thesis
        using that [of _ Check 1] thread_of_execute [OF Cons.prems(1)] thread_of_set_pc [OF Cons.prems(1), of Check] by simp
    next
      case Ended
      then show ?thesis using Cons.prems(2) by simp
    qed
    obtain w2 q2 k where "thread_events t es w1 = Some w2" "thread_of t m f a r d False w2 q2" "q2 \<noteq> Ended"
        "calls w2 = calls w1 @ replicate k (f, a)"
      using Cons.IH [OF 1(2,3)] by blast
    then show ?thesis using True 1(1,4)
      by (intro exI [of _ w2] exI [of _ q2] exI [of _ "n + k"]) (simp add: replicate_add)
  qed
qed

text \<open>Once the flag is cleared, the routine is called at most once more, and the thread ends within three steps of its code.\<close>

definition stopping :: "'f \<Rightarrow> addr \<Rightarrow> ('f \<times> addr) list \<Rightarrow> nat \<Rightarrow> 'f threads_world \<Rightarrow> pc \<Rightarrow> bool" where
  "stopping f a cs n w p \<longleftrightarrow> (case p of
     Enter \<Rightarrow> calls w = cs \<and> n = 0
   | Call \<Rightarrow> calls w = cs \<and> n = 0
   | Check \<Rightarrow> calls w \<in> {cs, cs @ [(f, a)]} \<and> n \<le> 1
   | Ended \<Rightarrow> calls w \<in> {cs, cs @ [(f, a)]})"

lemma thread_events_stopping:
  assumes "thread_of t m f a r False True w p" "r AND 1 = 0" "stopping f a cs n w p"
  shows "\<exists>w' q. thread_events t es w = Some w' \<and> thread_of t m f a r False True w' q \<and>
    stopping f a cs (n + length (filter id es)) w' q"
  using assms(1,3)
proof (induction es arbitrary: w p n)
  case Nil
  then show ?case by auto
next
  case (Cons e es)
  let ?set = "set_pc t \<lparr>thread_model = m, thread_pc = p, thread_cancel = True, thread_detached = False\<rparr>"
  show ?case
  proof (cases e)
    case False
    have "thread_die t w = (if p = Call then ?set Ended w else w)"
      using Cons.prems(1) by (simp add: thread_of_def thread_die_def)
    then obtain q where "thread_of t m f a r False True (thread_die t w) q" "stopping f a cs n (thread_die t w) q"
      using Cons.prems thread_of_set_pc_same [OF Cons.prems(1), of Ended] by (cases "p = Call") (auto simp: stopping_def)
    from Cons.IH [OF this] show ?thesis using False by simp
  next
    case True
    note ex = thread_of_execute [OF Cons.prems(1)]
    note set = thread_of_set_pc_same [OF Cons.prems(1)]
    obtain w1 q where 1: "pthread_model_execute t w = Some w1" "thread_of t m f a r False True w1 q" "stopping f a cs (Suc n) w1 q"
    proof (cases p)
      case Enter
      then show ?thesis using that [of "?set Check w" Check] ex set [of Check] Cons.prems(2) by (simp add: stopping_def)
    next
      case Check
      then show ?thesis using that [of "?set Ended w" Ended] ex set [of Ended] Cons.prems(2) assms(2) by (simp add: stopping_def)
    next
      case Call
      then show ?thesis
        using that [of "?set Check (w\<lparr>calls := calls w @ [(f, a)]\<rparr>)" Check] ex thread_of_set_pc [OF Cons.prems(1), of Check] Cons.prems(2)
        by (simp add: stopping_def)
    next
      case Ended
      then show ?thesis using that [of w Ended] ex Cons.prems by (simp add: stopping_def)
    qed
    from Cons.IH [OF 1(2,3)] show ?thesis using True 1(1) by simp
  qed
qed

lemma start_thread_of:
  assumes "models w m = Some x" "start_routine x = Some f" "arg x = a"
    and "d \<longleftrightarrow> running x AND 2 \<noteq> 0" "d \<Longrightarrow> attr x = Some (Attr_ready True)" "running x \<in> {0, 2}"
  shows "\<exists>w'. pthread_model_start m 0 w = Some (0, w') \<and> thread_of (next_tid w) m f a (running x OR 1) d False w' Enter \<and> calls w' = calls w"
  using assms by (auto simp: pthread_model_start_def get_model_def put_model_def thread_of_def Let_def)

lemma destory_static:
  assumes "thread_of t m f a 1 False False w p"
  shows "\<exists>w'. pthread_model_destory m w = Some (0, w') \<and> thread_of t m f a 0 False True w' p \<and> calls w' = calls w"
  using assms
  by (auto simp: thread_of_def pthread_model_destory_def pthread_cancel_def get_model_def put_model_def Let_def)

lemma destory_dynamic:
  assumes "thread_of t m f a 3 True False w p"
  shows "\<exists>w'. pthread_model_destory m w = Some (0, w') \<and> models w' m = None \<and>
    threads w' t = Some \<lparr>thread_model = m, thread_pc = p, thread_cancel = True, thread_detached = True\<rparr>"
  using assms
  by (auto simp: thread_of_def pthread_model_destory_def pthread_cancel_def get_model_def put_model_def Let_def)

definition model_demo :: "string threads_world" where
  "model_demo = \<lparr>models = [8 \<mapsto> \<lparr>start_routine = None, arg = 0, thread_id = None, running = 0xdead, attr = None\<rparr>],
     threads = Map.empty, next_tid = 5, calls = []\<rparr>"


section \<open>Properties\<close>

text \<open>
  C23: The life of a model in memory of the caller. After \<open>pthread_model_init\<close> and \<open>pthread_model_start\<close> the
  new thread makes nothing but calls of the given routine with the given argument, however it is
  scheduled. After \<open>pthread_model_destory\<close> it makes at most one more of them, and once it has made three
  more steps it has ended. Nothing is accessed that is not allocated, the attributes included.
\<close>

theorem pthread_model_stops:
  assumes "models w m = Some x"
  shows "\<exists>w0 w1 w2 w3 w4 p k. pthread_model_init m (Some f) a w = Some (0, w0) \<and> pthread_model_start m 0 w0 = Some (0, w1) \<and>
    thread_events (next_tid w) es w1 = Some w2 \<and> calls w2 = calls w @ replicate k (f, a) \<and>
    pthread_model_destory m w2 = Some (0, w3) \<and> thread_events (next_tid w) es' w3 = Some w4 \<and>
    calls w4 \<in> {calls w2, calls w2 @ [(f, a)]} \<and> map_option thread_pc (threads w4 (next_tid w)) = Some p \<and>
    (3 \<le> length (filter id es') \<longrightarrow> p = Ended)"
proof -
  define w0 where "w0 = put_model m (x\<lparr>start_routine := Some f, arg := a, running := 0\<rparr>) w"
  have 0: "pthread_model_init m (Some f) a w = Some (0, w0)" "next_tid w0 = next_tid w" "calls w0 = calls w"
    using assms by (simp_all add: pthread_model_init_def get_model_def w0_def put_model_def)
  obtain w1 where 1: "pthread_model_start m 0 w0 = Some (0, w1)" "thread_of (next_tid w) m f a 1 False False w1 Enter" "calls w1 = calls w"
    using start_thread_of [of w0 m "x\<lparr>start_routine := Some f, arg := a, running := 0\<rparr>" f a False] 0(2,3)
    by (auto simp: w0_def put_model_def)
  obtain w2 q k where 2: "thread_events (next_tid w) es w1 = Some w2" "thread_of (next_tid w) m f a 1 False False w2 q"
      "q \<noteq> Ended" "calls w2 = calls w @ replicate k (f, a)"
    using thread_events_running [OF 1(2), of es] 1(3) by auto
  obtain w3 where 3: "pthread_model_destory m w2 = Some (0, w3)" "thread_of (next_tid w) m f a 0 False True w3 q" "calls w3 = calls w2"
    using destory_static [OF 2(2)] by blast
  have "stopping f a (calls w2) 0 w3 q" using 3(3) 2(3) by (cases q) (simp_all add: stopping_def)
  then obtain w4 p where 4: "thread_events (next_tid w) es' w3 = Some w4" "thread_of (next_tid w) m f a 0 False True w4 p"
      "stopping f a (calls w2) (length (filter id es')) w4 p"
    using thread_events_stopping [OF 3(2), of "calls w2" 0 es'] by auto
  have "calls w4 \<in> {calls w2, calls w2 @ [(f, a)]}" "3 \<le> length (filter id es') \<longrightarrow> p = Ended"
    using 4(3) by (cases p; auto simp: stopping_def)+
  moreover have "map_option thread_pc (threads w4 (next_tid w)) = Some p" using 4(2) by (simp add: thread_of_def)
  ultimately show ?thesis using 0(1) 1(1) 2(1,4) 3(1) 4(1) by blast
qed

theorem pthread_model_stops_witness:
  "\<exists>w0 w1 w2 w3 w4. pthread_model_init 8 (Some ''work'') 16 model_demo = Some (0, w0) \<and> pthread_model_start 8 0 w0 = Some (0, w1) \<and>
    thread_events 5 [True, True, True, False, True] w1 = Some w2 \<and> pthread_model_destory 8 w2 = Some (0, w3) \<and>
    thread_events 5 [True, True, True] w3 = Some w4 \<and> map_option thread_pc (threads w4 5) = Some Ended"
  using pthread_model_stops [of model_demo 8 _ "''work''" 16 "[True, True, True, False, True]" "[True, True, True]"]
  by (auto simp: model_demo_def)

text \<open>
  C39: The life of a model from \<open>pthread_model_create\<close>. It runs like the other, but \<open>pthread_model_destory\<close>
  frees the model while the detached thread is still in it: whatever the schedule was, the next step
  of the thread reads freed memory, unless the cancellation ends it first, which it can only do
  inside the routine.
\<close>

theorem pthread_model_destory_frees_too_early:
  assumes "m \<noteq> NULL"
  shows "\<exists>w0 w1 w2 w3. pthread_model_create m 0 (Some f) a w = (m, w0) \<and> pthread_model_start m 0 w0 = Some (0, w1) \<and>
    thread_events (next_tid w) es w1 = Some w2 \<and> pthread_model_destory m w2 = Some (0, w3) \<and>
    pthread_model_execute (next_tid w) w3 = None"
proof -
  define x where "x = \<lparr>start_routine = Some f, arg = a, thread_id = None, running = 2, attr = Some (Attr_ready True)\<rparr>"
  have 0: "pthread_model_create m 0 (Some f) a w = (m, put_model m x w)"
    using assms by (simp add: pthread_model_create_def x_def)
  obtain w1 where 1: "pthread_model_start m 0 (put_model m x w) = Some (0, w1)" "thread_of (next_tid w) m f a 3 True False w1 Enter"
    using start_thread_of [of "put_model m x w" m x f a True] by (auto simp: x_def put_model_def)
  obtain w2 q k where 2: "thread_events (next_tid w) es w1 = Some w2" "thread_of (next_tid w) m f a 3 True False w2 q" "q \<noteq> Ended"
    using thread_events_running [OF 1(2), of es] by auto
  obtain w3 where 3: "pthread_model_destory m w2 = Some (0, w3)" "models w3 m = None"
      "threads w3 (next_tid w) = Some \<lparr>thread_model = m, thread_pc = q, thread_cancel = True, thread_detached = True\<rparr>"
    using destory_dynamic [OF 2(2)] by blast
  have "pthread_model_execute (next_tid w) w3 = None"
    using 3(2,3) 2(3) by (cases q) (simp_all add: pthread_model_execute_def get_model_def)
  then show ?thesis using 0 1(1) 2(1) 3(1) by blast
qed

theorem pthread_model_destory_frees_too_early_witness:
  "\<exists>w0 w1 w2 w3. pthread_model_create 24 0 (Some ''work'') 16 model_demo = (24, w0) \<and> pthread_model_start 24 0 w0 = Some (0, w1) \<and>
    thread_events 5 [True, True, True] w1 = Some w2 \<and> pthread_model_destory 24 w2 = Some (0, w3) \<and> pthread_model_execute 5 w3 = None"
  using pthread_model_destory_frees_too_early [of 24 "''work''" 16 model_demo "[True, True, True]"] by (simp add: model_demo_def)

text \<open>A model whose thread could not be created cannot be destroyed: there is no thread to cancel.\<close>

lemma pthread_model_start_failed:
  assumes "m \<noteq> NULL" "e \<noteq> 0"
  shows "\<exists>w0 w1. pthread_model_create m 0 f a w = (m, w0) \<and> pthread_model_start m e w0 = Some (- 1, w1) \<and> pthread_model_destory m w1 = None"
  using assms
  by (auto simp: pthread_model_create_def pthread_model_start_def pthread_model_destory_def get_model_def put_model_def pthread_cancel_def Let_def)

end
