(* ===== verification/Sniffer_Framework.thy ===== *)
theory Sniffer_Framework
  imports Klist Pthread_Model C_Strings
begin

text \<open>
  \<^verbatim>\<open>socket/sniffer_framework.c\<close>: a raw socket whose frames are shown to a list of filters, in a thread of
  \<open>Pthread_Model\<close>. The filters are kept in a list of \<^verbatim>\<open>klist.h\<close> through their first member \<open>entry\<close>, so a
  filter and its entry have the same address. The functions of a filter are given the buffer and
  may change it, and the rest of the program, of type \<open>'s\<close>; they do not change the list. The buffer is
  \<^const>\<open>None\<close> when it is not allocated; its use is then \<^const>\<open>None\<close>, as is a failed assertion.
\<close>

section \<open>The code\<close>

type_synonym 's callback = "u8 list \<Rightarrow> int \<Rightarrow> addr \<Rightarrow> 's \<Rightarrow> int \<times> u8 list \<times> 's"

record 's sniffer_filter =
  match :: "'s callback"
  action :: "'s callback"
  data :: addr

record sinffer =
  sockfd :: int
  buffer :: "u8 list option"
  buf_size :: int
  model_dynamic :: addr
  filter_head :: addr
  is_debug :: int

datatype routine = Sniffer_model

record 's sniffer_world =
  w_links :: lheap
  w_filters :: "addr \<Rightarrow> 's sniffer_filter option"
  w_threads :: "routine threads_world"
  w_closed :: "int list"
  w_stderr :: string
  w_state :: 's

definition MAX_ETH_FRAME :: int where
  "MAX_ETH_FRAME = 1536"

text \<open>\<open>mem\<close> is what \<open>malloc\<close> returns, with its contents, and \<open>skt\<close> what \<open>socket\<close> returns.\<close>

definition sniffer_init ::
  "u8 list option \<Rightarrow> int \<Rightarrow> sinffer \<Rightarrow> int \<Rightarrow> 's sniffer_world \<Rightarrow> (int \<times> sinffer \<times> 's sniffer_world) option" where
  "sniffer_init mem skt snf debug w =
     (let snf = snf\<lparr>buf_size := MAX_ETH_FRAME, buffer := mem\<rparr> in
      if mem = None then Some (- 1, snf, w\<lparr>w_stderr := w_stderr w @ ''no mem alloc!'' @ [CHR 10]\<rparr>)
      else let snf = snf\<lparr>sockfd := skt\<rparr> in
      if skt < 0 then Some (- 1, snf\<lparr>buffer := None\<rparr>, w\<lparr>w_stderr := w_stderr w @ ''raw_sock Error''\<rparr>)
      else do {
        h \<leftarrow> kINIT_LIST_HEAD (filter_head snf) (w_links w);
        Some (0, snf\<lparr>model_dynamic := NULL, is_debug := debug\<rparr>, w\<lparr>w_links := h\<rparr>) })"

definition register_sniffer :: "sinffer \<Rightarrow> addr \<Rightarrow> 's sniffer_world \<Rightarrow> (int \<times> 's sniffer_world) option" where
  "register_sniffer snf flt w = do {
     h \<leftarrow> klist_add flt (filter_head snf) (w_links w);
     Some (0, w\<lparr>w_links := h\<rparr>) }"

text \<open>\<open>self\<close> is the address of \<open>snf\<close>; \<open>mem\<close>, \<open>attr_ret\<close> and \<open>create_ret\<close> are as in \<open>Pthread_Model\<close>.\<close>

definition sniffer_start ::
  "addr \<Rightarrow> addr \<Rightarrow> int \<Rightarrow> int \<Rightarrow> sinffer \<Rightarrow> 's sniffer_world \<Rightarrow> (int \<times> sinffer \<times> 's sniffer_world) option" where
  "sniffer_start self mem attr_ret create_ret snf w = do {
     let (m, ts) = pthread_model_create mem attr_ret (Some Sniffer_model) self (w_threads w);
     (if m = NULL then None
      else do {
        (_, ts) \<leftarrow> pthread_model_start m create_ret ts;
        Some (0, snf\<lparr>model_dynamic := m\<rparr>, w\<lparr>w_threads := ts\<rparr>) }) }"

definition sniffer_destroy :: "sinffer \<Rightarrow> 's sniffer_world \<Rightarrow> (int \<times> sinffer \<times> 's sniffer_world) option" where
  "sniffer_destroy snf w = do {
     (_, ts) \<leftarrow> (if model_dynamic snf = NULL then None else pthread_model_destory (model_dynamic snf) (w_threads w));
     Some (0, snf\<lparr>buffer := None\<rparr>, w\<lparr>w_threads := ts, w_closed := w_closed w @ [sockfd snf]\<rparr>) }"

function show_loop :: "u8 list \<Rightarrow> int \<Rightarrow> int \<Rightarrow> string \<Rightarrow> string option" where
  "show_loop buf i n out =
     (if i < n then do {
        b \<leftarrow> array_get buf i;
        show_loop buf (i + 1) n (out @ '' '' @ digits 16 (unat b) @ '' '') }
      else Some out)"
  by pat_completeness auto
termination by (relation "measure (\<lambda>(buf, i, n, out). nat (n - i))") auto

declare show_loop.simps [simp del]

definition show_eth_data :: "u8 list \<Rightarrow> int \<Rightarrow> string \<Rightarrow> string option" where
  "show_eth_data buf n out = do {
     out \<leftarrow> show_loop buf 0 n (out @ [CHR 10] @ '' eth data: '');
     Some (out @ [CHR 10]) }"

partial_function (option) filter_loop ::
  "lheap \<Rightarrow> (addr \<Rightarrow> 's sniffer_filter option) \<Rightarrow> addr \<Rightarrow> addr \<Rightarrow> u8 list \<Rightarrow> int \<Rightarrow> 's \<Rightarrow> (u8 list \<times> 's) option" where
  "filter_loop h fs head pos buf n s =
     (if pos = head then Some (buf, s)
      else Option.bind (fs pos) (\<lambda>f.
        let (hit, buf, s) = match f buf n (data f) s;
            (buf, s) = (if hit = 0 then (buf, s) else snd (action f buf n (data f) s))
        in Option.bind (get_next pos h) (\<lambda>nxt. filter_loop h fs head nxt buf n s)))"

text \<open>One round of the thread; \<open>frame\<close> is what arrives on the socket, \<^const>\<open>None\<close> an error of \<open>recvfrom\<close>.\<close>

definition sniffer_model :: "u8 list option \<Rightarrow> sinffer \<Rightarrow> 's sniffer_world \<Rightarrow> (sinffer \<times> 's sniffer_world) option" where
  "sniffer_model frame snf w = (case frame of
     None \<Rightarrow> Some (snf, w)
   | Some bytes \<Rightarrow> do {
       buf \<leftarrow> buffer snf;
       let got = take (nat (buf_size snf)) bytes;
       (if length buf < length got then None
        else do {
          let buf = got @ drop (length got) buf;
          let data_size = int (length got);
          out \<leftarrow> (if is_debug snf \<noteq> 0 then show_eth_data buf data_size (w_stderr w) else Some (w_stderr w));
          pos \<leftarrow> get_next (filter_head snf) (w_links w);
          (buf, s) \<leftarrow> filter_loop (w_links w) (w_filters w) (filter_head snf) pos buf data_size (w_state w);
          Some (snf\<lparr>buffer := Some buf\<rparr>, w\<lparr>w_stderr := out, w_state := s\<rparr>) }) })"

text \<open>A program that registers filters one after the other.\<close>

fun register_all :: "sinffer \<Rightarrow> addr list \<Rightarrow> 's sniffer_world \<Rightarrow> 's sniffer_world option" where
  "register_all snf [] w = Some w"
| "register_all snf (x # xs) w = do { (_, w) \<leftarrow> register_sniffer snf x w; register_all snf xs w }"


section \<open>Filters\<close>

text \<open>What a list of filters makes of a frame.\<close>

fun run_filters :: "'s sniffer_filter list \<Rightarrow> u8 list \<Rightarrow> int \<Rightarrow> 's \<Rightarrow> u8 list \<times> 's" where
  "run_filters [] buf n s = (buf, s)"
| "run_filters (f # fs) buf n s =
     (let (hit, buf, s) = match f buf n (data f) s;
          (buf, s) = (if hit = 0 then (buf, s) else snd (action f buf n (data f) s))
      in run_filters fs buf n s)"

lemma filter_loop_runs:
  assumes "dlist h hp (us @ xs)" "map fs xs = map Some gs"
  shows "filter_loop h fs hp (hd (xs @ [hp])) buf n s = Some (run_filters gs buf n s)"
  using assms
proof (induction xs arbitrary: us gs buf s)
  case Nil
  then show ?case by (simp add: filter_loop.simps)
next
  case (Cons x xs)
  obtain g gs' where g: "gs = g # gs'" "fs x = Some g" "map fs xs = map Some gs'"
    using Cons.prems(2) by (cases gs) auto
  have next_node: "get_next x h = Some (hd (xs @ [hp]))" by (rule dlist_neighbours(2) [OF Cons.prems(1)])
  have rest: "filter_loop h fs hp (hd (xs @ [hp])) b n t = Some (run_filters gs' b n t)" for b t
    using Cons.prems(1) g(3) by (intro Cons.IH [of "us @ [x]"]) simp_all
  have "x \<noteq> hp" using Cons.prems(1) by (auto simp: dlist_def)
  then show ?case
    by (subst filter_loop.simps) (simp add: g next_node rest Let_def split: prod.split)
qed

lemma dlist_head_next: "dlist h hp xs \<Longrightarrow> get_next hp h = Some (hd (xs @ [hp]))"
  using dlist_first [of h hp xs] by (cases xs) simp_all

text \<open>Filters that only look at a frame, and act on the rest of the program only.\<close>

definition observes :: "'s sniffer_filter \<Rightarrow> (u8 list \<Rightarrow> bool) \<Rightarrow> (u8 list \<Rightarrow> 's \<Rightarrow> 's) \<Rightarrow> bool" where
  "observes f hit eff \<longleftrightarrow> (\<forall>buf n s. match f buf n (data f) s = ((if hit (take (nat n) buf) then 1 else 0), buf, s) \<and>
     snd (action f buf n (data f) s) = (buf, eff (take (nat n) buf) s))"

lemma run_filters_observe:
  assumes "list_all2 (\<lambda>f (hit, eff). observes f hit eff) fs os"
  shows "run_filters fs buf n s = (buf, fold (\<lambda>(hit, eff). eff (take (nat n) buf)) (filter (\<lambda>(hit, eff). hit (take (nat n) buf)) os) s)"
  using assms
proof (induction fs arbitrary: os s)
  case (Cons f fs)
  then obtain hit eff os' where "os = (hit, eff) # os'" "observes f hit eff" "list_all2 (\<lambda>f (hit, eff). observes f hit eff) fs os'"
    by (auto simp: list_all2_Cons1)
  then show ?case using Cons.IH [of os'] by (simp add: observes_def Let_def)
qed simp

lemma show_loop_total:
  assumes "i + k \<le> length buf"
  shows "\<exists>out'. show_loop buf (int i) (int (i + k)) out = Some (out @ out')"
  using assms
proof (induction k arbitrary: i out)
  case 0
  then show ?case by (subst show_loop.simps) simp
next
  case (Suc k)
  let ?out = "out @ '' '' @ digits 16 (unat (buf ! i)) @ '' ''"
  obtain out' where "show_loop buf (int (Suc i)) (int (Suc i + k)) ?out = Some (?out @ out')"
    using Suc.IH [of "Suc i" ?out] Suc.prems by auto
  then show ?case using Suc.prems by (subst show_loop.simps) (simp add: add.commute)
qed

lemma show_eth_data_total: "n \<le> length buf \<Longrightarrow> \<exists>out'. show_eth_data buf (int n) out = Some out'"
  using show_loop_total [of 0 n buf "out @ [CHR 10] @ '' eth data: ''"] by (auto simp: show_eth_data_def)

lemma sniffer_model_runs:
  assumes "dlist (w_links w) (filter_head snf) xs" "map (w_filters w) xs = map Some gs"
    and "buffer snf = Some buf" "buf_size snf = MAX_ETH_FRAME" "length buf = 1536"
  shows "\<exists>snf' w'. sniffer_model (Some frame) snf w = Some (snf', w') \<and>
    (buffer snf', w_state w') = apfst Some
      (let got = take 1536 frame in run_filters gs (got @ drop (length got) buf) (int (length got)) (w_state w))"
proof -
  define got where "got = take 1536 frame"
  define b where "b = got @ drop (length got) buf"
  obtain b' s' where r: "run_filters gs b (int (length got)) (w_state w) = (b', s')" by fastforce
  have "length got \<le> length b" by (simp add: b_def)
  then obtain out where out: "(if is_debug snf \<noteq> 0 then show_eth_data b (int (length got)) (w_stderr w) else Some (w_stderr w)) = Some out"
    using show_eth_data_total by fastforce
  have "filter_loop (w_links w) (w_filters w) (filter_head snf) (hd (xs @ [filter_head snf])) b (int (length got)) (w_state w) = Some (b', s')"
    using filter_loop_runs [of _ _ "[]" xs _ gs] assms(1,2) r by simp
  then have "sniffer_model (Some frame) snf w = Some (snf\<lparr>buffer := Some b'\<rparr>, w\<lparr>w_stderr := out, w_state := s'\<rparr>)"
    using assms(3-5) out dlist_head_next [OF assms(1)]
    unfolding sniffer_model_def by (simp add: MAX_ETH_FRAME_def got_def [symmetric] b_def [symmetric]) (simp add: got_def)
  then show ?thesis using r by (simp add: got_def [symmetric] b_def Let_def)
qed

lemma register_all_dlist:
  assumes "dlist (w_links w) (filter_head snf) ys" "distinct (filter_head snf # xs @ ys)" "\<forall>x\<in>set xs. w_links w x \<noteq> None"
  shows "\<exists>w'. register_all snf xs w = Some w' \<and> dlist (w_links w') (filter_head snf) (rev xs @ ys) \<and>
    w_filters w' = w_filters w \<and> w_state w' = w_state w"
  using assms
proof (induction xs arbitrary: w ys)
  case (Cons x xs)
  obtain h where h: "klist_add x (filter_head snf) (w_links w) = Some h" "dlist h (filter_head snf) (x # ys)"
      "same_outside (set (x # filter_head snf # ys)) (w_links w) h"
    using klist.add_law [OF Cons.prems(1), of x] Cons.prems(2,3) by auto
  have "\<forall>z\<in>set xs. h z \<noteq> None"
    using h(3) Cons.prems(2,3) by (auto simp: same_outside_def)
  then obtain w' where "register_all snf xs (w\<lparr>w_links := h\<rparr>) = Some w'" "dlist (w_links w') (filter_head snf) (rev xs @ x # ys)"
      "w_filters w' = w_filters w" "w_state w' = w_state w"
    using Cons.IH [of "w\<lparr>w_links := h\<rparr>" "x # ys"] h(2) Cons.prems(2) by auto
  then show ?case using h(1) by (simp add: register_sniffer_def)
qed simp

lemma sniffer_init_ready:
  assumes "0 \<le> skt" "w_links w (filter_head snf) \<noteq> None"
  shows "\<exists>snf' w'. sniffer_init (Some mem) skt snf debug w = Some (0, snf', w') \<and> dlist (w_links w') (filter_head snf) [] \<and>
    same_outside {filter_head snf} (w_links w) (w_links w') \<and> filter_head snf' = filter_head snf \<and>
    buffer snf' = Some mem \<and> buf_size snf' = MAX_ETH_FRAME \<and> w_filters w' = w_filters w \<and> w_state w' = w_state w"
  using klist.init_law [of "w_links w" "filter_head snf"] assms by (auto simp: sniffer_init_def Let_def)

definition logs :: "(u8 list \<Rightarrow> bool) \<Rightarrow> string \<Rightarrow> string list sniffer_filter" where
  "logs hit name = \<lparr>match = \<lambda>buf n d s. (if hit (take (nat n) buf) then 1 else 0, buf, s), action = \<lambda>buf n d s. (0, buf, s @ [name]), data = NULL\<rparr>"

lemma logs_observes: "observes (logs hit name) hit (\<lambda>_ s. s @ [name])"
  by (simp add: observes_def logs_def)

definition demo_snf :: sinffer where
  "demo_snf = \<lparr>sockfd = 0, buffer = None, buf_size = 0, model_dynamic = NULL, filter_head = 1, is_debug = 0\<rparr>"

definition demo_sniffers :: "string list sniffer_world" where
  "demo_sniffers = \<lparr>w_links = (\<lambda>p. if p \<in> {1, 2, 3, 4} then Some \<lparr>lh_next = 0, lh_prev = 0\<rparr> else None),
     w_filters = [2 \<mapsto> logs (\<lambda>f. f ! 0 = 7) ''first'', 3 \<mapsto> logs (\<lambda>f. f ! 0 = 9) ''second'', 4 \<mapsto> logs (\<lambda>f. length f = 2) ''third''],
     w_threads = \<lparr>models = Map.empty, threads = Map.empty, next_tid = 0, calls = []\<rparr>,
     w_closed = [], w_stderr = [], w_state = []\<rparr>"


section \<open>Properties\<close>

text \<open>
  C24: A received frame. When the framework was initialised and filters were registered that only look at
  a frame, then a frame triggers the action of exactly the filters that match its first 1536 bytes,
  once each, those registered last first.
\<close>

theorem sniffer_model_triggers:
  assumes "length mem = 1536" and "0 \<le> skt" and "distinct (filter_head snf # xs)"
    and "\<forall>x\<in>set (filter_head snf # xs). w_links w x \<noteq> None"
    and "map (w_filters w) xs = map Some fs" and "list_all2 (\<lambda>f (hit, eff). observes f hit eff) fs os"
  shows "\<exists>snf1 w1 w2 snf3 w3. sniffer_init (Some mem) skt snf debug w = Some (0, snf1, w1) \<and> register_all snf1 xs w1 = Some w2 \<and>
    sniffer_model (Some frame) snf1 w2 = Some (snf3, w3) \<and>
    w_state w3 = (let got = take 1536 frame in
      fold (\<lambda>(hit, eff). eff got) (filter (\<lambda>(hit, eff). hit got) (rev os)) (w_state w))"
proof -
  obtain snf1 w1 where 1: "sniffer_init (Some mem) skt snf debug w = Some (0, snf1, w1)" "dlist (w_links w1) (filter_head snf1) []"
      "same_outside {filter_head snf} (w_links w) (w_links w1)" "filter_head snf1 = filter_head snf"
      "buffer snf1 = Some mem" "buf_size snf1 = MAX_ETH_FRAME" "w_filters w1 = w_filters w" "w_state w1 = w_state w"
    using sniffer_init_ready [OF assms(2), of w snf mem debug] assms(4) by auto
  have "\<forall>x\<in>set xs. w_links w1 x \<noteq> None" using 1(3) assms(3,4) by (auto simp: same_outside_def)
  then obtain w2 where 2: "register_all snf1 xs w1 = Some w2" "dlist (w_links w2) (filter_head snf1) (rev xs)"
      "w_filters w2 = w_filters w" "w_state w2 = w_state w"
    using register_all_dlist [OF 1(2), of xs] assms(3) 1(4,7,8) by auto
  have "map (w_filters w2) (rev xs) = map Some (rev fs)" using assms(5) by (simp add: 2(3) rev_map [symmetric])
  from sniffer_model_runs [OF 2(2) this 1(5,6) assms(1), of frame]
  obtain snf3 w3 where 3: "sniffer_model (Some frame) snf1 w2 = Some (snf3, w3)"
      "(buffer snf3, w_state w3) = apfst Some (let got = take 1536 frame in
         run_filters (rev fs) (got @ drop (length got) mem) (int (length got)) (w_state w2))"
    by blast
  have "list_all2 (\<lambda>f (hit, eff). observes f hit eff) (rev fs) (rev os)" using assms(6) by simp
  from run_filters_observe [OF this] have "w_state w3 = (let got = take 1536 frame in
      fold (\<lambda>(hit, eff). eff got) (filter (\<lambda>(hit, eff). hit got) (rev os)) (w_state w))"
    using 3(2) by (simp add: Let_def 2(4))
  with 1(1) 2(1) 3(1) show ?thesis by blast
qed

theorem sniffer_model_triggers_witness:
  "\<exists>snf1 w1 w2 snf3 w3. sniffer_init (Some (replicate 1536 0)) 5 demo_snf 1 demo_sniffers = Some (0, snf1, w1) \<and>
    register_all snf1 [2, 3, 4] w1 = Some w2 \<and> sniffer_model (Some [7, 8]) snf1 w2 = Some (snf3, w3) \<and> w_state w3 = [''third'', ''first'']"
proof -
  let ?os = "[(\<lambda>f. f ! 0 = 7, \<lambda>_ s. s @ [''first'']), (\<lambda>f. f ! 0 = 9, \<lambda>_ s. s @ [''second'']), (\<lambda>f. length f = 2, \<lambda>_ s. s @ [''third''])]
    :: ((u8 list \<Rightarrow> bool) \<times> (u8 list \<Rightarrow> string list \<Rightarrow> string list)) list"
  show ?thesis
    using sniffer_model_triggers [of "replicate 1536 0" 5 demo_snf "[2, 3, 4]" demo_sniffers
        "[logs (\<lambda>f. f ! 0 = 7) ''first'', logs (\<lambda>f. f ! 0 = 9) ''second'', logs (\<lambda>f. length f = 2) ''third'']" ?os 1 "[7, 8]"]
    by (simp add: demo_snf_def demo_sniffers_def logs_observes Let_def)
qed

text \<open>Without memory for the thread's model, \<open>sniffer_start\<close> passes NULL on; a frame that arrives after \<open>sniffer_destroy\<close> is stored in freed memory.\<close>

lemma sniffer_start_no_memory: "sniffer_start self NULL attr_ret create_ret snf w = None"
  by (simp add: sniffer_start_def pthread_model_create_def)

lemma sniffer_destroy_then_frame:
  "sniffer_destroy snf w = Some (r, snf', w') \<Longrightarrow> sniffer_model (Some frame) snf' w' = None"
  by (auto simp: sniffer_destroy_def sniffer_model_def split: if_splits option.splits Option.bind_splits)

end
