(* ===== verification/Heartbeat.thy ===== *)
theory Heartbeat
  imports Sockets Sniffer Sniffer_Framework
begin

text \<open>
  The two programs of the heartbeat protocol: \<^verbatim>\<open>socket/udp_test.c\<close> sends pings with the UDP client of \<open>Sockets\<close>, and
  \<^verbatim>\<open>socket/sniffer_test.c\<close> looks for them with the framework of \<open>Sniffer_Framework\<close>. The structures of a ping are laid out as
  on a little-endian machine, with bit fields from the lowest bit on; there is no padding in them. What
  the first program prints is left out. The output of the second one is the state its filter works on.
\<close>

section \<open>udp\_test.c\<close>

definition bytes16 :: "u16 \<Rightarrow> u8 list" where
  "bytes16 x = [ucast x, ucast (drop_bit 8 x)]"

definition bytes32 :: "u32 \<Rightarrow> u8 list" where
  "bytes32 x = [ucast x, ucast (drop_bit 8 x), ucast (drop_bit 16 x), ucast (drop_bit 24 x)]"

definition htonl :: "u32 \<Rightarrow> u32" where
  "htonl x = push_bit 24 x OR push_bit 8 (x AND 0xff00) OR (drop_bit 8 x AND 0xff00) OR drop_bit 24 x"

record YB_SERVER_PING_S =
  ping_rsv :: "u8 list"
  route_port :: u16
  route_ip :: u32

record MSG_ATTR_S =
  msg_type :: u32
  priority :: u32
  mask_flag :: u32
  ack_req :: u32
  ack_flag :: u32
  rsv1 :: u32
  split_msg :: u32
  last_msg :: u32
  curr_slice :: u32
  total_slice :: u32
  rsv2 :: u32

text \<open>The member \<open>uint32_val\<close> of the union.\<close>

definition uint32_val :: "MSG_ATTR_S \<Rightarrow> u32" where
  "uint32_val a = take_bit 8 (msg_type a) OR push_bit 8 (take_bit 4 (priority a)) OR push_bit 12 (take_bit 1 (mask_flag a)) OR
     push_bit 13 (take_bit 1 (ack_req a)) OR push_bit 14 (take_bit 1 (ack_flag a)) OR push_bit 15 (take_bit 1 (rsv1 a)) OR
     push_bit 16 (take_bit 1 (split_msg a)) OR push_bit 17 (take_bit 1 (last_msg a)) OR push_bit 18 (take_bit 3 (curr_slice a)) OR
     push_bit 21 (take_bit 3 (total_slice a)) OR push_bit 24 (take_bit 8 (rsv2 a))"

record YB_SERVER_MSG_HEAD_S =
  magic :: u32
  msg_ver :: u8
  msg_headlen :: u8
  text_len :: u16
  msg_no :: u32
  msg_attr :: MSG_ATTR_S
  mask_code :: u32
  ack_no :: u32

definition head_image :: "YB_SERVER_MSG_HEAD_S \<Rightarrow> u8 list" where
  "head_image h = bytes32 (magic h) @ [msg_ver h, msg_headlen h] @ bytes16 (text_len h) @ bytes32 (msg_no h) @
     bytes32 (uint32_val (msg_attr h)) @ bytes32 (mask_code h) @ bytes32 (ack_no h)"

definition ping_image :: "YB_SERVER_PING_S \<Rightarrow> u8 list" where
  "ping_image p = ping_rsv p @ bytes16 (route_port p) @ bytes32 (route_ip p)"

definition SERVER_MSG_HEAD_LEN :: nat where
  "SERVER_MSG_HEAD_LEN = 24"

definition YB_PRIVA_CODE :: u32 where
  "YB_PRIVA_CODE = 0x66886688"

definition YB_MSG_VER :: u8 where
  "YB_MSG_VER = 1"

definition YB_MSG_TYPE_PING :: u32 where
  "YB_MSG_TYPE_PING = 1"

text \<open>The structures start out with all bytes 0.\<close>

definition zero_attr :: MSG_ATTR_S where
  "zero_attr = \<lparr>msg_type = 0, priority = 0, mask_flag = 0, ack_req = 0, ack_flag = 0, rsv1 = 0, split_msg = 0, last_msg = 0,
     curr_slice = 0, total_slice = 0, rsv2 = 0\<rparr>"

definition ping_header :: YB_SERVER_MSG_HEAD_S where
  "ping_header = \<lparr>magic = htonl YB_PRIVA_CODE, msg_ver = YB_MSG_VER, msg_headlen = of_nat SERVER_MSG_HEAD_LEN, text_len = htons 8,
     msg_no = htonl 0,
     msg_attr = zero_attr\<lparr>msg_type := YB_MSG_TYPE_PING, mask_flag := 0, ack_req := 1, ack_flag := 0, split_msg := 0\<rparr>,
     mask_code = 0, ack_no = 0\<rparr>"

definition ping_text :: "int \<Rightarrow> YB_SERVER_PING_S" where
  "ping_text ip_port = \<lparr>ping_rsv = [0, 0], route_port = htons ip_port, route_ip = htonl 0x20\<rparr>"

text \<open>The array \<open>send_buf\<close> of 128 bytes, filled by the two calls of \<open>memcpy\<close>.\<close>

definition send_buf :: "int \<Rightarrow> u8 list" where
  "send_buf ip_port =
     (let buf = replicate 128 0;
          buf = head_image ping_header @ drop SERVER_MSG_HEAD_LEN buf
      in take SERVER_MSG_HEAD_LEN buf @ ping_image (ping_text ip_port) @ drop (SERVER_MSG_HEAD_LEN + 8) buf)"

definition SOCK_DGRAM :: int where
  "SOCK_DGRAM = 2"

fun send_times :: "'w net_kernel \<Rightarrow> socket_base option \<Rightarrow> u8 list \<Rightarrow> nat \<Rightarrow> 'w \<Rightarrow> 'w" where
  "send_times k skt_base buf 0 w = w"
| "send_times k skt_base buf (Suc n) w = send_times k skt_base buf n (snd (udp_client_send k skt_base buf w))"

text \<open>The address on the command line is copied into an array of 16 bytes: a longer one is undefined behaviour.\<close>

definition udp_test_main ::
  "'w net_kernel \<Rightarrow> bool \<Rightarrow> (string \<Rightarrow> u32) \<Rightarrow> string list \<Rightarrow> 'w \<Rightarrow> (int \<times> 'w) option" where
  "udp_test_main k mem inet_addr argv w = do {
     ip_addr \<leftarrow> (if 1 < length argv then (if length (argv ! 1) < 16 then Some (argv ! 1) else None) else Some ''127.0.0.1'');
     let ip_port = (if 2 < length argv then atoi (argv ! 2) else 3355);
     let buf = send_buf ip_port;
     let (skt_base, w) = udp_client_init k mem inet_addr SOCK_DGRAM ip_port ip_addr w;
     (if skt_base = None then Some (- 1, w)
      else do {
        let send_len = SERVER_MSG_HEAD_LEN + 8;
        let w = send_times k skt_base (take send_len buf) 20 w;
        let (_, w) = udp_client_destroy k skt_base w;
        Some (0, w) }) }"


section \<open>sniffer\_test.c\<close>

definition alive_bytes :: "u8 list \<Rightarrow> int option" where
  "alive_bytes eth_data = do {
     protocol \<leftarrow> array_get eth_data (14 + 9);
     (if protocol \<noteq> 17 then Some 0
      else do {
        l \<leftarrow> bytes_are False eth_data [(38, 0x00), (39, 0x28)];
        (if \<not> l then Some 0
         else do {
           m \<leftarrow> bytes_are False eth_data [(42, 0x66), (43, 0x88), (44, 0x66), (45, 0x88), (47, 0x18), (48, 0x00), (49, 0x08), (54, 0x01)];
           Some (if \<not> m then 0 else 1) }) }) }"

text \<open>A filter is given the whole buffer of the framework, in which these bytes are; the answer for a shorter one does not matter.\<close>

definition alive_match :: "string callback" where
  "alive_match eth_data sz d s = (case alive_bytes eth_data of Some r \<Rightarrow> (r, eth_data, s) | None \<Rightarrow> (0, eth_data, s))"

definition alive_dump :: "u8 list \<Rightarrow> string" where
  "alive_dump frame = [CHR 10] @ '' alive eth data: '' @ [CHR 10] @ concat (map (\<lambda>b. print_hex2 (unat b)) frame) @ [CHR 10]"

definition alive_action :: "string callback" where
  "alive_action eth_data sz d s = (0, eth_data, s @ alive_dump (take (nat sz) eth_data))"

text \<open>\<open>wlan0\<close> is the address of the string that the filter has as data.\<close>

definition m_filter :: "addr \<Rightarrow> string sniffer_filter" where
  "m_filter wlan0 = \<lparr>match = alive_match, action = alive_action, data = wlan0\<rparr>"

text \<open>
  The start of the program, with the results of the calls; \<open>self\<close> and \<open>flt\<close> are the addresses of the two static variables. It ignores what its calls
  return.
\<close>

definition sniffer_test_main ::
  "u8 list option \<Rightarrow> int \<Rightarrow> addr \<Rightarrow> addr \<Rightarrow> addr \<Rightarrow> int \<Rightarrow> int \<Rightarrow> sinffer \<Rightarrow> string sniffer_world \<Rightarrow> (sinffer \<times> string sniffer_world) option" where
  "sniffer_test_main mem skt self flt model attr_ret create_ret snf w = do {
     (_, snf, w) \<leftarrow> sniffer_init mem skt snf 0 w;
     (_, w) \<leftarrow> register_sniffer snf flt w;
     (_, snf, w) \<leftarrow> sniffer_start self model attr_ret create_ret snf w;
     Some (snf, w) }"

definition sniffer_test_int_handler :: "sinffer \<Rightarrow> string sniffer_world \<Rightarrow> (int \<times> sinffer \<times> string sniffer_world) option" where
  "sniffer_test_int_handler snf w = do {
     (_, snf, w) \<leftarrow> sniffer_destroy snf w;
     Some (0, snf, w) }"

text \<open>The thread on a sequence of results of \<open>recvfrom\<close>.\<close>

fun sniffer_rounds :: "u8 list option list \<Rightarrow> sinffer \<Rightarrow> 's sniffer_world \<Rightarrow> (sinffer \<times> 's sniffer_world) option" where
  "sniffer_rounds [] snf w = Some (snf, w)"
| "sniffer_rounds (f # fs) snf w = do { (snf, w) \<leftarrow> sniffer_model f snf w; sniffer_rounds fs snf w }"


section \<open>The ping\<close>

text \<open>What the program puts on the network.\<close>

lemma send_buf_ping:
  "take (SERVER_MSG_HEAD_LEN + 8) (send_buf ip_port) =
    [0x66, 0x88, 0x66, 0x88, 1, 24, 0, 8, 0, 0, 0, 0, 1, 0x20, 0, 0, 0, 0, 0, 0, 0, 0, 0, 0, 0, 0] @ bytes16 (htons ip_port) @ [0, 0, 0, 0x20]"
  by (simp add: send_buf_def SERVER_MSG_HEAD_LEN_def head_image_def ping_image_def ping_text_def ping_header_def bytes16_def bytes32_def
      htonl_def htons_def YB_PRIVA_CODE_def YB_MSG_VER_def YB_MSG_TYPE_PING_def uint32_val_def zero_attr_def)


text \<open>
  A network that takes every datagram as a whole: \<open>sent\<close> are the datagrams that have gone out, each with its
  destination, in order; closing a socket does not change them.
\<close>

definition carries_out :: "'w net_kernel \<Rightarrow> ('w \<Rightarrow> (sockaddr_in \<times> u8 list) list) \<Rightarrow> bool" where
  "carries_out k sent \<longleftrightarrow>
     (\<forall>s buf a w. fst (kn_sendto k s buf a w) = int (length buf) \<and> sent (snd (kn_sendto k s buf a w)) = sent w @ [(a, buf)]) \<and>
     (\<forall>s w. sent (kn_close k s w) = sent w)"

lemma udp_client_send_once:
  assumes "carries_out k sent" "length buf \<noteq> 11"
  shows "sent (snd (udp_client_send k (Some s) buf w)) = sent w @ [(skt_sin s, buf)]"
proof -
  obtain ret w' where r: "kn_sendto k (skt_fd s) buf (skt_sin s) w = (ret, w')" by fastforce
  then have "ret = int (length buf)" "sent w' = sent w @ [(skt_sin s, buf)]" using assms(1) unfolding carries_out_def by (metis fst_conv, metis snd_conv)
  then show ?thesis using r assms(2) by (simp add: udp_client_send_def send_loop.simps EAGAIN_def)
qed

lemma send_times_sent:
  assumes "carries_out k sent" "length buf \<noteq> 11"
  shows "sent (send_times k (Some s) buf n w) = sent w @ replicate n (skt_sin s, buf)"
  by (induction n arbitrary: w) (simp_all add: udp_client_send_once [OF assms])

text \<open>Where the arguments of the program tell it to send to, and what it sends.\<close>

definition ping_port :: "string list \<Rightarrow> int" where
  "ping_port argv = (if 2 < length argv then atoi (argv ! 2) else 3355)"

definition ping_peer :: "(string \<Rightarrow> u32) \<Rightarrow> string list \<Rightarrow> sockaddr_in" where
  "ping_peer inet_addr argv = \<lparr>sin_family = AF_INET,
     sin_addr = inet_addr (if 1 < length argv then argv ! 1 else ''127.0.0.1''), sin_port = htons (ping_port argv)\<rparr>"

definition ping :: "string list \<Rightarrow> u8 list" where
  "ping argv = [0x66, 0x88, 0x66, 0x88, 1, 24, 0, 8, 0, 0, 0, 0, 1, 0x20, 0, 0, 0, 0, 0, 0, 0, 0, 0, 0, 0, 0] @
     bytes16 (htons (ping_port argv)) @ [0, 0, 0, 0x20]"

lemma ping_length: "length (ping argv) = 32"
  by (simp add: ping_def bytes16_def)

lemma udp_test_main_sends:
  assumes "carries_out k sent" "kn_socket k SOCK_DGRAM w = (fd, w1)" "0 \<le> fd" "1 < length argv \<longrightarrow> length (argv ! 1) < 16"
  shows "\<exists>w'. udp_test_main k True inet_addr argv w = Some (0, w') \<and> sent w' = sent w1 @ replicate 20 (ping_peer inet_addr argv, ping argv)"
proof -
  have buf: "take (SERVER_MSG_HEAD_LEN + 8) (send_buf (ping_port argv)) = ping argv" by (simp only: send_buf_ping ping_def)
  have "length (ping argv) \<noteq> 11" by (simp add: ping_length)
  note sends = send_times_sent [OF assms(1) this]
  let ?s = "\<lparr>skt_fd = fd, skt_sin = ping_peer inet_addr argv\<rparr>"
  have "udp_test_main k True inet_addr argv w = Some (0, kn_close k fd (send_times k (Some ?s) (ping argv) 20 w1))"
    using assms(2-4) buf by (simp add: udp_test_main_def udp_client_init_def udp_client_destroy_def Let_def ping_port_def ping_peer_def split: if_splits)
  moreover have "sent (kn_close k fd v) = sent v" for v using assms(1) by (simp add: carries_out_def)
  ultimately show ?thesis using sends [of ?s 20 w1] by simp
qed

text \<open>
  An Ethernet frame that carries a datagram in UDP and IPv4 without options: the protocol, the destination and the length are in
  the headers.
\<close>

definition carries :: "sockaddr_in \<times> u8 list \<Rightarrow> u8 list \<Rightarrow> bool" where
  "carries dgram frame \<longleftrightarrow> 42 \<le> length frame \<and> frame ! 23 = 17 \<and> take 4 (drop 30 frame) = bytes32 (sin_addr (fst dgram)) \<and>
     take 2 (drop 36 frame) = bytes16 (sin_port (fst dgram)) \<and>
     take 2 (drop 38 frame) = rev (bytes16 (of_nat (8 + length (snd dgram)))) \<and> drop 42 frame = snd dgram"

lemma ping_is_heartbeat:
  assumes "carries (peer, ping argv) frame"
  shows "heartbeat frame" "length frame = 74"
proof -
  have d: "drop 42 frame = ping argv" "42 \<le> length frame" and u: "take 2 (drop 38 frame) = [0, 0x28]"
    using assms by (simp_all add: carries_def ping_length bytes16_def)
  from d have len: "length frame - 42 = 32" using ping_length [of argv] by (metis length_drop)
  then show "length frame = 74" using d(2) by simp
  have nth: "frame ! (42 + i) = ping argv ! i" for i using d by (metis nth_drop)
  have "frame ! 38 = take 2 (drop 38 frame) ! 0" "frame ! 39 = take 2 (drop 38 frame) ! 1" using d(2) by simp_all
  then have "frame ! 38 = 0" "frame ! 39 = 0x28" using u by simp_all
  moreover have "frame ! 42 = 0x66" "frame ! 43 = 0x88" "frame ! 44 = 0x66" "frame ! 45 = 0x88" "frame ! 47 = 0x18" "frame ! 48 = 0" "frame ! 49 = 8" "frame ! 54 = 1"
    using nth [of 0] nth [of 1] nth [of 2] nth [of 3] nth [of 5] nth [of 6] nth [of 7] nth [of 12] by (simp_all add: ping_def)
  moreover have "frame ! 23 = 17" using assms by (simp add: carries_def)
  ultimately show "heartbeat frame" by (simp add: heartbeat_def)
qed

lemma frames_are_heartbeats:
  assumes "list_all2 carries (replicate n (peer, ping argv)) frames"
  shows "filter heartbeat frames = frames" "\<forall>f\<in>set frames. length f = 74"
  using assms ping_is_heartbeat [of peer argv] by (auto simp: list_all2_conv_all_nth filter_id_conv in_set_conv_nth)


section \<open>The sniffer\<close>

lemma alive_bytes_is_heartbeat: "alive_bytes d = is_heartbeat False d len"
proof -
  have "uint b = 17 \<longleftrightarrow> b = 17" for b :: u8 by (simp add: word_uint_eq_iff)
  then show ?thesis unfolding alive_bytes_def is_heartbeat_def heartbeat_bytes_def by simp
qed

lemma run_alive:
  assumes "55 \<le> length b"
  shows "run_filters [m_filter a] b n s = (b, if heartbeat b then s @ alive_dump (take (nat n) b) else s)"
proof -
  have "alive_bytes b = Some (if heartbeat b then 1 else 0)"
    using is_heartbeat_decides [OF assms, of False 0] by (simp add: alive_bytes_is_heartbeat [of b 0])
  then show ?thesis by (simp add: m_filter_def alive_match_def alive_action_def)
qed

lemma sniffer_model_keeps:
  "sniffer_model f snf w = Some (snf', w') \<Longrightarrow> w_links w' = w_links w \<and> w_filters w' = w_filters w \<and> filter_head snf' = filter_head snf \<and> buf_size snf' = buf_size snf"
  by (auto simp: sniffer_model_def Let_def split: option.splits if_splits Option.bind_splits)

lemma heartbeat_prefix: "55 \<le> length f \<Longrightarrow> heartbeat (take 1536 f @ xs) = heartbeat f"
  by (simp add: heartbeat_def nth_append)

text \<open>The filter is registered and the buffer allocated.\<close>

definition watching :: "addr \<Rightarrow> addr \<Rightarrow> sinffer \<Rightarrow> string sniffer_world \<Rightarrow> bool" where
  "watching flt a snf w \<longleftrightarrow> dlist (w_links w) (filter_head snf) [flt] \<and> w_filters w flt = Some (m_filter a) \<and>
     (\<exists>buf. buffer snf = Some buf \<and> length buf = 1536) \<and> buf_size snf = MAX_ETH_FRAME"

lemma sniffer_model_watching:
  assumes "watching flt a snf w" "55 \<le> length f"
  shows "\<exists>snf' w'. sniffer_model (Some f) snf w = Some (snf', w') \<and> watching flt a snf' w' \<and>
    w_state w' = w_state w @ (if heartbeat f then alive_dump (take 1536 f) else [])"
proof -
  obtain buf where buf: "buffer snf = Some buf" "length buf = 1536" using assms(1) by (auto simp: watching_def)
  define b where "b = take 1536 f @ drop (length (take 1536 f)) buf"
  have len: "55 \<le> length b" "length b = 1536" using assms(2) buf(2) by (simp_all add: b_def)
  have "dlist (w_links w) (filter_head snf) [flt]" "map (w_filters w) [flt] = map Some [m_filter a]" "buf_size snf = MAX_ETH_FRAME"
    using assms(1) by (simp_all add: watching_def)
  from sniffer_model_runs [OF this(1,2) buf(1) this(3) buf(2), of f, unfolded Let_def, folded b_def] obtain snf' w' where r: "sniffer_model (Some f) snf w = Some (snf', w')"
      "(buffer snf', w_state w') = apfst Some (run_filters [m_filter a] b (int (length (take 1536 f))) (w_state w))"
    by blast
  have "take (length (take 1536 f)) b = take 1536 f" unfolding b_def by (metis append_eq_conv_conj)
  then have "buffer snf' = Some b" "w_state w' = w_state w @ (if heartbeat f then alive_dump (take 1536 f) else [])"
    using r(2) run_alive [OF len(1), of a "int (length (take 1536 f))" "w_state w"] heartbeat_prefix [OF assms(2)] by (auto simp: b_def)
  then show ?thesis using r(1) sniffer_model_keeps [OF r(1)] assms(1) len(2) by (auto simp: watching_def)
qed

lemma sniffer_rounds_watching:
  assumes "watching flt a snf w" "\<forall>f\<in>set fs. 55 \<le> length f"
  shows "\<exists>snf' w'. sniffer_rounds (map Some fs) snf w = Some (snf', w') \<and> watching flt a snf' w' \<and>
    w_state w' = w_state w @ concat (map (\<lambda>f. alive_dump (take 1536 f)) (filter heartbeat fs))"
  using assms
proof (induction fs arbitrary: snf w)
  case (Cons f fs)
  obtain snf1 w1 where "sniffer_model (Some f) snf w = Some (snf1, w1)" "watching flt a snf1 w1"
      "w_state w1 = w_state w @ (if heartbeat f then alive_dump (take 1536 f) else [])"
    using sniffer_model_watching [OF Cons.prems(1), of f] Cons.prems(2) by auto
  then show ?case using Cons.IH [of snf1 w1] Cons.prems(2) by fastforce
qed simp

text \<open>The memory of the program before it starts: the list head and the filter, which are different nodes.\<close>

definition test_memory :: "addr \<Rightarrow> addr \<Rightarrow> sinffer \<Rightarrow> 's sniffer_world \<Rightarrow> ('s sniffer_filter) \<Rightarrow> bool" where
  "test_memory flt head snf w f \<longleftrightarrow> filter_head snf = head \<and> flt \<noteq> head \<and> w_links w flt \<noteq> None \<and> w_links w head \<noteq> None \<and> w_filters w flt = Some f"

lemma sniffer_test_starts:
  assumes "test_memory flt head snf w (m_filter a)" "length mem = 1536" "0 \<le> skt" "model \<noteq> NULL"
  shows "\<exists>snf' w'. sniffer_test_main (Some mem) skt self flt model 0 0 snf w = Some (snf', w') \<and> watching flt a snf' w' \<and> w_state w' = w_state w"
proof -
  obtain snf1 w1 where 1: "sniffer_init (Some mem) skt snf 0 w = Some (0, snf1, w1)" "dlist (w_links w1) (filter_head snf) []"
    "same_outside {filter_head snf} (w_links w) (w_links w1)" "filter_head snf1 = filter_head snf"
    "buffer snf1 = Some mem" "buf_size snf1 = MAX_ETH_FRAME" "w_filters w1 = w_filters w" "w_state w1 = w_state w"
    using sniffer_init_ready [OF assms(3), of w snf mem 0] assms(1) by (auto simp: test_memory_def)
  have "w_links w1 flt \<noteq> None" using 1(3) assms(1) by (auto simp: same_outside_def test_memory_def)
  then obtain h where h: "klist_add flt (filter_head snf) (w_links w1) = Some h" "dlist h (filter_head snf) [flt]"
    using klist.add_law [OF 1(2), of flt] assms(1) by (auto simp: test_memory_def)
  then show ?thesis
    using 1 assms
    by (simp add: sniffer_test_main_def register_sniffer_def sniffer_start_def pthread_model_create_def pthread_model_start_def
        get_model_def put_model_def watching_def test_memory_def)
qed


section \<open>Sender and sniffer together\<close>

text \<open>
  C10: The pings are seen. On a network that takes every datagram the first program sends twenty times the same ping, to the address and the port of its arguments
  (by default port 3355 of \<^verbatim>\<open>127.0.0.1\<close>), closes its socket and returns 0. If then frames that carry these twenty datagrams come by, in any mixture with other frames that are
  not heartbeats, all of at least 55 bytes, the second program, started before, prints a dump of each of the twenty frames, in their order, and of no other frame.
\<close>

theorem pings_are_seen:
  assumes "carries_out k sent" and "kn_socket k SOCK_DGRAM w = (fd, w1)" and "0 \<le> fd" and "1 < length argv \<longrightarrow> length (argv ! 1) < 16"
    and "test_memory flt head snf v (m_filter a)" and "length mem = 1536" and "0 \<le> skt" and "model \<noteq> NULL"
    and "\<forall>f\<in>set others. 55 \<le> length f \<and> \<not> heartbeat f"
  shows "\<exists>w'. udp_test_main k True inet_addr argv w = Some (0, w') \<and> sent w' = sent w1 @ replicate 20 (ping_peer inet_addr argv, ping argv) \<and>
    (\<forall>frames fs. list_all2 carries (drop (length (sent w1)) (sent w')) frames \<and> fs \<in> shuffles frames others \<longrightarrow>
      (\<exists>snf1 v1 snf2 v2. sniffer_test_main (Some mem) skt self flt model 0 0 snf v = Some (snf1, v1) \<and>
        sniffer_rounds (map Some fs) snf1 v1 = Some (snf2, v2) \<and> w_state v2 = w_state v @ concat (map alive_dump frames)))"
proof -
  obtain w' where w': "udp_test_main k True inet_addr argv w = Some (0, w')" "sent w' = sent w1 @ replicate 20 (ping_peer inet_addr argv, ping argv)"
    using udp_test_main_sends [OF assms(1-4), of inet_addr] by blast
  obtain snf1 v1 where v1: "sniffer_test_main (Some mem) skt self flt model 0 0 snf v = Some (snf1, v1)" "watching flt a snf1 v1" "w_state v1 = w_state v"
    using sniffer_test_starts [OF assms(5-8), of self] by blast
  have "\<exists>snf2 v2. sniffer_rounds (map Some fs) snf1 v1 = Some (snf2, v2) \<and> w_state v2 = w_state v @ concat (map alive_dump frames)"
    if car: "list_all2 carries (drop (length (sent w1)) (sent w')) frames" and mix: "fs \<in> shuffles frames others" for frames fs
  proof -
    have pings: "filter heartbeat frames = frames" "\<forall>f\<in>set frames. length f = 74"
      using frames_are_heartbeats [of 20 "ping_peer inet_addr argv" argv frames] car w'(2) by simp_all
    have "filter heartbeat others = []" using assms(9) by (simp add: filter_empty_conv)
    then have "filter heartbeat fs = frames" using imageI [OF mix, of "filter heartbeat"] pings(1) by (simp add: filter_shuffles)
    moreover have "map (\<lambda>f. alive_dump (take 1536 f)) frames = map alive_dump frames" using pings(2) by simp
    moreover have "set fs = set frames \<union> set others" using set_shuffles [OF mix] .
    then have "\<forall>f\<in>set fs. 55 \<le> length f" using pings(2) assms(9) by auto
    ultimately show ?thesis using sniffer_rounds_watching [OF v1(2), of fs] v1(3) by metis
  qed
  then show ?thesis using w' v1(1) by blast
qed

definition demo_sniffer_test :: "string sniffer_world" where
  "demo_sniffer_test = \<lparr>w_links = (\<lambda>p. if p \<in> {1, 2} then Some \<lparr>lh_next = 0, lh_prev = 0\<rparr> else None), w_filters = [2 \<mapsto> m_filter 9],
     w_threads = \<lparr>models = Map.empty, threads = Map.empty, next_tid = 0, calls = []\<rparr>, w_closed = [], w_stderr = [], w_state = []\<rparr>"

text \<open>In the witness one frame, which is no heartbeat, comes before the pings.\<close>

definition demo_ping_frame :: "u8 list" where
  "demo_ping_frame = (replicate 42 0)[23 := 17, 36 := 0x0d, 37 := 0x1b, 39 := 0x28] @ ping [''udp_test'']"

theorem pings_are_seen_witness:
  "udp_test_main demo_net True (\<lambda>_. 0) [''udp_test''] [] = Some (0, replicate 20 (ping_peer (\<lambda>_. 0) [''udp_test''], ping [''udp_test''])) \<and>
    (\<exists>snf1 v1 snf2 v2. sniffer_test_main (Some (replicate 1536 0)) 5 1 2 7 0 0 demo_snf demo_sniffer_test = Some (snf1, v1) \<and>
      sniffer_rounds (map Some (replicate 60 0 # replicate 20 demo_ping_frame)) snf1 v1 = Some (snf2, v2) \<and>
      w_state v2 = concat (replicate 20 (alive_dump demo_ping_frame)))"
proof -
  let ?peer = "ping_peer (\<lambda>_. 0) [''udp_test'']" and ?ping = "ping [''udp_test'']"
  have net: "carries_out demo_net id" by (simp add: carries_out_def demo_net_def)
  have mem: "test_memory 2 1 demo_snf demo_sniffer_test (m_filter 9)" and sock: "kn_socket demo_net SOCK_DGRAM [] = (3, [])"
    by (simp_all add: test_memory_def demo_snf_def demo_sniffer_test_def demo_net_def)
  have other: "\<forall>f\<in>set [replicate 60 0 :: u8 list]. 55 \<le> length f \<and> \<not> heartbeat f" by (simp add: heartbeat_def)
  have port: "htons (ping_port [''udp_test'']) = 0x1b0d" by (simp add: ping_port_def htons_def)
  have zeros: "replicate 42 (0 :: u8) = [0, 0, 0, 0, 0, 0, 0, 0, 0, 0, 0, 0, 0, 0, 0, 0, 0, 0, 0, 0, 0, 0, 0, 0, 0, 0, 0, 0, 0, 0, 0, 0, 0, 0, 0, 0, 0, 0, 0, 0, 0, 0]"
    by (simp add: numeral_eq_Suc)
  have "carries (?peer, ?ping) demo_ping_frame"
    by (simp add: carries_def demo_ping_frame_def ping_def ping_peer_def port bytes16_def bytes32_def zeros)
  then have car: "list_all2 carries (replicate 20 (?peer, ?ping)) (replicate 20 demo_ping_frame)" by (simp add: list_all2_conv_all_nth)
  have mix: "replicate 60 0 # replicate 20 demo_ping_frame \<in> shuffles (replicate 20 demo_ping_frame) [replicate 60 0]"
    by (simp add: numeral_eq_Suc Cons_in_shuffles_rightI)
  have len: "(0 :: int) \<le> 3" "1 < length [''udp_test''] \<longrightarrow> length ([''udp_test''] ! 1) < 16" "length (replicate 1536 (0 :: u8)) = 1536" "(0 :: int) \<le> 5" "(7 :: nat) \<noteq> NULL"
    by simp_all
  obtain w' where w': "udp_test_main demo_net True (\<lambda>_. 0) [''udp_test''] [] = Some (0, w')" "id w' = id [] @ replicate 20 (?peer, ?ping)"
    and seen: "\<forall>frames fs. list_all2 carries (drop (length (id ([] :: (sockaddr_in \<times> u8 list) list))) (id w')) frames \<and> fs \<in> shuffles frames [replicate 60 0] \<longrightarrow>
      (\<exists>snf1 v1 snf2 v2. sniffer_test_main (Some (replicate 1536 0)) 5 1 2 7 0 0 demo_snf demo_sniffer_test = Some (snf1, v1) \<and>
        sniffer_rounds (map Some fs) snf1 v1 = Some (snf2, v2) \<and> w_state v2 = w_state demo_sniffer_test @ concat (map alive_dump frames))"
    using pings_are_seen [OF net sock len(1,2) mem len(3-5) other, of "\<lambda>_. 0" 1] by (elim exE conjE) (rule that; assumption)
  have "w_state demo_sniffer_test = []" by (simp add: demo_sniffer_test_def)
  moreover have "drop (length (id ([] :: (sockaddr_in \<times> u8 list) list))) (id w') = replicate 20 (?peer, ?ping)" using w'(2) by simp
  ultimately have "\<exists>snf1 v1 snf2 v2. sniffer_test_main (Some (replicate 1536 0)) 5 1 2 7 0 0 demo_snf demo_sniffer_test = Some (snf1, v1) \<and>
      sniffer_rounds (map Some (replicate 60 0 # replicate 20 demo_ping_frame)) snf1 v1 = Some (snf2, v2) \<and>
      w_state v2 = concat (replicate 20 (alive_dump demo_ping_frame))"
    using seen [rule_format, of "replicate 20 demo_ping_frame" "replicate 60 0 # replicate 20 demo_ping_frame"] car mix
    by (simp only: map_replicate append_Nil simp_thms)
  then show ?thesis using w' by simp
qed

text \<open>
  The bytes are looked for in the whole buffer, so a short frame that follows a heartbeat is taken for one: the rest of the heartbeat is still
  behind it.
\<close>

lemma short_frame_taken_for_heartbeat:
  assumes "watching flt a snf w" "buffer snf = Some b" "heartbeat b" "24 \<le> length f" "length f < 38" "f ! 23 = 17"
  shows "\<exists>snf' w'. sniffer_model (Some f) snf w = Some (snf', w') \<and> w_state w' = w_state w @ alive_dump f"
proof -
  let ?b = "f @ drop (length f) b"
  have b: "length b = 1536" "55 \<le> length ?b" using assms(1,2,5) by (auto simp: watching_def)
  then have "heartbeat ?b" using assms(3-6) by (simp add: heartbeat_def nth_append)
  have "dlist (w_links w) (filter_head snf) [flt]" "map (w_filters w) [flt] = map Some [m_filter a]" "buf_size snf = MAX_ETH_FRAME"
    using assms(1) by (simp_all add: watching_def)
  from sniffer_model_runs [OF this(1,2) assms(2) this(3) b(1), of f, unfolded Let_def] obtain snf' w' where
      "sniffer_model (Some f) snf w = Some (snf', w')" "(buffer snf', w_state w') = apfst Some (run_filters [m_filter a] ?b (int (length f)) (w_state w))"
    using assms(5) by auto
  then show ?thesis using run_alive [OF b(2), of a "int (length f)" "w_state w"] \<open>heartbeat ?b\<close> by auto
qed

end
