(* ===== verification/Io_Backend.thy ===== *)
theory Io_Backend
  imports C_Prelude
begin

text \<open>
  \<^verbatim>\<open>linux/io_backend/io_backend_epoll.c\<close>: an event loop over \<open>epoll\<close>. The file holds statements without a function around them;
  they are taken as the body of a program that is given the listening socket. It calls two functions the
  repository does not have, \<open>setnonblocking\<close> and \<open>do_use_fd\<close>; with the system calls they are a record of functions
  on a state \<open>'w\<close>. A program goes on, waits in a system call, ends with the message of \<open>perror\<close>, or reads
  outside an array.
\<close>

section \<open>The code\<close>

record epoll_event =
  ev_events :: u32
  ev_fd :: int

definition EPOLLIN :: u32 where
  "EPOLLIN = 1"

definition EPOLLET :: u32 where
  "EPOLLET = 0x80000000"

definition MAX_EVENTS :: nat where
  "MAX_EVENTS = 10"

text \<open>The only use of \<open>epoll_ctl\<close> is with \<open>EPOLL_CTL_ADD\<close>; the timeout of \<open>epoll_wait\<close> is -1. A call that waits gives \<^const>\<open>None\<close>.\<close>

record 'w epoll_api =
  epoll_create1 :: "'w \<Rightarrow> int \<times> 'w"
  epoll_ctl_add :: "int \<Rightarrow> int \<Rightarrow> epoll_event \<Rightarrow> 'w \<Rightarrow> int \<times> 'w"
  epoll_wait :: "int \<Rightarrow> nat \<Rightarrow> 'w \<Rightarrow> (int \<times> epoll_event list) option \<times> 'w"
  accept :: "int \<Rightarrow> 'w \<Rightarrow> int option \<times> 'w"
  setnonblocking :: "int \<Rightarrow> 'w \<Rightarrow> 'w"
  do_use_fd :: "int \<Rightarrow> 'w \<Rightarrow> 'w"

datatype 'w outcome = Running 'w | Waiting 'w | Exited string 'w | Undefined

text \<open>The loop over the reported events.\<close>

function ready_loop ::
  "'w epoll_api \<Rightarrow> int \<Rightarrow> int \<Rightarrow> epoll_event list \<Rightarrow> int \<Rightarrow> int \<Rightarrow> 'w \<Rightarrow> 'w outcome" where
  "ready_loop api epollfd listen_sock events n nfds w =
     (if n < nfds then (case array_get events n of
        None \<Rightarrow> Undefined
      | Some e \<Rightarrow>
          if ev_fd e = listen_sock then
            (case accept api listen_sock w of
               (None, w) \<Rightarrow> Waiting w
             | (Some conn_sock, w) \<Rightarrow>
                 if conn_sock = - 1 then Exited ''accept'' w
                 else
                   (let w = setnonblocking api conn_sock w;
                        ev = \<lparr>ev_events = EPOLLIN OR EPOLLET, ev_fd = conn_sock\<rparr>;
                        (ret, w) = epoll_ctl_add api epollfd conn_sock ev w
                    in if ret = - 1 then Exited ''epoll_ctl: conn_sock'' w
                       else ready_loop api epollfd listen_sock events (n + 1) nfds w))
          else ready_loop api epollfd listen_sock events (n + 1) nfds (do_use_fd api (ev_fd e) w))
      else Running w)"
  by pat_completeness auto
termination by (relation "measure (\<lambda>(api, epollfd, listen_sock, events, n, nfds, w). nat (nfds - n))") auto

declare ready_loop.simps [simp del]

text \<open>One round of the endless loop. The kernel stores the events at the start of the array.\<close>

definition wait_round ::
  "'w epoll_api \<Rightarrow> int \<Rightarrow> int \<Rightarrow> epoll_event list \<Rightarrow> 'w \<Rightarrow> epoll_event list \<times> 'w outcome" where
  "wait_round api epollfd listen_sock events w = (case epoll_wait api epollfd MAX_EVENTS w of
     (None, w) \<Rightarrow> (events, Waiting w)
   | (Some (nfds, evs), w) \<Rightarrow>
       if nfds = - 1 then (events, Exited ''epoll_wait'' w)
       else (let events = evs @ drop (length evs) events
             in (events, ready_loop api epollfd listen_sock events 0 nfds w)))"

fun wait_rounds :: "'w epoll_api \<Rightarrow> int \<Rightarrow> int \<Rightarrow> nat \<Rightarrow> epoll_event list \<Rightarrow> 'w \<Rightarrow> 'w outcome" where
  "wait_rounds api epollfd listen_sock 0 events w = Running w"
| "wait_rounds api epollfd listen_sock (Suc r) events w = (case wait_round api epollfd listen_sock events w of
     (events, Running w) \<Rightarrow> wait_rounds api epollfd listen_sock r events w
   | (events, res) \<Rightarrow> res)"

text \<open>The program, for a number of rounds of its endless loop; \<open>events\<close> is what the array holds at first.\<close>

definition epoll_main :: "'w epoll_api \<Rightarrow> int \<Rightarrow> nat \<Rightarrow> epoll_event list \<Rightarrow> 'w \<Rightarrow> 'w outcome" where
  "epoll_main api listen_sock r events w =
     (let (epollfd, w) = epoll_create1 api w in
      if epollfd = - 1 then Exited ''epoll_create1'' w
      else
        (let ev = \<lparr>ev_events = EPOLLIN, ev_fd = listen_sock\<rparr>;
             (ret, w) = epoll_ctl_add api epollfd listen_sock ev w
         in if ret = - 1 then Exited ''epoll_ctl: listen_sock'' w
            else wait_rounds api epollfd listen_sock r events w))"


section \<open>The kernel\<close>

text \<open>
  What the man pages say of the calls. There is input on the listening socket while a connection waits to be accepted, and on a connection
  while something that came over it was not read; a connection that waits may have sent something already. A descriptor registered with \<open>EPOLLIN\<close> alone is
  level-triggered: it is ready as long as there is input. With \<open>EPOLLET\<close> it is edge-triggered: it is ready only if something came since it was reported
  last or registered, or before it was registered. The state has a script of what comes from outside in
  batches, between which the program may wait, the number of system calls so far, and a log.
\<close>

datatype arrival = Connect bool | Data int

datatype happening = Connects | News int | Accepted int | Used int

record 'u epoll_world =
  ew_interest :: "int \<rightharpoonup> epoll_event"
  ew_open :: "int set"
  ew_handed :: "int set"
  ew_backlog :: "bool list"
  ew_unread :: "int set"
  ew_edge :: "int set"
  ew_script :: "arrival list list"
  ew_calls :: nat
  ew_log :: "happening list"
  ew_user :: 'u

text \<open>
  What the system and the functions that are not in the repository decide: the descriptor a call takes, which of the ready descriptors
  \<open>epoll_wait\<close> reports, which of the system calls fail, what \<open>setnonblocking\<close> does, and what \<open>do_use_fd\<close> does, whether
  it reads all that came and whether it closes the connection. Neither of the two touches other descriptors.
\<close>

record 'u epoll_env =
  ee_alloc :: "int set \<Rightarrow> int"
  ee_pick :: "nat \<Rightarrow> int set \<Rightarrow> int list"
  ee_fails :: "nat \<Rightarrow> bool"
  ee_nonblock :: "int \<Rightarrow> 'u \<Rightarrow> 'u"
  ee_use :: "int \<Rightarrow> 'u \<Rightarrow> 'u \<times> bool \<times> bool"

fun arrive :: "int \<Rightarrow> arrival \<Rightarrow> 'u epoll_world \<Rightarrow> 'u epoll_world" where
  "arrive ls (Connect early) w =
     w\<lparr>ew_backlog := ew_backlog w @ [early], ew_edge := insert ls (ew_edge w), ew_log := ew_log w @ [Connects]\<rparr>"
| "arrive ls (Data c) w =
     (if c \<in> dom (ew_interest w) \<and> c \<noteq> ls
      then w\<lparr>ew_unread := insert c (ew_unread w), ew_edge := insert c (ew_edge w), ew_log := ew_log w @ [News c]\<rparr> else w)"

definition has_input :: "int \<Rightarrow> 'u epoll_world \<Rightarrow> int \<Rightarrow> bool" where
  "has_input ls w fd = (if fd = ls then ew_backlog w \<noteq> [] else fd \<in> ew_unread w)"

definition is_ready :: "int \<Rightarrow> 'u epoll_world \<Rightarrow> int \<Rightarrow> bool" where
  "is_ready ls w fd = (case ew_interest w fd of
     None \<Rightarrow> False
   | Some ev \<Rightarrow> ev_events ev AND EPOLLIN \<noteq> 0 \<and> has_input ls w fd \<and> (ev_events ev AND EPOLLET = 0 \<or> fd \<in> ew_edge w))"

definition ready_fds :: "int \<Rightarrow> 'u epoll_world \<Rightarrow> int set" where
  "ready_fds ls w = {fd \<in> dom (ew_interest w). is_ready ls w fd}"

text \<open>A report has the data given with \<open>EPOLL_CTL_ADD\<close>. Every system call is counted, and may fail.\<close>

definition report :: "'u epoll_env \<Rightarrow> int \<Rightarrow> 'u epoll_world \<Rightarrow> (int \<times> epoll_event list) option \<times> 'u epoll_world" where
  "report env ls w =
     (let fds = ee_pick env (ew_calls w) (ready_fds ls w)
      in (Some (int (length fds), map (\<lambda>fd. \<lparr>ev_events = EPOLLIN, ev_fd = ev_fd (the (ew_interest w fd))\<rparr>) fds),
          w\<lparr>ew_edge := ew_edge w - set fds\<rparr>))"

fun wait_script :: "'u epoll_env \<Rightarrow> int \<Rightarrow> arrival list list \<Rightarrow> 'u epoll_world \<Rightarrow> (int \<times> epoll_event list) option \<times> 'u epoll_world" where
  "wait_script env ls [] w =
     (let w = w\<lparr>ew_script := []\<rparr> in if ready_fds ls w = {} then (None, w) else report env ls w)"
| "wait_script env ls (b # bs) w =
     (let w = (fold (arrive ls) b w)\<lparr>ew_script := bs\<rparr>
      in if ready_fds ls w = {} then wait_script env ls bs w else report env ls w)"

definition counted :: "'u epoll_world \<Rightarrow> 'u epoll_world" where
  "counted w = w\<lparr>ew_calls := Suc (ew_calls w)\<rparr>"

definition linux :: "'u epoll_env \<Rightarrow> int \<Rightarrow> 'u epoll_world epoll_api" where
  "linux env ls = \<lparr>
     epoll_create1 = (\<lambda>w.
       if ee_fails env (ew_calls w) then (- 1, counted w)
       else (ee_alloc env (ew_open w), (counted w)\<lparr>ew_open := insert (ee_alloc env (ew_open w)) (ew_open w)\<rparr>)),
     epoll_ctl_add = (\<lambda>ep fd ev w.
       if ee_fails env (ew_calls w) \<or> fd \<notin> ew_open w \<or> fd \<in> dom (ew_interest w) then (- 1, counted w)
       else (0, (counted w)\<lparr>ew_interest := (ew_interest w)(fd \<mapsto> ev),
         ew_edge := (if has_input ls w fd then insert fd (ew_edge w) else ew_edge w - {fd}),
         ew_log := (if fd \<noteq> ls \<and> fd \<in> ew_unread w then ew_log w @ [News fd] else ew_log w)\<rparr>)),
     epoll_wait = (\<lambda>ep m w.
       if ee_fails env (ew_calls w) then (Some (- 1, []), counted w) else wait_script env ls (ew_script w) (counted w)),
     accept = (\<lambda>s w.
       if ee_fails env (ew_calls w) then (Some (- 1), counted w)
       else (case ew_backlog w of
           [] \<Rightarrow> (None, w)
         | early # bs \<Rightarrow>
             (let c = ee_alloc env (ew_open w)
              in (Some c, (counted w)\<lparr>ew_backlog := bs, ew_open := insert c (ew_open w), ew_handed := ew_handed w - {c},
                   ew_unread := (if early then insert c (ew_unread w) else ew_unread w), ew_log := ew_log w @ [Accepted c]\<rparr>)))),
     setnonblocking = (\<lambda>fd w. w\<lparr>ew_handed := insert fd (ew_handed w), ew_user := ee_nonblock env fd (ew_user w)\<rparr>),
     do_use_fd = (\<lambda>fd w.
       let (u, reads, closes) = ee_use env fd (ew_user w); w = w\<lparr>ew_user := u, ew_log := ew_log w @ [Used fd]\<rparr>
       in if closes
          then w\<lparr>ew_interest := (ew_interest w)(fd := None), ew_open := ew_open w - {fd}, ew_unread := ew_unread w - {fd}, ew_edge := ew_edge w - {fd}\<rparr>
          else if reads then w\<lparr>ew_unread := ew_unread w - {fd}\<rparr> else w)\<rparr>"

text \<open>What the program relies on: new descriptors are new (\<^const>\<open>fd_choice\<close>), and reports are about some of the ready descriptors, at most \<open>MAX_EVENTS\<close>.\<close>

definition report_choice :: "(nat \<Rightarrow> int set \<Rightarrow> int list) \<Rightarrow> bool" where
  "report_choice pick \<longleftrightarrow> (\<forall>i S. finite S \<and> S \<noteq> {} \<longrightarrow>
     pick i S \<noteq> [] \<and> distinct (pick i S) \<and> set (pick i S) \<subseteq> S \<and> length (pick i S) \<le> MAX_EVENTS)"

text \<open>A system call has failed.\<close>

definition failed :: "'u epoll_env \<Rightarrow> 'u epoll_world \<Rightarrow> bool" where
  "failed env w \<longleftrightarrow> (\<exists>i<ew_calls w. ee_fails env i)"


section \<open>Invariant\<close>

text \<open>The connections with something that was not handled yet, and how many connections came and were accepted.\<close>

fun serve :: "happening \<Rightarrow> int set \<Rightarrow> int set" where
  "serve (News c) S = insert c S"
| "serve (Used c) S = S - {c}"
| "serve _ S = S"

definition unserved :: "happening list \<Rightarrow> int set" where
  "unserved log = fold serve log {}"

fun connects :: "happening list \<Rightarrow> nat" where
  "connects [] = 0"
| "connects (Connects # log) = Suc (connects log)"
| "connects (_ # log) = connects log"

fun accepteds :: "happening list \<Rightarrow> nat" where
  "accepteds [] = 0"
| "accepteds (Accepted c # log) = Suc (accepteds log)"
| "accepteds (_ # log) = accepteds log"

lemma log_append [simp]:
  "unserved (log @ hs) = fold serve hs (unserved log)"
  "connects (log @ hs) = connects log + connects hs"
  "accepteds (log @ hs) = accepteds log + accepteds hs"
proof -
  show "unserved (log @ hs) = fold serve hs (unserved log)" by (simp add: unserved_def)
  show "connects (log @ hs) = connects log + connects hs" by (induction log rule: connects.induct) auto
  show "accepteds (log @ hs) = accepteds log + accepteds hs" by (induction log rule: accepteds.induct) auto
qed

text \<open>
  The invariant, while the descriptors \<open>R\<close> are reported but not yet looked at. What is registered are the listening socket, level-triggered,
  and open connections that were handed to \<open>setnonblocking\<close>, edge-triggered, each with its own descriptor as data.
\<close>

definition registered :: "int \<Rightarrow> 'u epoll_world \<Rightarrow> bool" where
  "registered ls w \<longleftrightarrow> finite (ew_open w) \<and> dom (ew_interest w) \<subseteq> ew_open w \<and>
     ew_interest w ls = Some \<lparr>ev_events = EPOLLIN, ev_fd = ls\<rparr> \<and>
     (\<forall>c \<in> dom (ew_interest w) - {ls}. ew_interest w c = Some \<lparr>ev_events = EPOLLIN OR EPOLLET, ev_fd = c\<rparr> \<and> c \<in> ew_handed w)"

definition fresh :: "int \<Rightarrow> 'u epoll_world \<Rightarrow> int set" where
  "fresh ls w = ew_edge w - {ls}"

definition serving :: "int \<Rightarrow> 'u epoll_world \<Rightarrow> int set \<Rightarrow> bool" where
  "serving ls w R \<longleftrightarrow> registered ls w \<and> ew_unread w \<subseteq> dom (ew_interest w) - {ls} \<and>
     fresh ls w \<subseteq> ew_unread w \<and> R \<subseteq> dom (ew_interest w) \<and> R \<inter> fresh ls w = {} \<and>
     (ls \<in> R \<longrightarrow> ew_backlog w \<noteq> []) \<and> unserved (ew_log w) = fresh ls w \<union> (R - {ls}) \<and>
     connects (ew_log w) = accepteds (ew_log w) + length (ew_backlog w)"

text \<open>What is still to do for the program, and the connections that came or will come.\<close>

definition load :: "int \<Rightarrow> 'u epoll_world \<Rightarrow> nat" where
  "load ls w = (\<Sum>early\<leftarrow>ew_backlog w. if early then 2 else 1) + card (fresh ls w)"

primrec arrival_load :: "arrival \<Rightarrow> nat" where
  "arrival_load (Connect early) = (if early then 2 else 1)"
| "arrival_load (Data c) = 1"

definition script_load :: "arrival list list \<Rightarrow> nat" where
  "script_load bs = (\<Sum>b\<leftarrow>bs. \<Sum>a\<leftarrow>b. arrival_load a)"

primrec arrival_connect :: "arrival \<Rightarrow> nat" where
  "arrival_connect (Connect early) = 1"
| "arrival_connect (Data c) = 0"

definition connections :: "arrival list list \<Rightarrow> nat" where
  "connections bs = (\<Sum>b\<leftarrow>bs. \<Sum>a\<leftarrow>b. arrival_connect a)"

lemma registered_finite: "registered ls w \<Longrightarrow> finite (dom (ew_interest w))"
  unfolding registered_def using finite_subset by blast

lemma registered_data:
  assumes "registered ls w" "ew_interest w fd = Some ev"
  shows "ev_fd ev = fd"
proof (cases "fd = ls")
  case False
  then have "fd \<in> dom (ew_interest w) - {ls}" using assms(2) by blast
  then have "ew_interest w fd = Some \<lparr>ev_events = EPOLLIN OR EPOLLET, ev_fd = fd\<rparr>" using assms(1) unfolding registered_def by blast
  then show ?thesis using assms(2) by simp
qed (use assms in \<open>auto simp: registered_def\<close>)

lemma serving_finite: "serving ls w R \<Longrightarrow> finite (fresh ls w)"
  unfolding serving_def using registered_finite [of ls w] by (meson finite_Diff finite_subset)

lemma event_bits [simp]: "EPOLLIN \<noteq> 0" "EPOLLET \<noteq> 0" "EPOLLIN AND EPOLLET = 0" "(EPOLLIN OR EPOLLET) AND EPOLLIN \<noteq> 0" "(EPOLLIN OR EPOLLET) AND EPOLLET \<noteq> 0"
  by (simp_all add: EPOLLIN_def EPOLLET_def)

text \<open>With these registrations exactly the listening socket with connections waiting and the connections with news are ready.\<close>

lemma serving_ready:
  assumes "serving ls w R"
  shows "ready_fds ls w = (if ew_backlog w \<noteq> [] then {ls} else {}) \<union> fresh ls w"
proof -
  have reg: "registered ls w" and sub: "fresh ls w \<subseteq> ew_unread w" "ew_unread w \<subseteq> dom (ew_interest w) - {ls}"
    using assms by (auto simp: serving_def)
  have "is_ready ls w fd \<longleftrightarrow> fd \<in> (if ew_backlog w \<noteq> [] then {ls} else {}) \<union> fresh ls w" if dom: "fd \<in> dom (ew_interest w)" for fd
  proof (cases "fd = ls")
    case True
    then show ?thesis using reg by (auto simp: is_ready_def has_input_def registered_def fresh_def)
  next
    case False
    then have "ew_interest w fd = Some \<lparr>ev_events = EPOLLIN OR EPOLLET, ev_fd = fd\<rparr>" using reg dom by (auto simp: registered_def)
    then show ?thesis using False sub by (auto simp: is_ready_def has_input_def fresh_def)
  qed
  moreover have "(if ew_backlog w \<noteq> [] then {ls} else {}) \<union> fresh ls w \<subseteq> dom (ew_interest w)"
    using reg sub by (auto simp: registered_def)
  ultimately show ?thesis unfolding ready_fds_def by (intro set_eqI) (metis (no_types, lifting) mem_Collect_eq subsetD)
qed

lemma serving_counted [simp]: "serving ls (counted w) R = serving ls w R" "load ls (counted w) = load ls w"
  "ew_script (counted w) = ew_script w" "ew_log (counted w) = ew_log w"
  by (simp_all add: counted_def serving_def registered_def fresh_def load_def)

lemma failed_counted: "ee_fails env (ew_calls w) \<Longrightarrow> failed env (counted w)"
  by (auto simp: failed_def counted_def)

lemma arrive_serving: "serving ls w {} \<Longrightarrow> serving ls (arrive ls a w) {}"
  by (cases a) (auto simp: serving_def registered_def fresh_def)

lemma arrive_load:
  assumes "serving ls w {}"
  shows "load ls (arrive ls a w) \<le> load ls w + arrival_load a"
proof (cases a)
  case (Data c)
  have "insert c (ew_edge w) - {ls} = insert c (ew_edge w - {ls})" if "c \<noteq> ls" using that by auto
  then show ?thesis using Data serving_finite [OF assms] by (auto simp: load_def fresh_def card_insert_if)
qed (auto simp: load_def fresh_def)

lemma arrive_script [simp]: "ew_script (arrive ls a w) = ew_script w"
  by (cases a) auto

lemma arrive_connects: "connects (ew_log (arrive ls a w)) = connects (ew_log w) + arrival_connect a"
  by (cases a) auto

lemma arrivals:
  assumes "serving ls w {}"
  shows "serving ls (fold (arrive ls) b w) {} \<and>
    load ls (fold (arrive ls) b w) \<le> load ls w + (\<Sum>a\<leftarrow>b. arrival_load a) \<and>
    connects (ew_log (fold (arrive ls) b w)) = connects (ew_log w) + (\<Sum>a\<leftarrow>b. arrival_connect a)"
  using assms
proof (induction b arbitrary: w)
  case (Cons a b)
  then show ?case
    using Cons.IH [OF arrive_serving [OF Cons.prems, of a]] arrive_load [OF Cons.prems, of a] arrive_connects [of ls a w] by simp
qed simp

text \<open>Each failing call ends the program with its own message, in the state the call left.\<close>

lemma ready_loop_fails:
  assumes "array_get events n = Some e" "ev_fd e = ls" "n < nfds"
  shows "accept api ls w = (Some (- 1), w') \<Longrightarrow> ready_loop api ep ls events n nfds w = Exited ''accept'' w'"
    and "accept api ls w = (Some c, w1) \<Longrightarrow> c \<noteq> - 1 \<Longrightarrow>
      epoll_ctl_add api ep c \<lparr>ev_events = EPOLLIN OR EPOLLET, ev_fd = c\<rparr> (setnonblocking api c w1) = (- 1, w') \<Longrightarrow>
      ready_loop api ep ls events n nfds w = Exited ''epoll_ctl: conn_sock'' w'"
  using assms by (subst ready_loop.simps; simp)+

lemma epoll_main_fails_create:
  "epoll_create1 api w = (- 1, w') \<Longrightarrow> epoll_main api ls r events w = Exited ''epoll_create1'' w'"
  by (simp add: epoll_main_def)

lemma epoll_main_fails_ctl:
  "epoll_create1 api w = (ep, w1) \<Longrightarrow> ep \<noteq> - 1 \<Longrightarrow> epoll_ctl_add api ep ls \<lparr>ev_events = EPOLLIN, ev_fd = ls\<rparr> w1 = (- 1, w') \<Longrightarrow>
    epoll_main api ls r events w = Exited ''epoll_ctl: listen_sock'' w'"
  by (simp add: epoll_main_def)

text \<open>A report and the handling of what it is about.\<close>

lemma report_serving:
  assumes "report_choice (ee_pick env)" "serving ls w {}" "ready_fds ls w \<noteq> {}"
  shows "\<exists>fds w'. report env ls w = (Some (int (length fds), map (\<lambda>fd. \<lparr>ev_events = EPOLLIN, ev_fd = fd\<rparr>) fds), w') \<and>
    fds \<noteq> [] \<and> distinct fds \<and> serving ls w' (set fds) \<and> ew_script w' = ew_script w \<and> ew_log w' = ew_log w \<and>
    load ls w' + card (set fds - {ls}) = load ls w"
proof -
  define fds where "fds = ee_pick env (ew_calls w) (ready_fds ls w)"
  let ?w = "w\<lparr>ew_edge := ew_edge w - set fds\<rparr>"
  have fin: "finite (fresh ls w)" by (rule serving_finite [OF assms(2)])
  then have "finite (ready_fds ls w)" by (simp add: serving_ready [OF assms(2)])
  then have fds: "fds \<noteq> []" "distinct fds" "set fds \<subseteq> ready_fds ls w"
    using assms(1,3) by (auto simp: report_choice_def fds_def)
  then have sub: "set fds \<subseteq> (if ew_backlog w \<noteq> [] then {ls} else {}) \<union> fresh ls w" by (simp only: serving_ready [OF assms(2)])
  have "ls \<in> dom (ew_interest w)" "fresh ls w \<subseteq> dom (ew_interest w)" "ls \<notin> fresh ls w"
    using assms(2) by (auto simp: serving_def registered_def fresh_def)
  then have dom: "set fds \<subseteq> dom (ew_interest w)" "set fds - {ls} \<subseteq> fresh ls w" "ls \<in> set fds \<Longrightarrow> ew_backlog w \<noteq> []"
    using sub by (auto split: if_splits)
  have "ev_fd (the (ew_interest w fd)) = fd" if "fd \<in> set fds" for fd
    using that dom(1) assms(2) registered_data [of ls w fd] by (auto simp: serving_def)
  then have rep: "report env ls w = (Some (int (length fds), map (\<lambda>fd. \<lparr>ev_events = EPOLLIN, ev_fd = fd\<rparr>) fds), ?w)"
    by (simp add: report_def fds_def Let_def)
  have fresh: "fresh ls ?w = fresh ls w - (set fds - {ls})" by (auto simp: fresh_def)
  have serve: "serving ls ?w (set fds)"
    using assms(2) dom unfolding serving_def fresh by (auto simp: registered_def)
  have "card (fresh ls w - (set fds - {ls})) + card (set fds - {ls}) = card (fresh ls w)"
    using dom(2) fin card_mono [OF fin dom(2)] by (simp add: card_Diff_subset)
  then have "load ls ?w + card (set fds - {ls}) = load ls w" by (simp add: load_def fresh)
  then show ?thesis using rep fds serve by auto
qed

lemma accept_serving:
  fixes env :: "'u epoll_env" and ls :: int and w :: "'u epoll_world"
  assumes "fd_choice (ee_alloc env)" "serving ls w R" "ls \<in> R"
  defines "api \<equiv> linux env ls"
  shows "(\<exists>w'. accept api ls w = (Some (- 1), w') \<and> failed env w') \<or>
    (\<exists>c w1 w2. accept api ls w = (Some c, w1) \<and> c \<noteq> - 1 \<and>
      (epoll_ctl_add api ep c \<lparr>ev_events = EPOLLIN OR EPOLLET, ev_fd = c\<rparr> (setnonblocking api c w1) = (- 1, w2) \<and> failed env w2 \<or>
       epoll_ctl_add api ep c \<lparr>ev_events = EPOLLIN OR EPOLLET, ev_fd = c\<rparr> (setnonblocking api c w1) = (0, w2) \<and>
       serving ls w2 (R - {ls}) \<and> load ls w2 < load ls w \<and> ew_script w2 = ew_script w \<and> connects (ew_log w2) = connects (ew_log w)))"
proof (cases "ee_fails env (ew_calls w)")
  case True
  then show ?thesis using failed_counted by (auto simp: api_def linux_def)
next
  case ok: False
  obtain early bs where b: "ew_backlog w = early # bs" using assms(2,3) by (cases "ew_backlog w") (auto simp: serving_def)
  define c where "c = ee_alloc env (ew_open w)"
  have "0 \<le> c" and new: "c \<notin> ew_open w" "c \<notin> dom (ew_interest w)"
    using assms(1,2) by (auto simp: fd_choice_def serving_def registered_def c_def)
  define w1 where "w1 = (counted w)\<lparr>ew_backlog := bs, ew_open := insert c (ew_open w), ew_handed := ew_handed w - {c},
    ew_unread := (if early then insert c (ew_unread w) else ew_unread w), ew_log := ew_log w @ [Accepted c]\<rparr>"
  have acc: "accept api ls w = (Some c, w1)" using ok by (simp add: api_def linux_def b c_def w1_def Let_def)
  show ?thesis
  proof (cases "ee_fails env (ew_calls w1)")
    case True
    then have "epoll_ctl_add api ep c \<lparr>ev_events = EPOLLIN OR EPOLLET, ev_fd = c\<rparr> (setnonblocking api c w1) = (- 1, counted (setnonblocking api c w1))"
      "failed env (counted (setnonblocking api c w1))"
      using failed_counted [of env "setnonblocking api c w1"] by (simp_all add: api_def linux_def)
    then show ?thesis using acc \<open>0 \<le> c\<close> by fastforce
  next
    case ok1: False
    define w2 where "w2 = snd (epoll_ctl_add api ep c \<lparr>ev_events = EPOLLIN OR EPOLLET, ev_fd = c\<rparr> (setnonblocking api c w1))"
    have ctl: "epoll_ctl_add api ep c \<lparr>ev_events = EPOLLIN OR EPOLLET, ev_fd = c\<rparr> (setnonblocking api c w1) = (0, w2)"
      unfolding w2_def using new ok1 by (auto simp: api_def linux_def w1_def counted_def)
    have c: "c \<noteq> ls" "c \<notin> R" "c \<notin> ew_unread w" "c \<notin> fresh ls w" using new assms(2,3) by (auto simp: serving_def)
    have fresh: "fresh ls w2 = (if early then insert c (fresh ls w) else fresh ls w)"
      using ok1 new c by (auto simp: w2_def w1_def api_def linux_def counted_def fresh_def has_input_def)
    have "serving ls w2 (R - {ls})"
      using assms(2) new c b ok1 unfolding serving_def fresh
      by (auto simp: w2_def w1_def api_def linux_def registered_def counted_def)
    moreover have "load ls w2 < load ls w"
      using b c(4) serving_finite [OF assms(2)] ok1 new unfolding load_def fresh
      by (auto simp: w2_def w1_def api_def linux_def counted_def)
    moreover have "ew_script w2 = ew_script w" "connects (ew_log w2) = connects (ew_log w)"
      using new ok1 by (auto simp: w2_def w1_def api_def linux_def counted_def)
    ultimately show ?thesis using ctl acc \<open>0 \<le> c\<close> by fastforce
  qed
qed

lemma use_serving:
  fixes env :: "'u epoll_env" and ls :: int and w :: "'u epoll_world"
  assumes "serving ls w R" "c \<in> R" "c \<noteq> ls"
  defines "w' \<equiv> do_use_fd (linux env ls) c w"
  shows "serving ls w' (R - {c}) \<and> load ls w' = load ls w \<and> ew_script w' = ew_script w \<and> connects (ew_log w') = connects (ew_log w)"
proof -
  obtain u reads closes where u: "ee_use env c (ew_user w) = (u, reads, closes)" by (metis prod_cases3)
  have c: "c \<notin> fresh ls w" using assms(1,2) by (auto simp: serving_def)
  have fresh: "fresh ls w' = fresh ls w"
    using c assms(3) u by (cases closes; cases reads) (auto simp: w'_def linux_def fresh_def Let_def)
  have "serving ls w' (R - {c})"
    using assms(1-3) u c unfolding serving_def fresh by (cases closes; cases reads) (auto simp: w'_def linux_def registered_def Let_def)
  moreover have "load ls w' = load ls w" "ew_script w' = ew_script w" "connects (ew_log w') = connects (ew_log w)"
    using u fresh by (cases closes; cases reads; simp add: w'_def linux_def load_def Let_def)+
  ultimately show ?thesis by blast
qed

lemma ready_loop_serves:
  fixes env :: "'u epoll_env" and ls :: int and w :: "'u epoll_world"
  assumes "fd_choice (ee_alloc env)" "serving ls w (set fds)" "distinct fds"
    and "events = pre @ map (\<lambda>fd. \<lparr>ev_events = EPOLLIN, ev_fd = fd\<rparr>) fds @ post"
  shows "(\<exists>msg w'. ready_loop (linux env ls) ep ls events (int (length pre)) (int (length pre + length fds)) w = Exited msg w' \<and> failed env w') \<or>
    (\<exists>w'. ready_loop (linux env ls) ep ls events (int (length pre)) (int (length pre + length fds)) w = Running w' \<and>
      serving ls w' {} \<and> load ls w' + (if ls \<in> set fds then 1 else 0) \<le> load ls w \<and>
      ew_script w' = ew_script w \<and> connects (ew_log w') = connects (ew_log w))"
  using assms(2-4)
proof (induction fds arbitrary: pre w)
  case Nil
  then show ?case by (subst (2) ready_loop.simps) simp
next
  case (Cons fd fds)
  let ?api = "linux env ls" and ?last = "int (length pre + length (fd # fds))"
  let ?e = "\<lparr>ev_events = EPOLLIN, ev_fd = fd\<rparr>"
  have IH: "(\<exists>msg w'. ready_loop ?api ep ls events (int (length pre) + 1) ?last v = Exited msg w' \<and> failed env w') \<or>
      (\<exists>w'. ready_loop ?api ep ls events (int (length pre) + 1) ?last v = Running w' \<and>
        serving ls w' {} \<and> load ls w' + (if ls \<in> set fds then 1 else 0) \<le> load ls v \<and>
        ew_script w' = ew_script v \<and> connects (ew_log w') = connects (ew_log v))" if "serving ls v (set fds)" for v
    using Cons.IH [of v "pre @ [?e]"] that Cons.prems(2,3) by (simp add: add.commute add.left_commute)
  have "(pre @ ?e # map (\<lambda>fd. \<lparr>ev_events = EPOLLIN, ev_fd = fd\<rparr>) fds @ post) ! length pre = ?e" by (rule nth_append_length)
  then have get: "array_get events (int (length pre)) = Some ?e" using Cons.prems(3) by simp
  have R: "set (fd # fds) - {fd} = set fds" using Cons.prems(2) by auto
  have n: "int (length pre) < ?last" by simp
  show ?case
  proof (cases "fd = ls")
    case True
    with get have getls: "array_get events (int (length pre)) = Some \<lparr>ev_events = EPOLLIN, ev_fd = ls\<rparr>" by simp
    from True have "ls \<in> set (fd # fds)" by simp
    from accept_serving [OF assms(1) Cons.prems(1) this, of ep] show ?thesis
    proof (elim disjE exE conjE)
      fix w' assume "accept ?api ls w = (Some (- 1), w')" "failed env w'"
      then show ?thesis using ready_loop_fails(1) [OF getls _ n, of ls ?api w w' ep] by simp
    next
      fix c w1 w2 assume "accept ?api ls w = (Some c, w1)" "c \<noteq> - 1" "failed env w2"
        "epoll_ctl_add ?api ep c \<lparr>ev_events = EPOLLIN OR EPOLLET, ev_fd = c\<rparr> (setnonblocking ?api c w1) = (- 1, w2)"
      then show ?thesis using ready_loop_fails(2) [OF getls _ n, of ls ?api w c w1 ep w2] by simp
    next
      fix c w1 w2 assume "accept ?api ls w = (Some c, w1)" "c \<noteq> - 1"
        "epoll_ctl_add ?api ep c \<lparr>ev_events = EPOLLIN OR EPOLLET, ev_fd = c\<rparr> (setnonblocking ?api c w1) = (0, w2)"
        and w2: "serving ls w2 (set (fd # fds) - {ls})" "load ls w2 < load ls w" "ew_script w2 = ew_script w" "connects (ew_log w2) = connects (ew_log w)"
      then have "ready_loop ?api ep ls events (int (length pre)) ?last w = ready_loop ?api ep ls events (int (length pre) + 1) ?last w2"
        using getls n by (subst ready_loop.simps) (simp add: Let_def)
      then show ?thesis using IH [of w2] w2 True R by auto
    qed
  next
    case False
    let ?w = "do_use_fd ?api fd w"
    have "ready_loop ?api ep ls events (int (length pre)) ?last w = ready_loop ?api ep ls events (int (length pre) + 1) ?last ?w"
      using get False n by (subst ready_loop.simps) simp
    then show ?thesis
      using use_serving [OF Cons.prems(1), of fd env] False R IH [of ?w] by auto
  qed
qed

text \<open>A wait ends with a report, or nothing is left to be done.\<close>

lemma wait_script_serves:
  assumes "serving ls w {}" "connects (ew_log w) + connections bs = cs"
  shows "(\<exists>w'. wait_script env ls bs w = (None, w') \<and> serving ls w' {} \<and> ready_fds ls w' = {} \<and> ew_script w' = [] \<and> connects (ew_log w') = cs) \<or>
    (\<exists>v. wait_script env ls bs w = report env ls v \<and> serving ls v {} \<and> ready_fds ls v \<noteq> {} \<and>
      load ls v + script_load (ew_script v) \<le> load ls w + script_load bs \<and> connects (ew_log v) + connections (ew_script v) = cs)"
  using assms
proof (induction bs arbitrary: w)
  case Nil
  then have "serving ls (w\<lparr>ew_script := []\<rparr>) {}" by (simp add: serving_def registered_def fresh_def)
  then show ?case using Nil by (auto simp: Let_def load_def fresh_def connections_def)
next
  case (Cons b bs)
  let ?v = "(fold (arrive ls) b w)\<lparr>ew_script := bs\<rparr>"
  have v: "serving ls ?v {}" "load ls ?v + script_load bs \<le> load ls w + script_load (b # bs)" "connects (ew_log ?v) + connections bs = cs"
    using arrivals [OF Cons.prems(1), of b] Cons.prems(2)
    by (simp_all add: serving_def registered_def fresh_def load_def script_load_def connections_def)
  show ?case
  proof (cases "ready_fds ls ?v = {}")
    case True
    then have "wait_script env ls (b # bs) w = wait_script env ls bs ?v" by (simp add: Let_def)
    then show ?thesis using Cons.IH [OF v(1,3)] v(2) by (smt (verit) le_trans)
  next
    case False
    then have "wait_script env ls (b # bs) w = report env ls ?v" by (simp add: Let_def)
    then show ?thesis using False v by (intro disjI2 exI [of _ ?v]) simp
  qed
qed

text \<open>One round: it waits with nothing to do, it goes on with less to do, or a call failed.\<close>

lemma wait_round_serves:
  assumes "fd_choice (ee_alloc env)" "report_choice (ee_pick env)" "serving ls w {}" "connects (ew_log w) + connections (ew_script w) = cs"
  shows "(\<exists>es w'. wait_round (linux env ls) ep ls events w = (es, Waiting w') \<and>
      serving ls w' {} \<and> ready_fds ls w' = {} \<and> ew_script w' = [] \<and> connects (ew_log w') = cs) \<or>
    (\<exists>es w'. wait_round (linux env ls) ep ls events w = (es, Running w') \<and> serving ls w' {} \<and>
      load ls w' + script_load (ew_script w') < load ls w + script_load (ew_script w) \<and> connects (ew_log w') + connections (ew_script w') = cs) \<or>
    (\<exists>es msg w'. wait_round (linux env ls) ep ls events w = (es, Exited msg w') \<and> failed env w')"
proof (cases "ee_fails env (ew_calls w)")
  case True
  then show ?thesis using failed_counted by (auto simp: wait_round_def linux_def)
next
  case False
  let ?api = "linux env ls"
  have wait: "epoll_wait ?api ep MAX_EVENTS w = wait_script env ls (ew_script w) (counted w)" using False by (simp add: linux_def)
  have "serving ls (counted w) {}" "connects (ew_log (counted w)) + connections (ew_script w) = cs" using assms(3,4) by simp_all
  from wait_script_serves [OF this, of env] show ?thesis
  proof (elim disjE exE conjE)
    fix w' assume "wait_script env ls (ew_script w) (counted w) = (None, w')" "serving ls w' {}" "ready_fds ls w' = {}" "ew_script w' = []" "connects (ew_log w') = cs"
    then show ?thesis by (auto simp: wait_round_def wait)
  next
    fix v assume v: "wait_script env ls (ew_script w) (counted w) = report env ls v" "serving ls v {}" "ready_fds ls v \<noteq> {}"
      "load ls v + script_load (ew_script v) \<le> load ls (counted w) + script_load (ew_script w)" "connects (ew_log v) + connections (ew_script v) = cs"
    obtain fds u where u: "report env ls v = (Some (int (length fds), map (\<lambda>fd. \<lparr>ev_events = EPOLLIN, ev_fd = fd\<rparr>) fds), u)"
      "fds \<noteq> []" "distinct fds" "serving ls u (set fds)" "ew_script u = ew_script v" "ew_log u = ew_log v"
      "load ls u + card (set fds - {ls}) = load ls v"
      using report_serving [OF assms(2) v(2,3)] by blast
    define es where "es = map (\<lambda>fd. \<lparr>ev_events = EPOLLIN, ev_fd = fd\<rparr>) fds @ drop (length fds) events"
    have round: "wait_round ?api ep ls events w = (es, ready_loop ?api ep ls es 0 (int (length fds)) u)"
      using u(1) v(1) by (simp add: wait_round_def wait es_def Let_def)
    have "0 < card (set fds - {ls}) \<or> ls \<in> set fds" using u(2) by (cases fds) (auto simp: card_gt_0_iff)
    then have less: "load ls x + script_load (ew_script v) < load ls w + script_load (ew_script w)"
      if "load ls x + (if ls \<in> set fds then 1 else 0) \<le> load ls u" for x
      using that u(7) v(4) by (auto split: if_splits)
    have "es = [] @ map (\<lambda>fd. \<lparr>ev_events = EPOLLIN, ev_fd = fd\<rparr>) fds @ drop (length fds) events" by (simp add: es_def)
    from ready_loop_serves [OF assms(1) u(4,3) this, of ep] show ?thesis
    proof (elim disjE exE conjE)
      fix msg w' assume "ready_loop ?api ep ls es (int (length [])) (int (length [] + length fds)) u = Exited msg w'" "failed env w'"
      then show ?thesis using round by simp
    next
      fix w' assume "ready_loop ?api ep ls es (int (length [])) (int (length [] + length fds)) u = Running w'" "serving ls w' {}"
        "load ls w' + (if ls \<in> set fds then 1 else 0) \<le> load ls u" "ew_script w' = ew_script u" "connects (ew_log w') = connects (ew_log u)"
      then show ?thesis using round less [of w'] u(5,6) v(5) by simp
    qed
  qed
qed

lemma wait_rounds_serve:
  assumes "fd_choice (ee_alloc env)" "report_choice (ee_pick env)" "serving ls w {}" "connects (ew_log w) + connections (ew_script w) = cs"
  shows "\<exists>r w'. (wait_rounds (linux env ls) ep ls r events w = Waiting w' \<and>
      serving ls w' {} \<and> ready_fds ls w' = {} \<and> ew_script w' = [] \<and> connects (ew_log w') = cs) \<or>
    (\<exists>msg. wait_rounds (linux env ls) ep ls r events w = Exited msg w' \<and> failed env w')"
  using assms(3,4)
proof (induction "load ls w + script_load (ew_script w)" arbitrary: w events rule: less_induct)
  case less
  from wait_round_serves [OF assms(1,2) less.prems, of ep events] show ?case
  proof (elim disjE exE conjE)
    fix es w' assume "wait_round (linux env ls) ep ls events w = (es, Waiting w')"
      "serving ls w' {}" "ready_fds ls w' = {}" "ew_script w' = []" "connects (ew_log w') = cs"
    then show ?thesis by (intro exI [of _ "Suc 0"] exI [of _ w']) simp
  next
    fix es msg w' assume "wait_round (linux env ls) ep ls events w = (es, Exited msg w')" "failed env w'"
    then show ?thesis by (intro exI [of _ "Suc 0"] exI [of _ w']) simp
  next
    fix es w' assume step: "wait_round (linux env ls) ep ls events w = (es, Running w')"
      and *: "load ls w' + script_load (ew_script w') < load ls w + script_load (ew_script w)" "serving ls w' {}" "connects (ew_log w') + connections (ew_script w') = cs"
    have "wait_rounds (linux env ls) ep ls (Suc r) events w = wait_rounds (linux env ls) ep ls r es w'" for r using step by simp
    then show ?thesis using less.hyps [OF *, of es] by metis
  qed
qed


section \<open>Every connection is served\<close>

text \<open>Nothing is registered and nothing has come; what comes is in the script.\<close>

definition fresh_start :: "int \<Rightarrow> 'u epoll_world \<Rightarrow> bool" where
  "fresh_start ls w \<longleftrightarrow> finite (ew_open w) \<and> ls \<in> ew_open w \<and> ew_interest w = Map.empty \<and>
     ew_backlog w = [] \<and> ew_unread w = {} \<and> ew_edge w = {} \<and> ew_log w = []"

lemma epoll_main_starts:
  assumes "fd_choice (ee_alloc env)" "fresh_start ls w"
  shows "(\<exists>msg w'. (\<forall>r. epoll_main (linux env ls) ls r events w = Exited msg w') \<and> failed env w') \<or>
    (\<exists>ep w'. (\<forall>r. epoll_main (linux env ls) ls r events w = wait_rounds (linux env ls) ep ls r events w') \<and>
      serving ls w' {} \<and> connects (ew_log w') + connections (ew_script w') = connections (ew_script w))"
proof (cases "ee_fails env (ew_calls w)")
  case True
  then show ?thesis using failed_counted by (auto simp: epoll_main_def linux_def)
next
  case ok: False
  let ?api = "linux env ls" and ?ev = "\<lparr>ev_events = EPOLLIN, ev_fd = ls\<rparr>"
  define ep where "ep = ee_alloc env (ew_open w)"
  define w1 where "w1 = (counted w)\<lparr>ew_open := insert ep (ew_open w)\<rparr>"
  have ep: "ep \<noteq> - 1" using assms by (force simp: fd_choice_def fresh_start_def ep_def)
  have create: "epoll_create1 ?api w = (ep, w1)" using ok by (simp add: linux_def ep_def w1_def)
  show ?thesis
  proof (cases "ee_fails env (ew_calls w1)")
    case True
    then have "epoll_ctl_add ?api ep ls ?ev w1 = (- 1, counted w1)" by (simp add: linux_def)
    then show ?thesis using epoll_main_fails_ctl [OF create ep] failed_counted [OF True] by blast
  next
    case ok1: False
    let ?w = "(counted w1)\<lparr>ew_interest := [ls \<mapsto> ?ev]\<rparr>"
    have "epoll_ctl_add ?api ep ls ?ev w1 = (0, ?w)"
      using assms(2) ok1 by (auto simp: linux_def fresh_start_def w1_def counted_def has_input_def)
    then have "epoll_main ?api ls r events w = wait_rounds ?api ep ls r events ?w" for r
      using ep create by (simp add: epoll_main_def Let_def)
    moreover have "serving ls ?w {}" "connects (ew_log ?w) + connections (ew_script ?w) = connections (ew_script w)"
      using assms(2) by (auto simp: serving_def registered_def fresh_start_def unserved_def w1_def counted_def fresh_def)
    ultimately show ?thesis by blast
  qed
qed



text \<open>
  C8: Every connection is served. Whatever connections and data come, in whatever batches, whichever of the ready descriptors the kernel
  reports first, and whatever \<open>setnonblocking\<close> and \<open>do_use_fd\<close> do with the rest of the program, whether \<open>do_use_fd\<close> reads all that came or not and whether it closes the
  connection it is called for, after finitely many rounds the program has ended because a system call failed, or it waits with nothing left to do: every
  connection that came has been accepted, and every connection with news has been handed to \<open>do_use_fd\<close>
  after the last of them. In particular it waits so if no system call fails.
\<close>

theorem epoll_serves_all:
  assumes "fd_choice (ee_alloc env)" and "report_choice (ee_pick env)" and "fresh_start ls w"
  shows "\<exists>r w'. (epoll_main (linux env ls) ls r events w = Waiting w' \<and> ew_script w' = [] \<and> registered ls w' \<and>
      accepteds (ew_log w') = connections (ew_script w) \<and> ew_backlog w' = [] \<and> unserved (ew_log w') = {}) \<or>
    (\<exists>msg. epoll_main (linux env ls) ls r events w = Exited msg w' \<and> (\<exists>i<ew_calls w'. ee_fails env i))"
  using epoll_main_starts [OF assms(1,3), of events]
proof (elim disjE exE conjE)
  fix msg w' assume "\<forall>r. epoll_main (linux env ls) ls r events w = Exited msg w'" "failed env w'"
  then show ?thesis by (auto simp: failed_def)
next
  let ?api = "linux env ls"
  fix ep v assume v: "\<forall>r. epoll_main ?api ls r events w = wait_rounds ?api ep ls r events v" "serving ls v {}"
      "connects (ew_log v) + connections (ew_script v) = connections (ew_script w)"
  from wait_rounds_serve [OF assms(1,2) v(2,3), of ep events] obtain r w' where
    "(wait_rounds ?api ep ls r events v = Waiting w' \<and> serving ls w' {} \<and> ready_fds ls w' = {} \<and> ew_script w' = [] \<and>
      connects (ew_log w') = connections (ew_script w)) \<or> (\<exists>msg. wait_rounds ?api ep ls r events v = Exited msg w' \<and> failed env w')" by blast
  then show ?thesis
  proof (elim disjE exE conjE)
    assume w': "wait_rounds ?api ep ls r events v = Waiting w'" "serving ls w' {}" "ready_fds ls w' = {}" "ew_script w' = []"
      "connects (ew_log w') = connections (ew_script w)"
    have "ew_backlog w' = []" "fresh ls w' = {}" using w'(3) serving_ready [OF w'(2)] by (auto split: if_splits)
    then show ?thesis using w' v(1) by (auto simp: serving_def)
  next
    fix msg assume "wait_rounds ?api ep ls r events v = Exited msg w'" "failed env w'"
    then show ?thesis using v(1) by (auto simp: failed_def)
  qed
qed

text \<open>A kernel that reports one ready descriptor at a time, and where no call fails, or the fourth one does.\<close>

definition demo_pick :: "nat \<Rightarrow> int set \<Rightarrow> int list" where
  "demo_pick i S = [Min S]"

definition demo_epoll :: "(nat \<Rightarrow> bool) \<Rightarrow> nat epoll_env" where
  "demo_epoll fails = \<lparr>ee_alloc = demo_alloc, ee_pick = demo_pick, ee_fails = fails, ee_nonblock = (\<lambda>fd n. n), ee_use = (\<lambda>fd n. (Suc n, even n, odd n))\<rparr>"

definition demo_world :: "nat epoll_world" where
  "demo_world = \<lparr>ew_interest = Map.empty, ew_open = {0, 1, 2, 3}, ew_handed = {}, ew_backlog = [], ew_unread = {}, ew_edge = {},
     ew_script = [[Connect True, Connect False], [Data 5]], ew_calls = 0, ew_log = [], ew_user = 0\<rparr>"

lemma demo_epoll_ok: "fd_choice (ee_alloc (demo_epoll f))" "report_choice (ee_pick (demo_epoll f))"
  using demo_alloc_choice by (auto simp: report_choice_def demo_pick_def MAX_EVENTS_def demo_epoll_def)

lemma demo_world_start: "fresh_start 3 demo_world"
  by (simp add: fresh_start_def demo_world_def)


theorem epoll_serves_all_witness:
  "\<exists>r w'. epoll_main (linux (demo_epoll (\<lambda>_. False)) 3) 3 r [] demo_world = Waiting w' \<and> accepteds (ew_log w') = 2"
proof -
  have "connections (ew_script demo_world) = 2" by (simp add: demo_world_def connections_def)
  then show ?thesis
    using epoll_serves_all [OF demo_epoll_ok demo_world_start, of "\<lambda>_. False" "[]"] by (auto simp: demo_epoll_def)
qed


section \<open>Failing calls\<close>

lemma wait_rounds_fails_wait:
  "epoll_wait api ep MAX_EVENTS w = (Some (- 1, evs), w') \<Longrightarrow> wait_rounds api ep ls (Suc r) events w = Exited ''epoll_wait'' w'"
  by (simp add: wait_round_def)

text \<open>
  A client that goes away before it is accepted makes \<open>accept\<close> fail with \<open>ECONNABORTED\<close>, and ends the program, with all its connections.
\<close>

lemma aborted_connection_ends_program:
  assumes "epoll_wait api ep MAX_EVENTS w = (Some (1, [\<lparr>ev_events = EPOLLIN, ev_fd = ls\<rparr>]), w1)" "accept api ls w1 = (Some (- 1), w2)"
  shows "wait_rounds api ep ls (Suc r) events w = Exited ''accept'' w2"
proof -
  let ?es = "[\<lparr>ev_events = EPOLLIN, ev_fd = ls\<rparr>] @ drop 1 events"
  have "array_get ?es 0 = Some \<lparr>ev_events = EPOLLIN, ev_fd = ls\<rparr>" by (simp add: array_get_def)
  then have "ready_loop api ep ls ?es 0 1 w1 = Exited ''accept'' w2"
    by (rule ready_loop_fails(1)) (use assms(2) in simp_all)
  then show ?thesis using assms(1) by (simp add: wait_round_def)
qed

end
