(* ===== verification/Common_Macro.thy ===== *)
theory Common_Macro
  imports C_Prelude
begin

text \<open>
  The macros on bits of \<^verbatim>\<open>linux/utils/include/common_macro.h\<close>, for a variable of any unsigned type. The constant 1 is an \<open>int\<close>,
  so the mask is computed as one: its shift is undefined from bit 31 on, whatever the type of the variable
  (\<^const>\<open>None\<close>). The mask is then converted to the type of the variable. \<open>MAX\<close> and \<open>MIN\<close> are in
  \<open>Stats\<close>, with the type they are used at.
\<close>

definition shift_one :: "int \<Rightarrow> int option" where
  "shift_one nr = (if 0 \<le> nr \<and> nr < 32 then cint (2 ^ nat nr) else None)"

definition SET_BIT :: "'a::len word \<Rightarrow> int \<Rightarrow> 'a word option" where
  "SET_BIT val nr = map_option (\<lambda>m. val OR word_of_int m) (shift_one nr)"

definition CLEAR_BIT :: "'a::len word \<Rightarrow> int \<Rightarrow> 'a word option" where
  "CLEAR_BIT val nr = map_option (\<lambda>m. val AND word_of_int (NOT m)) (shift_one nr)"

lemma shift_one_eq: "shift_one nr = (if 0 \<le> nr \<and> nr < 31 then Some (2 ^ nat nr) else None)"
proof (cases "0 \<le> nr \<and> nr < 31")
  case True
  then have "(2 :: int) ^ nat nr \<le> 2 ^ 30" by (intro power_increasing) auto
  moreover have "0 < (2 :: int) ^ nat nr" by simp
  ultimately have "int_ok (2 ^ nat nr)" unfolding int_ok_iff by (simp del: zero_less_power)
  then show ?thesis using True by (simp add: shift_one_def)
next
  case False
  then consider "nr = 31" | "\<not> (0 \<le> nr \<and> nr < 32)" by linarith
  then show ?thesis by cases (auto simp: shift_one_def cint_simps)
qed

text \<open>
  The macros work on the one bit, also in variables wider than the \<open>int\<close> they compute with: the complement is negative, and its sign
  extends to the bits above. In a narrower variable a number beyond its width changes nothing.
\<close>

lemma SET_BIT_bits:
  "SET_BIT val nr = (if 0 \<le> nr \<and> nr < 31 then Some (set_bit (nat nr) val) else None)"
  by (auto simp: SET_BIT_def shift_one_eq set_bit_eq_or push_bit_eq_mult)

lemma CLEAR_BIT_bits:
  "CLEAR_BIT val nr = (if 0 \<le> nr \<and> nr < 31 then Some (unset_bit (nat nr) val) else None)"
  by (auto simp: CLEAR_BIT_def shift_one_eq unset_bit_eq_and_not push_bit_eq_mult of_int_not_eq)

lemma SET_CLEAR_BIT:
  assumes "0 \<le> nr" "nr < 31"
  shows "Option.bind (SET_BIT val nr) (\<lambda>v. CLEAR_BIT v nr) = CLEAR_BIT val nr"
    and "Option.bind (CLEAR_BIT val nr) (\<lambda>v. SET_BIT v nr) = SET_BIT val nr"
  using assms by (auto simp: SET_BIT_bits CLEAR_BIT_bits intro!: bit_word_eqI simp: bit_simps)

lemma SET_BIT_wide: "SET_BIT (val :: u64) 40 = None"
  by (simp add: SET_BIT_bits)

end
