(* ===== verification/Basic_Task.thy ===== *)
theory Basic_Task
  imports C_Prelude
begin

text \<open>
  \<^verbatim>\<open>linux/utils/src/basic_task.c\<close> (not on Android): threads described by a task, with a name, a
  priority, a processor and a flag for dumping the stack on a signal. The results of the thread
  library are given by an environment; by POSIX they are 0 or a positive error number. The tasks are in
  a memory from which they can be freed, a thread is what it will execute and how, and the
  signals with a handler are recorded. An access to freed memory and the use of an indeterminate
  thread id are \<^const>\<open>None\<close>.
\<close>

section \<open>State\<close>

record 'f task =
  name :: "string option"
  cpuid :: int
  piority :: int
  task_arg :: addr
  entry :: "'f option"
  is_detach :: u8
  debug_on :: u8

text \<open>Attributes: the policy and the priority, whether the thread takes them over from its creator, and the processors.\<close>

datatype policy = SCHED_OTHER | SCHED_RR

record attr =
  schedpolicy :: policy
  sched_priority :: int
  inherit_sched :: bool
  affinity :: "int set option"

definition attr_default :: attr where
  "attr_default = \<lparr>schedpolicy = SCHED_OTHER, sched_priority = 0, inherit_sched = True, affinity = None\<rparr>"

datatype 'f start = Start_entry 'f addr | Start_signal_task addr

record 'f task_thread =
  th_start :: "'f start"
  th_policy :: policy
  th_priority :: int
  th_affinity :: "int set option"
  th_name :: string
  th_detached :: bool

record 'f task_world =
  tasks :: "addr \<Rightarrow> 'f task option"
  created :: "'f task_thread list"
  live_attrs :: nat
  handled :: "string list"
  entered :: "('f \<times> addr) list"

text \<open>The results of the thread library, and the policy, priority and name of the calling thread.\<close>

record task_env =
  e_init :: int
  e_policy :: int
  e_param :: "int \<Rightarrow> int"
  e_affinity :: "int set \<Rightarrow> int"
  e_create :: int
  e_self :: "policy \<times> int"
  e_name :: string


section \<open>The code\<close>

text \<open>\<open>CPU_SET\<close> ignores a number outside the 1024 bits of the set. \<open>pthread_attr_destroy\<close> ends what \<open>pthread_attr_init\<close> started.\<close>

definition cpu_mask :: "int \<Rightarrow> int set" where
  "cpu_mask c = (if 0 \<le> c \<and> c < 1024 then {c} else {})"

definition set_pthread_attr :: "task_env \<Rightarrow> int \<Rightarrow> int \<Rightarrow> 'f task_world \<Rightarrow> int \<times> attr \<times> 'f task_world" where
  "set_pthread_attr e pio c w =
     (if e_init e \<noteq> 0 then (- 1, attr_default, w)
      else let w' = w\<lparr>live_attrs := live_attrs w + 1\<rparr> in
      if e_policy e \<noteq> 0 then (- 1, attr_default, w)
      else let a = attr_default\<lparr>schedpolicy := SCHED_RR\<rparr> in
      if 0 \<noteq> pio \<and> e_param e pio \<noteq> 0 then (- 1, a, w)
      else let a = (if 0 \<noteq> pio then a\<lparr>sched_priority := pio\<rparr> else a) in
      if - 1 \<noteq> c \<and> e_affinity e (cpu_mask c) \<noteq> 0 then (- 1, a, w)
      else (0, if - 1 \<noteq> c then a\<lparr>affinity := Some (cpu_mask c)\<rparr> else a, w'))"

definition task_zero :: "'f task" where
  "task_zero = \<lparr>name = None, cpuid = 0, piority = 0, task_arg = NULL, entry = None, is_detach = 0, debug_on = 0\<rparr>"

definition task_init :: "addr \<Rightarrow> 'f task_world \<Rightarrow> (int \<times> 'f task_world) option" where
  "task_init t w = do {
     _ \<leftarrow> tasks w t;
     Some (0, w\<lparr>tasks := (tasks w)(t \<mapsto> task_zero\<lparr>cpuid := - 1\<rparr>)\<rparr>) }"

text \<open>\<open>mem\<close> is the result of \<open>malloc\<close> and \<open>junk\<close> what the new memory holds.\<close>

definition task_alloc_init :: "addr \<Rightarrow> 'f task \<Rightarrow> 'f task_world \<Rightarrow> (addr \<times> 'f task_world) option" where
  "task_alloc_init mem junk w =
     (if mem = NULL then Some (NULL, w)
      else do {
        (_, w) \<leftarrow> task_init mem (w\<lparr>tasks := (tasks w)(mem \<mapsto> junk)\<rparr>);
        Some (mem, w) })"

definition task_free :: "addr \<Rightarrow> 'f task_world \<Rightarrow> (int \<times> 'f task_world) option" where
  "task_free t w =
     (if t = NULL then Some (0, w)
      else if tasks w t = None then None
      else Some (0, w\<lparr>tasks := (tasks w)(t := None)\<rparr>))"

definition task_set_param :: "addr \<Rightarrow> string option \<Rightarrow> 'f option \<Rightarrow> addr \<Rightarrow> 'f task_world \<Rightarrow> (int \<times> 'f task_world) option" where
  "task_set_param t nm f a w = do {
     x \<leftarrow> tasks w t;
     Some (0, w\<lparr>tasks := (tasks w)(t \<mapsto> x\<lparr>name := nm, task_arg := a, entry := f\<rparr>)\<rparr>) }"

text \<open>
  \<open>tid\<close> is an index into the list of the threads; a thread that is not created leaves it as it was, \<open>old\<close>, which may
  be indeterminate. \<open>pthread_create\<close> uses the priority of the attributes only when it is told to, and
  \<open>pthread_setname_np\<close> takes names of at most 15 characters.
\<close>

definition pthread_create :: "task_env \<Rightarrow> attr \<Rightarrow> 'f start \<Rightarrow> nat option \<Rightarrow> 'f task_world \<Rightarrow> int \<times> nat option \<times> 'f task_world" where
  "pthread_create e a st old w =
     (if e_create e \<noteq> 0 then (e_create e, old, w)
      else (0, Some (length (created w)), w\<lparr>created := created w @
        [\<lparr>th_start = st, th_policy = if inherit_sched a then fst (e_self e) else schedpolicy a,
          th_priority = if inherit_sched a then snd (e_self e) else sched_priority a,
          th_affinity = affinity a, th_name = e_name e, th_detached = False\<rparr>]\<rparr>))"

definition upd_thread :: "nat option \<Rightarrow> ('f task_thread \<Rightarrow> 'f task_thread) \<Rightarrow> 'f task_world \<Rightarrow> 'f task_world option" where
  "upd_thread tid g w = do {
     i \<leftarrow> tid;
     (if i < length (created w) then Some (w\<lparr>created := (created w)[i := g (created w ! i)]\<rparr>) else None) }"

definition task_create :: "task_env \<Rightarrow> addr \<Rightarrow> nat option \<Rightarrow> 'f task_world \<Rightarrow> (int \<times> nat option \<times> 'f task_world) option" where
  "task_create e t old w = do {
     x \<leftarrow> tasks w t;
     let (ret, a, w) = set_pthread_attr e (piority x) (cpuid x) w;
     (if ret < 0 then Some (ret, old, w)
      else do {
        st \<leftarrow> (if debug_on x \<noteq> 0 then Some (Start_signal_task t) else map_option (\<lambda>f. Start_entry f (task_arg x)) (entry x));
        let (ret, tid, w) = pthread_create e a st old w;
        (if ret < 0 then Some (- 1, tid, w\<lparr>live_attrs := live_attrs w - 1\<rparr>)
         else do {
           w \<leftarrow> (case name x of None \<Rightarrow> Some w | Some nm \<Rightarrow> upd_thread tid (\<lambda>th. if length nm \<le> 15 then th\<lparr>th_name := nm\<rparr> else th) w);
           w \<leftarrow> (if is_detach x \<noteq> 0 then upd_thread tid (\<lambda>th. th\<lparr>th_detached := True\<rparr>) w else Some w);
           Some (0, tid, w) }) }) }"

definition task_signals :: "string list" where
  "task_signals = [''SIGSEGV'', ''SIGILL'', ''SIGABRT'', ''SIGBUS'', ''SIGFPE'', ''SIGSYS'']"

definition task_register_signal :: "'f task_world \<Rightarrow> int \<times> 'f task_world" where
  "task_register_signal w = (0, w\<lparr>handled := task_signals @ handled w\<rparr>)"

text \<open>
  The handler of these signals writes to the log, for a crash also the calls that led to it: at most 32, as
  \<open>backtrace\<close> stores them. \<open>symbols\<close> is what \<open>backtrace_symbols\<close> makes of them, \<^const>\<open>None\<close> when it has no memory
  left; the code does not look.
\<close>

definition MAX_BACKTRACE_NUM :: nat where
  "MAX_BACKTRACE_NUM = 32"

datatype task_log = Caught string int | Backtrack string | Frame string nat nat string

definition dump_thread_stack :: "string \<Rightarrow> addr list \<Rightarrow> (addr list \<Rightarrow> string list option) \<Rightarrow> task_log list option" where
  "dump_thread_stack nm stack symbols =
     (let buffer = take MAX_BACKTRACE_NUM stack;
          n = length buffer
      in case symbols buffer of
           None \<Rightarrow> if n = 0 then Some [Backtrack nm] else None
         | Some ss \<Rightarrow> if length ss < n then None else Some (Backtrack nm # map (\<lambda>i. Frame nm i n (ss ! i)) [0..<n]))"

definition SIGABRT :: int where "SIGABRT = 6"
definition SIGSEGV :: int where "SIGSEGV = 11"

definition signal_handler :: "string \<Rightarrow> int \<Rightarrow> addr list \<Rightarrow> (addr list \<Rightarrow> string list option) \<Rightarrow> task_log list option" where
  "signal_handler nm signum stack symbols =
     map_option (\<lambda>l. Caught nm signum # l)
       (if SIGSEGV = signum \<or> SIGABRT = signum then dump_thread_stack nm stack symbols else Some [])"

text \<open>What the new thread does when it runs: the entry itself, or \<open>signal_task\<close>, which reads the task first.\<close>

definition signal_task :: "addr \<Rightarrow> 'f task_world \<Rightarrow> 'f task_world option" where
  "signal_task t w = do {
     x \<leftarrow> tasks w t;
     f \<leftarrow> entry x;
     Some (w\<lparr>handled := task_signals @ handled w, entered := entered w @ [(f, task_arg x)]\<rparr>) }"

fun thread_begin :: "'f start \<Rightarrow> 'f task_world \<Rightarrow> 'f task_world option" where
  "thread_begin (Start_entry f a) w = Some (w\<lparr>entered := entered w @ [(f, a)]\<rparr>)"
| "thread_begin (Start_signal_task t) w = signal_task t w"


section \<open>Properties\<close>

definition env_ok :: "task_env \<Rightarrow> bool" where
  "env_ok e \<longleftrightarrow> e_init e = 0 \<and> e_policy e = 0 \<and> (\<forall>p. 1 \<le> p \<and> p \<le> 99 \<longrightarrow> e_param e p = 0) \<and> (\<forall>m. e_affinity e m = 0) \<and> e_create e = 0"

text \<open>The thread a task describes, with the scheduling of its creator.\<close>

definition thread_for :: "task_env \<Rightarrow> addr \<Rightarrow> 'f \<Rightarrow> 'f task \<Rightarrow> 'f task_thread" where
  "thread_for e t f x = \<lparr>th_start = if debug_on x \<noteq> 0 then Start_signal_task t else Start_entry f (task_arg x),
     th_policy = fst (e_self e), th_priority = snd (e_self e),
     th_affinity = if cpuid x = - 1 then None else Some (cpu_mask (cpuid x)),
     th_name = (case name x of None \<Rightarrow> e_name e | Some nm \<Rightarrow> if length nm \<le> 15 then nm else e_name e),
     th_detached = is_detach x \<noteq> 0\<rparr>"

definition demo_env :: task_env where
  "demo_env = \<lparr>e_init = 0, e_policy = 0, e_param = \<lambda>p. if 1 \<le> p \<and> p \<le> 99 then 0 else 22, e_affinity = \<lambda>_. 0, e_create = 0,
     e_self = (SCHED_OTHER, 0), e_name = ''main''\<rparr>"

definition demo_tasks :: "string task_world" where
  "demo_tasks = \<lparr>tasks = [1 \<mapsto> \<lparr>name = Some ''worker'', cpuid = 2, piority = 50, task_arg = 7, entry = Some ''work'', is_detach = 1, debug_on = 1\<rparr>],
     created = [], live_attrs = 0, handled = [], entered = []\<rparr>"

lemma set_pthread_attr_ok:
  assumes "env_ok e" "0 \<le> p" "p \<le> 99"
  shows "\<exists>a. set_pthread_attr e p c w = (0, a, w\<lparr>live_attrs := live_attrs w + 1\<rparr>) \<and> inherit_sched a \<and>
    affinity a = (if c = - 1 then None else Some (cpu_mask c))"
  using assms by (auto simp: set_pthread_attr_def env_ok_def attr_default_def Let_def)

lemma task_create_result:
  assumes "env_ok e" "tasks w t = Some x" "entry x = Some f" "0 \<le> piority x" "piority x \<le> 99"
  shows "\<exists>w'. task_create e t old w = Some (0, Some (length (created w)), w') \<and> created w' = created w @ [thread_for e t f x] \<and>
    tasks w' = tasks w \<and> live_attrs w' = live_attrs w + 1 \<and> entered w' = entered w"
proof -
  obtain a where a: "set_pthread_attr e (piority x) (cpuid x) w = (0, a, w\<lparr>live_attrs := live_attrs w + 1\<rparr>)" "inherit_sched a"
      "affinity a = (if cpuid x = - 1 then None else Some (cpu_mask (cpuid x)))"
    using set_pthread_attr_ok [OF assms(1,4,5), of "cpuid x" w] by blast
  have "e_create e = 0" using assms(1) by (simp add: env_ok_def)
  then show ?thesis
    using assms(2,3) a
    by (cases "name x"; simp add: task_create_def pthread_create_def upd_thread_def thread_for_def Let_def)
qed

text \<open>
  Creating a task. With a priority from 0 to 99, an entry and a thread library that reports no error, \<open>task_create\<close> returns 0
  and makes exactly one thread, which runs the entry of the task on its processor, has its name when
  that is at most 15 characters long and is detached when the task says so. Its policy and priority,
  however, are those of the creating thread, whatever the priority of the task is.
\<close>

theorem task_create_makes_thread:
  assumes "env_ok e" and "tasks w t = Some x" and "entry x = Some f" and "0 \<le> piority x" and "piority x \<le> 99"
  shows "\<exists>w'. task_create e t old w = Some (0, Some (length (created w)), w') \<and> created w' = created w @ [thread_for e t f x] \<and> tasks w' = tasks w"
  using task_create_result [OF assms, of old] by blast

theorem task_create_makes_thread_witness:
  "\<exists>w'. task_create demo_env 1 None demo_tasks = Some (0, Some 0, w') \<and> map th_priority (created w') = [0] \<and>
    map th_name (created w') = [''worker''] \<and> map th_detached (created w') = [True]"
  using task_create_makes_thread [of demo_env demo_tasks 1 _ "''work''" None]
  by (auto simp: demo_env_def demo_tasks_def env_ok_def thread_for_def)

text \<open>
  A thread that could not be created. The error numbers of \<open>pthread_create\<close> are positive and the code looks for a negative
  one, so \<open>task_create\<close> returns 0 for a task that needs neither a name nor to be detached, without a
  thread; for one that does, it goes on to use the thread id that was never set.
\<close>

theorem task_create_reports_success:
  assumes "tasks w t = Some x" and "entry x = Some f" and "env_ok (e\<lparr>e_create := 0\<rparr>)" and "0 < e_create e"
    and "0 \<le> piority x" and "piority x \<le> 99"
  shows "if name x = None \<and> is_detach x = 0
    then \<exists>w'. task_create e t old w = Some (0, old, w') \<and> created w' = created w
    else task_create e t None w = None"
proof -
  have "set_pthread_attr e p c w = set_pthread_attr (e\<lparr>e_create := 0\<rparr>) p c w" for p c by (simp add: set_pthread_attr_def Let_def)
  then obtain a where a: "set_pthread_attr e (piority x) (cpuid x) w = (0, a, w\<lparr>live_attrs := live_attrs w + 1\<rparr>)"
    using set_pthread_attr_ok [OF assms(3,5,6), of "cpuid x" w] by auto
  show ?thesis
    using assms(1,2,4) a
    by (cases "name x"; simp add: task_create_def pthread_create_def upd_thread_def Let_def)
qed

theorem task_create_reports_success_witness: "task_create (demo_env\<lparr>e_create := 11\<rparr>) 1 None demo_tasks = None"
  using task_create_reports_success [of demo_tasks 1 _ "''work''" "demo_env\<lparr>e_create := 11\<rparr>" None]
  by (simp add: demo_env_def demo_tasks_def env_ok_def)

text \<open>
  How long a task must live. After \<open>task_create\<close> a thread without \<open>debug_on\<close> enters its function with the argument of the
  task even if the task was freed in the meantime; with \<open>debug_on\<close> it does so with the signal handlers
  set as long as the task is there, and reads freed memory when it is not.
\<close>

theorem task_lifetime:
  assumes "env_ok e" and "tasks w t = Some x" and "entry x = Some f" and "0 \<le> piority x" and "piority x \<le> 99" and "t \<noteq> NULL"
  shows "\<exists>w1 w2 th. task_create e t old w = Some (0, Some (length (created w)), w1) \<and> created w1 = created w @ [th] \<and> task_free t w1 = Some (0, w2) \<and>
    map_option entered (thread_begin (th_start th) w1) = Some (entered w @ [(f, task_arg x)]) \<and>
    map_option entered (thread_begin (th_start th) w2) = (if debug_on x = 0 then Some (entered w @ [(f, task_arg x)]) else None) \<and>
    (debug_on x \<noteq> 0 \<longrightarrow> (\<forall>w3. thread_begin (th_start th) w1 = Some w3 \<longrightarrow> set task_signals \<subseteq> set (handled w3)))"
proof -
  obtain w1 where w1: "task_create e t old w = Some (0, Some (length (created w)), w1)" "created w1 = created w @ [thread_for e t f x]"
      "tasks w1 = tasks w" "entered w1 = entered w"
    using task_create_result [OF assms(1-5), of old] by blast
  define w2 where "w2 = w1\<lparr>tasks := (tasks w1)(t := None)\<rparr>"
  have "task_free t w1 = Some (0, w2)" using assms(2,6) w1(3) by (simp add: task_free_def w2_def)
  with w1 show ?thesis using assms(2,3)
    by (intro exI [of _ w1] exI [of _ w2] exI [of _ "thread_for e t f x"]) (simp add: thread_for_def signal_task_def w2_def)
qed

theorem task_lifetime_witness:
  "\<exists>w1 w2 th. task_create demo_env 1 None demo_tasks = Some (0, Some 0, w1) \<and> created w1 = [th] \<and> task_free 1 w1 = Some (0, w2) \<and>
    thread_begin (th_start th) w2 = None"
  using task_lifetime [of demo_env demo_tasks 1 _ "''work''" None]
  by (auto simp: demo_env_def demo_tasks_def env_ok_def)

text \<open>The attributes of a task that was created are never given back; a priority the policy does not have is an error.\<close>

lemma task_create_keeps_attr:
  assumes "env_ok e" "tasks w t = Some x" "entry x = Some f" "0 \<le> piority x" "piority x \<le> 99"
  shows "\<exists>tid w'. task_create e t old w = Some (0, tid, w') \<and> live_attrs w' = live_attrs w + 1"
  using task_create_result [OF assms, of old] by blast

lemma task_create_bad_priority:
  assumes "tasks w t = Some x" "piority x \<noteq> 0" "e_param e (piority x) \<noteq> 0"
  shows "task_create e t old w = Some (- 1, old, w)"
  using assms by (simp add: task_create_def set_pthread_attr_def Let_def)

lemma task_alloc_init_fresh:
  assumes "mem \<noteq> NULL"
  shows "\<exists>w'. task_alloc_init mem junk w = Some (mem, w') \<and> tasks w' mem = Some (task_zero\<lparr>cpuid := - 1\<rparr>)"
  using assms by (simp add: task_alloc_init_def task_init_def)

text \<open>The log of a crash has the innermost 32 calls in order; without memory for their names the handler crashes itself.\<close>

lemma signal_handler_log:
  assumes "signum \<in> {SIGSEGV, SIGABRT}" "stack \<noteq> []" and names: "\<And>b ss. symbols b = Some ss \<Longrightarrow> length ss = length b"
  shows "signal_handler nm signum stack symbols = (case symbols (take 32 stack) of
    None \<Rightarrow> None
  | Some ss \<Rightarrow> Some (Caught nm signum # Backtrack nm # map (\<lambda>i. Frame nm i (min 32 (length stack)) (ss ! i)) [0..<min 32 (length stack)]))"
  using assms names [of "take 32 stack"]
  by (auto simp: signal_handler_def dump_thread_stack_def MAX_BACKTRACE_NUM_def Let_def min_def split: option.splits if_splits)

end
