(* ===== verification/Cpu_Usage.thy ===== *)
theory Cpu_Usage
  imports C_Strings Time_Utils
begin

text \<open>
  \<^verbatim>\<open>cpu_usage.c\<close>: the readings on which the load generator is built, the times of a processor in
  \<^verbatim>\<open>/proc/stat\<close> and a clock in milliseconds, and its signal handler. A file that is open for reading is
  its text, which each reading starts from the beginning. Numbers that do not fit into a \<open>long\<close> are
  excluded. Undefined behaviour is \<^const>\<open>None\<close>.
\<close>

section \<open>The code\<close>

datatype stat_file = Unopened | Open string | Closed

record cpus_info =
  cpu_id :: int
  run :: int
  total_time :: int
  idle_time :: int
  fp :: stat_file

definition get_tick_count :: "timespec \<Rightarrow> int option" where
  "get_tick_count now = do {
     let sec = tv_sec now;
     let nsec = tv_nsec now;
     a \<leftarrow> clong (sec * 1000);
     clong (a + nsec div 1000000) }"

text \<open>\<open>%s\<close> and \<open>%ld\<close> of \<open>sscanf\<close>: what is converted, if anything, and the input behind it.\<close>

definition scan_word :: "string \<Rightarrow> (string \<times> string) option" where
  "scan_word s = (let t = dropWhile is_space s in
     if t = [] then None else Some (takeWhile (\<lambda>c. \<not> is_space c) t, dropWhile (\<lambda>c. \<not> is_space c) t))"

definition scan_long :: "string \<Rightarrow> (int \<times> string) option" where
  "scan_long s = (case scan_int s of
     None \<Rightarrow> None
   | Some i \<Rightarrow>
       (let t = dropWhile is_space s
        in Some (i, dropWhile is_digit (if is_digit (hd t) then t else tl t))))"

fun scan_longs :: "int list \<Rightarrow> string \<Rightarrow> int list" where
  "scan_longs [] s = []"
| "scan_longs (v # vs) s = (case scan_long s of None \<Rightarrow> v # vs | Some (x, rest) \<Rightarrow> x # scan_longs vs rest)"

text \<open>
  One line: the name goes into \<open>cpu\<close>, an array of 32 bytes, and the numbers into \<open>user\<close>, \<open>nice\<close>, \<open>sys\<close>, \<open>idle\<close>, \<open>iowait\<close>, \<open>irq\<close> and
  \<open>softirq\<close>; what is not converted keeps its value.
\<close>

definition scan_stat :: "string \<Rightarrow> string \<Rightarrow> int list \<Rightarrow> (string \<times> int list) option" where
  "scan_stat line cpu vs = (case scan_word line of
     None \<Rightarrow> Some (cpu, vs)
   | Some (word, rest) \<Rightarrow> if length word < 32 then Some (word, scan_longs vs rest) else None)"

fun strstr :: "string \<Rightarrow> string \<Rightarrow> bool" where
  "strstr [] t \<longleftrightarrow> t = []"
| "strstr (c # cs) t \<longleftrightarrow> take (length t) (c # cs) = t \<or> strstr cs t"

fun clong_sum :: "int \<Rightarrow> int list \<Rightarrow> int option" where
  "clong_sum acc [] = Some acc"
| "clong_sum acc (v # vs) = do { acc \<leftarrow> clong (acc + v); clong_sum acc vs }"

definition set_times :: "int list \<Rightarrow> cpus_info \<Rightarrow> cpus_info option" where
  "set_times vs cpus = do {
     t \<leftarrow> clong_sum 0 vs;
     Some (cpus\<lparr>total_time := t, idle_time := vs ! 3\<rparr>) }"

function refresh_loop :: "string \<Rightarrow> string \<Rightarrow> int list \<Rightarrow> cpus_info \<Rightarrow> cpus_info option" where
  "refresh_loop content cpu vs cpus =
     (if content = [] then Some cpus
      else (let (line, rest) = fgets 127 content in do {
        (cpu, vs) \<leftarrow> scan_stat line cpu vs;
        (if \<not> strstr cpu ''cpu'' then Some cpus
         else if length cpu = 3
         then (if - 1 \<noteq> cpu_id cpus then refresh_loop rest cpu vs cpus else set_times vs cpus)
         else if atoi (drop 3 cpu) = cpu_id cpus then set_times vs cpus
         else refresh_loop rest cpu vs cpus) }))"
  by pat_completeness auto
termination
proof -
  have shorter: "length rest < length content" if "content \<noteq> []" "(line, rest) = fgets 127 content" for content line rest :: string
    using fgets_append [of 127 content line rest] fgets_nonempty [of 127 content line rest] that by auto
  show ?thesis
    by (relation "measure (\<lambda>(content, cpu, vs, cpus). length content)") (use shorter in \<open>auto dest: sym\<close>)
qed

declare refresh_loop.simps [simp del]

definition cpus_refresh :: "cpus_info \<Rightarrow> cpus_info option" where
  "cpus_refresh cpus = (case fp cpus of
     Open content \<Rightarrow> refresh_loop content [] (replicate 7 0) cpus
   | _ \<Rightarrow> None)"

text \<open>The handler of \<open>SIGINT\<close>, for the processors of \<open>m_usage\<close>; the new value of \<open>m_wait\<close> comes first.\<close>

definition stop_cpu :: "cpus_info \<Rightarrow> cpus_info option" where
  "stop_cpu c = (case fp c of Open _ \<Rightarrow> Some (c\<lparr>run := 0, fp := Closed\<rparr>) | _ \<Rightarrow> None)"

fun stop_all :: "nat \<Rightarrow> cpus_info list \<Rightarrow> cpus_info list option" where
  "stop_all 0 cs = Some cs"
| "stop_all (Suc n) [] = None"
| "stop_all (Suc n) (c # cs) = do { c \<leftarrow> stop_cpu c; cs \<leftarrow> stop_all n cs; Some (c # cs) }"

definition int_handler :: "nat \<Rightarrow> cpus_info list \<Rightarrow> (int \<times> cpus_info list) option" where
  "int_handler cpu_num cs = do { cs \<leftarrow> stop_all cpu_num cs; Some (0, cs) }"


section \<open>Lines of \<^verbatim>\<open>/proc/stat\<close>\<close>

definition nl :: char where
  "nl = CHR ''\<newline>''"

definition stat_line :: "string \<Rightarrow> string \<Rightarrow> int list \<Rightarrow> string" where
  "stat_line nm pad vs = nm @ pad @ concat (map (\<lambda>v. CHR '' '' # print_int v) vs) @ [nl]"

definition core_name :: "nat \<Rightarrow> string" where
  "core_name k = ''cpu'' @ print_int (int k)"

lemma digit_not_space: "is_digit c \<Longrightarrow> \<not> is_space c \<and> c \<noteq> nl"
  by (auto simp: is_digit_def is_space_def nl_def)

lemma nl_space [simp]: "is_space nl" "\<not> is_digit nl"
  by (simp_all add: is_space_def is_digit_def nl_def)

lemma blank_space [simp]: "is_space (CHR '' '')" "\<not> is_digit (CHR '' '')" "CHR '' '' \<noteq> nl" "nl \<noteq> CHR '' ''"
  by (simp_all add: is_space_def is_digit_def nl_def)

lemma print_int_pos: "0 \<le> v \<Longrightarrow> print_int v = digits 10 (nat v)"
  by (simp add: print_int_def)

lemma print_int_chars: "0 \<le> v \<Longrightarrow> c \<in> set (print_int v) \<Longrightarrow> is_digit c"
  using digits_decimal by (auto simp: print_int_pos)

lemma scan_long_print:
  assumes "0 \<le> v" "ys \<noteq> []" "\<not> is_digit (hd ys)"
  shows "scan_long (CHR '' '' # print_int v @ ys) = Some (v, ys)"
proof -
  have v: "scan_int (CHR '' '' # print_int v @ ys) = Some v"
    using scan_int_print [of ys v] assms(3) by (simp add: scan_int_def)
  obtain c cs where c: "print_int v = c # cs" using print_int_nonempty [of v] by (cases "print_int v") auto
  then have d: "is_digit c" "\<forall>x\<in>set cs. is_digit x" using print_int_chars [OF assms(1)] by auto
  have "dropWhile is_digit (cs @ ys) = ys" using d(2) assms(2,3) by (cases ys) (simp_all add: dropWhile_append2)
  then show ?thesis using v c d digit_not_space [OF d(1)] by (simp add: scan_long_def Let_def)
qed

lemma scan_longs_print:
  assumes "length vs \<le> length us" "\<forall>u\<in>set us. 0 \<le> u"
  shows "scan_longs vs (concat (map (\<lambda>v. CHR '' '' # print_int v) us) @ [nl]) = take (length vs) us"
  using assms
proof (induction vs arbitrary: us)
  case (Cons v vs)
  then obtain u us' where u: "us = u # us'" by (cases us) auto
  let ?rest = "concat (map (\<lambda>v. CHR '' '' # print_int v) us') @ [nl]"
  have "?rest \<noteq> []" "\<not> is_digit (hd ?rest)" by (cases us'; simp)+
  then have "scan_long (CHR '' '' # print_int u @ ?rest) = Some (u, ?rest)" using Cons.prems(2) u by (intro scan_long_print) simp_all
  then show ?case using Cons u by simp
qed simp

text \<open>The name of a line: a word that the buffer holds.\<close>

definition stat_name :: "string \<Rightarrow> bool" where
  "stat_name nm \<longleftrightarrow> nm \<noteq> [] \<and> length nm < 32 \<and> (\<forall>c\<in>set nm. \<not> is_space c)"

lemma scan_word_print:
  assumes "stat_name nm" "rest \<noteq> []" "is_space (hd rest)"
  shows "scan_word (nm @ rest) = Some (nm, rest)"
proof -
  have "dropWhile is_space (nm @ rest) = nm @ rest" using assms(1) by (cases nm) (auto simp: stat_name_def)
  moreover have "takeWhile (\<lambda>c. \<not> is_space c) (nm @ rest) = nm" "dropWhile (\<lambda>c. \<not> is_space c) (nm @ rest) = rest"
    using assms by (cases rest; simp add: stat_name_def takeWhile_append2 dropWhile_append2)+
  ultimately show ?thesis using assms(1) by (simp add: scan_word_def stat_name_def)
qed

lemma scan_longs_pad:
  assumes "vs \<noteq> []" "\<forall>c\<in>set pad. is_space c"
  shows "scan_longs vs (pad @ s) = scan_longs vs s"
proof -
  have "dropWhile is_space (pad @ s) = dropWhile is_space s" using assms(2) by (simp add: dropWhile_append2)
  then have "scan_long (pad @ s) = scan_long s" by (simp only: scan_long_def scan_int_def Let_def)
  then show ?thesis using assms(1) by (cases vs) simp_all
qed

lemma scan_stat_print:
  assumes "stat_name nm" "\<forall>c\<in>set pad. is_space c" "length vs = 7" "7 \<le> length us" "\<forall>u\<in>set us. 0 \<le> u"
  shows "scan_stat (stat_line nm pad us) cpu vs = Some (nm, take 7 us)"
proof -
  let ?nums = "concat (map (\<lambda>v. CHR '' '' # print_int v) us) @ [nl]"
  have "pad @ ?nums \<noteq> []" "is_space (hd (pad @ ?nums))" using assms(2) by (cases pad; cases us; simp)+
  then have "scan_word (nm @ pad @ ?nums) = Some (nm, pad @ ?nums)" using assms(1) by (intro scan_word_print)
  moreover have "scan_longs vs (pad @ ?nums) = take 7 us"
    using scan_longs_pad [of vs pad ?nums] scan_longs_print [of vs us] assms(2-5) by (cases vs) simp_all
  ultimately show ?thesis using assms(1) by (simp add: scan_stat_def stat_line_def stat_name_def)
qed

lemma fgets_line:
  assumes "nl \<notin> set l" "length l < n"
  shows "fgets n (l @ nl # rest) = (l @ [nl], rest)"
  using assms
proof (induction l arbitrary: n)
  case Nil
  then show ?case by (cases n) (simp_all add: fgets.simps nl_def)
next
  case (Cons c l)
  then obtain m where "n = Suc m" "length l < m" by (cases n) auto
  then show ?case using Cons by (auto simp: fgets.simps nl_def)
qed

lemma stat_line_fgets:
  assumes "stat_name nm" "set pad \<subseteq> {CHR '' ''}" "\<forall>u\<in>set us. 0 \<le> u" "length (stat_line nm pad us) \<le> 127"
  shows "fgets 127 (stat_line nm pad us @ rest) = (stat_line nm pad us, rest)"
proof -
  let ?l = "nm @ pad @ concat (map (\<lambda>v. CHR '' '' # print_int v) us)"
  have "nl \<notin> set (print_int u)" if "u \<in> set us" for u
    using that assms(3) print_int_chars [of u nl] by auto
  moreover have "nl \<notin> set nm" "nl \<notin> set pad" using assms(1,2) by (auto simp: stat_name_def)
  ultimately have "nl \<notin> set ?l" by auto
  then show ?thesis using fgets_line [of ?l 127 rest] assms(4) by (simp add: stat_line_def)
qed

lemma fgets_first_word:
  assumes "nl \<notin> set nm" "length nm < n" "b \<noteq> nl"
  shows "\<exists>l r. fgets n (nm @ b # rest) = (nm @ b # l, r)"
  using assms
proof (induction nm arbitrary: n)
  case Nil
  then show ?case by (cases n) (auto simp: fgets.simps nl_def split: prod.split)
next
  case (Cons c nm)
  then obtain m where m: "n = Suc m" "length nm < m" by (cases n) auto
  with Cons.IH [of m] Cons.prems obtain l r where "fgets m (nm @ b # rest) = (nm @ b # l, r)" by auto
  then show ?case using m Cons.prems(1) by (auto simp: fgets.simps nl_def)
qed


section \<open>Properties\<close>

text \<open>
  A text of \<^verbatim>\<open>/proc/stat\<close>: the line of the whole machine, the lines of its processors and a line with
  another name. Lines have at least seven numbers and at most 127 characters.
\<close>

definition proc_stat :: "int list \<Rightarrow> (nat \<times> int list) list \<Rightarrow> string \<Rightarrow> string \<Rightarrow> string" where
  "proc_stat all cores nm rest = stat_line ''cpu'' '' '' all @ concat (map (\<lambda>(k, us). stat_line (core_name k) [] us) cores) @ nm @ CHR '' '' # rest"

definition times_ok :: "int list \<Rightarrow> bool" where
  "times_ok us \<longleftrightarrow> 7 \<le> length us \<and> (\<forall>u\<in>set us. 0 \<le> u) \<and> sum_list (take 7 us) < 0x8000000000000000"

definition stat_ok :: "int list \<Rightarrow> (nat \<times> int list) list \<Rightarrow> string \<Rightarrow> bool" where
  "stat_ok all cores nm \<longleftrightarrow> times_ok all \<and> length (stat_line ''cpu'' '' '' all) \<le> 127 \<and>
     (\<forall>(k, us)\<in>set cores. int_ok (int k) \<and> times_ok us \<and> length (stat_line (core_name k) [] us) \<le> 127) \<and>
     stat_name nm \<and> \<not> strstr nm ''cpu''"

lemma clong_sum_nonneg:
  "\<forall>u\<in>set us. 0 \<le> u \<Longrightarrow> 0 \<le> acc \<Longrightarrow> acc + sum_list us < 0x8000000000000000 \<Longrightarrow> clong_sum acc us = Some (acc + sum_list us)"
proof (induction us arbitrary: acc)
  case (Cons u us)
  have "0 \<le> sum_list us" using Cons.prems(1) by (intro sum_list_nonneg) simp
  then have "clong (acc + u) = Some (acc + u)" using Cons.prems by (simp add: clong_def)
  then show ?case using Cons.IH [of "acc + u"] Cons.prems by (simp add: add.assoc)
qed simp

lemma set_times_ok:
  assumes "times_ok us"
  shows "set_times (take 7 us) c = Some (c\<lparr>total_time := sum_list (take 7 us), idle_time := us ! 3\<rparr>)"
proof -
  have "\<forall>u\<in>set (take 7 us). 0 \<le> u" using assms by (auto simp: times_ok_def dest: in_set_takeD)
  then have "clong_sum 0 (take 7 us) = Some (sum_list (take 7 us))"
    using clong_sum_nonneg [of "take 7 us" 0] assms by (simp add: times_ok_def)
  then show ?thesis using assms by (simp add: set_times_def times_ok_def)
qed

lemma refresh_loop_line:
  assumes "stat_name nm" "set pad \<subseteq> {CHR '' ''}" "times_ok us" "length (stat_line nm pad us) \<le> 127" "length vs = 7"
  shows "refresh_loop (stat_line nm pad us @ rest) cpu vs c =
    (if \<not> strstr nm ''cpu'' then Some c
     else if length nm = 3 then (if - 1 \<noteq> cpu_id c then refresh_loop rest nm (take 7 us) c else set_times (take 7 us) c)
     else if atoi (drop 3 nm) = cpu_id c then set_times (take 7 us) c
     else refresh_loop rest nm (take 7 us) c)"
proof -
  have "scan_stat (stat_line nm pad us) cpu vs = Some (nm, take 7 us)"
    using assms by (intro scan_stat_print) (auto simp: times_ok_def)
  moreover have "fgets 127 (stat_line nm pad us @ rest) = (stat_line nm pad us, rest)"
    using assms by (intro stat_line_fgets) (simp_all add: times_ok_def)
  moreover have "stat_line nm pad us \<noteq> []" by (simp add: stat_line_def)
  ultimately show ?thesis by (subst refresh_loop.simps) simp
qed

lemma core_name_ok:
  assumes "int_ok (int k)"
  shows "stat_name (core_name k)" "strstr (core_name k) ''cpu''" "length (core_name k) \<noteq> 3" "atoi (drop 3 (core_name k)) = int k"
  using print_int_length [OF assms] print_int_chars [of "int k"] digit_not_space print_int_nonempty [of "int k"]
  by (auto simp: core_name_def stat_name_def is_space_def string_simps)

lemma refresh_loop_other:
  assumes "stat_name nm" "\<not> strstr nm ''cpu''"
  shows "refresh_loop (nm @ CHR '' '' # rest) cpu vs c = Some c"
proof -
  have "nl \<notin> set nm" "length nm < 127" using assms(1) nl_space(1) by (auto simp: stat_name_def)
  then obtain l r where f: "fgets 127 (nm @ CHR '' '' # rest) = (nm @ CHR '' '' # l, r)"
    using fgets_first_word [of nm 127 "CHR '' ''" rest] by auto
  have "scan_word (nm @ CHR '' '' # l) = Some (nm, CHR '' '' # l)" using assms(1) by (intro scan_word_print) simp_all
  then have "scan_stat (nm @ CHR '' '' # l) cpu vs = Some (nm, scan_longs vs (CHR '' '' # l))"
    using assms(1) by (simp add: scan_stat_def stat_name_def)
  then show ?thesis using f assms(2) by (subst refresh_loop.simps) simp
qed

lemma refresh_loop_cores:
  assumes "\<forall>(k, us)\<in>set cores. int_ok (int k) \<and> times_ok us \<and> length (stat_line (core_name k) [] us) \<le> 127"
    and "stat_name nm" "\<not> strstr nm ''cpu''" "length vs = 7"
  shows "refresh_loop (concat (map (\<lambda>(k, us). stat_line (core_name k) [] us) cores) @ nm @ CHR '' '' # rest) cpu vs c =
    Some (case map_of (map (apfst int) cores) (cpu_id c) of
      None \<Rightarrow> c | Some us \<Rightarrow> c\<lparr>total_time := sum_list (take 7 us), idle_time := us ! 3\<rparr>)"
  using assms(1,4)
proof (induction cores arbitrary: cpu vs)
  case Nil
  then show ?case using refresh_loop_other [OF assms(2,3)] by simp
next
  case (Cons core cores)
  obtain k us where k: "core = (k, us)" by (cases core)
  then have ok: "int_ok (int k)" "times_ok us" "length (stat_line (core_name k) [] us) \<le> 127" using Cons.prems(1) by auto
  have "length (take 7 us) = 7" using ok(2) by (simp add: times_ok_def)
  then show ?case
    using refresh_loop_line [OF core_name_ok(1) [OF ok(1)] _ ok(2,3) Cons.prems(2), simplified] core_name_ok [OF ok(1)]
      Cons.IH [of "take 7 us"] Cons.prems(1) set_times_ok [OF ok(2)] k by auto
qed

lemma cpus_refresh_result:
  assumes "stat_ok all cores nm" and "fp c = Open (proc_stat all cores nm rest)"
  shows "cpus_refresh c = Some (case map_of ((- 1, all) # map (apfst int) cores) (cpu_id c) of
    None \<Rightarrow> c | Some us \<Rightarrow> c\<lparr>total_time := sum_list (take 7 us), idle_time := us ! 3\<rparr>)"
proof -
  let ?rest = "concat (map (\<lambda>(k, us). stat_line (core_name k) [] us) cores) @ nm @ CHR '' '' # rest"
  have ok: "times_ok all" "length (stat_line ''cpu'' '' '' all) \<le> 127" "stat_name ''cpu''"
    using assms(1) by (simp_all add: stat_ok_def stat_name_def is_space_def)
  have "length (take 7 all) = 7" using ok(1) by (simp add: times_ok_def)
  then have "- 1 \<noteq> cpu_id c \<Longrightarrow> refresh_loop ?rest ''cpu'' (take 7 all) c = Some (case map_of (map (apfst int) cores) (cpu_id c) of
      None \<Rightarrow> c | Some us \<Rightarrow> c\<lparr>total_time := sum_list (take 7 us), idle_time := us ! 3\<rparr>)"
    using assms(1) by (intro refresh_loop_cores) (simp_all add: stat_ok_def)
  moreover have "cpus_refresh c = (if - 1 \<noteq> cpu_id c then refresh_loop ?rest ''cpu'' (take 7 all) c else set_times (take 7 all) c)"
    using refresh_loop_line [OF ok(3) _ ok(1,2), of "replicate 7 0" ?rest "[]" c] assms(2)
    by (simp add: cpus_refresh_def proc_stat_def)
  ultimately show ?thesis using set_times_ok [OF ok(1)] by auto
qed

text \<open>
  C34: Reading the times of a processor. On a text of \<^verbatim>\<open>/proc/stat\<close> \<open>cpus_refresh\<close> ends, and for the number of a processor, or -1 for the
  whole machine, it stores the sum of the first seven times of that line and its idle time; for
  the number of a processor that the text does not have it changes nothing.
\<close>

theorem cpus_refresh_reads:
  assumes "stat_ok all cores nm" and "fp c = Open (proc_stat all cores nm rest)"
  shows "cpus_refresh c = Some (case map_of ((- 1, all) # map (apfst int) cores) (cpu_id c) of
    None \<Rightarrow> c | Some us \<Rightarrow> c\<lparr>total_time := sum_list (take 7 us), idle_time := us ! 3\<rparr>)"
  by (rule cpus_refresh_result) (rule assms)+

definition demo_cpu :: "int \<Rightarrow> cpus_info" where
  "demo_cpu i = \<lparr>cpu_id = i, run = 1, total_time = 0, idle_time = 0,
     fp = Open (proc_stat [10, 0, 5, 100, 1, 0, 2, 9] [(0, [4, 0, 2, 50, 1, 0, 1, 9]), (1, [6, 0, 3, 50, 0, 0, 1, 0])] ''intr'' ''33'')\<rparr>"

theorem cpus_refresh_reads_witness:
  "cpus_refresh (demo_cpu (- 1)) = Some ((demo_cpu (- 1))\<lparr>total_time := 118, idle_time := 100\<rparr>) \<and>
   cpus_refresh (demo_cpu 1) = Some ((demo_cpu 1)\<lparr>total_time := 60, idle_time := 50\<rparr>) \<and> cpus_refresh (demo_cpu 7) = Some (demo_cpu 7)"
proof -
  have "stat_ok [10, 0, 5, 100, 1, 0, 2, 9] [(0, [4, 0, 2, 50, 1, 0, 1, 9]), (1, [6, 0, 3, 50, 0, 0, 1, 0])] ''intr''"
    by (simp add: stat_ok_def times_ok_def stat_line_def core_name_def stat_name_def is_space_def print_int_def digits_step int_ok_def int_limits)
  from cpus_refresh_reads [OF this, of _ "''33''"] show ?thesis by (simp add: demo_cpu_def)
qed

text \<open>
  A second \<open>SIGINT\<close> closes the files of the processors again, and so does a first one that comes before all threads have opened theirs.
\<close>

lemma int_handler_twice:
  assumes "int_handler n cs = Some (r, cs')" "0 < n"
  shows "int_handler n cs' = None"
  using assms by (cases n; cases cs) (auto simp: int_handler_def stop_cpu_def split: Option.bind_splits stat_file.splits)

lemma get_tick_count_eq: "clock_time ts \<Longrightarrow> get_tick_count ts = Some (ns_of ts div 1000000)"
  unfolding ns_of_div by (auto simp: get_tick_count_def clong_def clock_time_def Let_def)

end
