(* ===== verification/Cpu_Load.thy ===== *)
theory Cpu_Load
  imports Cpu_Usage Complex_Main "HOL-Library.Signed_Division"
begin

text \<open>
  The load generator of \<^verbatim>\<open>cpu_usage.c\<close>: a thread per processor that lets the processor idle for a while, sees what the others
  used of that time, and is then busy for as long as it takes to get to the rate asked for.

  Doubles are real numbers, and every operation is followed by \<open>rnd\<close>, the rounding to the nearest double: a parameter.
  What the thread sees of the world is an environment: the texts of the file at its readings, the
  clock at its readings, and the moment of a \<open>SIGINT\<close>.
\<close>

section \<open>Arithmetic\<close>

text \<open>The conversion of a \<open>double\<close> to \<open>long\<close> cuts off the fraction; it is undefined out of range.\<close>

definition trunc :: "real \<Rightarrow> int" where
  "trunc x = (if 0 \<le> x then \<lfloor>x\<rfloor> else \<lceil>x\<rceil>)"

definition to_long :: "real \<Rightarrow> int option" where
  "to_long x = clong (trunc x)"

text \<open>The quotient of two \<open>long\<close> values, undefined for 0, assigned to an \<open>int\<close>, which keeps the lower 32 bits.\<close>

definition us_per_tick :: "int \<Rightarrow> int \<Rightarrow> int option" where
  "us_per_tick base dtotal = (if dtotal = 0 then None else map_option (\<lambda>q. sint (word_of_int q :: 32 word)) (clong (base sdiv dtotal)))"

text \<open>
  With \<open>rate\<close> at 100 the division is one by zero, and its result, an infinity or no number, is not one that can be converted.
\<close>

definition busy_ticks :: "(real \<Rightarrow> real) \<Rightarrow> real \<Rightarrow> int \<Rightarrow> int \<Rightarrow> int option" where
  "busy_ticks rnd rate didle dtotal =
     (if rnd (100 - rate) = 0 then None
      else to_long (rnd (rnd (rnd (rnd (real_of_int didle) * 100) / rnd (100 - rate)) - rnd (real_of_int dtotal))))"

definition busy_ms :: "(real \<Rightarrow> real) \<Rightarrow> int \<Rightarrow> int \<Rightarrow> int option" where
  "busy_ms rnd busy clock_per_us = to_long (rnd (rnd (real_of_int busy) * rnd (real_of_int clock_per_us / 1000)))"


section \<open>The thread\<close>

text \<open>The moments at which the signal can come: before \<open>run\<close> is looked at, during the readings of the file, and in the busy loop.\<close>

datatype moment = At_Test | In_Readings | In_Busy

record load_env =
  le_text :: "nat \<Rightarrow> string"
  le_clock :: "nat \<Rightarrow> timespec"
  le_signal :: "(nat \<times> moment) option"

text \<open>\<open>CPU_SET\<close> ignores numbers outside the 1024 bits of the mask; \<open>allowed\<close> are the masks the kernel accepts.\<close>

definition set_cpu :: "(nat set \<Rightarrow> bool) \<Rightarrow> int \<Rightarrow> nat set \<Rightarrow> nat set" where
  "set_cpu allowed cid affinity =
     (let mask = (if 0 \<le> cid \<and> cid < 1024 then {nat cid} else {}) in if allowed mask then mask else affinity)"

text \<open>What \<open>cpus_refresh\<close> reads is what the file has at that time; a closed file stays closed.\<close>

definition reading :: "load_env \<Rightarrow> nat \<Rightarrow> cpus_info \<Rightarrow> cpus_info option" where
  "reading env i c = cpus_refresh (case fp c of Open _ \<Rightarrow> c\<lparr>fp := Open (le_text env i)\<rparr> | _ \<Rightarrow> c)"

definition load_plan :: "(real \<Rightarrow> real) \<Rightarrow> int \<Rightarrow> real \<Rightarrow> load_env \<Rightarrow> nat \<Rightarrow> cpus_info \<Rightarrow> (int \<times> cpus_info) option" where
  "load_plan rnd base rate env i c = do {
     old \<leftarrow> reading env i c;
     cpu \<leftarrow> reading env (Suc i) old;
     didle \<leftarrow> clong (idle_time cpu - idle_time old);
     dtotal \<leftarrow> clong (total_time cpu - total_time old);
     busy \<leftarrow> busy_ticks rnd rate didle dtotal;
     clock_per_us \<leftarrow> us_per_tick base dtotal;
     ms \<leftarrow> busy_ms rnd busy clock_per_us;
     Some (ms, cpu) }"

text \<open>The busy loop; \<open>j\<close> counts the readings of the clock.\<close>

partial_function (option) busy_loop :: "(nat \<Rightarrow> timespec) \<Rightarrow> int \<Rightarrow> int \<Rightarrow> nat \<Rightarrow> nat option" where
  "busy_loop clk start ms j = do {
     now \<leftarrow> get_tick_count (clk j);
     d \<leftarrow> clong (now - start);
     (if d \<le> ms then busy_loop clk start ms (Suc j) else Some (Suc j)) }"

definition signalled :: "load_env \<Rightarrow> nat \<Rightarrow> moment \<Rightarrow> cpus_info \<Rightarrow> cpus_info option" where
  "signalled env k m c = (if le_signal env = Some (k, m) then stop_cpu c else Some c)"

partial_function (option) cpu_usage_loop ::
  "(real \<Rightarrow> real) \<Rightarrow> int \<Rightarrow> real \<Rightarrow> load_env \<Rightarrow> nat \<Rightarrow> nat \<Rightarrow> nat \<Rightarrow> cpus_info \<Rightarrow> (nat \<times> cpus_info) option" where
  "cpu_usage_loop rnd base rate env k i j c = do {
     c \<leftarrow> signalled env k At_Test c;
     (if run c = 0 then Some (k, c)
      else do {
        c \<leftarrow> signalled env k In_Readings c;
        (ms, c) \<leftarrow> load_plan rnd base rate env i c;
        start \<leftarrow> get_tick_count (le_clock env j);
        c \<leftarrow> signalled env k In_Busy c;
        j \<leftarrow> busy_loop (le_clock env) start ms (Suc j);
        cpu_usage_loop rnd base rate env (Suc k) (i + 2) j c }) }"

text \<open>The thread function; \<open>opened\<close> says whether \<^verbatim>\<open>/proc/stat\<close> can be opened. The result has the rounds and the affinity.\<close>

record single_usage =
  su_cpu :: cpus_info
  su_rate :: real

definition single_cpu_run ::
  "(real \<Rightarrow> real) \<Rightarrow> (nat set \<Rightarrow> bool) \<Rightarrow> bool \<Rightarrow> int \<Rightarrow> load_env \<Rightarrow> single_usage \<Rightarrow> nat set \<Rightarrow> ((nat \<times> cpus_info) option \<times> nat set) option" where
  "single_cpu_run rnd allowed opened base env usage affinity =
     (if \<not> opened then Some (None, affinity)
      else do {
        let cpu = (su_cpu usage)\<lparr>fp := Open (le_text env 0)\<rparr>;
        let affinity = set_cpu allowed (cpu_id cpu) affinity;
        r \<leftarrow> cpu_usage_loop rnd base (su_rate usage) env 0 0 0 cpu;
        Some (Some r, affinity) })"


section \<open>The program\<close>

text \<open>
  \<open>atof\<close> for decimal numbers, without the exponents, the hexadecimal forms and the names of infinities that it also knows.
\<close>

definition atof :: "(real \<Rightarrow> real) \<Rightarrow> string \<Rightarrow> real" where
  "atof rnd s =
     (let t = dropWhile is_space s;
          u = (if take 1 t = ''-'' \<or> take 1 t = ''+'' then tl t else t);
          r = dropWhile is_digit u;
          whole = takeWhile is_digit u;
          frac = (if take 1 r = ''.'' then takeWhile is_digit (tl r) else [])
      in rnd ((if take 1 t = ''-'' then - 1 else 1) * real (scan_digits 0 (whole @ frac)) / 10 ^ length frac))"

text \<open>What \<open>main\<close> sets up before it starts the threads: the base time and one entry per processor. \<^const>\<open>None\<close> is that \<open>calloc\<close> fails.\<close>

definition main_setup :: "(real \<Rightarrow> real) \<Rightarrow> bool \<Rightarrow> nat \<Rightarrow> string list \<Rightarrow> (int \<times> single_usage list) option" where
  "main_setup rnd mem cpu_num argv =
     (let request_rate = (if 2 < length argv then atof rnd (argv ! 1) else 50);
          base_time = (if 2 < length argv then atoi (argv ! 2) else 100000 * int cpu_num)
      in if \<not> mem then None
         else Some (base_time, map (\<lambda>i. \<lparr>su_cpu = \<lparr>cpu_id = int i, run = 1, total_time = 0, idle_time = 0, fp = Unopened\<rparr>,
           su_rate = request_rate\<rparr>) [0..<cpu_num]))"

text \<open>
  The end of \<open>main\<close>: \<open>mw k\<close> is what \<open>m_wait\<close> is after the sleep of round \<open>k\<close>. The result is the exit status with the entries that are still there: all when
  \<^verbatim>\<open>/proc/stat\<close> cannot be opened, none after the wait, when they are freed.
\<close>

partial_function (option) main_wait :: "(nat \<Rightarrow> int) \<Rightarrow> nat \<Rightarrow> nat option" where
  "main_wait mw k = (if mw k \<noteq> 0 then main_wait mw (Suc k) else Some k)"

definition main_run ::
  "(real \<Rightarrow> real) \<Rightarrow> bool \<Rightarrow> bool \<Rightarrow> (nat \<Rightarrow> int) \<Rightarrow> nat \<Rightarrow> string list \<Rightarrow> (int \<times> single_usage list) option" where
  "main_run rnd mem opened mw cpu_num argv = (case main_setup rnd mem cpu_num argv of
     None \<Rightarrow> Some (0, [])
   | Some (base_time, usages) \<Rightarrow>
       if \<not> opened then Some (0, usages)
       else do { k \<leftarrow> main_wait mw 0; Some (0, []) })"

text \<open>
  The second program in the file, which is compiled out: fixed shares of an interval, in milliseconds. Its \<open>main\<close> takes the share from the command line
  and starts a thread for every processor.
\<close>

definition half_main :: "nat \<Rightarrow> string list \<Rightarrow> int \<times> int list" where
  "half_main cpu_num argv = (if 2 = length argv then atoi (argv ! 1) else 50, map int [0..<cpu_num])"

definition INTERVAL :: int where
  "INTERVAL = 100"

definition half_times :: "int \<Rightarrow> (int \<times> int) option" where
  "half_times cpuinfo = do {
     p \<leftarrow> cint (INTERVAL * cpuinfo);
     idle \<leftarrow> cint (INTERVAL - p sdiv 100);
     Some (p sdiv 100, idle) }"

text \<open>One turn of its endless loop: when the busy loop ends, and how many microseconds it then sleeps.\<close>

definition half_turn :: "int \<Rightarrow> (nat \<Rightarrow> timespec) \<Rightarrow> nat \<Rightarrow> (nat \<times> int) option" where
  "half_turn cpuinfo clk j = do {
     (busy, idle) \<leftarrow> half_times cpuinfo;
     start \<leftarrow> get_tick_count (clk j);
     j \<leftarrow> busy_loop clk start busy (Suc j);
     us \<leftarrow> cint (idle * 1000);
     Some (j, us) }"


section \<open>The busy time\<close>

text \<open>Rounding to the nearest double is monotone and keeps the integers up to the 53 bits of the mantissa.\<close>

definition double_rounding :: "(real \<Rightarrow> real) \<Rightarrow> bool" where
  "double_rounding rnd \<longleftrightarrow> mono rnd \<and> (\<forall>i. \<bar>i\<bar> \<le> 2 ^ 53 \<longrightarrow> rnd (real_of_int i) = real_of_int i)"

lemma rounding_between:
  assumes "double_rounding rnd" "real_of_int a \<le> x" "x \<le> real_of_int b" "\<bar>a\<bar> \<le> 2 ^ 53" "\<bar>b\<bar> \<le> 2 ^ 53"
  shows "real_of_int a \<le> rnd x \<and> rnd x \<le> real_of_int b"
proof -
  have "rnd (real_of_int a) \<le> rnd x" "rnd x \<le> rnd (real_of_int b)"
    using assms(1-3) by (auto simp: double_rounding_def dest: monoD)
  then show ?thesis using assms by (simp add: double_rounding_def)
qed

lemma trunc_between: "real_of_int a \<le> x \<Longrightarrow> x \<le> real_of_int b \<Longrightarrow> a \<le> trunc x \<and> trunc x \<le> b"
  by (auto simp: trunc_def le_floor_iff ceiling_le_iff) linarith+

lemma clong_small: "\<bar>x\<bar> \<le> 2 ^ 62 \<Longrightarrow> clong x = Some x"
  by (auto simp: clong_def abs_le_iff)

lemma trunc_of_int [simp]: "trunc (real_of_int i) = i"
  by (simp add: trunc_def)

text \<open>
  With at most 99 per cent asked for, the number of busy ticks is within one of the exact value, for which the idle
  ticks seen make up just the share of the whole that is to be left.
\<close>

lemma busy_ticks_bound:
  assumes "double_rounding rnd" "rnd (100 - rate) = s" "1 \<le> s" "s \<le> 100"
    and "0 \<le> didle" "didle \<le> 2 ^ 24" "0 \<le> dtotal" "dtotal \<le> 2 ^ 24"
  shows "\<exists>b. busy_ticks rnd rate didle dtotal = Some b \<and> \<bar>s * (dtotal + b) - 100 * didle\<bar> < s \<and> \<bar>b\<bar> \<le> 2 ^ 31"
proof -
  let ?q = "real_of_int (100 * didle) / s"
  have q: "0 \<le> ?q" "?q \<le> 100 * 2 ^ 24"
  proof -
    have "didle \<le> 16777216" using assms(6) by simp
    then have le: "real_of_int didle \<le> 16777216" by linarith
    have "?q \<le> real_of_int (100 * didle) / 1" using assms(3,5) by (intro divide_left_mono) auto
    also have "\<dots> \<le> 100 * 2 ^ 24" using le by simp
    finally show "?q \<le> 100 * 2 ^ 24" .
  qed (use assms(3,5) in simp)
  define f c where "f = \<lfloor>?q\<rfloor>" and "c = \<lceil>?q\<rceil>"
  have "0 \<le> f" using q(1) by (simp only: f_def zero_le_floor)
  moreover have "c \<le> 100 * 2 ^ 24" unfolding c_def using q(2) by (intro ceiling_le) simp
  moreover have "f \<le> c" unfolding f_def c_def by (rule floor_le_ceiling)
  moreover have "c \<le> f + 1" unfolding f_def c_def using ceiling_diff_floor_le_1 [of ?q] by simp
  moreover have "dtotal \<le> 16777216" using assms(8) by simp
  ultimately have fl: "\<bar>f\<bar> \<le> 2 ^ 53" "\<bar>c\<bar> \<le> 2 ^ 53" "\<bar>f - dtotal\<bar> \<le> 2 ^ 31" "\<bar>c - dtotal\<bar> \<le> 2 ^ 31" "c \<le> f + 1"
    using assms(7) by simp_all
  have fq: "real_of_int f \<le> ?q" "?q \<le> real_of_int c" "?q < real_of_int f + 1" "real_of_int c - 1 < ?q"
    unfolding f_def c_def by linarith+
  have i: "rnd (real_of_int didle) = real_of_int didle" "rnd (real_of_int dtotal) = real_of_int dtotal"
    "rnd (real_of_int didle * 100) = real_of_int (100 * didle)"
  proof -
    have "\<bar>100 * didle\<bar> \<le> 2 ^ 53" using assms(5,6) by simp
    then have "rnd (real_of_int (100 * didle)) = real_of_int (100 * didle)" using assms(1) unfolding double_rounding_def by blast
    then show "rnd (real_of_int didle * 100) = real_of_int (100 * didle)" by (simp add: mult.commute)
  qed (use assms in \<open>simp_all add: double_rounding_def\<close>)
  have r1: "real_of_int f \<le> rnd ?q \<and> rnd ?q \<le> real_of_int c"
    using rounding_between [OF assms(1) fq(1,2) fl(1,2)] .
  let ?e = "rnd (rnd ?q - real_of_int dtotal)"
  have "real_of_int (f - dtotal) \<le> ?e \<and> ?e \<le> real_of_int (c - dtotal)"
    by (rule rounding_between [OF assms(1)]) (use r1 fl(3,4) in simp_all)
  then have t: "f - dtotal \<le> trunc ?e" "trunc ?e \<le> c - dtotal" using trunc_between by blast+
  then have range: "\<bar>trunc ?e\<bar> \<le> 2 ^ 31" using fl(3,4) by linarith
  have "clong (trunc ?e) = Some (trunc ?e)" using range by (intro clong_small) simp
  then have some: "busy_ticks rnd rate didle dtotal = Some (trunc ?e)"
    using assms(2,3) i by (simp add: busy_ticks_def to_long_def)
  have "\<bar>real_of_int (dtotal + trunc ?e) - ?q\<bar> < 1"
    using t fq by linarith
  then have "s * \<bar>real_of_int (dtotal + trunc ?e) - ?q\<bar> < s * 1" using assms(3) by (intro mult_strict_left_mono) auto
  moreover have "s * \<bar>real_of_int (dtotal + trunc ?e) - ?q\<bar> = \<bar>s * (dtotal + trunc ?e) - 100 * didle\<bar>"
  proof -
    have "s * (y - real_of_int (100 * didle) / s) = s * y - 100 * didle" for y
      using assms(3) by (simp add: algebra_simps)
    moreover have "s * \<bar>y\<bar> = \<bar>s * y\<bar>" for y using assms(3) by (simp add: abs_mult)
    ultimately show ?thesis by (simp only:)
  qed
  ultimately have "\<bar>s * (dtotal + trunc ?e) - 100 * didle\<bar> < s" by (simp only: mult_1_right)
  then show ?thesis using some range by blast
qed

text \<open>A tick that is a whole number of milliseconds is converted exactly.\<close>

lemma busy_ms_exact:
  assumes "double_rounding rnd" "\<bar>b\<bar> \<le> 2 ^ 31" "0 \<le> m" "m \<le> 50"
  shows "busy_ms rnd b (1000 * m) = Some (b * m)"
proof -
  have bm: "\<bar>b * m\<bar> \<le> 2 ^ 31 * 50" unfolding abs_mult using assms(2-4) by (intro mult_mono) auto
  have "rnd (real_of_int b) = real_of_int b" "rnd (real_of_int m) = real_of_int m"
    using assms by (simp_all add: double_rounding_def)
  moreover have "rnd (real_of_int b * real_of_int m) = real_of_int (b * m)"
  proof -
    have "\<bar>b * m\<bar> \<le> 2 ^ 53" using bm by simp
    then show ?thesis using assms(1) unfolding double_rounding_def by (metis of_int_mult)
  qed
  moreover have "real_of_int (1000 * m) / 1000 = real_of_int m" by simp
  ultimately have "rnd (rnd (real_of_int b) * rnd (real_of_int (1000 * m) / 1000)) = real_of_int (b * m)" by (simp only:)
  then show ?thesis
    using bm unfolding busy_ms_def to_long_def by (simp only: trunc_of_int clong_def) auto
qed

lemma busy_ms_defined:
  assumes "double_rounding rnd" "\<bar>b\<bar> \<le> 2 ^ 31" "\<bar>per\<bar> \<le> 2 ^ 31"
  shows "\<exists>ms. busy_ms rnd b per = Some ms"
proof -
  let ?x = "rnd (real_of_int per / 1000)"
  have "\<bar>real_of_int per\<bar> \<le> 2147483648" using assms(3) by simp
  then have "- 2147484 \<le> real_of_int per / 1000" "real_of_int per / 1000 \<le> 2147484" by linarith+
  then have x: "\<bar>?x\<bar> \<le> 2147484" using rounding_between [OF assms(1), of "- 2147484" "real_of_int per / 1000" 2147484] by (auto simp: abs_le_iff)
  have b: "\<bar>real_of_int b\<bar> \<le> 2147483648" "rnd (real_of_int b) = real_of_int b"
    using assms(1,2) by (simp_all add: double_rounding_def)
  have "\<bar>real_of_int b * ?x\<bar> \<le> 2147483648 * 2147484" unfolding abs_mult using x b(1) by (intro mult_mono) auto
  then have y: "- 4611686871564288 - 1000000000 \<le> real_of_int b * ?x" "real_of_int b * ?x \<le> 4611686871564288 + 1000000000" by linarith+
  have "- 4611687871564288 \<le> rnd (real_of_int b * ?x) \<and> rnd (real_of_int b * ?x) \<le> 4611687871564288"
    using rounding_between [OF assms(1), of "- 4611687871564288" "real_of_int b * ?x" 4611687871564288] y by simp
  then have "- 4611687871564288 \<le> trunc (rnd (real_of_int b * ?x)) \<and> trunc (rnd (real_of_int b * ?x)) \<le> 4611687871564288"
    using trunc_between [of "- 4611687871564288" "rnd (real_of_int b * ?x)" 4611687871564288] by simp
  then have "clong (trunc (rnd (real_of_int b * ?x))) = Some (trunc (rnd (real_of_int b * ?x)))" by (simp add: clong_def)
  then show ?thesis using b(2) by (simp add: busy_ms_def to_long_def)
qed

lemma us_per_tick_defined:
  assumes "dtotal \<noteq> 0" "\<bar>base\<bar> \<le> 2 ^ 31"
  shows "\<exists>per. us_per_tick base dtotal = Some per \<and> \<bar>per\<bar> \<le> 2 ^ 31"
proof -
  have "\<bar>base sdiv dtotal\<bar> \<le> \<bar>base\<bar>"
  proof -
    have "0 \<le> \<bar>base\<bar> div \<bar>dtotal\<bar>" using assms(1) by (simp add: pos_imp_zdiv_nonneg_iff)
    moreover have "\<bar>base\<bar> div \<bar>dtotal\<bar> \<le> \<bar>base\<bar> div 1" using assms(1) by (intro zdiv_mono2) auto
    ultimately show ?thesis by (auto simp: signed_divide_int_def sgn_if)
  qed
  then have "clong (base sdiv dtotal) = Some (base sdiv dtotal)" using assms(2) by (intro clong_small) simp
  moreover have "\<bar>sint (w :: 32 word)\<bar> \<le> 2 ^ 31" for w
    using sint_ge [of w] sint_lt [of w] by simp
  ultimately show ?thesis using assms(1) by (simp add: us_per_tick_def)
qed


section \<open>The rounds\<close>

text \<open>Every reading finds a well-formed text with a line for the processor; its times are \<open>us i\<close> at reading \<open>i\<close>.\<close>

definition texts_ok :: "load_env \<Rightarrow> int \<Rightarrow> (nat \<Rightarrow> int list) \<Rightarrow> bool" where
  "texts_ok env cid us \<longleftrightarrow> (\<forall>i. \<exists>all cores nm rest. stat_ok all cores nm \<and> le_text env i = proc_stat all cores nm rest \<and>
     map_of ((- 1, all) # map (apfst int) cores) cid = Some (us i))"

definition total_at :: "(nat \<Rightarrow> int list) \<Rightarrow> nat \<Rightarrow> int" where
  "total_at us i = sum_list (take 7 (us i))"

definition idle_at :: "(nat \<Rightarrow> int list) \<Rightarrow> nat \<Rightarrow> int" where
  "idle_at us i = us i ! 3"

definition read_at :: "load_env \<Rightarrow> (nat \<Rightarrow> int list) \<Rightarrow> nat \<Rightarrow> cpus_info \<Rightarrow> cpus_info" where
  "read_at env us i c = c\<lparr>fp := Open (le_text env i), total_time := total_at us i, idle_time := idle_at us i\<rparr>"

lemma reading_ok:
  assumes "texts_ok env (cpu_id c) us" "fp c = Open x"
  shows "reading env i c = Some (read_at env us i c)"
proof -
  obtain all cores nm rest where t: "stat_ok all cores nm" "le_text env i = proc_stat all cores nm rest"
      "map_of ((- 1, all) # map (apfst int) cores) (cpu_id c) = Some (us i)"
    using assms(1) unfolding texts_ok_def by blast
  from cpus_refresh_result [OF t(1), of "c\<lparr>fp := Open (le_text env i)\<rparr>" rest] t assms(2) show ?thesis
    by (simp add: reading_def read_at_def total_at_def idle_at_def)
qed

lemma read_at_simps [simp]:
  "cpu_id (read_at env us i c) = cpu_id c" "fp (read_at env us i c) = Open (le_text env i)" "run (read_at env us i c) = run c"
  "total_time (read_at env us i c) = total_at us i" "idle_time (read_at env us i c) = idle_at us i"
  "read_at env us i (read_at env us j c) = read_at env us i c"
  by (simp_all add: read_at_def)

text \<open>The busy loop ends with the first reading of the clock that is late enough.\<close>

definition ms_at :: "(nat \<Rightarrow> timespec) \<Rightarrow> nat \<Rightarrow> int" where
  "ms_at clk j = ns_of (clk j) div 1000000"

lemma tick_at: "clock_time (clk j) \<Longrightarrow> get_tick_count (clk j) = Some (ms_at clk j) \<and> 0 \<le> ms_at clk j \<and> ms_at clk j < 2 ^ 62"
  using get_tick_count_eq [of "clk j"] clock_time_ns [of "clk j"] by (auto simp: ms_at_def)

lemma busy_loop_first:
  assumes "\<And>j. clock_time (clk j)" "0 \<le> start" "start < 2 ^ 62" "ms < ms_at clk m - start" "j \<le> m"
    and "\<And>x. j \<le> x \<Longrightarrow> x < m \<Longrightarrow> ms_at clk x - start \<le> ms"
  shows "busy_loop clk start ms j = Some (Suc m)"
  using assms(5,6)
proof (induction "m - j" arbitrary: j)
  case 0
  then have "j = m" by simp
  moreover have "clong (ms_at clk m - start) = Some (ms_at clk m - start)"
    using tick_at [of clk m, OF assms(1)] assms(2,3) by (intro clong_small) auto
  ultimately show ?case using tick_at [of clk m, OF assms(1)] assms(4) by (subst busy_loop.simps) simp
next
  case (Suc d)
  then have "j < m" "ms_at clk j - start \<le> ms" by simp_all
  moreover have "clong (ms_at clk j - start) = Some (ms_at clk j - start)"
    using tick_at [of clk j, OF assms(1)] assms(2,3) by (intro clong_small) auto
  moreover have "busy_loop clk start ms (Suc j) = Some (Suc m)" using Suc \<open>j < m\<close> by (intro Suc.hyps(1)) auto
  ultimately show ?case using tick_at [of clk j, OF assms(1)] by (subst busy_loop.simps) simp
qed

lemma busy_loop_ends:
  assumes "\<And>j. clock_time (clk j)" "0 \<le> start" "start < 2 ^ 62" "\<exists>m\<ge>j. ms < ms_at clk m - start"
  shows "\<exists>m\<ge>j. busy_loop clk start ms j = Some (Suc m) \<and> ms < ms_at clk m - start \<and> (\<forall>x. j \<le> x \<and> x < m \<longrightarrow> ms_at clk x - start \<le> ms)"
proof -
  let ?P = "\<lambda>m. j \<le> m \<and> ms < ms_at clk m - start"
  define m where "m = (LEAST m. ?P m)"
  have m: "j \<le> m" "ms < ms_at clk m - start" using assms(4) LeastI_ex [of ?P] unfolding m_def by blast+
  have before: "ms_at clk x - start \<le> ms" if "j \<le> x" "x < m" for x
    using not_less_Least [of x ?P] that unfolding m_def by fastforce
  have "busy_loop clk start ms j = Some (Suc m)" by (rule busy_loop_first) (use assms(1-3) m before in auto)
  then show ?thesis using m before by blast
qed

text \<open>
  C35: One round of the load generator. Between two readings of \<^verbatim>\<open>/proc/stat\<close> the processor was idle for \<open>didle\<close> of
  \<open>dtotal\<close> ticks, \<open>s\<close> is the share in per cent that is to be left idle, and \<open>dtotal\<close> is not 0. Then the
  round is computed without overflow, and the number \<open>b\<close> of ticks it plans to be busy is right to within
  one tick: \<open>didle\<close> is the share \<open>s\<close> of \<open>dtotal + b\<close>. It ends with the first reading of the clock that is more than the
  planned milliseconds after its start, if there is one.
\<close>

theorem cpu_load_round:
  assumes "texts_ok env (cpu_id c) us" and "fp c = Open x" and "double_rounding rnd" and "\<bar>base\<bar> \<le> 2 ^ 31"
    and "rnd (100 - rate) = s" and "1 \<le> s" and "s \<le> 100"
    and "dtotal = total_at us (Suc i) - total_at us i" and "0 < dtotal" and "dtotal \<le> 2 ^ 24"
    and "didle = idle_at us (Suc i) - idle_at us i" and "0 \<le> didle" and "didle \<le> dtotal" and "\<And>j. clock_time (le_clock env j)"
  shows "\<exists>b per ms. busy_ticks rnd rate didle dtotal = Some b \<and> \<bar>s * (dtotal + b) - 100 * didle\<bar> < s \<and>
    us_per_tick base dtotal = Some per \<and> busy_ms rnd b per = Some ms \<and>
    load_plan rnd base rate env i c = Some (ms, read_at env us (Suc i) c) \<and>
    (\<forall>start j. 0 \<le> start \<and> start < 2 ^ 62 \<and> (\<exists>m\<ge>j. ms < ms_at (le_clock env) m - start) \<longrightarrow>
      (\<exists>m\<ge>j. busy_loop (le_clock env) start ms j = Some (Suc m) \<and> ms < ms_at (le_clock env) m - start \<and>
        (\<forall>x. j \<le> x \<and> x < m \<longrightarrow> ms_at (le_clock env) x - start \<le> ms)))"
proof -
  obtain b where b: "busy_ticks rnd rate didle dtotal = Some b" "\<bar>s * (dtotal + b) - 100 * didle\<bar> < s" "\<bar>b\<bar> \<le> 2 ^ 31"
    using busy_ticks_bound [OF assms(3,5,6,7), of didle dtotal] assms(9-13) by force
  obtain per where per: "us_per_tick base dtotal = Some per" "\<bar>per\<bar> \<le> 2 ^ 31"
    using us_per_tick_defined [of dtotal base] assms(4,9) by auto
  obtain ms where ms: "busy_ms rnd b per = Some ms" using busy_ms_defined [OF assms(3) b(3) per(2)] by blast
  have "clong didle = Some didle" "clong dtotal = Some dtotal"
    using assms(9,10,12,13) by (simp_all add: clong_def)
  moreover have "reading env i c = Some (read_at env us i c)" "reading env (Suc i) (read_at env us i c) = Some (read_at env us (Suc i) c)"
    using reading_ok [OF assms(1,2)] reading_ok [of env "read_at env us i c" us] assms(1) by simp_all
  ultimately have plan: "load_plan rnd base rate env i c = Some (ms, read_at env us (Suc i) c)"
    using b(1) per(1) ms assms(8,11) by (simp add: load_plan_def)
  show ?thesis
    by (rule exI [of _ b], rule exI [of _ per], rule exI [of _ ms])
      (use b(1,2) per(1) ms plan busy_loop_ends [of "le_clock env", OF assms(14)] in simp)
qed

text \<open>In the witness the processor was idle for 8 of 10 ticks and half of the time is to be used.\<close>

definition demo_times :: "nat \<Rightarrow> int list" where
  "demo_times i = (if i = 0 then [6, 0, 3, 50, 0, 0, 1] else [7, 0, 4, 58, 0, 0, 1])"

definition demo_load :: load_env where
  "demo_load = \<lparr>le_text = (\<lambda>i. proc_stat (demo_times i) [(0, demo_times i)] ''intr'' ''33''),
     le_clock = (\<lambda>j. \<lparr>tv_sec = if j = 0 then 0 else 1000, tv_nsec = 0\<rparr>), le_signal = None\<rparr>"

theorem cpu_load_round_witness:
  "\<exists>b ms. busy_ticks id 50 8 10 = Some b \<and> \<bar>50 * (10 + b) - 100 * 8\<bar> < (50 :: real) \<and>
    load_plan id 100000 50 demo_load 0 (demo_cpu 0) = Some (ms, read_at demo_load demo_times 1 (demo_cpu 0))"
proof -
  have ok: "stat_ok (demo_times i) [(0, demo_times i)] ''intr''" for i
    by (simp add: demo_times_def stat_ok_def times_ok_def stat_line_def core_name_def stat_name_def is_space_def print_int_def
        digits_step int_ok_def int_limits)
  have m: "map_of ((- 1, demo_times i) # map (apfst int) [(0, demo_times i)]) (cpu_id (demo_cpu 0)) = Some (demo_times i)" for i
    by (simp add: demo_cpu_def)
  have l: "le_text demo_load i = proc_stat (demo_times i) [(0, demo_times i)] ''intr'' ''33''" for i by (simp add: demo_load_def)
  have t: "texts_ok demo_load (cpu_id (demo_cpu 0)) demo_times"
    unfolding texts_ok_def using ok l m by blast
  have r: "double_rounding id" by (simp add: double_rounding_def mono_def)
  have c: "clock_time (le_clock demo_load j)" for j by (simp add: demo_load_def clock_time_def)
  have f: "fp (demo_cpu 0) = Open (proc_stat [10, 0, 5, 100, 1, 0, 2, 9] [(0, [4, 0, 2, 50, 1, 0, 1, 9]), (1, [6, 0, 3, 50, 0, 0, 1, 0])] ''intr'' ''33'')"
    by (simp add: demo_cpu_def)
  show ?thesis
    using cpu_load_round [OF t f r, of 100000 50 50 10 0 8] c by (simp add: total_at_def idle_at_def demo_times_def) blast
qed

text \<open>When no tick has passed between the readings, which a short base time makes likely, the division by the number of ticks is one by zero.\<close>

lemma load_plan_no_tick:
  assumes "texts_ok env (cpu_id c) us" "fp c = Open x" "total_at us (Suc i) = total_at us i"
  shows "load_plan rnd base rate env i c = None"
  using reading_ok [OF assms(1,2)] reading_ok [of env "read_at env us i c" us] assms(1,3)
  by (simp add: load_plan_def us_per_tick_def clong_def split: Option.bind_splits)

text \<open>
  A \<open>SIGINT\<close> before the test of \<open>run\<close> ends the thread; one that comes while it reads the file takes the file away from
  under the reading: a use of a closed stream.
\<close>

lemma cpu_usage_signal:
  assumes "fp c = Open x" "run c \<noteq> 0"
  shows "le_signal env = Some (k, At_Test) \<Longrightarrow> cpu_usage_loop rnd base rate env k i j c = Some (k, c\<lparr>run := 0, fp := Closed\<rparr>)"
    and "le_signal env = Some (k, In_Readings) \<Longrightarrow> cpu_usage_loop rnd base rate env k i j c = None"
  using assms
  by (subst cpu_usage_loop.simps; simp add: signalled_def stop_cpu_def load_plan_def reading_def cpus_refresh_def)+

text \<open>The program goes on until the handler has cleared \<open>m_wait\<close>, and then ends at the next look.\<close>

lemma main_wait_ends:
  assumes "mw k = 0" "\<And>i. i < k \<Longrightarrow> mw i \<noteq> 0" "j \<le> k"
  shows "main_wait mw j = Some k"
  using assms(3)
proof (induction "k - j" arbitrary: j)
  case 0
  then show ?case using assms(1) by (subst main_wait.simps) simp
next
  case (Suc d)
  then show ?case using assms(2) [of j] by (subst main_wait.simps) auto
qed

lemma main_run_ends:
  assumes "mw k = 0"
  shows "main_run rnd True True mw cpu_num argv = Some (0, [])"
proof -
  define m where "m = (LEAST k. mw k = 0)"
  have m: "mw m = 0" unfolding m_def by (rule LeastI [of "\<lambda>k. mw k = 0", OF assms])
  have before: "mw i \<noteq> 0" if "i < m" for i using not_less_Least [of i "\<lambda>k. mw k = 0"] that unfolding m_def .
  have "main_wait mw 0 = Some m" using main_wait_ends [of mw m 0] m before by simp
  then show ?thesis by (simp add: main_run_def main_setup_def)
qed

text \<open>The shares of the interval add up to it.\<close>

lemma half_times_sum:
  assumes "0 \<le> cpuinfo" "cpuinfo \<le> 100"
  shows "\<exists>busy idle. half_times cpuinfo = Some (busy, idle) \<and> busy + idle = INTERVAL \<and> busy = cpuinfo"
  using assms by (auto simp: half_times_def cint_def INTERVAL_def signed_divide_int_def sgn_if int_ok_def int_limits)

end
