(* ===== verification/Cpu_Adjust.thy ===== *)
theory Cpu_Adjust
  imports Cpu_Load
begin

text \<open>
  The parts of \<^verbatim>\<open>cpu_usage.c\<close> that are compiled out: the thread with fixed shares of an interval, and the loop of \<open>main\<close> that adjusts the
  base time to the rate it measures. Its input of a round are the idle and all ticks between two
  readings of \<^verbatim>\<open>/proc/stat\<close>.
\<close>

section \<open>Fixed shares\<close>

text \<open>The sleeps of a number of turns of the endless loop, and the readings of the clock used.\<close>

fun half_turns :: "int \<Rightarrow> (nat \<Rightarrow> timespec) \<Rightarrow> nat \<Rightarrow> nat \<Rightarrow> (nat \<times> int list) option" where
  "half_turns cpuinfo clk 0 j = Some (j, [])"
| "half_turns cpuinfo clk (Suc n) j = do {
     (j, us) \<leftarrow> half_turn cpuinfo clk j;
     (j, sleeps) \<leftarrow> half_turns cpuinfo clk n j;
     Some (j, us # sleeps) }"

definition forced_occupancy_half ::
  "(nat set \<Rightarrow> bool) \<Rightarrow> int \<Rightarrow> (nat \<Rightarrow> timespec) \<Rightarrow> nat \<Rightarrow> int \<Rightarrow> nat set \<Rightarrow> (nat set \<times> nat \<times> int list) option" where
  "forced_occupancy_half allowed cpuinfo clk turns cid affinity = do {
     (busy, idle) \<leftarrow> half_times cpuinfo;
     let affinity = set_cpu allowed cid affinity;
     (j, sleeps) \<leftarrow> half_turns cpuinfo clk turns 0;
     Some (affinity, j, sleeps) }"

text \<open>
  A share between 0 and 100 per cent: a turn ends with the first reading of the clock that is late enough, if there is one, and is followed by a sleep
  for the rest of the interval.
\<close>

lemma half_turn_ends:
  assumes "0 \<le> cpuinfo" "cpuinfo \<le> 100" "\<And>j. clock_time (clk j)" "\<exists>m\<ge>Suc j. cpuinfo < ms_at clk m - ms_at clk j"
  shows "\<exists>m>j. half_turn cpuinfo clk j = Some (Suc m, (100 - cpuinfo) * 1000) \<and> cpuinfo < ms_at clk m - ms_at clk j"
proof -
  obtain busy idle where h: "half_times cpuinfo = Some (busy, idle)" "busy + idle = INTERVAL" "busy = cpuinfo"
    using half_times_sum [OF assms(1,2)] by blast
  note tick = tick_at [of clk j, OF assms(3)]
  obtain m where m: "m \<ge> Suc j" "busy_loop clk (ms_at clk j) busy (Suc j) = Some (Suc m)" "busy < ms_at clk m - ms_at clk j"
    using busy_loop_ends [of clk "ms_at clk j" "Suc j" busy, OF assms(3)] tick assms(4) h(3) by blast
  have "cint (idle * 1000) = Some ((100 - cpuinfo) * 1000)"
    using h(2,3) assms(1,2) by (auto simp: cint_def int_ok_def int_limits INTERVAL_def)
  then show ?thesis using h(1,3) m tick by (auto simp: half_turn_def)
qed

lemma half_turn_sleep:
  "0 \<le> cpuinfo \<Longrightarrow> cpuinfo \<le> 100 \<Longrightarrow> half_turn cpuinfo clk j = Some (j', us) \<Longrightarrow> us = (100 - cpuinfo) * 1000"
  using half_times_sum [of cpuinfo] by (auto simp: half_turn_def cint_simps INTERVAL_def split: Option.bind_splits)

lemma forced_occupancy_half_sleeps:
  assumes "0 \<le> cpuinfo" "cpuinfo \<le> 100" "forced_occupancy_half allowed cpuinfo clk turns cid affinity = Some (cpus, j, sleeps)"
  shows "cpus = set_cpu allowed cid affinity \<and> sleeps = replicate turns ((100 - cpuinfo) * 1000)"
proof -
  have "half_turns cpuinfo clk turns i = Some (j, sleeps) \<Longrightarrow> sleeps = replicate turns ((100 - cpuinfo) * 1000)" for i
    by (induction turns arbitrary: i sleeps) (auto dest!: half_turn_sleep [OF assms(1,2)] split: Option.bind_splits)
  then show ?thesis using assms(3) by (auto simp: forced_occupancy_half_def split: Option.bind_splits)
qed


section \<open>The adjustment\<close>

text \<open>
  The base time, the last difference and whether the base time is still to grow quickly. The difference of the rates is a \<open>double\<close>, of
  which \<open>abs\<close> gets the part before the point; a left shift that overflows is undefined.
\<close>

record adjustment =
  ad_base :: int
  ad_last :: int
  ad_quick :: int

definition actual_rate :: "(real \<Rightarrow> real) \<Rightarrow> int \<Rightarrow> int \<Rightarrow> real option" where
  "actual_rate rnd didle dtotal = do {
     p \<leftarrow> clong (didle * 100);
     (if dtotal = 0 then None else do { q \<leftarrow> clong (p sdiv dtotal); r \<leftarrow> clong (100 - q); Some (rnd (real_of_int r)) }) }"

definition adjust_round :: "(real \<Rightarrow> real) \<Rightarrow> real \<Rightarrow> int \<Rightarrow> int \<Rightarrow> adjustment \<Rightarrow> adjustment option" where
  "adjust_round rnd request_rate didle dtotal a = do {
     actual \<leftarrow> actual_rate rnd didle dtotal;
     d \<leftarrow> cint (trunc (rnd (request_rate - actual)));
     diff_value \<leftarrow> cint \<bar>d\<bar>;
     a \<leftarrow> (if 1 < diff_value then do {
         let a = (if ad_last a < diff_value
           then a\<lparr>ad_base := (if ad_quick a \<noteq> 0 then drop_bit 2 (ad_base a) else ad_base a), ad_quick := 0\<rparr> else a);
         base \<leftarrow> (if ad_quick a \<noteq> 0 then (if ad_base a < 0 then None else clong (ad_base a * 4)) else clong (ad_base a + 1));
         Some (a\<lparr>ad_base := base\<rparr>) }
       else Some a);
     Some (a\<lparr>ad_last := diff_value\<rparr>) }"

text \<open>
  The base time stays when the rate is met to within the precision of one per cent. After the step back it only grows, by one
  at a time: a base time that is too long is never corrected.
\<close>

lemma adjust_round_settled:
  assumes "adjust_round rnd request didle dtotal a = Some a'" "ad_last a' \<le> 1"
  shows "ad_base a' = ad_base a \<and> ad_quick a' = ad_quick a"
  using assms by (auto simp: adjust_round_def Let_def split: Option.bind_splits if_splits)

lemma adjust_round_slow:
  assumes "adjust_round rnd request didle dtotal a = Some a'" "ad_quick a = 0"
  shows "ad_quick a' = 0 \<and> (ad_base a' = ad_base a \<or> ad_base a' = ad_base a + 1)"
  using assms by (auto simp: adjust_round_def Let_def clong_def split: Option.bind_splits if_splits)

lemma adjust_round_quick:
  assumes "adjust_round rnd request didle dtotal a = Some a'" "ad_quick a \<noteq> 0" "1 < ad_last a'"
  shows "if ad_last a < ad_last a' then ad_quick a' = 0 \<and> ad_base a' = ad_base a div 4 + 1 else ad_base a' = 4 * ad_base a"
  using assms
  by (auto simp: adjust_round_def Let_def clong_def drop_bit_eq_div split: Option.bind_splits if_splits)

end
