(* ===== verification/Algo_Hmac.thy ===== *)
theory Algo_Hmac
  imports C_Strings
begin

text \<open>
  \<^verbatim>\<open>algorithm/algo_hmac.c\<close>: the keyed hash of a string, printed in hexadecimal. The hash functions are those
  of OpenSSL and an argument of the model, \<open>digest engine key input\<close>; what the code needs of them, the
  lengths of their results, is stated where it is used. A C string is the list of its characters
  before the terminating NUL, and \<^const>\<open>None\<close> for a null pointer. Undefined behaviour is \<^const>\<open>None\<close>.
\<close>

section \<open>The code\<close>

record algo_hmac =
  algo :: "string option"
  key :: "string option"
  input :: "string option"

datatype engine = EVP_sha512 | EVP_sha256 | EVP_sha1 | EVP_md5 | EVP_sha224 | EVP_sha384 | EVP_sha

text \<open>\<open>strcasecmp\<close> in the C locale, compared with 0.\<close>

definition tolower :: "char \<Rightarrow> char" where
  "tolower c = (if 65 \<le> (of_char c :: nat) \<and> (of_char c :: nat) \<le> 90 then char_of ((of_char c :: nat) + 32) else c)"

definition strcasecmp_eq :: "string \<Rightarrow> string \<Rightarrow> bool" where
  "strcasecmp_eq s t \<longleftrightarrow> map tolower s = map tolower t"

definition engine_of :: "string \<Rightarrow> engine option" where
  "engine_of name =
     (if strcasecmp_eq ''sha512'' name then Some EVP_sha512
      else if strcasecmp_eq ''sha256'' name then Some EVP_sha256
      else if strcasecmp_eq ''sha1'' name then Some EVP_sha1
      else if strcasecmp_eq ''md5'' name then Some EVP_md5
      else if strcasecmp_eq ''sha224'' name then Some EVP_sha224
      else if strcasecmp_eq ''sha384'' name then Some EVP_sha384
      else if strcasecmp_eq ''sha'' name then Some EVP_sha
      else None)"

definition EVP_MAX_MD_SIZE :: nat where
  "EVP_MAX_MD_SIZE = 64"

text \<open>\<open>strdup\<close> reads up to the first NUL, which must exist.\<close>

definition strdup :: "string \<Rightarrow> string option" where
  "strdup arr = (if NUL \<in> set arr then Some (c_string arr) else None)"

function hex_loop :: "u8 list \<Rightarrow> nat \<Rightarrow> string \<Rightarrow> string option" where
  "hex_loop out i mdstr =
     (if i < length out
      then do { mdstr \<leftarrow> strcpy_at mdstr (i * 2) (print_hex2 (unat (out ! i))); hex_loop out (i + 1) mdstr }
      else Some mdstr)"
  by pat_completeness auto
termination by (relation "measure (\<lambda>(out, i, mdstr). length out - i)") auto

declare hex_loop.simps [simp del]

text \<open>
  \<open>malloc n\<close> is the contents of a new block of \<open>n\<close> bytes, if there is one; \<open>dup\<close> tells whether \<open>strdup\<close> gets
  memory. The result is the returned int with the new value of \<open>*result\<close>, if it is set.
\<close>

definition hmac_encode ::
  "(engine \<Rightarrow> string \<Rightarrow> string \<Rightarrow> u8 list) \<Rightarrow> (nat \<Rightarrow> string option) \<Rightarrow> bool \<Rightarrow> algo_hmac option \<Rightarrow> bool \<Rightarrow>
     (int \<times> string option option) option" where
  "hmac_encode digest malloc dup hmac result_given =
     (case Option.bind hmac (\<lambda>h. Option.bind (algo h) (\<lambda>a. Option.bind (key h) (\<lambda>k. Option.bind (input h) (\<lambda>s. Some (a, k, s))))) of
        None \<Rightarrow> Some (- 1, None)
      | Some (a, k, s) \<Rightarrow>
          if \<not> result_given then Some (- 1, None)
          else (case engine_of a of
              None \<Rightarrow> Some (- 1, None)
            | Some e \<Rightarrow> do {
                output \<leftarrow> malloc EVP_MAX_MD_SIZE;
                mdstr \<leftarrow> malloc (EVP_MAX_MD_SIZE * 2);
                let out = digest e k s;
                (if length output < length out then None
                 else do {
                   mdstr \<leftarrow> hex_loop out 0 mdstr;
                   r \<leftarrow> strdup mdstr;
                   Some (0, Some (if dup then Some r else None)) }) }))"


section \<open>The loop\<close>

lemma digit_char_not_NUL:
  assumes "d < 16"
  shows "digit_char d \<noteq> NUL"
proof
  assume "digit_char d = NUL"
  then have "(of_char (digit_char d) :: nat) = of_char NUL" by simp
  then show False using assms by (simp add: NUL_def digit_char_def split: if_splits)
qed

lemma print_hex2_no_NUL: "n < 256 \<Longrightarrow> NUL \<notin> set (print_hex2 n)"
  using digit_char_not_NUL [of "n div 16"] digit_char_not_NUL [of "n mod 16"] by (auto simp: print_hex2_byte less_mult_imp_div_less)

lemma print_hex2_length: "n < 256 \<Longrightarrow> length (print_hex2 n) = 2"
  by (simp add: print_hex2_byte)

lemma unat_u8: "unat (b :: u8) < 256"
  using unsigned_less [of b, where 'a = nat] by simp

definition hex_of :: "u8 list \<Rightarrow> string" where
  "hex_of bs = concat (map print_hex2 (map unat bs))"

lemma hex_of_snoc: "hex_of (bs @ [b]) = hex_of bs @ print_hex2 (unat b)"
  by (simp add: hex_of_def)

lemma hex_of_length: "length (hex_of bs) = 2 * length bs"
  using length_hex_print [of "map unat bs"] unat_u8 by (simp add: hex_of_def)

lemma hex_of_no_NUL: "NUL \<notin> set (hex_of bs)"
  using print_hex2_no_NUL [OF unat_u8] by (auto simp: hex_of_def)

text \<open>After \<open>i\<close> rounds the array holds the digits of \<open>i\<close> bytes, a NUL (from the first round on) and what it held before.\<close>

lemma hex_loop_prints:
  assumes "i \<le> length out" "length arr = 128" "2 * length out < 128"
    and "take (2 * i) arr = hex_of (take i out)" "0 < i \<Longrightarrow> arr ! (2 * i) = NUL"
  shows "\<exists>arr'. hex_loop out i arr = Some arr' \<and> length arr' = 128 \<and> take (2 * length out) arr' = hex_of out \<and>
    (0 < length out \<longrightarrow> arr' ! (2 * length out) = NUL)"
  using assms
proof (induction "length out - i" arbitrary: i arr)
  case 0
  then show ?case by (subst hex_loop.simps) simp
next
  case (Suc d)
  let ?s = "print_hex2 (unat (out ! i))"
  let ?arr = "take (i * 2) arr @ ?s @ [NUL] @ drop (i * 2 + length ?s + 1) arr"
  have s: "length ?s = 2" by (rule print_hex2_length [OF unat_u8])
  have i: "i < length out" using Suc.hyps(2) by simp
  then have "strcpy_at arr (i * 2) ?s = Some ?arr"
    using Suc.prems(2,3) s unfolding strcpy_at_def by simp
  then have step: "hex_loop out i arr = hex_loop out (i + 1) ?arr" using i by (subst hex_loop.simps) simp
  have "take (2 * (i + 1)) ?arr = take (2 * i) arr @ ?s" using Suc.prems(2,3) i s by (simp add: mult.commute)
  also have "\<dots> = hex_of (take (i + 1) out)" using Suc.prems(4) i by (simp add: take_Suc_conv_app_nth hex_of_snoc)
  finally have 1: "take (2 * (i + 1)) ?arr = hex_of (take (i + 1) out)" .
  have 2: "?arr ! (2 * (i + 1)) = NUL" "length ?arr = 128"
    using Suc.prems(2,3) i s by (simp_all add: nth_append)
  show ?case unfolding step using Suc.hyps i Suc.prems(3) 1 2 by (intro Suc.hyps(1)) simp_all
qed

lemma strdup_take:
  assumes "n < length arr" "arr ! n = NUL" "NUL \<notin> set (take n arr)"
  shows "strdup arr = Some (take n arr)"
proof -
  have "arr = take n arr @ NUL # drop (Suc n) arr" using id_take_nth_drop [OF assms(1)] assms(2) by simp
  then have "c_string arr = take n arr" using c_string_append [OF assms(3), of "NUL # drop (Suc n) arr"] by simp
  moreover have "NUL \<in> set arr" using nth_mem [OF assms(1)] assms(2) by simp
  ultimately show ?thesis by (simp add: strdup_def)
qed

lemma hex_loop_overflows:
  assumes "length out = 64" "length arr = 128" "i < 64"
  shows "hex_loop out i arr = None"
  using assms(3,2)
proof (induction "63 - i" arbitrary: i arr)
  case 0
  then have "i = 63" by simp
  then show ?case using assms(1) 0(3) print_hex2_length [OF unat_u8, of "out ! 63"]
    by (subst hex_loop.simps) (simp add: strcpy_at_def)
next
  case (Suc d)
  then have "hex_loop out (i + 1) a = None" if "length a = 128" for a
    using that by (intro Suc.hyps(1)) simp_all
  then show ?case
    using assms(1) Suc.prems print_hex2_length [OF unat_u8, of "out ! i"]
    by (subst hex_loop.simps) (auto simp: strcpy_at_def)
qed

text \<open>The lengths of the digests, as the standards fix them.\<close>

fun digest_length :: "engine \<Rightarrow> nat" where
  "digest_length EVP_sha512 = 64"
| "digest_length EVP_sha256 = 32"
| "digest_length EVP_sha1 = 20"
| "digest_length EVP_md5 = 16"
| "digest_length EVP_sha224 = 28"
| "digest_length EVP_sha384 = 48"
| "digest_length EVP_sha = 20"

lemma digest_length_less: "e \<noteq> EVP_sha512 \<Longrightarrow> 0 < digest_length e \<and> digest_length e < 64"
  by (cases e) simp_all

definition memory :: "nat \<Rightarrow> string option" where
  "memory n = Some (replicate n (CHR ''x''))"

definition demo_digest :: "engine \<Rightarrow> string \<Rightarrow> string \<Rightarrow> u8 list" where
  "demo_digest e k s = replicate (digest_length e) (of_nat (length k + length s))"

definition demo_hmac :: "string \<Rightarrow> algo_hmac" where
  "demo_hmac a = \<lparr>algo = Some a, key = Some ''key'', input = Some ''message''\<rparr>"


section \<open>Properties\<close>

text \<open>
  C37: The printed digest. For every algorithm but SHA-512, given in any case of letters, with memory available and
  digests of their standard lengths, \<open>hmac_encode\<close> returns 0 and a string of hexadecimal digits
  which read back as the bytes of the digest, no matter what the fresh memory contains.
\<close>

theorem hmac_encode_prints_digest:
  assumes "algo h = Some a" and "key h = Some k" and "input h = Some s" and "engine_of a = Some e" and "e \<noteq> EVP_sha512"
    and "length (digest e k s) = digest_length e" and "\<forall>n. \<exists>b. malloc n = Some b \<and> length b = n"
  shows "\<exists>r. hmac_encode digest malloc True (Some h) True = Some (0, Some (Some r)) \<and>
    read_hex r = Some (map unat (digest e k s))"
proof -
  let ?out = "digest e k s"
  obtain b arr where m: "malloc EVP_MAX_MD_SIZE = Some b" "length b = 64" "malloc (EVP_MAX_MD_SIZE * 2) = Some arr" "length arr = 128"
    using assms(7) [THEN spec, of 64] assms(7) [THEN spec, of 128] by (auto simp: EVP_MAX_MD_SIZE_def)
  have n: "0 < length ?out" "length ?out < 64" using digest_length_less [OF assms(5)] assms(6) by simp_all
  obtain arr' where r: "hex_loop ?out 0 arr = Some arr'" "length arr' = 128" "take (2 * length ?out) arr' = hex_of ?out"
      "arr' ! (2 * length ?out) = NUL"
    using hex_loop_prints [of 0 ?out arr] m(4) n by (auto simp: hex_of_def)
  have "strdup arr' = Some (hex_of ?out)"
    using strdup_take [of "2 * length ?out" arr'] r(2,3,4) n hex_of_no_NUL [of ?out] by simp
  then have "hmac_encode digest malloc True (Some h) True = Some (0, Some (Some (hex_of ?out)))"
    using assms(1-4) m r(1) n by (simp add: hmac_encode_def Let_def)
  moreover have "read_hex (hex_of ?out) = Some (map unat ?out)"
    unfolding hex_of_def using unat_u8 by (intro read_hex_print) simp
  ultimately show ?thesis by blast
qed

theorem hmac_encode_prints_digest_witness:
  "\<exists>r. hmac_encode demo_digest memory True (Some (demo_hmac ''Md5'')) True = Some (0, Some (Some r)) \<and> read_hex r = Some (replicate 16 10)"
proof -
  have "engine_of ''Md5'' = Some EVP_md5" by code_simp
  then show ?thesis
    using hmac_encode_prints_digest [of "demo_hmac ''Md5''" "''Md5''" "''key''" "''message''" EVP_md5 demo_digest memory]
    by (simp add: demo_hmac_def demo_digest_def memory_def)
qed

text \<open>
  SHA-512. Its digest has 64 bytes, the NUL behind the 128 digits does not fit into the 128 bytes of \<open>mdstr\<close>,
  and every call with this algorithm writes one byte past the end of the block.
\<close>

theorem hmac_encode_sha512_overflow:
  assumes "algo h = Some a" and "key h = Some k" and "input h = Some s" and "engine_of a = Some EVP_sha512"
    and "length (digest EVP_sha512 k s) = 64" and "\<forall>n. \<exists>b. malloc n = Some b \<and> length b = n"
  shows "hmac_encode digest malloc dup (Some h) True = None"
proof -
  obtain b arr where m: "malloc EVP_MAX_MD_SIZE = Some b" "malloc (EVP_MAX_MD_SIZE * 2) = Some arr" "length arr = 128"
    using assms(6) [THEN spec, of 64] assms(6) [THEN spec, of 128] by (auto simp: EVP_MAX_MD_SIZE_def)
  then show ?thesis
    using hex_loop_overflows [OF assms(5) m(3), of 0] assms(1-4) by (simp add: hmac_encode_def Let_def)
qed

theorem hmac_encode_sha512_overflow_witness:
  "hmac_encode demo_digest memory True (Some (demo_hmac ''sha512'')) True = None"
proof -
  have "engine_of ''sha512'' = Some EVP_sha512" by (simp add: engine_of_def strcasecmp_eq_def)
  then show ?thesis
    using hmac_encode_sha512_overflow [of "demo_hmac ''sha512''" "''sha512''" "''key''" "''message''" demo_digest memory True]
    by (simp add: demo_hmac_def demo_digest_def memory_def)
qed

text \<open>A missing argument and an unknown algorithm are errors.\<close>

lemma hmac_encode_refuses:
  "hmac_encode digest malloc dup None given = Some (- 1, None)"
  "algo h = None \<or> key h = None \<or> input h = None \<Longrightarrow> hmac_encode digest malloc dup (Some h) given = Some (- 1, None)"
  "algo h = Some a \<Longrightarrow> key h = Some k \<Longrightarrow> input h = Some s \<Longrightarrow> engine_of a = None \<or> \<not> given \<Longrightarrow>
     hmac_encode digest malloc dup (Some h) given = Some (- 1, None)"
  by (auto simp: hmac_encode_def split: Option.bind_splits option.splits)

end
