(* ===== verification/Spec2Isabelle.thy ===== *)
theory Spec2Isabelle
  imports Klist_Entry Pool_List_Client Fifo_Threads Singly_List Crc32 Sunday Packet_Buffer Stats Image_Split Glb_Hsm
    Serial_Test I2c_Bypass Gpio_Irq Ipc_Test_Runs Ipc_Mutex_Steps Shm_Mutex_Steps Shm_Rwlock File_Utils Image_File
    Heartbeat Io_Backend Common_Macro Basic_Task Cpu_Adjust Algo_Hmac
begin

text \<open>
  \<^bold>\<open>A verification of the GeneralPurposeLibrary, a C library of general-purpose components for Linux.\<close>

  The library has no main program. Its parts are used one by one, and a few build on each other:
  the fifo on the list of \<^verbatim>\<open>list.h\<close>, the pool on the list of \<^verbatim>\<open>klist.h\<close>, the sniffer framework on that list and on the thread model,
  the two shared-memory locks on memory-mapped files and robust mutexes, the locks of
  \<^verbatim>\<open>ipc_competition\<close> on directory creation and behind one table of operations, the statistics on the macros
  \<open>MIN\<close> and \<open>MAX\<close>, GPIO control and GPIO interrupts on the GPIO base functions; some programs put them together: the lock tests, a sender and a sniffer of
  heartbeats, a reader of sensor registers, a sender of the time. The theories follow these dependencies;
  what spans a mapped file and the lock in it stands at the end of this one.

  \<^bold>\<open>Conventions.\<close> A function that can run into undefined behaviour (an access outside an object or to a
  freed one, signed overflow, use of an indeterminate value, a failed assertion) has a result of
  an option type, and \<^const>\<open>None\<close> is that behaviour; for the locking calls it also stands for a call that
  waits. Where processes run at the same time in single steps, undefined behaviour is a state of its own, and \<^const>\<open>None\<close> is waiting. An error the code reports is an ordinary value, mostly -1. Integers whose wrap-around
  matters are words, a signed \<open>int\<close> that must not overflow goes through \<open>cint\<close>, a \<open>long\<close> through \<open>clong\<close>. A loop that ends
  by a measure is a \<open>function\<close> with its termination proof. A loop along pointers, which
  need not end in an arbitrary memory, is a \<open>partial_function\<close> whose value is \<^const>\<open>None\<close> when it does not end; the
  theorems about it state that it has a value. An endless loop of a program is taken for a number of rounds, and
  its theorems hold for every number, or say that some number of rounds is enough; no other fuel is used. Results of system calls, of the allocator and of
  libraries are arguments of the definitions that use them; what is assumed of them stands in the
  theorems. Doubles are real numbers with a rounding after every operation. Logging and printing is left out unless it is all a function does.

  \<^bold>\<open>Shared theories.\<close>
  \<^item> \<open>C_Prelude\<close>: integers in range, arrays with bounds, words. \<open>C_Strings\<close>: digits, printing and
    scanning of numbers, strings in buffers, lines.
  \<^item> \<open>List_Heap\<close>: a memory of list nodes and the predicate \<open>dlist\<close>, a ring of nodes around a head.

  \<^bold>\<open>Containers.\<close>
  \<^item> \<open>Utils_List\<close> (\<^verbatim>\<open>linux/utils/include/list.h\<close>) and \<open>Klist\<close> (\<^verbatim>\<open>list/klist.h\<close>): every operation on
    that memory. The locale \<open>intrusive_list\<close> states the contract of insertion, deletion and the test for
    emptiness; both headers are interpretations of it. Moving, splicing and iteration are shown to be the
    operations on lists of addresses, and the headers are compared. \<open>Klist_Entry\<close> has the loops of \<^verbatim>\<open>klist.h\<close> over the structs
    around the nodes and those that allow the current entry to be deleted.
  \<^item> \<open>Pool_List\<close> and \<open>Pool_List_Client\<close> (\<^verbatim>\<open>list/pool_list.c\<close>): elements carved out of blocks, on a free and an available list.
    Every operation keeps the invariant of the pool; in every run of its operations the memory of different elements is
    disjoint, and a limit bounds the number of blocks, if the counter of blocks starts at 0, which nothing sees to.
  \<^item> \<open>Real_Time_Fifo\<close> (\<^verbatim>\<open>real_time_fifo.c\<close>): mutex, counters, list and the release callback. Any
    sequence of puts and gets refines an unbounded queue, so the size limit is never enforced. \<open>Fifo_Threads\<close> has put and get in steps, which alone
    are the operations; with two threads a node can be lost, because put links it without the mutex.
  \<^item> \<open>Singly_List\<close> (\<^verbatim>\<open>singly_linked_list.h\<close>, \<^verbatim>\<open>.c\<close>): a list with a pointer to its last link, over a
    memory with \<open>malloc\<close> and \<open>free\<close>; adding, deleting in the middle, and the undefined deletion of the
    last node.

  \<^bold>\<open>Algorithms and data.\<close>
  \<^item> \<open>Crc32\<close> (\<^verbatim>\<open>crc32.c\<close>): the table-driven checksums equal polynomial division; burst errors are
    detected; incremental use. \<open>Sunday\<close> (\<^verbatim>\<open>SundayMatch.c\<close>): both searches find the first occurrence.
  \<^item> \<open>Packet_Buffer\<close>, \<open>Stats\<close>, \<open>Image_Split\<close>, \<open>Image_File\<close> (files of the same names): reassembly of packets
    in any chunking, running statistics with their rounding, tiles of an image, frames with strides.
  \<^item> \<open>Algo_Hmac\<close> (\<^verbatim>\<open>algo_hmac.c\<close>): the printed digest, with OpenSSL as a parameter.
  \<^item> \<open>Glb_Hsm\<close> (\<^verbatim>\<open>linux/glb_hsm\<close>): the hierarchical state machine with handlers as a table; start-up,
    dispatch and transitions, and the three demo states.

  \<^bold>\<open>Processes and threads.\<close>
  \<^item> \<open>Ipc_Lock\<close> states the contract of \<^verbatim>\<open>ipc_test_common.h\<close> as the locale \<open>ipc_lock\<close>: runs of processes that lock and unlock,
    mutual exclusion, and that some call can always go on; \<open>robust_lock\<close> extends it by processes that die. \<open>Ipc_Flock\<close>, \<open>Ipc_Mutex\<close> and
    \<open>Ipc_Semsv\<close> interpret both for file locks, robust mutexes and System V semaphores, over models of the kernel's
    state; \<open>Shm_Mutex\<close> (\<^verbatim>\<open>shm_mutex.c\<close>) interprets the first. \<open>Robust_Mutex\<close> holds the POSIX mutex they share, and \<open>File_Mkdir\<close>
    the creation of directories.
  \<^item> \<open>Interleave\<close>: processes that run at the same time, in steps of one statement or one access to shared memory, and the locale \<open>stepwise\<close> for what every step keeps.
    \<open>Ipc_Mutex_Steps\<close>, \<open>Shm_Mutex_Steps\<close> and \<open>Shm_Rwlock\<close> take \<^verbatim>\<open>ipc_mutex.c\<close>, \<^verbatim>\<open>shm_mutex.c\<close> and \<^verbatim>\<open>shm_rw_lock.c\<close> apart in this way. Exclusion, the absence of undefined
    behaviour and the exact condition for waiting hold in every interleaving once the first creation is over, with processes that end at any statement; creations that overlap, and counts
    that are read by two processes at once, break the locks, which is shown by schedules.
  \<^item> \<open>Ipc_Mutex_Life\<close>: the whole life of the robust mutex, with creation, destruction and crashes, when calls do not overlap: its user count then never lets it go
    while it is in use. \<open>Ipc_Test\<close>: the two test programs (\<^verbatim>\<open>ipc_test_host.c\<close>, \<^verbatim>\<open>ipc_test_slave.c\<close>) as lists of calls through the table
    of functions, and the locale \<open>tested_lock\<close>, under which the programs refine an abstract lock. \<open>Ipc_Test_Spec\<close>
    examines the programs on the abstract lock for every schedule; \<open>Ipc_Test_Runs\<close> interprets the locale for the three
    tables and transfers the results: exclusion, that both programs end with file locks, and where the slave waits for ever. A call of a lock is one step
    in these runs.
  \<^item> \<open>Mmap_File\<close> (\<^verbatim>\<open>mmap_file.c\<close>): mapped files.
  \<^item> \<open>Pthread_Model\<close> (\<^verbatim>\<open>pthread_model.c\<close>): a thread in steps of its own under any schedule; it stops in time, but
    a model from the heap is freed too early. \<open>Sniffer_Framework\<close> (\<^verbatim>\<open>sniffer_framework.c\<close>): the filters a
    received frame triggers. \<open>Basic_Task\<close> (\<^verbatim>\<open>basic_task.c\<close>): the threads of tasks.

  \<^bold>\<open>Devices, files and the network.\<close>
  \<^item> \<open>Serial\<close>, \<open>I2c_Ctrl\<close>, \<open>Gpio\<close> (\<^verbatim>\<open>basic_serial.c\<close>, \<^verbatim>\<open>i2c_ctrl.c\<close>, \<^verbatim>\<open>gpio_base.c\<close>,
    \<^verbatim>\<open>gpio_ctrl.c\<close>): settings of a terminal, registers of bus devices, lines behind the files of sysfs. \<open>Gpio_Irq\<close>
    (\<^verbatim>\<open>gpio_irq.c\<close>): a line watched for edges, whose callback is never told the level.
  \<^item> \<open>Io_Backend\<close> (\<^verbatim>\<open>io_backend_epoll.c\<close>): the event loop over a model of \<open>epoll\<close> in which a descriptor triggers as it was registered and every call may fail. Its tables stay well-formed; and the
    loop either goes on, in which case no connection is forgotten and no news of a connection is lost, or a call has failed and the program has exited.
  \<^item> \<open>Serial_Test\<close> (\<^verbatim>\<open>test_basic_serial.c\<close>): the frames with the time that a program sends over the serial port read back, and a wrong byte
    is noticed. \<open>I2c_Bypass\<close> (\<^verbatim>\<open>sc132_xchip_reg.c\<close>): two ways to read a sensor behind a bridge make the same transfers.
  \<^item> \<open>Heartbeat\<close> (\<^verbatim>\<open>udp_test.c\<close>, \<^verbatim>\<open>sniffer_test.c\<close>): what the first program sends with the UDP client is what the second one finds with the sniffer
    framework. \<open>Common_Macro\<close> (\<^verbatim>\<open>common_macro.h\<close>): setting and clearing bits.
  \<^item> \<open>File_Utils\<close> (\<^verbatim>\<open>file_utils.c\<close>, \<^verbatim>\<open>file_library.c\<close>), \<open>Sockets\<close> (\<^verbatim>\<open>udp_client.c\<close>,
    \<^verbatim>\<open>net_utils.c\<close>), \<open>Sniffer\<close> (\<^verbatim>\<open>sniffer.c\<close>), \<open>Time_Utils\<close> (\<^verbatim>\<open>time_utils.c\<close>, \<^verbatim>\<open>.h\<close>), \<open>Cpu_Usage\<close> and
    \<open>Cpu_Load\<close> (\<^verbatim>\<open>cpu_usage.c\<close>): the readings of \<^verbatim>\<open>/proc/stat\<close>, and the load generator with the rounding of its arithmetic;
    \<open>Cpu_Adjust\<close> has the parts of that file that are compiled out.

  \<^bold>\<open>Bounds.\<close> The numbers in the theorems are the code's: paths of the state machine have four entries, names of
    locks 128 bytes, a frame 1536 bytes, a report of \<open>epoll\<close> ten events, a keep-alive command 256 bytes, a line of \<^verbatim>\<open>/proc/stat\<close> 127 characters.

  \<^bold>\<open>Supplied declarations.\<close> \<^verbatim>\<open>pool_list.c\<close> and \<^verbatim>\<open>gpio_irq.c\<close> do not compile: they use names that they do not declare, and \<^verbatim>\<open>io_backend_epoll.c\<close>
    has statements outside of functions. There is only one thing each name can mean, and the theories say which; the statements are taken as the body of a program; everything else is translated as it stands.

  \<^bold>\<open>Not modelled.\<close>
  \<^item> The second copy of \<^verbatim>\<open>glb_hsm.c\<close> uses types, macros and functions that exist nowhere, so what they would do is not known; the I/O back ends
    other than \<open>epoll\<close> are empty files, and what \<^verbatim>\<open>io_backend.h\<close> declares is defined nowhere.
  \<^item> \<open>serial_read\<close> and \<open>serial_write\<close> only call \<open>read\<close> and \<open>write\<close>. The other test programs (of GPIO, tasks, statistics, the thread model, the singly
    linked list and the state machine) are fixed sequences of modelled calls; \<^verbatim>\<open>memmap_test.c\<close> tests functions that are not there.
  \<^item> Memory is sequentially consistent: an access to it is one step, and takes effect at once for all processes.
\<close>

section \<open>Mapped files and the lock in them\<close>

lemma shm_new_good:
  assumes "Mmap_File.env_ok e"
  shows "shm_good e skey 1 \<lparr>sc_pc = (\<lambda>_. S_Idle)(p := S_Out), sc_files = w(shm_file e skey \<mapsto> \<lparr>mf_len = sizeof_shm_mutex, mf_data = shm_new skey\<rparr>)\<rparr>"
  using assms by (simp add: shm_good_def map_get_def shm_new_def mutex_agrees_def)

text \<open>
  C21: The shared mutex from scratch. One process allocates the mutex under a key whose file below \<^verbatim>\<open>/tmp\<close> does not exist yet, and does so before any other process
  starts. From then on, any number of processes allocate, lock, unlock, give back and end as they please, at any statement, in every interleaving of their single steps
  and reads and writes of the shared counters: at most one of them has the mutex, none runs into undefined behaviour, and a process waits exactly when it is in its lock call
  and another one has the mutex or is about to make it consistent after its owner ended.
\<close>

theorem shm_mutex_from_scratch:
  assumes "Mmap_File.env_ok e" and "w (shm_file e skey) = None"
    and "run_steps (shm_step e skey) (replicate 10 (first, Act_Next) @ sched) (shm_start w) = Some c" and "length sched < 2147483647"
  shows "(\<forall>p q. shm_owns (sc_pc c p) \<and> shm_owns (sc_pc c q) \<longrightarrow> p = q) \<and> (\<forall>p. sc_pc c p \<noteq> S_Undef) \<and>
    (\<forall>p a. shm_step e skey p a c = None \<longleftrightarrow>
      a \<noteq> Act_Exit \<and> sc_pc c p = L_Lock \<and> (\<exists>q. shm_owns (sc_pc c q) \<or> sc_pc c q = L_Consistent))"
proof -
  obtain c1 where c1: "shm_good e skey 1 c1" "run_steps (shm_step e skey) sched c1 = Some c"
    using that [OF shm_new_good [OF assms(1)]] assms(3) by (simp add: run_steps_append shm_alloc_alone(1) [of e w skey] assms(1,2))
  have good: "shm_good e skey (1 + length sched) c"
    using shm_steps.run_inv [OF c1(2), of 1] c1(1) assms(4) by (simp add: list_all_iff cint_simps)
  then have "shm_calm (sc_pc c p)" for p by (auto simp: shm_good_def)
  then have "sc_pc c p \<noteq> S_Undef" for p unfolding shm_calm_def by (metis insertCI)
  then show ?thesis using shm_one_owner [OF good] shm_waits_iff [OF good] by simp
qed

definition demo_mmap :: mmap_env where
  "demo_mmap = \<lparr>me_realpath = (\<lambda>_. None), me_open = True, me_ftruncate = True, me_mmap = True\<rparr>"

text \<open>Process 1 sets the mutex up and locks it; process 2 allocates it and waits in its lock call.\<close>

definition demo_shm_sched :: "(pid \<times> shm_act) list" where
  "demo_shm_sched = replicate 4 (1, Act_Next) @ replicate 6 (2, Act_Next)"

theorem shm_mutex_from_scratch_witness:
  "\<exists>c. run_steps (shm_step demo_mmap ''k'') (replicate 10 (1, Act_Next) @ demo_shm_sched) (shm_start Map.empty) = Some c \<and>
    shm_owns (sc_pc c 1) \<and> \<not> shm_owns (sc_pc c 2) \<and> shm_step demo_mmap ''k'' 2 Act_Next c = None"
proof -
  have ok: "Mmap_File.env_ok demo_mmap" by (simp add: Mmap_File.env_ok_def demo_mmap_def)
  have one: "cint 1 = Some 1" "cint 2 = Some 2" by (simp_all add: cint_simps)
  have reps: "replicate 4 x = [x, x, x, x]" "replicate 6 x = [x, x, x, x, x, x]" for x :: "pid \<times> shm_act" by (simp_all add: numeral_eq_Suc)
  obtain c where c: "run_steps (shm_step demo_mmap ''k'') (replicate 10 (1, Act_Next) @ demo_shm_sched) (shm_start Map.empty) = Some c"
    "sc_pc c 1 = S_In" "sc_pc c 2 = L_Lock"
    using ok one
    by (simp add: run_steps_append shm_alloc_alone(1) demo_shm_sched_def reps shm_step_defs Mmap_File.env_ok_def map_get_def map_put_def shm_new_def
        pthread_mutex_lock_def)
  show ?thesis
    using c shm_mutex_from_scratch [OF ok _ c(1)] by (intro exI [of _ c]) (simp add: demo_shm_sched_def, metis shm_owns_simps(18))
qed

end
